(* ===== verification/Prelude.thy ===== *)
theory Prelude
  imports Main "HOL-Library.Word"
begin

text \<open>
  Shared vocabulary of the development: the machine-integer types of the C++ sources, the
  splitting and joining of 16- and 32-bit values into bytes and words that every component
  performs (\<^verbatim>\<open>static_cast<uint8_t>(v >> 8)\<close>, \<^verbatim>\<open>(hi << 8) | lo\<close>, ...), and the lemma
  collections the component theories extend.
\<close>

unbundle bit_operations_syntax

type_synonym u8 = "8 word"
type_synonym u16 = "16 word"
type_synonym u32 = "32 word"
type_synonym u64 = "64 word"

named_theorems frame_simps "facts saying which parts of a state an operation leaves alone"
named_theorems tick_simps "facts about the cycles an operation consumes"
named_theorems wf_intros "preservation of the bus contract by the CPU's operations"

lemma unat8_less [simp]: "unat (x :: u8) < 256"
  using unsigned_less [of x, where ?'a = nat] by simp

lemma unat16_less [simp]: "unat (x :: u16) < 65536"
  using unsigned_less [of x, where ?'a = nat] by simp

lemma unat32_less [simp]: "unat (x :: u32) < 4294967296"
  using unsigned_less [of x, where ?'a = nat] by simp

lemma unat_ucast_8_16 [simp]: "unat (ucast (x :: u8) :: u16) = unat x"
  using unat8_less [of x] by (simp add: unsigned_ucast_eq take_bit_nat_eq_self del: unat8_less)

lemma unat_ucast_8_32 [simp]: "unat (ucast (x :: u8) :: u32) = unat x"
  using unat8_less [of x] by (simp add: unsigned_ucast_eq take_bit_nat_eq_self del: unat8_less)

lemma unat_ucast_16_32 [simp]: "unat (ucast (x :: u16) :: u32) = unat x"
  using unat16_less [of x] by (simp add: unsigned_ucast_eq take_bit_nat_eq_self del: unat16_less)

section \<open>Bytes of a word\<close>

definition hi8 :: "u16 \<Rightarrow> u8" where
  "hi8 v = ucast (drop_bit 8 v)"

definition lo8 :: "u16 \<Rightarrow> u8" where
  "lo8 v = ucast (v AND 0xFF)"

definition mk16 :: "u8 \<Rightarrow> u8 \<Rightarrow> u16" where
  "mk16 h l = push_bit 8 (ucast h) OR ucast l"

definition hi16 :: "u32 \<Rightarrow> u16" where
  "hi16 v = ucast (drop_bit 16 v)"

definition lo16 :: "u32 \<Rightarrow> u16" where
  "lo16 v = ucast (v AND 0xFFFF)"

definition mk32 :: "u16 \<Rightarrow> u16 \<Rightarrow> u32" where
  "mk32 h l = push_bit 16 (ucast h) OR ucast l"

text \<open>Sign extension of a byte to 16 bits: \<^verbatim>\<open>static_cast<int8_t>\<close> followed by an addition to a
  \<^verbatim>\<open>uint16_t\<close>.\<close>

definition sext8 :: "u8 \<Rightarrow> u16" where
  "sext8 v = scast v"

lemma FF_eq_mask: "(0xFF :: 'a::len word) = mask 8"
  by (simp add: mask_eq_exp_minus_1)

lemma FFFF_eq_mask: "(0xFFFF :: 'a::len word) = mask 16"
  by (simp add: mask_eq_exp_minus_1)

lemma word8_bit_bound: "bit (x :: u8) n \<Longrightarrow> n < 8"
  using bit_imp_le_length [of x n] by simp

lemma word16_bit_bound: "bit (x :: u16) n \<Longrightarrow> n < 16"
  using bit_imp_le_length [of x n] by simp

lemma bit_hi8: "bit (hi8 v) n \<longleftrightarrow> n < 8 \<and> bit v (n + 8)"
  by (auto simp: hi8_def bit_ucast_iff bit_drop_bit_eq ac_simps)

lemma bit_lo8: "bit (lo8 v) n \<longleftrightarrow> n < 8 \<and> bit v n"
  by (auto simp: lo8_def FF_eq_mask bit_ucast_iff bit_and_iff bit_mask_iff)

lemma bit_mk16: "bit (mk16 h l) n \<longleftrightarrow> n < 16 \<and> (if n < 8 then bit l n else bit h (n - 8))"
  by (auto simp: mk16_def bit_simps dest: bit_imp_le_length)

lemma hi8_mk16 [simp]: "hi8 (mk16 h l) = h"
  by (rule bit_eqI) (auto simp: bit_hi8 bit_mk16)

lemma lo8_mk16 [simp]: "lo8 (mk16 h l) = l"
  by (rule bit_eqI) (auto simp: bit_lo8 bit_mk16)

lemma mk16_hi8_lo8 [simp]: "mk16 (hi8 v) (lo8 v) = v"
  by (rule bit_eqI) (auto simp: bit_mk16 bit_hi8 bit_lo8)

lemma bit_hi16: "bit (hi16 v) n \<longleftrightarrow> n < 16 \<and> bit v (n + 16)"
  by (auto simp: hi16_def bit_ucast_iff bit_drop_bit_eq ac_simps)

lemma bit_lo16: "bit (lo16 v) n \<longleftrightarrow> n < 16 \<and> bit v n"
  by (auto simp: lo16_def FFFF_eq_mask bit_ucast_iff bit_and_iff bit_mask_iff)

lemma bit_mk32: "bit (mk32 h l) n \<longleftrightarrow> n < 32 \<and> (if n < 16 then bit l n else bit h (n - 16))"
  by (auto simp: mk32_def bit_simps dest: bit_imp_le_length)

lemma hi16_mk32 [simp]: "hi16 (mk32 h l) = h"
  by (rule bit_eqI) (auto simp: bit_hi16 bit_mk32)

lemma lo16_mk32 [simp]: "lo16 (mk32 h l) = l"
  by (rule bit_eqI) (auto simp: bit_lo16 bit_mk32)

lemma mk32_hi16_lo16 [simp]: "mk32 (hi16 v) (lo16 v) = v"
  by (rule bit_eqI) (auto simp: bit_mk32 bit_hi16 bit_lo16)

lemma mk16_inject [simp]: "mk16 h l = mk16 h' l' \<longleftrightarrow> h = h' \<and> l = l'"
  by (metis hi8_mk16 lo8_mk16)

lemma mk32_inject [simp]: "mk32 h l = mk32 h' l' \<longleftrightarrow> h = h' \<and> l = l'"
  by (metis hi16_mk32 lo16_mk32)

lemma unat_mk16: "unat (mk16 h l) = unat h * 256 + unat l"
proof -
  have "push_bit 8 (ucast h :: u16) AND ucast l = 0"
    by (rule bit_eqI) (auto simp: bit_simps dest: bit_imp_le_length)
  then have "mk16 h l = push_bit 8 (ucast h) + ucast l"
    by (simp add: mk16_def disjunctive_add_eq_or)
  moreover have "unat (push_bit 8 (ucast h :: u16)) = unat h * 256"
    using unat8_less [of h]
    by (simp add: push_bit_eq_mult unat_word_ariths del: unat8_less)
  ultimately show ?thesis
    using unat8_less [of h] unat8_less [of l]
    by (simp add: unat_word_ariths del: unat8_less)
qed

lemma unat_mk32: "unat (mk32 h l) = unat h * 65536 + unat l"
proof -
  have "push_bit 16 (ucast h :: u32) AND ucast l = 0"
    by (rule bit_eqI) (auto simp: bit_simps dest: bit_imp_le_length)
  then have "mk32 h l = push_bit 16 (ucast h) + ucast l"
    by (simp add: mk32_def disjunctive_add_eq_or)
  moreover have "unat (push_bit 16 (ucast h :: u32)) = unat h * 65536"
    using unat16_less [of h] by (simp add: push_bit_eq_mult unat_word_ariths del: unat16_less)
  ultimately show ?thesis
    using unat16_less [of h] unat16_less [of l] by (simp add: unat_word_ariths del: unat16_less)
qed

section \<open>Signed and unsigned readings of a word\<close>

lemma uint8_bounds: "0 \<le> uint (x :: u8)" "uint (x :: u8) < 256"
  using unsigned_less [of x, where ?'a = int] by simp_all

lemma uint16_bounds: "0 \<le> uint (x :: u16)" "uint (x :: u16) < 65536"
  using unsigned_less [of x, where ?'a = int] by simp_all

lemma mod_once: "0 \<le> y \<Longrightarrow> y < 2 * m \<Longrightarrow> y mod m = (if m \<le> y then y - m else y)" for y m :: int
  using minus_mod_self2 [of y m] mod_pos_pos_trivial [of "y - m" m] mod_pos_pos_trivial [of y m] by auto

lemma mod_once_nat: "y < 2 * m \<Longrightarrow> y mod m = (if m \<le> y then y - m else y)" for y m :: nat
  by (auto simp: le_mod_geq)

lemma unat_and_15: "unat (x AND 0xF :: u8) = unat x mod 16"
proof -
  have "(0xF :: u8) = mask 4" by (simp add: mask_eq_exp_minus_1)
  then show ?thesis
    by (simp only: take_bit_eq_mask [symmetric] unsigned_take_bit_eq) (simp add: take_bit_eq_mod)
qed

lemma mod_once_neg: "- m \<le> y \<Longrightarrow> y < m \<Longrightarrow> y mod m = (if y < 0 then y + m else y)" for y m :: int
  using mod_add_self2 [of y m] mod_pos_pos_trivial [of "y + m" m] mod_pos_pos_trivial [of y m] by auto

lemma sub_borrow_value:
  assumes "0 \<le> A" "A < m" "0 \<le> B" "B < m" "k = 0 \<or> k = 1"
  shows "(A - B - k) mod m = (if A - B - k < 0 then A - B - k + m else A - B - (k :: int))"
  using assms by (auto simp: mod_once_neg)

lemma div_once: "0 \<le> y \<Longrightarrow> y < 2 * m \<Longrightarrow> y div m = (if m \<le> y then 1 else 0)" for y m :: int
  by (auto intro: int_div_pos_eq [of _ _ _ "y - m"])

definition signed_of :: "int \<Rightarrow> int \<Rightarrow> int" where
  "signed_of h u = (if h \<le> u then u - 2 * h else u)"

lemma bit7_uint: "bit (x :: u8) 7 \<longleftrightarrow> 128 \<le> uint x"
proof -
  have "bit x 7 \<longleftrightarrow> odd (uint x div 128)"
    using bit_uint_iff [of x 7] bit_iff_odd [of "uint x" 7] by simp
  then show ?thesis
    using uint8_bounds [of x] by (simp add: div_once)
qed

lemma bit15_uint: "bit (x :: u16) 15 \<longleftrightarrow> 32768 \<le> uint x"
proof -
  have "bit x 15 \<longleftrightarrow> odd (uint x div 32768)"
    using bit_uint_iff [of x 15] bit_iff_odd [of "uint x" 15] by simp
  then show ?thesis
    using uint16_bounds [of x] by (simp add: div_once)
qed

lemma sint8_uint: "sint (x :: u8) = signed_of 128 (uint x)"
  using int_word_sint [of "uint x", where ?'a = 8] uint8_bounds [of x]
  by (simp add: mod_once signed_of_def)

lemma sint16_uint: "sint (x :: u16) = signed_of 32768 (uint x)"
  using int_word_sint [of "uint x", where ?'a = 16] uint16_bounds [of x]
  by (simp add: mod_once signed_of_def)

lemma and_80: "x AND 0x80 \<noteq> 0 \<longleftrightarrow> bit (x :: u8) 7"
  using and_exp_eq_0_iff_not_bit [of x 7] by simp

lemma and_8000: "x AND 0x8000 \<noteq> 0 \<longleftrightarrow> bit (x :: u16) 15"
  using and_exp_eq_0_iff_not_bit [of x 15] by simp

lemma sgn_xor_and8:
  "NOT (a XOR b) AND (a XOR r) AND 0x80 \<noteq> 0 \<longleftrightarrow> bit a 7 = bit b 7 \<and> bit a 7 \<noteq> bit (r :: u8) 7"
  "(a XOR b) AND (a XOR r) AND 0x80 \<noteq> 0 \<longleftrightarrow> bit a 7 \<noteq> bit b 7 \<and> bit a 7 \<noteq> bit r 7"
  by (simp_all only: and.assoc [symmetric] and_80 bit_and_iff bit_xor_iff bit_not_iff) auto

lemma sgn_xor_and16:
  "NOT (a XOR b) AND (a XOR r) AND 0x8000 \<noteq> 0 \<longleftrightarrow> bit a 15 = bit b 15 \<and> bit a 15 \<noteq> bit (r :: u16) 15"
  "(a XOR b) AND (a XOR r) AND 0x8000 \<noteq> 0 \<longleftrightarrow> bit a 15 \<noteq> bit b 15 \<and> bit a 15 \<noteq> bit r 15"
  by (simp_all only: and.assoc [symmetric] and_8000 bit_and_iff bit_xor_iff bit_not_iff) auto

text \<open>The overflow rules of two's complement, on the unsigned readings \<open>A\<close>, \<open>B\<close> of the operands of
  a width with sign bit \<open>h\<close>.\<close>

lemma signed_add_overflow:
  assumes "0 \<le> A" "A < 2 * h" "0 \<le> B" "B < 2 * h" "k = 0 \<or> k = 1"
    and "R = (A + B + k) mod (2 * h)"
  shows "(h \<le> A) = (h \<le> B) \<and> (h \<le> A) \<noteq> (h \<le> R)
    \<longleftrightarrow> signed_of h R \<noteq> signed_of h A + signed_of h B + k"
proof -
  have "R = (if 2 * h \<le> A + B + k then A + B + k - 2 * h else A + B + k)"
    using assms by (auto simp: mod_once)
  then show ?thesis using assms by (auto simp: signed_of_def)
qed

lemma signed_sub_overflow:
  assumes "0 \<le> A" "A < 2 * h" "0 \<le> B" "B < 2 * h" "k = 0 \<or> k = 1"
    and "R = (A - B - k) mod (2 * h)"
  shows "(h \<le> A) \<noteq> (h \<le> B) \<and> (h \<le> A) \<noteq> (h \<le> R)
    \<longleftrightarrow> signed_of h R \<noteq> signed_of h A - signed_of h B - k"
proof -
  have "R = (if A - B - k < 0 then A - B - k + 2 * h else A - B - k)"
    using assms by (auto simp: mod_once_neg)
  then show ?thesis using assms by (auto simp: signed_of_def)
qed

lemma signed_sub_less:
  assumes "0 \<le> A" "A < 2 * h" "0 \<le> B" "B < 2 * h" and "R = (A - B) mod (2 * h)"
  shows "(signed_of h R < 0) = (signed_of h R \<noteq> signed_of h A - signed_of h B)
    \<longleftrightarrow> signed_of h B \<le> signed_of h A"
proof -
  have "R = (if A - B < 0 then A - B + 2 * h else A - B)"
    using assms by (auto simp: mod_once_neg)
  then show ?thesis using assms by (auto simp: signed_of_def)
qed

lemma uint_add8: "uint (a + b + of_bool ci :: u8) = (uint a + uint b + of_bool ci) mod 256"
  by (cases ci) (simp_all add: uint_word_ariths mod_simps)

lemma uint_add16: "uint (a + b + of_bool ci :: u16) = (uint a + uint b + of_bool ci) mod 65536"
  by (cases ci) (simp_all add: uint_word_ariths mod_simps)

lemma uint_sub8: "uint (a - b - of_bool ci :: u8) = (uint a - uint b - of_bool ci) mod 256"
  by (cases ci) (simp_all add: uint_word_ariths mod_simps)

lemma uint_sub16: "uint (a - b - of_bool ci :: u16) = (uint a - uint b - of_bool ci) mod 65536"
  by (cases ci) (simp_all add: uint_word_ariths mod_simps)

end
