(* ===== verification/Registers.thy ===== *)
theory Registers
  imports Prelude
begin

text \<open>
  The registers and enumerations of \<^verbatim>\<open>simulator/src/hd6309_types.hpp\<close>: the HD6309 register
  file, the condition-code and mode bits, and the operation selectors the ALU is parametrised by.
  The register file is an extensible record, because \<^verbatim>\<open>CPU\<close> (theory \<^verbatim>\<open>Cpu\<close>) keeps it as its
  member \<^verbatim>\<open>r_\<close>: the methods that only touch registers are polymorphic in the extension.
\<close>

unbundle bit_operations_syntax

section \<open>Condition-code and mode bits\<close>

definition CC_C :: u8 where "CC_C = 0x01"
definition CC_V :: u8 where "CC_V = 0x02"
definition CC_Z :: u8 where "CC_Z = 0x04"
definition CC_N :: u8 where "CC_N = 0x08"
definition CC_I :: u8 where "CC_I = 0x10"
definition CC_H :: u8 where "CC_H = 0x20"
definition CC_F :: u8 where "CC_F = 0x40"
definition CC_E :: u8 where "CC_E = 0x80"

definition MD_NATIVE :: u8 where "MD_NATIVE = 0x01"
definition MD_FIRQ_NATIVE :: u8 where "MD_FIRQ_NATIVE = 0x02"
definition MD_ILLEGAL :: u8 where "MD_ILLEGAL = 0x40"
definition MD_DIVZERO :: u8 where "MD_DIVZERO = 0x80"

lemmas CC_bits = CC_C_def CC_V_def CC_Z_def CC_N_def CC_I_def CC_H_def CC_F_def CC_E_def
lemmas MD_bits = MD_NATIVE_def MD_FIRQ_NATIVE_def MD_ILLEGAL_def MD_DIVZERO_def

section \<open>The register file\<close>

record regs =
  r_pc :: u16
  r_x :: u16
  r_y :: u16
  r_u :: u16
  r_s :: u16
  r_v :: u16
  r_a :: u8
  r_b :: u8
  r_dp :: u8
  r_cc :: u8
  r_e :: u8
  r_f :: u8
  r_md :: u8

definition Regs0 :: regs where
  "Regs0 = \<lparr>r_pc = 0, r_x = 0, r_y = 0, r_u = 0, r_s = 0, r_v = 0,
            r_a = 0, r_b = 0, r_dp = 0, r_cc = 0, r_e = 0, r_f = 0, r_md = 0\<rparr>"

definition reg_d :: "'z regs_scheme \<Rightarrow> u16" where
  "reg_d c = mk16 (r_a c) (r_b c)"

definition set_d :: "u16 \<Rightarrow> 'z regs_scheme \<Rightarrow> 'z regs_scheme" where
  "set_d v c = c\<lparr>r_a := hi8 v, r_b := lo8 v\<rparr>"

definition reg_w :: "'z regs_scheme \<Rightarrow> u16" where
  "reg_w c = mk16 (r_e c) (r_f c)"

definition set_w :: "u16 \<Rightarrow> 'z regs_scheme \<Rightarrow> 'z regs_scheme" where
  "set_w v c = c\<lparr>r_e := hi8 v, r_f := lo8 v\<rparr>"

definition reg_q :: "'z regs_scheme \<Rightarrow> u32" where
  "reg_q c = mk32 (reg_d c) (reg_w c)"

definition set_q :: "u32 \<Rightarrow> 'z regs_scheme \<Rightarrow> 'z regs_scheme" where
  "set_q v c = set_w (lo16 v) (set_d (hi16 v) c)"

datatype RmwOp = NEG | COM | LSR | ROR | ASR | ASL | ROL | DEC | INC | TST | CLR

datatype AluOp = SUB | CMP | SBC | AND_op | BIT_op | LD | EOR | ADC | OR_op | ADD

datatype StopReason = CycleBudget | Breakpoint | IllegalOpcodeTrap | Sync | Halted

section \<open>Register lvalues\<close>

text \<open>
  The opcode macros take a register as an lvalue (\<^verbatim>\<open>r_.a\<close>, \<^verbatim>\<open>r_.x\<close>) or as a getter and a setter
  (\<^verbatim>\<open>r_.d\<close>, \<^verbatim>\<open>r_.set_d\<close>), the stack helpers take a reference to \<^verbatim>\<open>r_.s\<close> or \<^verbatim>\<open>r_.u\<close>. Here a lvalue
  is a name with a getter and a setter.
\<close>

datatype reg8 = RegA | RegB | RegE | RegF

datatype reg16 = RegD | RegX | RegY | RegU | RegS | RegW

fun get8 :: "reg8 \<Rightarrow> 'z regs_scheme \<Rightarrow> u8" where
  "get8 RegA c = r_a c"
| "get8 RegB c = r_b c"
| "get8 RegE c = r_e c"
| "get8 RegF c = r_f c"

fun set8 :: "reg8 \<Rightarrow> u8 \<Rightarrow> 'z regs_scheme \<Rightarrow> 'z regs_scheme" where
  "set8 RegA v c = c\<lparr>r_a := v\<rparr>"
| "set8 RegB v c = c\<lparr>r_b := v\<rparr>"
| "set8 RegE v c = c\<lparr>r_e := v\<rparr>"
| "set8 RegF v c = c\<lparr>r_f := v\<rparr>"

fun get16 :: "reg16 \<Rightarrow> 'z regs_scheme \<Rightarrow> u16" where
  "get16 RegD c = reg_d c"
| "get16 RegX c = r_x c"
| "get16 RegY c = r_y c"
| "get16 RegU c = r_u c"
| "get16 RegS c = r_s c"
| "get16 RegW c = reg_w c"

fun set16 :: "reg16 \<Rightarrow> u16 \<Rightarrow> 'z regs_scheme \<Rightarrow> 'z regs_scheme" where
  "set16 RegD v c = set_d v c"
| "set16 RegX v c = c\<lparr>r_x := v\<rparr>"
| "set16 RegY v c = c\<lparr>r_y := v\<rparr>"
| "set16 RegU v c = c\<lparr>r_u := v\<rparr>"
| "set16 RegS v c = c\<lparr>r_s := v\<rparr>"
| "set16 RegW v c = set_w v c"

section \<open>Register codes of the inter-register instructions\<close>

definition reg_code_is_16bit :: "u8 \<Rightarrow> bool" where
  "reg_code_is_16bit code \<longleftrightarrow> code \<le> 7"

definition pad_FF :: "u8 \<Rightarrow> u16" where
  "pad_FF v = 0xFF00 OR ucast v"

definition get_reg_by_code :: "u8 \<Rightarrow> 'z regs_scheme \<Rightarrow> u16" where
  "get_reg_by_code code c = (let k = code AND 0xF in
     if k = 0 then reg_d c
     else if k = 1 then r_x c
     else if k = 2 then r_y c
     else if k = 3 then r_u c
     else if k = 4 then r_s c
     else if k = 5 then r_pc c
     else if k = 6 then reg_w c
     else if k = 7 then r_v c
     else if k = 8 then pad_FF (r_a c)
     else if k = 9 then pad_FF (r_b c)
     else if k = 10 then pad_FF (r_cc c)
     else if k = 11 then pad_FF (r_dp c)
     else if k = 12 \<or> k = 13 then 0xFFFF
     else if k = 14 then pad_FF (r_e c)
     else pad_FF (r_f c))"

definition get_reg_raw8 :: "u8 \<Rightarrow> 'z regs_scheme \<Rightarrow> u8" where
  "get_reg_raw8 code c = (let k = code AND 0xF in
     if k = 8 then r_a c
     else if k = 9 then r_b c
     else if k = 10 then r_cc c
     else if k = 11 then r_dp c
     else if k = 14 then r_e c
     else r_f c)"

definition set_reg_by_code :: "u8 \<Rightarrow> u16 \<Rightarrow> 'z regs_scheme \<Rightarrow> 'z regs_scheme" where
  "set_reg_by_code code v c = (let k = code AND 0xF in
     if k = 0 then set_d v c
     else if k = 1 then c\<lparr>r_x := v\<rparr>
     else if k = 2 then c\<lparr>r_y := v\<rparr>
     else if k = 3 then c\<lparr>r_u := v\<rparr>
     else if k = 4 then c\<lparr>r_s := v\<rparr>
     else if k = 5 then c\<lparr>r_pc := v\<rparr>
     else if k = 6 then set_w v c
     else if k = 7 then c\<lparr>r_v := v\<rparr>
     else if k = 8 then c\<lparr>r_a := lo8 v\<rparr>
     else if k = 9 then c\<lparr>r_b := lo8 v\<rparr>
     else if k = 10 then c\<lparr>r_cc := lo8 v\<rparr>
     else if k = 11 then c\<lparr>r_dp := lo8 v\<rparr>
     else if k = 12 \<or> k = 13 then c
     else if k = 14 then c\<lparr>r_e := lo8 v\<rparr>
     else c\<lparr>r_f := lo8 v\<rparr>)"

section \<open>Lemmas\<close>

lemma reg_d_set_d [simp]: "reg_d (set_d v c) = v"
  by (simp add: reg_d_def set_d_def)

lemma reg_w_set_w [simp]: "reg_w (set_w v c) = v"
  by (simp add: reg_w_def set_w_def)

lemma reg_w_set_d [simp]: "reg_w (set_d v c) = reg_w c"
  by (simp add: reg_w_def set_d_def)

lemma reg_d_set_w [simp]: "reg_d (set_w v c) = reg_d c"
  by (simp add: reg_d_def set_w_def)

lemma reg_q_set_q [simp]: "reg_q (set_q v c) = v"
  by (simp add: reg_q_def set_q_def)

lemma set_d_reg_d [simp]: "set_d (reg_d c) c = c"
  by (simp add: reg_d_def set_d_def)

lemma set_w_reg_w [simp]: "set_w (reg_w c) c = c"
  by (simp add: reg_w_def set_w_def)

lemma get8_set8: "get8 r (set8 r' v c) = (if r = r' then v else get8 r c)"
  by (cases r; cases r') simp_all

lemma get16_set16: "get16 r (set16 r' v c) = (if r = r' then v else get16 r c)"
  by (cases r; cases r') (simp_all add: reg_d_def reg_w_def set_d_def set_w_def)

lemma pad_FF_lo8 [simp]: "lo8 (pad_FF v) = v"
proof (rule bit_eqI)
  fix n
  have "\<not> bit (0xFF00 :: u16) n" if "n < 8"
  proof -
    have "(0xFF00 :: u16) = push_bit 8 0xFF" by (simp add: push_bit_eq_mult)
    then show ?thesis using that by (simp only: bit_push_bit_iff) simp
  qed
  then show "bit (lo8 (pad_FF v)) n = bit v n"
    by (auto simp: bit_lo8 pad_FF_def bit_or_iff bit_ucast_iff dest: word8_bit_bound)
qed

end
