(* ===== verification/Alu.thy ===== *)
theory Alu
  imports Registers "HOL-Library.Signed_Division"
begin

text \<open>
  Flags and ALU primitives of \<^verbatim>\<open>simulator/src/hd6309_core.cpp\<close>: \<^verbatim>\<open>set_flag\<close> to \<^verbatim>\<open>do_muld\<close>. Each
  method that computes a value and sets flags becomes a function returning the value and the
  registers. C++ \<^verbatim>\<open>unsigned\<close> and \<^verbatim>\<open>int\<close> intermediates (which cannot overflow here) are natural
  numbers and integers, the stored results are words.
\<close>

unbundle bit_operations_syntax

section \<open>Flags\<close>

definition set_flag :: "u8 \<Rightarrow> bool \<Rightarrow> 'z regs_scheme \<Rightarrow> 'z regs_scheme" where
  "set_flag b v c = (if v then c\<lparr>r_cc := r_cc c OR b\<rparr> else c\<lparr>r_cc := r_cc c AND NOT b\<rparr>)"

definition get_flag :: "u8 \<Rightarrow> 'z regs_scheme \<Rightarrow> bool" where
  "get_flag b c \<longleftrightarrow> r_cc c AND b \<noteq> 0"

definition set_nz8 :: "u8 \<Rightarrow> 'z regs_scheme \<Rightarrow> 'z regs_scheme" where
  "set_nz8 v c = set_flag CC_Z (v = 0) (set_flag CC_N (v AND 0x80 \<noteq> 0) c)"

definition set_nz16 :: "u16 \<Rightarrow> 'z regs_scheme \<Rightarrow> 'z regs_scheme" where
  "set_nz16 v c = set_flag CC_Z (v = 0) (set_flag CC_N (v AND 0x8000 \<noteq> 0) c)"

definition test_condition :: "u8 \<Rightarrow> 'z regs_scheme \<Rightarrow> bool" where
  "test_condition cond4 r = (let c = get_flag CC_C r; z = get_flag CC_Z r; v = get_flag CC_V r;
      n = get_flag CC_N r; k = cond4 AND 0xF in
     if k = 0x0 then True
     else if k = 0x1 then False
     else if k = 0x2 then \<not> c \<and> \<not> z
     else if k = 0x3 then c \<or> z
     else if k = 0x4 then \<not> c
     else if k = 0x5 then c
     else if k = 0x6 then \<not> z
     else if k = 0x7 then z
     else if k = 0x8 then \<not> v
     else if k = 0x9 then v
     else if k = 0xA then \<not> n
     else if k = 0xB then n
     else if k = 0xC then n = v
     else if k = 0xD then n \<noteq> v
     else if k = 0xE then \<not> z \<and> n = v
     else z \<or> n \<noteq> v)"

section \<open>Addition and subtraction\<close>

definition add8 :: "u8 \<Rightarrow> u8 \<Rightarrow> bool \<Rightarrow> bool \<Rightarrow> 'z regs_scheme \<Rightarrow> u8 \<times> 'z regs_scheme" where
  "add8 a b carry_in affect_h c =
    (let r16 = unat a + unat b + of_bool carry_in;
         r8 = word_of_nat r16;
         hc = unat (a AND 0xF) + unat (b AND 0xF) + of_bool carry_in;
         c = (if affect_h then set_flag CC_H (hc > 0xF) c else c);
         c = set_flag CC_C (r16 > 0xFF) c;
         c = set_flag CC_V (NOT (a XOR b) AND (a XOR r8) AND 0x80 \<noteq> 0) c
     in (r8, set_nz8 r8 c))"

definition sub8 :: "u8 \<Rightarrow> u8 \<Rightarrow> bool \<Rightarrow> 'z regs_scheme \<Rightarrow> u8 \<times> 'z regs_scheme" where
  "sub8 a b borrow_in c =
    (let diff = uint a - uint b - of_bool borrow_in;
         r8 = word_of_int diff;
         c = set_flag CC_C (diff < 0) c;
         c = set_flag CC_V ((a XOR b) AND (a XOR r8) AND 0x80 \<noteq> 0) c
     in (r8, set_nz8 r8 c))"

definition add16 :: "u16 \<Rightarrow> u16 \<Rightarrow> bool \<Rightarrow> 'z regs_scheme \<Rightarrow> u16 \<times> 'z regs_scheme" where
  "add16 a b carry_in c =
    (let r32 = unat a + unat b + of_bool carry_in;
         r16 = word_of_nat r32;
         c = set_flag CC_C (r32 > 0xFFFF) c;
         c = set_flag CC_V (NOT (a XOR b) AND (a XOR r16) AND 0x8000 \<noteq> 0) c
     in (r16, set_nz16 r16 c))"

definition sub16 :: "u16 \<Rightarrow> u16 \<Rightarrow> bool \<Rightarrow> 'z regs_scheme \<Rightarrow> u16 \<times> 'z regs_scheme" where
  "sub16 a b borrow_in c =
    (let diff = uint a - uint b - of_bool borrow_in;
         r16 = word_of_int diff;
         c = set_flag CC_C (diff < 0) c;
         c = set_flag CC_V ((a XOR b) AND (a XOR r16) AND 0x8000 \<noteq> 0) c
     in (r16, set_nz16 r16 c))"

section \<open>Logic and comparison\<close>

definition and8 :: "u8 \<Rightarrow> u8 \<Rightarrow> 'z regs_scheme \<Rightarrow> u8 \<times> 'z regs_scheme" where
  "and8 a b c = (let r = a AND b in (r, set_nz8 r (set_flag CC_V False c)))"

definition or8 :: "u8 \<Rightarrow> u8 \<Rightarrow> 'z regs_scheme \<Rightarrow> u8 \<times> 'z regs_scheme" where
  "or8 a b c = (let r = a OR b in (r, set_nz8 r (set_flag CC_V False c)))"

definition eor8 :: "u8 \<Rightarrow> u8 \<Rightarrow> 'z regs_scheme \<Rightarrow> u8 \<times> 'z regs_scheme" where
  "eor8 a b c = (let r = a XOR b in (r, set_nz8 r (set_flag CC_V False c)))"

definition bit8 :: "u8 \<Rightarrow> u8 \<Rightarrow> 'z regs_scheme \<Rightarrow> 'z regs_scheme" where
  "bit8 a b c = set_nz8 (a AND b) (set_flag CC_V False c)"

definition cmp8 :: "u8 \<Rightarrow> u8 \<Rightarrow> 'z regs_scheme \<Rightarrow> 'z regs_scheme" where
  "cmp8 a b c = snd (sub8 a b False c)"

definition cmp16 :: "u16 \<Rightarrow> u16 \<Rightarrow> 'z regs_scheme \<Rightarrow> 'z regs_scheme" where
  "cmp16 a b c = snd (sub16 a b False c)"

definition and16 :: "u16 \<Rightarrow> u16 \<Rightarrow> 'z regs_scheme \<Rightarrow> u16 \<times> 'z regs_scheme" where
  "and16 a b c = (let r = a AND b in (r, set_nz16 r (set_flag CC_V False c)))"

definition or16 :: "u16 \<Rightarrow> u16 \<Rightarrow> 'z regs_scheme \<Rightarrow> u16 \<times> 'z regs_scheme" where
  "or16 a b c = (let r = a OR b in (r, set_nz16 r (set_flag CC_V False c)))"

definition eor16 :: "u16 \<Rightarrow> u16 \<Rightarrow> 'z regs_scheme \<Rightarrow> u16 \<times> 'z regs_scheme" where
  "eor16 a b c = (let r = a XOR b in (r, set_nz16 r (set_flag CC_V False c)))"

definition bit16 :: "u16 \<Rightarrow> u16 \<Rightarrow> 'z regs_scheme \<Rightarrow> 'z regs_scheme" where
  "bit16 a b c = set_nz16 (a AND b) (set_flag CC_V False c)"

section \<open>Read-modify-write operations\<close>

fun rmw8 :: "RmwOp \<Rightarrow> u8 \<Rightarrow> 'z regs_scheme \<Rightarrow> u8 \<times> 'z regs_scheme" where
  "rmw8 NEG v c = (let r = 0 - v in
     (r, set_nz8 r (set_flag CC_V (v = 0x80) (set_flag CC_C (v \<noteq> 0) c))))"
| "rmw8 COM v c = (let r = NOT v in
     (r, set_nz8 r (set_flag CC_V False (set_flag CC_C True c))))"
| "rmw8 LSR v c = (let c = set_flag CC_C (v AND 1 \<noteq> 0) c; r = drop_bit 1 v in (r, set_nz8 r c))"
| "rmw8 ROR v c = (let oldc = get_flag CC_C c; c = set_flag CC_C (v AND 1 \<noteq> 0) c;
     r = drop_bit 1 v OR (if oldc then 0x80 else 0) in (r, set_nz8 r c))"
| "rmw8 ASR v c = (let c = set_flag CC_C (v AND 1 \<noteq> 0) c;
     r = drop_bit 1 v OR (v AND 0x80) in (r, set_nz8 r c))"
| "rmw8 ASL v c = (let b7 = (v AND 0x80 \<noteq> 0); b6 = (v AND 0x40 \<noteq> 0);
     c = set_flag CC_V (b7 \<noteq> b6) (set_flag CC_C b7 c); r = push_bit 1 v in (r, set_nz8 r c))"
| "rmw8 ROL v c = (let oldc = get_flag CC_C c; b7 = (v AND 0x80 \<noteq> 0); b6 = (v AND 0x40 \<noteq> 0);
     c = set_flag CC_V (b7 \<noteq> b6) (set_flag CC_C b7 c);
     r = push_bit 1 v OR (if oldc then 1 else 0) in (r, set_nz8 r c))"
| "rmw8 DEC v c = (let r = v - 1 in (r, set_nz8 r (set_flag CC_V (v = 0x80) c)))"
| "rmw8 INC v c = (let r = v + 1 in (r, set_nz8 r (set_flag CC_V (v = 0x7F) c)))"
| "rmw8 TST v c = (v, set_nz8 v (set_flag CC_V False c))"
| "rmw8 CLR v c = (0, set_flag CC_C False (set_flag CC_V False (set_flag CC_Z True (set_flag CC_N False c))))"

fun rmw16 :: "RmwOp \<Rightarrow> u16 \<Rightarrow> 'z regs_scheme \<Rightarrow> u16 \<times> 'z regs_scheme" where
  "rmw16 NEG v c = (let r = 0 - v in
     (r, set_nz16 r (set_flag CC_V (v = 0x8000) (set_flag CC_C (v \<noteq> 0) c))))"
| "rmw16 COM v c = (let r = NOT v in
     (r, set_nz16 r (set_flag CC_V False (set_flag CC_C True c))))"
| "rmw16 LSR v c = (let c = set_flag CC_C (v AND 1 \<noteq> 0) c; r = drop_bit 1 v in (r, set_nz16 r c))"
| "rmw16 ROR v c = (let oldc = get_flag CC_C c; c = set_flag CC_C (v AND 1 \<noteq> 0) c;
     r = drop_bit 1 v OR (if oldc then 0x8000 else 0) in (r, set_nz16 r c))"
| "rmw16 ASR v c = (let c = set_flag CC_C (v AND 1 \<noteq> 0) c;
     r = drop_bit 1 v OR (v AND 0x8000) in (r, set_nz16 r c))"
| "rmw16 ASL v c = (let b15 = (v AND 0x8000 \<noteq> 0); b14 = (v AND 0x4000 \<noteq> 0);
     c = set_flag CC_V (b15 \<noteq> b14) (set_flag CC_C b15 c); r = push_bit 1 v in (r, set_nz16 r c))"
| "rmw16 ROL v c = (let oldc = get_flag CC_C c; b15 = (v AND 0x8000 \<noteq> 0); b14 = (v AND 0x4000 \<noteq> 0);
     c = set_flag CC_V (b15 \<noteq> b14) (set_flag CC_C b15 c);
     r = push_bit 1 v OR (if oldc then 1 else 0) in (r, set_nz16 r c))"
| "rmw16 DEC v c = (let r = v - 1 in (r, set_nz16 r (set_flag CC_V (v = 0x8000) c)))"
| "rmw16 INC v c = (let r = v + 1 in (r, set_nz16 r (set_flag CC_V (v = 0x7FFF) c)))"
| "rmw16 TST v c = (v, set_nz16 v (set_flag CC_V False c))"
| "rmw16 CLR v c = (0, set_flag CC_C False (set_flag CC_V False (set_flag CC_Z True (set_flag CC_N False c))))"

section \<open>Accumulator operations\<close>

fun apply_alu8 :: "AluOp \<Rightarrow> u8 \<Rightarrow> u8 \<Rightarrow> 'z regs_scheme \<Rightarrow> u8 \<times> 'z regs_scheme" where
  "apply_alu8 SUB reg operand c = sub8 reg operand False c"
| "apply_alu8 CMP reg operand c = (reg, cmp8 reg operand c)"
| "apply_alu8 SBC reg operand c = sub8 reg operand (get_flag CC_C c) c"
| "apply_alu8 AND_op reg operand c = and8 reg operand c"
| "apply_alu8 BIT_op reg operand c = (reg, bit8 reg operand c)"
| "apply_alu8 LD reg operand c = (operand, set_nz8 operand (set_flag CC_V False c))"
| "apply_alu8 EOR reg operand c = eor8 reg operand c"
| "apply_alu8 ADC reg operand c = add8 reg operand (get_flag CC_C c) True c"
| "apply_alu8 OR_op reg operand c = or8 reg operand c"
| "apply_alu8 ADD reg operand c = add8 reg operand False True c"

fun apply_alu16 :: "AluOp \<Rightarrow> u16 \<Rightarrow> u16 \<Rightarrow> 'z regs_scheme \<Rightarrow> u16 \<times> 'z regs_scheme" where
  "apply_alu16 SUB reg operand c = sub16 reg operand False c"
| "apply_alu16 CMP reg operand c = (reg, cmp16 reg operand c)"
| "apply_alu16 SBC reg operand c = sub16 reg operand (get_flag CC_C c) c"
| "apply_alu16 AND_op reg operand c = and16 reg operand c"
| "apply_alu16 BIT_op reg operand c = (reg, bit16 reg operand c)"
| "apply_alu16 LD reg operand c = (operand, set_nz16 operand (set_flag CC_V False c))"
| "apply_alu16 EOR reg operand c = eor16 reg operand c"
| "apply_alu16 ADC reg operand c = add16 reg operand (get_flag CC_C c) c"
| "apply_alu16 OR_op reg operand c = or16 reg operand c"
| "apply_alu16 ADD reg operand c = add16 reg operand False c"

section \<open>Decimal adjust, division and multiplication\<close>

definition do_daa :: "'z regs_scheme \<Rightarrow> 'z regs_scheme" where
  "do_daa c =
    (let a = r_a c;
         lo = a AND 0x0F;
         hi = drop_bit 4 a AND 0x0F;
         carry_out = get_flag CC_C c;
         correction = (if get_flag CC_H c \<or> lo > 9 then 0x06 else 0);
         high = (carry_out \<or> hi > 9 \<or> (hi \<ge> 9 \<and> lo > 9));
         correction = (if high then correction OR 0x60 else correction);
         carry_out = (if high then True else carry_out);
         c = c\<lparr>r_a := a + correction\<rparr>
     in set_nz8 (r_a c) (set_flag CC_C carry_out c))"

text \<open>The signed quotient and remainder of \<^verbatim>\<open>do_divd\<close> and \<^verbatim>\<open>do_divq\<close> once the divisor is known
  not to be 0: C++ division truncates towards zero (\<^const>\<open>signed_divide\<close>,
  \<^const>\<open>signed_modulo\<close>).\<close>

definition divd_result :: "u8 \<Rightarrow> 'z regs_scheme \<Rightarrow> 'z regs_scheme" where
  "divd_result divisor c =
    (let dividend = sint (reg_d c);
         dvsr = sint divisor;
         quotient = dividend sdiv dvsr;
         remainder = dividend smod dvsr;
         overflow = (quotient < -128 \<or> quotient > 127);
         c = c\<lparr>r_b := word_of_int quotient, r_a := word_of_int remainder\<rparr>
     in set_nz8 (r_b c) (set_flag CC_C False (set_flag CC_V overflow c)))"

definition divq_result :: "u16 \<Rightarrow> 'z regs_scheme \<Rightarrow> 'z regs_scheme" where
  "divq_result divisor c =
    (let sdividend = sint (reg_q c);
         dvsr = sint divisor;
         quotient = sdividend sdiv dvsr;
         remainder = sdividend smod dvsr;
         overflow = (quotient < -32768 \<or> quotient > 32767);
         c = set_w (word_of_int remainder) (set_d (word_of_int quotient) c)
     in set_nz16 (reg_d c) (set_flag CC_C False (set_flag CC_V overflow c)))"

definition do_muld :: "u16 \<Rightarrow> 'z regs_scheme \<Rightarrow> 'z regs_scheme" where
  "do_muld multiplier c =
    (let a = sint (reg_d c);
         b = sint multiplier;
         result = a * b;
         c = set_q (word_of_int result) c;
         c = set_flag CC_N (result < 0) c;
         c = set_flag CC_Z (result = 0) c
     in set_flag CC_C False (set_flag CC_V False c))"

section \<open>Flag algebra\<close>

lemma get_flag_set_flag_same: "b \<noteq> 0 \<Longrightarrow> get_flag b (set_flag b v c) = v"
  by (simp add: get_flag_def set_flag_def bit.conj_disj_distrib2 or_eq_0_iff and.assoc)

lemma get_flag_set_flag_other: "b AND b' = 0 \<Longrightarrow> get_flag b (set_flag b' v c) = get_flag b c"
proof -
  assume d: "b AND b' = 0"
  have "\<And>n. \<not> (bit b n \<and> bit b' n)"
    using d by (metis bit_and_iff bit_0_eq bot_apply bot_bool_def)
  then have "(x OR b') AND b = x AND b" "(x AND NOT b') AND b = x AND b" for x
    by (auto intro!: bit_eqI simp: bit_and_iff bit_or_iff bit_not_iff dest: bit_imp_le_length)
  then show ?thesis
    by (simp add: get_flag_def set_flag_def)
qed

lemma get_flag_same [simp]:
  "get_flag CC_C (set_flag CC_C v c) = v" "get_flag CC_V (set_flag CC_V v c) = v"
  "get_flag CC_Z (set_flag CC_Z v c) = v" "get_flag CC_N (set_flag CC_N v c) = v"
  "get_flag CC_H (set_flag CC_H v c) = v" "get_flag CC_I (set_flag CC_I v c) = v"
  "get_flag CC_F (set_flag CC_F v c) = v" "get_flag CC_E (set_flag CC_E v c) = v"
  by (rule get_flag_set_flag_same, simp add: CC_bits)+

lemma get_flag_other [simp]:
  "get_flag CC_C (set_flag CC_V v c) = get_flag CC_C c" "get_flag CC_C (set_flag CC_Z v c) = get_flag CC_C c"
  "get_flag CC_C (set_flag CC_N v c) = get_flag CC_C c" "get_flag CC_C (set_flag CC_H v c) = get_flag CC_C c"
  "get_flag CC_V (set_flag CC_C v c) = get_flag CC_V c" "get_flag CC_V (set_flag CC_Z v c) = get_flag CC_V c"
  "get_flag CC_V (set_flag CC_N v c) = get_flag CC_V c" "get_flag CC_V (set_flag CC_H v c) = get_flag CC_V c"
  "get_flag CC_Z (set_flag CC_C v c) = get_flag CC_Z c" "get_flag CC_Z (set_flag CC_V v c) = get_flag CC_Z c"
  "get_flag CC_Z (set_flag CC_N v c) = get_flag CC_Z c" "get_flag CC_Z (set_flag CC_H v c) = get_flag CC_Z c"
  "get_flag CC_N (set_flag CC_C v c) = get_flag CC_N c" "get_flag CC_N (set_flag CC_V v c) = get_flag CC_N c"
  "get_flag CC_N (set_flag CC_Z v c) = get_flag CC_N c" "get_flag CC_N (set_flag CC_H v c) = get_flag CC_N c"
  "get_flag CC_H (set_flag CC_C v c) = get_flag CC_H c" "get_flag CC_H (set_flag CC_V v c) = get_flag CC_H c"
  "get_flag CC_H (set_flag CC_Z v c) = get_flag CC_H c" "get_flag CC_H (set_flag CC_N v c) = get_flag CC_H c"
  by (rule get_flag_set_flag_other, simp add: CC_bits)+

lemma get_flag_mask [simp]:
  "b \<in> {CC_C, CC_V, CC_Z, CC_N, CC_H} \<Longrightarrow> get_flag CC_I (set_flag b v c) = get_flag CC_I c"
  "b \<in> {CC_C, CC_V, CC_Z, CC_N, CC_H} \<Longrightarrow> get_flag CC_F (set_flag b v c) = get_flag CC_F c"
  "b \<in> {CC_C, CC_V, CC_Z, CC_N, CC_H} \<Longrightarrow> get_flag CC_E (set_flag b v c) = get_flag CC_E c"
  by (auto simp: get_flag_set_flag_other CC_bits)

lemma get_flag_set_nz8 [simp]:
  "get_flag CC_C (set_nz8 v c) = get_flag CC_C c" "get_flag CC_V (set_nz8 v c) = get_flag CC_V c"
  "get_flag CC_H (set_nz8 v c) = get_flag CC_H c"
  "get_flag CC_N (set_nz8 v c) = (sint v < 0)" "get_flag CC_Z (set_nz8 v c) = (v = 0)"
  using bit_last_iff [of v] by (simp_all add: set_nz8_def and_80)

lemma get_flag_set_nz16 [simp]:
  "get_flag CC_C (set_nz16 v c) = get_flag CC_C c" "get_flag CC_V (set_nz16 v c) = get_flag CC_V c"
  "get_flag CC_H (set_nz16 v c) = get_flag CC_H c"
  "get_flag CC_N (set_nz16 v c) = (sint v < 0)" "get_flag CC_Z (set_nz16 v c) = (v = 0)"
  using bit_last_iff [of v] by (simp_all add: set_nz16_def and_8000)

section \<open>Addition and subtraction against integer arithmetic\<close>

lemma add8_value: "fst (add8 a b ci h c) = a + b + of_bool ci"
  by (simp add: add8_def Let_def)

lemma add16_value: "fst (add16 a b ci c) = a + b + of_bool ci"
  by (simp add: add16_def Let_def)

lemma sub8_value: "fst (sub8 a b ci c) = a - b - of_bool ci"
  by (simp add: sub8_def Let_def)

lemma sub16_value: "fst (sub16 a b ci c) = a - b - of_bool ci"
  by (simp add: sub16_def Let_def)

lemma add8_carry: "get_flag CC_C (snd (add8 a b ci h c)) \<longleftrightarrow> 255 < unat a + unat b + of_bool ci"
  by (simp add: add8_def Let_def)

lemma add8_half: "get_flag CC_H (snd (add8 a b ci h c)) \<longleftrightarrow>
    (if h then 15 < unat (a AND 0xF) + unat (b AND 0xF) + of_bool ci else get_flag CC_H c)"
  by (simp add: add8_def Let_def)

lemma add8_nz: "get_flag CC_N (snd (add8 a b ci h c)) \<longleftrightarrow> sint (a + b + of_bool ci) < 0"
  "get_flag CC_Z (snd (add8 a b ci h c)) \<longleftrightarrow> a + b + of_bool ci = 0"
  by (simp_all add: add8_def Let_def)

lemma add8_overflow: "get_flag CC_V (snd (add8 a b ci h c))
    \<longleftrightarrow> sint (a + b + of_bool ci) \<noteq> sint a + sint b + of_bool ci"
  using signed_add_overflow [OF uint8_bounds(1) _ uint8_bounds(1) _ _ refl, of a 128 b "of_bool ci"]
     uint8_bounds [of a] uint8_bounds [of b]
  by (simp add: add8_def Let_def sgn_xor_and8 bit7_uint sint8_uint uint_add8)

lemma add16_carry: "get_flag CC_C (snd (add16 a b ci c)) \<longleftrightarrow> 65535 < unat a + unat b + of_bool ci"
  by (simp add: add16_def Let_def)

lemma add16_nz: "get_flag CC_N (snd (add16 a b ci c)) \<longleftrightarrow> sint (a + b + of_bool ci) < 0"
  "get_flag CC_Z (snd (add16 a b ci c)) \<longleftrightarrow> a + b + of_bool ci = 0"
  by (simp_all add: add16_def Let_def)

lemma add16_overflow: "get_flag CC_V (snd (add16 a b ci c))
    \<longleftrightarrow> sint (a + b + of_bool ci) \<noteq> sint a + sint b + of_bool ci"
  using signed_add_overflow [OF uint16_bounds(1) _ uint16_bounds(1) _ _ refl, of a 32768 b "of_bool ci"]
     uint16_bounds [of a] uint16_bounds [of b]
  by (simp add: add16_def Let_def sgn_xor_and16 bit15_uint sint16_uint uint_add16)

lemma borrow_iff: "uint a - uint b - of_bool ci < 0 \<longleftrightarrow> unat a < unat b + of_bool ci"
proof -
  have "int (unat a) = uint a" "int (unat b) = uint b"
    by (rule of_nat_unat)+
  then show ?thesis
    by (cases ci; simp only: of_bool_eq; linarith)
qed

lemma sub8_carry: "get_flag CC_C (snd (sub8 a b ci c)) \<longleftrightarrow> unat a < unat b + of_bool ci"
  using borrow_iff [of a b ci] by (simp add: sub8_def Let_def)

lemma sub8_nz: "get_flag CC_N (snd (sub8 a b ci c)) \<longleftrightarrow> sint (a - b - of_bool ci) < 0"
  "get_flag CC_Z (snd (sub8 a b ci c)) \<longleftrightarrow> a - b - of_bool ci = 0"
  by (simp_all add: sub8_def Let_def)

lemma sub8_overflow: "get_flag CC_V (snd (sub8 a b ci c))
    \<longleftrightarrow> sint (a - b - of_bool ci) \<noteq> sint a - sint b - of_bool ci"
  using signed_sub_overflow [OF uint8_bounds(1) _ uint8_bounds(1) _ _ refl, of a 128 b "of_bool ci"]
     uint8_bounds [of a] uint8_bounds [of b]
  by (simp add: sub8_def Let_def sgn_xor_and8 bit7_uint sint8_uint uint_sub8)

lemma sub16_carry: "get_flag CC_C (snd (sub16 a b ci c)) \<longleftrightarrow> unat a < unat b + of_bool ci"
  using borrow_iff [of a b ci] by (simp add: sub16_def Let_def)

lemma sub16_nz: "get_flag CC_N (snd (sub16 a b ci c)) \<longleftrightarrow> sint (a - b - of_bool ci) < 0"
  "get_flag CC_Z (snd (sub16 a b ci c)) \<longleftrightarrow> a - b - of_bool ci = 0"
  by (simp_all add: sub16_def Let_def)

lemma sub16_overflow: "get_flag CC_V (snd (sub16 a b ci c))
    \<longleftrightarrow> sint (a - b - of_bool ci) \<noteq> sint a - sint b - of_bool ci"
  using signed_sub_overflow [OF uint16_bounds(1) _ uint16_bounds(1) _ _ refl, of a 32768 b "of_bool ci"]
     uint16_bounds [of a] uint16_bounds [of b]
  by (simp add: sub16_def Let_def sgn_xor_and16 bit15_uint sint16_uint uint_sub16)

lemmas add8_facts = add8_value add8_carry add8_half add8_nz add8_overflow
lemmas add16_facts = add16_value add16_carry add16_nz add16_overflow
lemmas sub8_facts = sub8_value sub8_carry sub8_nz sub8_overflow
lemmas sub16_facts = sub16_value sub16_carry sub16_nz sub16_overflow

lemma sub_sign8: "(sint (a - b) < 0) = (sint (a - b) \<noteq> sint a - sint b) \<longleftrightarrow> sint b \<le> sint (a :: u8)"
  using signed_sub_less [OF uint8_bounds(1) _ uint8_bounds(1) _ refl, of a 128 b]
    uint8_bounds [of a] uint8_bounds [of b]
  by (simp add: sint8_uint uint_word_ariths)

lemma sub_sign16: "(sint (a - b) < 0) = (sint (a - b) \<noteq> sint a - sint b) \<longleftrightarrow> sint b \<le> sint (a :: u16)"
  using signed_sub_less [OF uint16_bounds(1) _ uint16_bounds(1) _ refl, of a 32768 b]
    uint16_bounds [of a] uint16_bounds [of b]
  by (simp add: sint16_uint uint_word_ariths)


lemma sint_eq_iff: "sint (a :: 'a::len word) = sint b \<longleftrightarrow> a = b"
  by (auto dest: arg_cong [of _ _ "word_of_int :: int \<Rightarrow> 'a word"])

lemma sint_less_iff: "sint b < sint (a :: 'a::len word) \<longleftrightarrow> sint b \<le> sint a \<and> a \<noteq> b"
  using sint_eq_iff [of a b] by auto

lemma cmp8_flags:
  "get_flag CC_C (cmp8 a b c) \<longleftrightarrow> a < b" "get_flag CC_Z (cmp8 a b c) \<longleftrightarrow> a = b"
  "get_flag CC_N (cmp8 a b c) = get_flag CC_V (cmp8 a b c) \<longleftrightarrow> sint b \<le> sint a"
  using sub_sign8 [of a b] by (simp_all add: cmp8_def sub8_facts word_less_nat_alt)

lemma cmp16_flags:
  "get_flag CC_C (cmp16 a b c) \<longleftrightarrow> a < b" "get_flag CC_Z (cmp16 a b c) \<longleftrightarrow> a = b"
  "get_flag CC_N (cmp16 a b c) = get_flag CC_V (cmp16 a b c) \<longleftrightarrow> sint b \<le> sint a"
  using sub_sign16 [of a b] by (simp_all add: cmp16_def sub16_facts word_less_nat_alt)

lemma branch_after_compare:
  assumes "get_flag CC_C c \<longleftrightarrow> a < b" "get_flag CC_Z c \<longleftrightarrow> a = b"
    "get_flag CC_N c = get_flag CC_V c \<longleftrightarrow> sint b \<le> sint (a :: 'a::len word)"
  shows "test_condition 0x22 c \<longleftrightarrow> b < a" "test_condition 0x23 c \<longleftrightarrow> a \<le> b"
    "test_condition 0x24 c \<longleftrightarrow> b \<le> a" "test_condition 0x25 c \<longleftrightarrow> a < b"
    "test_condition 0x26 c \<longleftrightarrow> a \<noteq> b" "test_condition 0x27 c \<longleftrightarrow> a = b"
    "test_condition 0x2C c \<longleftrightarrow> sint b \<le> sint a" "test_condition 0x2D c \<longleftrightarrow> sint a < sint b"
    "test_condition 0x2E c \<longleftrightarrow> sint b < sint a" "test_condition 0x2F c \<longleftrightarrow> sint a \<le> sint b"
  using assms sint_eq_iff [of a b] sint_less_iff [of b a]
  by (auto simp: test_condition_def)

text \<open>The 8-bit adder computes the sum of its operands and the carry in modulo 256: the carry
  flag is the ninth bit of the sum, the overflow flag says that the signed sum does not fit, the
  half carry is the carry out of bit 3 (left alone by the operations that do not affect it), and
  N and Z describe the result.\<close>
theorem add8_correct:
  "let (r, c') = add8 a b ci h c in
     unat r + (if get_flag CC_C c' then 256 else 0) = unat a + unat b + of_bool ci \<and>
     (get_flag CC_V c' \<longleftrightarrow> sint r \<noteq> sint a + sint b + of_bool ci) \<and>
     (get_flag CC_N c' \<longleftrightarrow> sint r < 0) \<and> (get_flag CC_Z c' \<longleftrightarrow> r = 0) \<and>
     (get_flag CC_H c' \<longleftrightarrow> (if h then 15 < unat a mod 16 + unat b mod 16 + of_bool ci
                                 else get_flag CC_H c))"
proof -
  have "unat (a + b + of_bool ci) = (unat a + unat b + of_bool ci) mod 256"
    by (cases ci) (simp_all add: unat_word_ariths mod_simps)
  moreover have "unat a + unat b + of_bool ci < 512"
    using unat8_less [of a] unat8_less [of b] by (cases ci) (simp_all del: unat8_less)
  ultimately have "unat (a + b + of_bool ci) + (if 255 < unat a + unat b + of_bool ci then 256 else 0)
      = unat a + unat b + of_bool ci"
    by (auto simp: mod_once_nat)
  then show ?thesis
    by (simp add: split_beta Let_def add8_facts unat_and_15)
qed

text \<open>The 16-bit subtractor computes the difference of its operands and the borrow modulo 65536:
  the carry flag is the borrow out, the overflow flag says that the signed difference does not
  fit, and N and Z describe the result.\<close>
theorem sub16_correct:
  "let (r, c') = sub16 a b ci c in
     unat r + unat b + of_bool ci = unat a + (if get_flag CC_C c' then 65536 else 0) \<and>
     (get_flag CC_V c' \<longleftrightarrow> sint r \<noteq> sint a - sint b - of_bool ci) \<and>
     (get_flag CC_N c' \<longleftrightarrow> sint r < 0) \<and> (get_flag CC_Z c' \<longleftrightarrow> r = 0)"
proof -
  have "uint (a - b - of_bool ci) = (if uint a - uint b - of_bool ci < 0
      then uint a - uint b - of_bool ci + 65536 else uint a - uint b - of_bool ci)"
    unfolding uint_sub16
    by (rule sub_borrow_value [OF uint16_bounds uint16_bounds]) (cases ci; simp)
  then have "int (unat (a - b - of_bool ci) + unat b + of_bool ci)
      = int (unat a + (if uint a - uint b - of_bool ci < 0 then 65536 else 0))"
    by (cases "uint a - uint b - of_bool ci < 0") simp_all
  then have "unat (a - b - of_bool ci) + unat b + of_bool ci
      = unat a + (if uint a - uint b - of_bool ci < 0 then 65536 else 0)"
    by (simp only: of_nat_eq_iff)
  then show ?thesis
    by (simp only: split_beta Let_def sub16_facts borrow_iff)
qed

text \<open>The branch conditions mean what the mnemonics say: after an 8-bit comparison, BHI, BLS, BHS
  and BLO branch on the unsigned order of the operands, BNE and BEQ on their difference, and BGE,
  BLT, BGT and BLE on their signed order, for all operands.\<close>
theorem cmp8_branches:
  "(test_condition 0x22 (cmp8 a b c) \<longleftrightarrow> b < a) \<and>
   (test_condition 0x23 (cmp8 a b c) \<longleftrightarrow> a \<le> b) \<and>
   (test_condition 0x24 (cmp8 a b c) \<longleftrightarrow> b \<le> a) \<and>
   (test_condition 0x25 (cmp8 a b c) \<longleftrightarrow> a < b) \<and>
   (test_condition 0x26 (cmp8 a b c) \<longleftrightarrow> a \<noteq> b) \<and>
   (test_condition 0x27 (cmp8 a b c) \<longleftrightarrow> a = b) \<and>
   (test_condition 0x2C (cmp8 a b c) \<longleftrightarrow> sint b \<le> sint a) \<and>
   (test_condition 0x2D (cmp8 a b c) \<longleftrightarrow> sint a < sint b) \<and>
   (test_condition 0x2E (cmp8 a b c) \<longleftrightarrow> sint b < sint a) \<and>
   (test_condition 0x2F (cmp8 a b c) \<longleftrightarrow> sint a \<le> sint b)"
  by (simp add: branch_after_compare [OF cmp8_flags])

text \<open>The same for the 16-bit comparison of CMPX, CMPD and the other 16-bit registers.\<close>
theorem cmp16_branches:
  "(test_condition 0x22 (cmp16 a b c) \<longleftrightarrow> b < a) \<and>
   (test_condition 0x23 (cmp16 a b c) \<longleftrightarrow> a \<le> b) \<and>
   (test_condition 0x24 (cmp16 a b c) \<longleftrightarrow> b \<le> a) \<and>
   (test_condition 0x25 (cmp16 a b c) \<longleftrightarrow> a < b) \<and>
   (test_condition 0x26 (cmp16 a b c) \<longleftrightarrow> a \<noteq> b) \<and>
   (test_condition 0x27 (cmp16 a b c) \<longleftrightarrow> a = b) \<and>
   (test_condition 0x2C (cmp16 a b c) \<longleftrightarrow> sint b \<le> sint a) \<and>
   (test_condition 0x2D (cmp16 a b c) \<longleftrightarrow> sint a < sint b) \<and>
   (test_condition 0x2E (cmp16 a b c) \<longleftrightarrow> sint b < sint a) \<and>
   (test_condition 0x2F (cmp16 a b c) \<longleftrightarrow> sint a \<le> sint b)"
  by (simp add: branch_after_compare [OF cmp16_flags])

section \<open>Decimal adjust\<close>

definition bcd :: "nat \<Rightarrow> u8" where
  "bcd n = word_of_nat (16 * (n div 10) + n mod 10)"

definition daa_value :: "u8 \<Rightarrow> bool \<Rightarrow> bool \<Rightarrow> u8 \<times> bool" where
  "daa_value a h cy =
    (let lo = a AND 0x0F; hi = drop_bit 4 a AND 0x0F;
         correction = (if h \<or> lo > 9 then 0x06 else 0);
         high = (cy \<or> hi > 9 \<or> (hi \<ge> 9 \<and> lo > 9))
     in (a + (if high then correction OR 0x60 else correction), high \<or> cy))"

lemma set_flag_regs [simp]:
  "r_a (set_flag b v c) = r_a c" "r_b (set_flag b v c) = r_b c" "r_e (set_flag b v c) = r_e c"
  "r_f (set_flag b v c) = r_f c" "r_dp (set_flag b v c) = r_dp c" "r_md (set_flag b v c) = r_md c"
  "r_pc (set_flag b v c) = r_pc c" "r_x (set_flag b v c) = r_x c" "r_y (set_flag b v c) = r_y c"
  "r_u (set_flag b v c) = r_u c" "r_s (set_flag b v c) = r_s c" "r_v (set_flag b v c) = r_v c"
  "reg_d (set_flag b v c) = reg_d c" "reg_w (set_flag b v c) = reg_w c" "reg_q (set_flag b v c) = reg_q c"
  by (simp_all add: set_flag_def reg_d_def reg_w_def reg_q_def)

lemma set_nz_regs [simp]:
  "r_a (set_nz8 w c) = r_a c" "r_b (set_nz8 w c) = r_b c" "reg_d (set_nz8 w c) = reg_d c"
  "r_a (set_nz16 v c) = r_a c" "r_b (set_nz16 v c) = r_b c" "reg_d (set_nz16 v c) = reg_d c"
  "reg_w (set_nz16 v c) = reg_w c" "reg_w (set_nz8 w c) = reg_w c" 
  by (simp_all add: set_nz8_def set_nz16_def)

lemma get_flag_upd [simp]:
  "get_flag b (c\<lparr>r_a := v\<rparr>) = get_flag b c" "get_flag b (c\<lparr>r_b := v\<rparr>) = get_flag b c"
  "get_flag b (set_d w c) = get_flag b c" "get_flag b (set_w w c) = get_flag b c"
  "get_flag b (set_q q c) = get_flag b c"
  by (simp_all add: get_flag_def set_d_def set_w_def set_q_def)

lemma do_daa_value:
  "r_a (do_daa c) = fst (daa_value (r_a c) (get_flag CC_H c) (get_flag CC_C c))"
  "get_flag CC_C (do_daa c) = snd (daa_value (r_a c) (get_flag CC_H c) (get_flag CC_C c))"
  by (simp_all add: do_daa_def daa_value_def Let_def)

text \<open>The correction on a digit sum, in integer arithmetic: \<open>H\<close> is the sum of the tens digits, \<open>L\<close> the
  sum of the ones digits and the carry in.\<close>

definition daa_case :: "int \<Rightarrow> int \<Rightarrow> bool" where
  "daa_case H L =
    (let u = (16 * H + L) mod 256; lo = u mod 16; hi = u div 16; s = 10 * H + L; d = s mod 100;
         high = (255 < 16 * H + L \<or> hi > 9 \<or> (hi \<ge> 9 \<and> lo > 9)) in
     (u + ((if 15 < L \<or> lo > 9 then 6 else 0) + (if high then 96 else 0))) mod 256
       = (16 * (d div 10) + d mod 10) mod 256 \<and>
     (high \<longleftrightarrow> 100 \<le> s))"

lemma daa_cases:
  assumes "0 \<le> H" "H \<le> 18" "0 \<le> L" "L \<le> 19"
  shows "daa_case H L"
proof -
  define q where "q = (if 16 \<le> L then H + 1 else H)"
  define l where "l = (if 16 \<le> L then L - 16 else L)"
  define q' where "q' = (if 16 \<le> q then q - 16 else q)"
  define T where "T = (if 10 \<le> L then H + 1 else H)"
  define o' where "o' = (if 10 \<le> L then L - 10 else L)"
  define t where "t = (if 10 \<le> T then T - 10 else T)"
  note defs = q_def l_def q'_def T_def o'_def t_def
  have 1: "(16 * H + L) mod 256 = 16 * q' + l"
    using assms by (subst mod_once) (auto simp: defs)
  have 2: "(16 * q' + l) mod 16 = l" "(16 * q' + l) div 16 = q'"
    using assms by (auto simp: defs)
  have 3: "(10 * H + L) mod 100 = 10 * t + o'"
    using assms by (subst mod_once) (auto simp: defs)
  have 4: "(10 * t + o') mod 10 = o'" "(10 * t + o') div 10 = t"
    using assms by (auto simp: defs)
  have 5: "(16 * t + o') mod 256 = 16 * t + o'"
    using assms by (intro mod_pos_pos_trivial) (auto simp: defs)
  have 6: "(255 < 16 * H + L \<or> q' > 9 \<or> (q' \<ge> 9 \<and> l > 9)) = (100 \<le> 10 * H + L)"
    using assms by (auto simp: defs split: if_splits)
  have 7: "(16 * q' + l + ((if 15 < L \<or> l > 9 then 6 else 0) + (if 100 \<le> 10 * H + L then 96 else 0))) mod 256 = 16 * t + o'"
    using assms by (subst mod_once) (auto simp: defs split: if_splits)
  show ?thesis
    unfolding daa_case_def Let_def 1 2 3 4 5 6 7 by simp
qed

lemma unat_bcd: "z \<le> 99 \<Longrightarrow> unat (bcd z) = 16 * (z div 10) + z mod 10"
  unfolding bcd_def by (subst unsigned_of_nat) (simp add: take_bit_nat_eq_self)

lemma uint_and_15: "uint (x AND 0xF :: u8) = uint x mod 16"
  by (metis of_nat_unat unat_and_15 of_nat_mod of_nat_numeral)

lemma uint_drop_4: "uint (drop_bit 4 x :: u8) = uint x div 16"
  by (simp add: drop_bit_eq_div uint_div)

lemma daa_value_uint:
  "uint (fst (daa_value a h cy)) = (uint a + ((if h \<or> 9 < uint a mod 16 then 6 else 0) +
      (if cy \<or> 9 < uint a div 16 \<or> (9 \<le> uint a div 16 \<and> 9 < uint a mod 16) then 96 else 0))) mod 256"
  "snd (daa_value a h cy) \<longleftrightarrow> cy \<or> 9 < uint a div 16 \<or> (9 \<le> uint a div 16 \<and> 9 < uint a mod 16)"
proof -
  have "uint a div 16 mod 16 = uint a div 16"
    using uint8_bounds [of a] by (intro mod_pos_pos_trivial) (auto simp: div_int_pos_iff)
  then show "uint (fst (daa_value a h cy)) = (uint a + ((if h \<or> 9 < uint a mod 16 then 6 else 0) +
      (if cy \<or> 9 < uint a div 16 \<or> (9 \<le> uint a div 16 \<and> 9 < uint a mod 16) then 96 else 0))) mod 256"
    "snd (daa_value a h cy) \<longleftrightarrow> cy \<or> 9 < uint a div 16 \<or> (9 \<le> uint a div 16 \<and> 9 < uint a mod 16)"
    by (auto simp: daa_value_def Let_def word_less_def word_le_def uint_and_15 uint_drop_4 uint_word_ariths)
qed

lemma daa_digits:
  assumes "H \<le> 18" "L \<le> 19"
  shows "daa_value (word_of_nat (16 * H + L)) (15 < L) (255 < 16 * H + L)
       = (bcd ((10 * H + L) mod 100), 100 \<le> 10 * H + L)"
proof -
  define a :: u8 where "a = word_of_nat (16 * H + L)"
  have a: "uint a = (16 * int H + int L) mod 256"
    unfolding a_def
    by (simp add: unsigned_of_nat take_bit_eq_mod zmod_int del: of_nat_add of_nat_mult) simp
  have b: "uint (bcd ((10 * H + L) mod 100))
      = (16 * ((10 * int H + int L) mod 100 div 10) + (10 * int H + int L) mod 100 mod 10) mod 256"
    by (simp add: bcd_def unsigned_of_nat take_bit_eq_mod zmod_int del: of_nat_add of_nat_mult)
      (simp add: zmod_int zdiv_int)
  have c: "(15 < int L) = (15 < L)" "(255 < 16 * int H + int L) = (255 < 16 * H + L)"
    "(100 \<le> 10 * int H + int L) = (100 \<le> 10 * H + L)"
    by presburger+
  have d: "daa_case (int H) (int L)"
    using assms by (intro daa_cases) simp_all
  have e: "uint (fst (daa_value a (15 < L) (255 < 16 * H + L))) = uint (bcd ((10 * H + L) mod 100))"
    "snd (daa_value a (15 < L) (255 < 16 * H + L)) = (100 \<le> 10 * H + L)"
    using d unfolding daa_value_uint daa_case_def Let_def a b c by (rule conjunct1, rule conjunct2)
  show ?thesis
    using e unfolding a_def [symmetric] by (simp only: prod_eq_iff word_uint_eq_iff fst_conv snd_conv simp_thms)
qed

text \<open>C36. DAA after ADDA or ADCA of two packed BCD bytes leaves the packed BCD of their decimal sum
  modulo 100 in A and the decimal carry in the carry flag.\<close>
theorem daa_corrects_bcd_sum:
  assumes "x \<le> 99" "y \<le> 99"
  shows "let (r, c1) = add8 (bcd x) (bcd y) ci True c; c2 = do_daa (c1\<lparr>r_a := r\<rparr>) in
    r_a c2 = bcd ((x + y + of_bool ci) mod 100) \<and>
    (get_flag CC_C c2 \<longleftrightarrow> 100 \<le> x + y + of_bool ci)"
proof -
  let ?H = "x div 10 + y div 10" and ?L = "x mod 10 + y mod 10 + of_bool ci"
  have HL: "?H \<le> 18" "?L \<le> 19"
    using assms by (cases ci; simp; presburger)+
  have sum: "unat (bcd x) + unat (bcd y) + of_bool ci = 16 * ?H + ?L"
    using assms by (simp add: unat_bcd)
  have low: "unat (bcd x) mod 16 + unat (bcd y) mod 16 + of_bool ci = ?L"
    using assms by (simp add: unat_bcd)
  have val: "bcd x + bcd y + of_bool ci = word_of_nat (16 * ?H + ?L)"
    by (simp add: bcd_def algebra_simps)
  have dec: "x + y + of_bool ci = 10 * ?H + ?L"
    by simp
  show ?thesis
    unfolding dec using daa_digits [OF HL]
    by (simp only: split_beta Let_def do_daa_value get_flag_upd add8_facts unat_and_15 sum low val if_True) simp
qed

theorem daa_corrects_bcd_sum_witness:
  "r_a (do_daa ((snd (add8 (bcd 47) (bcd 85) False True Regs0))\<lparr>r_a := fst (add8 (bcd 47) (bcd 85) False True Regs0)\<rparr>))
    = bcd 32"
  using daa_corrects_bcd_sum [of 47 85 False Regs0] by (simp add: split_beta Let_def)

section \<open>Multiplication and division\<close>
lemma sint16_range: "- 32768 \<le> sint (x :: u16)" "sint (x :: u16) < 32768"
  using sint_range_size [of x] by (simp_all add: word_size)

lemma sint8_range: "- 128 \<le> sint (x :: u8)" "sint (x :: u8) < 128"
  using sint_range_size [of x] by (simp_all add: word_size)

lemma sint_word_of_int: "- 2147483648 \<le> k \<Longrightarrow> k < 2147483648 \<Longrightarrow> sint (word_of_int k :: u32) = k"
  "- 32768 \<le> k \<Longrightarrow> k < 32768 \<Longrightarrow> sint (word_of_int k :: u16) = k"
  "- 128 \<le> k \<Longrightarrow> k < 128 \<Longrightarrow> sint (word_of_int k :: u8) = k"
  by (simp_all add: int_word_sint mod_pos_pos_trivial)

lemma mult16_range: "- 2147483648 \<le> sint a * sint (b :: u16)" "sint (a :: u16) * sint b < 2147483648"
proof -
  have "\<bar>sint a\<bar> \<le> 32768" "\<bar>sint b\<bar> \<le> 32768"
    using sint16_range [of a] sint16_range [of b] by simp_all
  then have "\<bar>sint a * sint b\<bar> \<le> 32768 * 32768"
    unfolding abs_mult by (rule mult_mono) simp_all
  then show "- 2147483648 \<le> sint a * sint b" "sint a * sint b < 2147483648" by simp_all
qed

text \<open>MULD is the exact signed 16 by 16 to 32 bit product of D and the operand, in Q, with N and Z
  from the product and V and C clear.\<close>
theorem muld_correct:
  "let c' = do_muld m c in
     sint (reg_q c') = sint (reg_d c) * sint m \<and>
     (get_flag CC_N c' \<longleftrightarrow> sint (reg_d c) * sint m < 0) \<and>
     (get_flag CC_Z c' \<longleftrightarrow> sint (reg_d c) * sint m = 0) \<and>
     \<not> get_flag CC_V c' \<and> \<not> get_flag CC_C c'"
  using mult16_range [of "reg_d c" m]
  by (simp only: do_muld_def Let_def set_flag_regs reg_q_set_q sint_word_of_int get_flag_same get_flag_other) simp

text \<open>C37. DIVD by a non-zero divisor is signed division truncating towards zero: the remainder in A is
  exact, smaller than the divisor, and dividend = quotient * divisor + remainder; V is set exactly
  when the quotient does not fit in B.\<close>
theorem divd_correct:
  assumes "v \<noteq> 0"
  shows "let c' = divd_result v c; q = sint (reg_d c) sdiv sint v in
     (get_flag CC_V c' \<longleftrightarrow> sint (r_b c') \<noteq> q) \<and>
     sint (reg_d c) = q * sint v + sint (r_a c') \<and>
     \<bar>sint (r_a c')\<bar> < \<bar>sint v\<bar> \<and>
     (get_flag CC_N c' \<longleftrightarrow> sint (r_b c') < 0) \<and> (get_flag CC_Z c' \<longleftrightarrow> r_b c' = 0) \<and>
     \<not> get_flag CC_C c'"
proof -
  have v: "sint v \<noteq> 0" using assms sint_eq_iff [of v 0] by simp
  let ?q = "sint (reg_d c) sdiv sint v" and ?r = "sint (reg_d c) smod sint v"
  have r: "\<bar>?r\<bar> < \<bar>sint v\<bar>" using smod_int_range [OF v, of "sint (reg_d c)"] by auto
  then have r': "sint (word_of_int ?r :: u8) = ?r"
    using sint8_range [of v] by (intro sint_word_of_int) auto
  have q: "(?q < - 128 \<or> 127 < ?q) \<longleftrightarrow> sint (word_of_int ?q :: u8) \<noteq> ?q"
    using sint_word_of_int(3) [of ?q] sint8_range [of "word_of_int ?q :: u8"] by force
  show ?thesis
    using r r' q sdiv_mult_smod_eq [of "sint (reg_d c)" "sint v"]
    by (simp add: divd_result_def Let_def)
qed

theorem divd_correct_witness:
  "sint (r_b (divd_result 7 (Regs0\<lparr>r_b := 100\<rparr>))) = 14 \<and> r_a (divd_result 7 (Regs0\<lparr>r_b := 100\<rparr>)) = 2"
proof -
  have d: "sint (reg_d (Regs0\<lparr>r_b := 100\<rparr>)) = 100" by code_simp
  have q: "(100 :: int) sdiv 7 = 14" by code_simp
  have v: "\<not> get_flag CC_V (divd_result 7 (Regs0\<lparr>r_b := 100\<rparr>))" by code_simp
  have s: "sint (7 :: u8) = 7" by code_simp
  have "sint (r_a (divd_result 7 (Regs0\<lparr>r_b := 100\<rparr>))) = sint (2 :: u8) \<and>
      sint (r_b (divd_result 7 (Regs0\<lparr>r_b := 100\<rparr>))) = 14"
    using divd_correct [of 7 "Regs0\<lparr>r_b := 100\<rparr>"] v by (simp add: Let_def d q s)
  then show ?thesis by (simp only: sint_eq_iff simp_thms)
qed

text \<open>DIVQ by a non-zero divisor is signed division of Q truncating towards zero, with the exact
  remainder in W, and V set exactly when the quotient does not fit in D.\<close>
theorem divq_correct:
  assumes "v \<noteq> 0"
  shows "let c' = divq_result v c; q = sint (reg_q c) sdiv sint v in
     (get_flag CC_V c' \<longleftrightarrow> sint (reg_d c') \<noteq> q) \<and>
     sint (reg_q c) = q * sint v + sint (reg_w c') \<and>
     \<bar>sint (reg_w c')\<bar> < \<bar>sint v\<bar> \<and>
     (get_flag CC_N c' \<longleftrightarrow> sint (reg_d c') < 0) \<and> (get_flag CC_Z c' \<longleftrightarrow> reg_d c' = 0) \<and>
     \<not> get_flag CC_C c'"
proof -
  have v: "sint v \<noteq> 0" using assms sint_eq_iff [of v 0] by simp
  let ?q = "sint (reg_q c) sdiv sint v" and ?r = "sint (reg_q c) smod sint v"
  have r: "\<bar>?r\<bar> < \<bar>sint v\<bar>" using smod_int_range [OF v, of "sint (reg_q c)"] by auto
  then have r': "sint (word_of_int ?r :: u16) = ?r"
    using sint16_range [of v] by (intro sint_word_of_int) auto
  have q: "(?q < - 32768 \<or> 32767 < ?q) \<longleftrightarrow> sint (word_of_int ?q :: u16) \<noteq> ?q"
    using sint_word_of_int(2) [of ?q] sint16_range [of "word_of_int ?q :: u16"] by force
  show ?thesis
    using r r' q sdiv_mult_smod_eq [of "sint (reg_q c)" "sint v"]
    by (simp add: divq_result_def Let_def)
qed

theorem divq_correct_witness:
  "sint (reg_w (divq_result 7 (set_q 100 Regs0))) = 2"
proof -
  have q: "(100 :: int) sdiv 7 = 14" by code_simp
  have s: "sint (7 :: u16) = 7" "sint (100 :: u32) = 100" by code_simp+
  show ?thesis
    using divq_correct [of 7 "set_q 100 Regs0"] by (simp add: Let_def q s)
qed

end
