(* ===== verification/Cpu.thy ===== *)
theory Cpu
  imports Alu "HOL-Library.State_Monad"
begin

text \<open>
  The CPU object of \<^verbatim>\<open>simulator/src/hd6309_core.hpp\<close> and the methods of \<^verbatim>\<open>hd6309_core.cpp\<close> that use
  the bus: memory access and instruction fetch, addressing modes, the stacks, TFR/EXG, TFM, the bit
  instructions, division with its trap, interrupt entry and interrupt service, reset. A method
  is an action of the state monad over the record \<open>CPU\<close>; the record extends the register file by
  the remaining members of the class. The bus is the pair of callbacks and the context pointer the
  object was created with: the pointee of the context is the value \<open>bus_ctx\<close>, which the callbacks
  return updated.
\<close>

unbundle bit_operations_syntax

section \<open>State\<close>

record 'm CPU = regs +
  read_fn :: "'m \<Rightarrow> u16 \<Rightarrow> u8 \<times> 'm"
  write_fn :: "'m \<Rightarrow> u16 \<Rightarrow> u8 \<Rightarrow> 'm"
  bus_ctx :: 'm
  irq_line :: bool
  firq_line :: bool
  nmi_pending :: bool
  wait_sync :: bool
  halted :: bool
  cwai_pushed_pending :: bool
  total_cycles :: u64
  stop_reason :: StopReason
  breakpoints :: "(int \<times> u16) list"
  next_bp_id :: int
  cycles :: nat
  insn_pc :: u16
  host_ub :: bool

text \<open>\<open>host_ub\<close> is not a member of the class: it records that the C++ evaluated an expression whose
  behaviour the language standard leaves undefined (the signed division overflow of \<open>do_divq\<close>).\<close>

type_synonym ('m, 'a) cpu_op = "('m CPU, 'a) state"

abbreviation return :: "'a \<Rightarrow> ('s, 'a) state" where
  "return \<equiv> State_Monad.return"

definition gets :: "('s \<Rightarrow> 'a) \<Rightarrow> ('s, 'a) state" where
  "gets f = State (\<lambda>c. (f c, c))"

definition modify :: "('s \<Rightarrow> 's) \<Rightarrow> ('s, unit) state" where
  "modify f = State (\<lambda>c. ((), f c))"

definition only_if :: "bool \<Rightarrow> ('s, unit) state \<Rightarrow> ('s, unit) state" where
  "only_if b m = (if b then m else return ())"

definition native :: "'z regs_scheme \<Rightarrow> bool" where
  "native c \<longleftrightarrow> r_md c AND MD_NATIVE \<noteq> 0"

text \<open>\<^verbatim>\<open>cycles_ += n\<close> and \<^verbatim>\<open>cycles_ += native() ? nm : em\<close>.\<close>

definition tick :: "nat \<Rightarrow> ('m, unit) cpu_op" where
  "tick n = modify (\<lambda>c. c\<lparr>cycles := cycles c + n\<rparr>)"

definition tick_mode :: "nat \<Rightarrow> nat \<Rightarrow> ('m, unit) cpu_op" where
  "tick_mode em nm = do { n \<leftarrow> gets native; tick (if n then nm else em) }"

section \<open>Memory and instruction fetch\<close>

definition read8 :: "u16 \<Rightarrow> ('m, u8) cpu_op" where
  "read8 a = State (\<lambda>c. case read_fn c (bus_ctx c) a of (v, m) \<Rightarrow> (v, c\<lparr>bus_ctx := m\<rparr>))"

definition write8 :: "u16 \<Rightarrow> u8 \<Rightarrow> ('m, unit) cpu_op" where
  "write8 a v = modify (\<lambda>c. c\<lparr>bus_ctx := write_fn c (bus_ctx c) a v\<rparr>)"

definition read16 :: "u16 \<Rightarrow> ('m, u16) cpu_op" where
  "read16 a = do { hi \<leftarrow> read8 a; lo \<leftarrow> read8 (a + 1); return (mk16 hi lo) }"

definition write16 :: "u16 \<Rightarrow> u16 \<Rightarrow> ('m, unit) cpu_op" where
  "write16 a v = do { write8 a (hi8 v); write8 (a + 1) (lo8 v) }"

definition fetch8 :: "('m, u8) cpu_op" where
  "fetch8 = do { pc \<leftarrow> gets r_pc; v \<leftarrow> read8 pc; modify (\<lambda>c. c\<lparr>r_pc := r_pc c + 1\<rparr>); return v }"

definition fetch16 :: "('m, u16) cpu_op" where
  "fetch16 = do { hi \<leftarrow> fetch8; lo \<leftarrow> fetch8; return (mk16 hi lo) }"

section \<open>Addressing modes\<close>

definition ea_direct :: "('m, u16) cpu_op" where
  "ea_direct = do { dp \<leftarrow> gets r_dp; lo \<leftarrow> fetch8; return (mk16 dp lo) }"

definition ea_extended :: "('m, u16) cpu_op" where
  "ea_extended = fetch16"

text \<open>Relative offsets are used only as addends to a \<^verbatim>\<open>uint16_t\<close>: the signed offset is given as its
  residue modulo $2^{16}$.\<close>

definition rel8 :: "('m, u16) cpu_op" where
  "rel8 = do { v \<leftarrow> fetch8; return (sext8 v) }"

definition rel16 :: "('m, u16) cpu_op" where
  "rel16 = fetch16"

definition idx_em :: "int list" where
  "idx_em = [2, 3, 2, 3, 0, 1, 1, 1, 1, 4, 1, 4, 1, 5, 4, -1]"

definition idx_nm :: "int list" where
  "idx_nm = [1, 2, 1, 2, 0, 1, 1, 1, 1, 3, 1, 2, 1, 3, 1, -1]"

definition indir_em :: "int list" where
  "indir_em = [-1, 6, -1, 6, 3, 4, 4, 1, 4, 7, 1, 4, 4, 8, 4, 5]"

definition indir_nm :: "int list" where
  "indir_nm = [-1, 6, -1, 6, 3, 4, 4, 1, 4, 7, 1, 4, 4, 8, 4, 5]"

definition indexed_extra_cycles :: "u8 \<Rightarrow> 'z regs_scheme \<Rightarrow> nat" where
  "indexed_extra_cycles pb c =
    (if pb AND 0x80 = 0 then 1
     else if pb = 0x8F then 0
     else if pb = 0xAF then 2
     else if pb = 0xCF \<or> pb = 0xEF then 1
     else if pb = 0x90 then 3
     else if pb = 0xB0 then 5
     else if pb = 0xD0 \<or> pb = 0xF0 then 4
     else
       let ssss = unat (pb AND 0x0F);
           indirect = (pb AND 0x10 \<noteq> 0);
           nm = native c;
           v = (if indirect then (if nm then indir_nm ! ssss else indir_em ! ssss)
                else (if nm then idx_nm ! ssss else idx_em ! ssss))
       in if v < 0 then 0 else nat v)"

definition rlist_extra_cycles :: "u8 \<Rightarrow> nat" where
  "rlist_extra_cycles pb = (\<Sum>i\<leftarrow>[0..<8]. if bit pb i then (if i \<le> 3 then 1 else 2) else 0)"

definition regs4 :: "u8 \<Rightarrow> reg16" where
  "regs4 pb = [RegX, RegY, RegU, RegS] ! unat (drop_bit 5 pb AND 3)"

definition ea_indexed :: "('m, u16) cpu_op" where
  "ea_indexed = do {
     pb \<leftarrow> fetch8;
     extra \<leftarrow> gets (indexed_extra_cycles pb);
     tick extra;
     let rp = regs4 pb;
     if pb AND 0x80 = 0 then do {
       let off5 = uint (pb AND 0x1F);
       let off5 = (if pb AND 0x10 \<noteq> 0 then off5 - 32 else off5);
       r \<leftarrow> gets (get16 rp);
       return (r + word_of_int off5)
     }
     else if pb = 0x8F then gets reg_w
     else if pb = 0xAF then do { off \<leftarrow> fetch16; w \<leftarrow> gets reg_w; return (w + off) }
     else if pb = 0xCF then do { v \<leftarrow> gets reg_w; modify (set_w (v + 2)); return v }
     else if pb = 0xEF then do { w \<leftarrow> gets reg_w; let v = w - 2; modify (set_w v); return v }
     else if pb = 0x90 then do { w \<leftarrow> gets reg_w; read16 w }
     else if pb = 0xB0 then do { off \<leftarrow> fetch16; w \<leftarrow> gets reg_w; read16 (w + off) }
     else if pb = 0xD0 then do { v \<leftarrow> gets reg_w; modify (set_w (v + 2)); read16 v }
     else if pb = 0xF0 then do { w \<leftarrow> gets reg_w; let v = w - 2; modify (set_w v); read16 v }
     else do {
       let indirect = (pb AND 0x10 \<noteq> 0);
       let ssss = pb AND 0x0F;
       r \<leftarrow> gets (get16 rp);
       addr \<leftarrow>
         (if ssss = 0x0 then do { modify (set16 rp (r + 1)); return r }
          else if ssss = 0x1 then do { modify (set16 rp (r + 2)); return r }
          else if ssss = 0x2 then do { modify (set16 rp (r - 1)); return (r - 1) }
          else if ssss = 0x3 then do { modify (set16 rp (r - 2)); return (r - 2) }
          else if ssss = 0x4 then return r
          else if ssss = 0x5 then do { v \<leftarrow> gets r_b; return (r + sext8 v) }
          else if ssss = 0x6 then do { v \<leftarrow> gets r_a; return (r + sext8 v) }
          else if ssss = 0x7 then do { v \<leftarrow> gets r_e; return (r + sext8 v) }
          else if ssss = 0x8 then do { off \<leftarrow> fetch8; return (r + sext8 off) }
          else if ssss = 0x9 then do { off \<leftarrow> fetch16; return (r + off) }
          else if ssss = 0xA then do { v \<leftarrow> gets r_f; return (r + sext8 v) }
          else if ssss = 0xB then do { v \<leftarrow> gets reg_d; return (r + v) }
          else if ssss = 0xC then do { off \<leftarrow> fetch8; pc \<leftarrow> gets r_pc; return (pc + sext8 off) }
          else if ssss = 0xD then do { off \<leftarrow> fetch16; pc \<leftarrow> gets r_pc; return (pc + off) }
          else if ssss = 0xE then do { v \<leftarrow> gets reg_w; return (r + v) }
          else fetch16);
       if indirect then read16 addr else return addr
     }
   }"

section \<open>Stacks\<close>

definition push8 :: "reg16 \<Rightarrow> u8 \<Rightarrow> ('m, unit) cpu_op" where
  "push8 sp v = do {
     modify (\<lambda>c. set16 sp (get16 sp c - 1) c);
     a \<leftarrow> gets (get16 sp);
     write8 a v
   }"

definition pull8 :: "reg16 \<Rightarrow> ('m, u8) cpu_op" where
  "pull8 sp = do {
     a \<leftarrow> gets (get16 sp);
     v \<leftarrow> read8 a;
     modify (\<lambda>c. set16 sp (get16 sp c + 1) c);
     return v
   }"

definition push16 :: "reg16 \<Rightarrow> u16 \<Rightarrow> ('m, unit) cpu_op" where
  "push16 sp v = do { push8 sp (lo8 v); push8 sp (hi8 v) }"

definition pull16 :: "reg16 \<Rightarrow> ('m, u16) cpu_op" where
  "pull16 sp = do { hi \<leftarrow> pull8 sp; lo \<leftarrow> pull8 sp; return (mk16 hi lo) }"

text \<open>Pushing the current value of a register, and pulling into one.\<close>

definition push8_of :: "reg16 \<Rightarrow> ('m CPU \<Rightarrow> u8) \<Rightarrow> ('m, unit) cpu_op" where
  "push8_of sp f = do { v \<leftarrow> gets f; push8 sp v }"

definition push16_of :: "reg16 \<Rightarrow> ('m CPU \<Rightarrow> u16) \<Rightarrow> ('m, unit) cpu_op" where
  "push16_of sp f = do { v \<leftarrow> gets f; push16 sp v }"

definition pull8_to :: "reg16 \<Rightarrow> (u8 \<Rightarrow> 'm CPU \<Rightarrow> 'm CPU) \<Rightarrow> ('m, unit) cpu_op" where
  "pull8_to sp g = do { v \<leftarrow> pull8 sp; modify (g v) }"

definition pull16_to :: "reg16 \<Rightarrow> (u16 \<Rightarrow> 'm CPU \<Rightarrow> 'm CPU) \<Rightarrow> ('m, unit) cpu_op" where
  "pull16_to sp g = do { v \<leftarrow> pull16 sp; modify (g v) }"

section \<open>Interrupt entry\<close>

definition VEC_TRAP :: u16 where "VEC_TRAP = 0xFFF0"
definition VEC_SWI3 :: u16 where "VEC_SWI3 = 0xFFF2"
definition VEC_SWI2 :: u16 where "VEC_SWI2 = 0xFFF4"
definition VEC_FIRQ :: u16 where "VEC_FIRQ = 0xFFF6"
definition VEC_IRQ :: u16 where "VEC_IRQ = 0xFFF8"
definition VEC_SWI :: u16 where "VEC_SWI = 0xFFFA"
definition VEC_NMI :: u16 where "VEC_NMI = 0xFFFC"
definition VEC_RESET :: u16 where "VEC_RESET = 0xFFFE"

definition push_full_set :: "('m, unit) cpu_op" where
  "push_full_set = do {
     modify (set_flag CC_E True);
     push16_of RegS r_pc;
     push16_of RegS r_u;
     push16_of RegS r_y;
     push16_of RegS r_x;
     push8_of RegS r_dp;
     nm \<leftarrow> gets native;
     only_if nm (do { push8_of RegS r_f; push8_of RegS r_e });
     push8_of RegS r_b;
     push8_of RegS r_a;
     push8_of RegS r_cc
   }"

definition push_partial_set :: "('m, unit) cpu_op" where
  "push_partial_set = do {
     modify (set_flag CC_E False);
     push16_of RegS r_pc;
     push8_of RegS r_cc
   }"

definition enter_interrupt :: "u16 \<Rightarrow> u8 \<Rightarrow> bool \<Rightarrow> ('m, unit) cpu_op" where
  "enter_interrupt vector cc_set_mask full_stack = do {
     skip_push \<leftarrow> gets cwai_pushed_pending;
     modify (\<lambda>c. c\<lparr>cwai_pushed_pending := False\<rparr>);
     only_if (\<not> skip_push) (if full_stack then push_full_set else push_partial_set);
     modify (\<lambda>c. c\<lparr>r_cc := r_cc c OR cc_set_mask\<rparr>);
     pc \<leftarrow> read16 vector;
     modify (\<lambda>c. c\<lparr>r_pc := pc\<rparr>)
   }"

definition illegal_opcode_trap :: "('m, unit) cpu_op" where
  "illegal_opcode_trap = do {
     modify (\<lambda>c. c\<lparr>r_md := r_md c OR MD_ILLEGAL\<rparr>);
     enter_interrupt VEC_TRAP (CC_I OR CC_F) True;
     modify (\<lambda>c. c\<lparr>stop_reason := IllegalOpcodeTrap\<rparr>);
     tick_mode 19 21
   }"

definition division_by_zero_trap :: "('m, unit) cpu_op" where
  "division_by_zero_trap = do {
     modify (\<lambda>c. c\<lparr>r_md := r_md c OR MD_DIVZERO\<rparr>);
     enter_interrupt VEC_TRAP (CC_I OR CC_F) True;
     modify (\<lambda>c. c\<lparr>stop_reason := IllegalOpcodeTrap\<rparr>);
     tick_mode 19 21
   }"

definition service_interrupts :: "('m, bool) cpu_op" where
  "service_interrupts = do {
     c \<leftarrow> gets id;
     if nmi_pending c then do {
       modify (\<lambda>c. c\<lparr>nmi_pending := False\<rparr>);
       modify (\<lambda>c. c\<lparr>wait_sync := False\<rparr>);
       enter_interrupt VEC_NMI (CC_I OR CC_F) True;
       tick_mode 19 21;
       return True
     }
     else if firq_line c \<and> \<not> get_flag CC_F c then do {
       modify (\<lambda>c. c\<lparr>wait_sync := False\<rparr>);
       let full = (r_md c AND MD_FIRQ_NATIVE \<noteq> 0);
       enter_interrupt VEC_FIRQ (CC_I OR CC_F) full;
       (if full then tick_mode 19 21 else tick_mode 10 8);
       return True
     }
     else if irq_line c \<and> \<not> get_flag CC_I c then do {
       modify (\<lambda>c. c\<lparr>wait_sync := False\<rparr>);
       enter_interrupt VEC_IRQ CC_I True;
       tick_mode 19 21;
       return True
     }
     else return False
   }"

section \<open>Block transfers and other helpers of the opcodes\<close>

definition do_tfr_exg :: "u8 \<Rightarrow> bool \<Rightarrow> 'z regs_scheme \<Rightarrow> 'z regs_scheme" where
  "do_tfr_exg postbyte is_exg c =
    (let src = drop_bit 4 postbyte AND 0xF;
         dst = postbyte AND 0xF;
         sv = get_reg_by_code src c
     in if is_exg
        then let dv = get_reg_by_code dst c in set_reg_by_code src dv (set_reg_by_code dst sv c)
        else set_reg_by_code dst sv c)"

text \<open>The three conditions under which the loop of \<^verbatim>\<open>do_tfm\<close> yields, and \<open>service_interrupts\<close> takes an
  interrupt.\<close>

definition interrupt_due :: "'m CPU \<Rightarrow> bool" where
  "interrupt_due c \<longleftrightarrow> nmi_pending c \<or> (firq_line c \<and> \<not> get_flag CC_F c) \<or> (irq_line c \<and> \<not> get_flag CC_I c)"

primrec tfm_loop :: "u8 \<Rightarrow> u8 \<Rightarrow> u16 \<Rightarrow> u16 \<Rightarrow> nat \<Rightarrow> u16 \<Rightarrow> u16 \<Rightarrow> ('m, bool) cpu_op" where
  "tfm_loop src dst src_step dst_step 0 sp dp = return False"
| "tfm_loop src dst src_step dst_step (Suc count) sp dp = do {
     v \<leftarrow> read8 sp;
     write8 dp v;
     let sp = sp + src_step;
     let dp = dp + dst_step;
     tick 3;
     modify (set_reg_by_code src sp);
     modify (set_reg_by_code dst dp);
     modify (set_w (word_of_nat count));
     due \<leftarrow> gets interrupt_due;
     if count \<noteq> 0 \<and> due then return True
     else tfm_loop src dst src_step dst_step count sp dp
   }"

definition tfm_steps :: "u16 \<Rightarrow> u16 \<times> u16" where
  "tfm_steps opcode =
    (if opcode = 0x1138 then (1, 1)
     else if opcode = 0x1139 then (-1, -1)
     else if opcode = 0x113A then (1, 0)
     else if opcode = 0x113B then (0, 1)
     else (0, 0))"

definition do_tfm :: "u16 \<Rightarrow> ('m, unit) cpu_op" where
  "do_tfm opcode = do {
     pb \<leftarrow> fetch8;
     let src = drop_bit 4 pb AND 0xF;
     let dst = pb AND 0xF;
     sp \<leftarrow> gets (get_reg_by_code src);
     dp \<leftarrow> gets (get_reg_by_code dst);
     let src_step = fst (tfm_steps opcode);
     let dst_step = snd (tfm_steps opcode);
     count \<leftarrow> gets reg_w;
     tick 6;
     interrupted \<leftarrow> tfm_loop src dst src_step dst_step (unat count) sp dp;
     only_if interrupted (modify (\<lambda>c. c\<lparr>r_pc := insn_pc c\<rparr>))
   }"

text \<open>The register a bit instruction names: \<^verbatim>\<open>reg_sel\<close> 0 and 3 select CC.\<close>

definition bitbit_reg :: "u8 \<Rightarrow> 'z regs_scheme \<Rightarrow> u8" where
  "bitbit_reg reg_sel c = (if reg_sel = 1 then r_a c else if reg_sel = 2 then r_b c else r_cc c)"

definition set_bitbit_reg :: "u8 \<Rightarrow> u8 \<Rightarrow> 'z regs_scheme \<Rightarrow> 'z regs_scheme" where
  "set_bitbit_reg reg_sel v c =
    (if reg_sel = 1 then c\<lparr>r_a := v\<rparr> else if reg_sel = 2 then c\<lparr>r_b := v\<rparr> else c\<lparr>r_cc := v\<rparr>)"

definition put_bit :: "u8 \<Rightarrow> nat \<Rightarrow> bool \<Rightarrow> u8" where
  "put_bit v n b = (v AND NOT (push_bit n 1)) OR (if b then push_bit n 1 else 0)"

definition do_bitbit :: "u16 \<Rightarrow> ('m, unit) cpu_op" where
  "do_bitbit opcode = do {
     pb \<leftarrow> fetch8;
     let reg_sel = drop_bit 6 pb AND 0x3;
     let membit = unat (drop_bit 3 pb AND 0x7);
     let regbit = unat (pb AND 0x7);
     addr \<leftarrow> ea_direct;
     mem \<leftarrow> read8 addr;
     let mbit = (drop_bit membit mem AND 1 \<noteq> 0);
     reg \<leftarrow> gets (bitbit_reg reg_sel);
     let rbit = (drop_bit regbit reg AND 1 \<noteq> 0);
     if opcode = 0x1137 then do {
       write8 addr (put_bit mem membit rbit);
       tick_mode 8 7
     }
     else do {
       let rbit =
         (if opcode = 0x1130 then rbit \<and> mbit
          else if opcode = 0x1131 then rbit \<and> \<not> mbit
          else if opcode = 0x1132 then rbit \<or> mbit
          else if opcode = 0x1133 then rbit \<or> \<not> mbit
          else if opcode = 0x1134 then rbit \<noteq> mbit
          else if opcode = 0x1135 then rbit \<noteq> (\<not> mbit)
          else if opcode = 0x1136 then mbit
          else rbit);
       modify (set_bitbit_reg reg_sel (put_bit reg regbit rbit));
       tick_mode 7 6
     }
   }"

definition do_divd :: "u8 \<Rightarrow> ('m, unit) cpu_op" where
  "do_divd divisor = (if divisor = 0 then division_by_zero_trap else modify (divd_result divisor))"

definition do_divq :: "u16 \<Rightarrow> ('m, unit) cpu_op" where
  "do_divq divisor =
    (if divisor = 0 then division_by_zero_trap
     else do {
       q \<leftarrow> gets reg_q;
       only_if (sint q = - (2 ^ 31) \<and> sint divisor = -1) (modify (\<lambda>c. c\<lparr>host_ub := True\<rparr>));
       modify (divq_result divisor)
     })"

section \<open>Reset, breakpoints and lines\<close>

definition reset_cpu :: "('m, unit) cpu_op" where
  "reset_cpu = do {
     modify (\<lambda>c. c\<lparr>r_pc := 0, r_x := 0, r_y := 0, r_u := 0, r_s := 0, r_v := 0,
                  r_a := 0, r_b := 0, r_dp := 0, r_cc := 0, r_e := 0, r_f := 0, r_md := 0\<rparr>);
     modify (\<lambda>c. c\<lparr>r_cc := CC_I OR CC_F\<rparr>);
     modify (\<lambda>c. c\<lparr>r_md := 0\<rparr>);
     pc \<leftarrow> read16 VEC_RESET;
     modify (\<lambda>c. c\<lparr>r_pc := pc, irq_line := False, firq_line := False, nmi_pending := False,
                  wait_sync := False, halted := False, cwai_pushed_pending := False,
                  total_cycles := 0, stop_reason := CycleBudget\<rparr>)
   }"

definition new_CPU :: "('m \<Rightarrow> u16 \<Rightarrow> u8 \<times> 'm) \<Rightarrow> ('m \<Rightarrow> u16 \<Rightarrow> u8 \<Rightarrow> 'm) \<Rightarrow> 'm \<Rightarrow> 'm CPU" where
  "new_CPU rd wr m = snd (run_state reset_cpu
     \<lparr>r_pc = 0, r_x = 0, r_y = 0, r_u = 0, r_s = 0, r_v = 0,
      r_a = 0, r_b = 0, r_dp = 0, r_cc = 0, r_e = 0, r_f = 0, r_md = 0,
      read_fn = rd, write_fn = wr, bus_ctx = m, irq_line = False, firq_line = False,
      nmi_pending = False, wait_sync = False, halted = False, cwai_pushed_pending = False,
      total_cycles = 0, stop_reason = CycleBudget, breakpoints = [], next_bp_id = 0,
      cycles = 0, insn_pc = 0, host_ub = False\<rparr>)"

definition halt :: "'m CPU \<Rightarrow> 'm CPU" where "halt c = c\<lparr>halted := True\<rparr>"
definition resume :: "'m CPU \<Rightarrow> 'm CPU" where "resume c = c\<lparr>halted := False\<rparr>"
definition set_irq :: "bool \<Rightarrow> 'm CPU \<Rightarrow> 'm CPU" where "set_irq asserted c = c\<lparr>irq_line := asserted\<rparr>"
definition set_firq :: "bool \<Rightarrow> 'm CPU \<Rightarrow> 'm CPU" where "set_firq asserted c = c\<lparr>firq_line := asserted\<rparr>"
definition nmi_pulse :: "'m CPU \<Rightarrow> 'm CPU" where "nmi_pulse c = c\<lparr>nmi_pending := True\<rparr>"

definition add_breakpoint :: "u16 \<Rightarrow> 'm CPU \<Rightarrow> int \<times> 'm CPU" where
  "add_breakpoint addr c =
    (let i = next_bp_id c in (i, c\<lparr>next_bp_id := i + 1, breakpoints := breakpoints c @ [(i, addr)]\<rparr>))"

definition remove_breakpoint :: "int \<Rightarrow> 'm CPU \<Rightarrow> 'm CPU" where
  "remove_breakpoint i c = c\<lparr>breakpoints := filter (\<lambda>b. fst b \<noteq> i) (breakpoints c)\<rparr>"

definition clear_breakpoints :: "'m CPU \<Rightarrow> 'm CPU" where
  "clear_breakpoints c = c\<lparr>breakpoints := []\<rparr>"

end
