(* ===== verification/Opcode_Macros.thy ===== *)
theory Opcode_Macros
  imports Cpu
begin

text \<open>
  The opcode macros of \<^verbatim>\<open>simulator/src/hd6309_opcodes.cpp\<close> (lines 19 to 125). A macro is a definition
  with the macro's parameters other than the opcode; a register lvalue is a \<open>reg8\<close> or \<open>reg16\<close>, and
  the getter and setter pair of the method-backed registers is the \<open>reg16\<close> \<open>RegD\<close> or \<open>RegW\<close>.
\<close>

unbundle bit_operations_syntax

section \<open>8-bit accumulator operations\<close>

definition alu8_reg :: "reg8 \<Rightarrow> AluOp \<Rightarrow> u8 \<Rightarrow> 'z regs_scheme \<Rightarrow> 'z regs_scheme" where
  "alu8_reg r op v c = (case apply_alu8 op (get8 r c) v c of (x, c') \<Rightarrow> set8 r x c')"

definition ALU8_IMM :: "reg8 \<Rightarrow> AluOp \<Rightarrow> nat \<Rightarrow> ('m, unit) cpu_op" where
  "ALU8_IMM r op n = do { v \<leftarrow> fetch8; modify (alu8_reg r op v); tick n }"

definition ALU8_DIR :: "reg8 \<Rightarrow> AluOp \<Rightarrow> nat \<Rightarrow> nat \<Rightarrow> ('m, unit) cpu_op" where
  "ALU8_DIR r op em nm = do { a \<leftarrow> ea_direct; v \<leftarrow> read8 a; modify (alu8_reg r op v); tick_mode em nm }"

definition ALU8_IDX :: "reg8 \<Rightarrow> AluOp \<Rightarrow> nat \<Rightarrow> ('m, unit) cpu_op" where
  "ALU8_IDX r op n = do { a \<leftarrow> ea_indexed; v \<leftarrow> read8 a; modify (alu8_reg r op v); tick n }"

definition ALU8_EXT :: "reg8 \<Rightarrow> AluOp \<Rightarrow> nat \<Rightarrow> nat \<Rightarrow> ('m, unit) cpu_op" where
  "ALU8_EXT r op em nm = do { a \<leftarrow> ea_extended; v \<leftarrow> read8 a; modify (alu8_reg r op v); tick_mode em nm }"

definition st8_flags :: "u8 \<Rightarrow> 'z regs_scheme \<Rightarrow> 'z regs_scheme" where
  "st8_flags v c = set_nz8 v (set_flag CC_V False c)"

definition ST8_DIR :: "reg8 \<Rightarrow> nat \<Rightarrow> nat \<Rightarrow> ('m, unit) cpu_op" where
  "ST8_DIR r em nm = do { a \<leftarrow> ea_direct; v \<leftarrow> gets (get8 r); write8 a v;
     modify (\<lambda>c. st8_flags (get8 r c) c); tick_mode em nm }"

definition ST8_IDX :: "reg8 \<Rightarrow> nat \<Rightarrow> ('m, unit) cpu_op" where
  "ST8_IDX r n = do { a \<leftarrow> ea_indexed; v \<leftarrow> gets (get8 r); write8 a v;
     modify (\<lambda>c. st8_flags (get8 r c) c); tick n }"

definition ST8_EXT :: "reg8 \<Rightarrow> nat \<Rightarrow> nat \<Rightarrow> ('m, unit) cpu_op" where
  "ST8_EXT r em nm = do { a \<leftarrow> ea_extended; v \<leftarrow> gets (get8 r); write8 a v;
     modify (\<lambda>c. st8_flags (get8 r c) c); tick_mode em nm }"

section \<open>Read-modify-write\<close>

definition rmw8_mem :: "RmwOp \<Rightarrow> u16 \<Rightarrow> ('m, unit) cpu_op" where
  "rmw8_mem op a = do { v \<leftarrow> read8 a; r \<leftarrow> State (rmw8 op v); write8 a r }"

definition RMW8_DIR :: "RmwOp \<Rightarrow> ('m, unit) cpu_op" where
  "RMW8_DIR op = do { a \<leftarrow> ea_direct; rmw8_mem op a; tick_mode 6 5 }"

definition RMW8_IDX :: "RmwOp \<Rightarrow> ('m, unit) cpu_op" where
  "RMW8_IDX op = do { a \<leftarrow> ea_indexed; rmw8_mem op a; tick 6 }"

definition RMW8_EXT :: "RmwOp \<Rightarrow> ('m, unit) cpu_op" where
  "RMW8_EXT op = do { a \<leftarrow> ea_extended; rmw8_mem op a; tick_mode 7 6 }"

definition rmw8_reg :: "RmwOp \<Rightarrow> reg8 \<Rightarrow> 'z regs_scheme \<Rightarrow> 'z regs_scheme" where
  "rmw8_reg op r c = (case rmw8 op (get8 r c) c of (x, c') \<Rightarrow> set8 r x c')"

definition rmw16_reg :: "RmwOp \<Rightarrow> reg16 \<Rightarrow> 'z regs_scheme \<Rightarrow> 'z regs_scheme" where
  "rmw16_reg op r c = (case rmw16 op (get16 r c) c of (x, c') \<Rightarrow> set16 r x c')"

definition RMW8_INH :: "RmwOp \<Rightarrow> reg8 \<Rightarrow> nat \<Rightarrow> nat \<Rightarrow> ('m, unit) cpu_op" where
  "RMW8_INH op r em nm = do { modify (rmw8_reg op r); tick_mode em nm }"

definition RMW16D_INH :: "RmwOp \<Rightarrow> ('m, unit) cpu_op" where
  "RMW16D_INH op = do { modify (rmw16_reg op RegD); tick_mode 3 2 }"

definition RMW16W_INH :: "RmwOp \<Rightarrow> ('m, unit) cpu_op" where
  "RMW16W_INH op = do { modify (rmw16_reg op RegW); tick_mode 3 2 }"

definition RMW8E_INH :: "RmwOp \<Rightarrow> ('m, unit) cpu_op" where
  "RMW8E_INH op = do { modify (rmw8_reg op RegE); tick_mode 3 2 }"

definition RMW8F_INH :: "RmwOp \<Rightarrow> ('m, unit) cpu_op" where
  "RMW8F_INH op = do { modify (rmw8_reg op RegF); tick_mode 3 2 }"

section \<open>16-bit operations\<close>

definition alu16_reg :: "reg16 \<Rightarrow> AluOp \<Rightarrow> u16 \<Rightarrow> 'z regs_scheme \<Rightarrow> 'z regs_scheme" where
  "alu16_reg r op v c = (case apply_alu16 op (get16 r c) v c of (x, c') \<Rightarrow> set16 r x c')"

definition ALU16_IMM :: "reg16 \<Rightarrow> AluOp \<Rightarrow> nat \<Rightarrow> nat \<Rightarrow> ('m, unit) cpu_op" where
  "ALU16_IMM r op em nm = do { v \<leftarrow> fetch16; modify (alu16_reg r op v); tick_mode em nm }"

definition ALU16_DIR :: "reg16 \<Rightarrow> AluOp \<Rightarrow> nat \<Rightarrow> nat \<Rightarrow> ('m, unit) cpu_op" where
  "ALU16_DIR r op em nm = do { a \<leftarrow> ea_direct; v \<leftarrow> read16 a; modify (alu16_reg r op v); tick_mode em nm }"

definition ALU16_IDX :: "reg16 \<Rightarrow> AluOp \<Rightarrow> nat \<Rightarrow> ('m, unit) cpu_op" where
  "ALU16_IDX r op n = do { a \<leftarrow> ea_indexed; v \<leftarrow> read16 a; modify (alu16_reg r op v); tick n }"

definition ALU16_EXT :: "reg16 \<Rightarrow> AluOp \<Rightarrow> nat \<Rightarrow> nat \<Rightarrow> ('m, unit) cpu_op" where
  "ALU16_EXT r op em nm = do { a \<leftarrow> ea_extended; v \<leftarrow> read16 a; modify (alu16_reg r op v); tick_mode em nm }"

definition st16_flags :: "u16 \<Rightarrow> 'z regs_scheme \<Rightarrow> 'z regs_scheme" where
  "st16_flags v c = set_nz16 v (set_flag CC_V False c)"

definition LD16_IMM :: "reg16 \<Rightarrow> nat \<Rightarrow> ('m, unit) cpu_op" where
  "LD16_IMM r n = do { v \<leftarrow> fetch16; modify (st16_flags v); modify (set16 r v); tick n }"

definition LD16_DIR :: "reg16 \<Rightarrow> nat \<Rightarrow> nat \<Rightarrow> ('m, unit) cpu_op" where
  "LD16_DIR r em nm = do { a \<leftarrow> ea_direct; v \<leftarrow> read16 a; modify (st16_flags v); modify (set16 r v); tick_mode em nm }"

definition LD16_IDX :: "reg16 \<Rightarrow> nat \<Rightarrow> ('m, unit) cpu_op" where
  "LD16_IDX r n = do { a \<leftarrow> ea_indexed; v \<leftarrow> read16 a; modify (st16_flags v); modify (set16 r v); tick n }"

definition LD16_EXT :: "reg16 \<Rightarrow> nat \<Rightarrow> nat \<Rightarrow> ('m, unit) cpu_op" where
  "LD16_EXT r em nm = do { a \<leftarrow> ea_extended; v \<leftarrow> read16 a; modify (st16_flags v); modify (set16 r v); tick_mode em nm }"

definition ST16_DIR :: "reg16 \<Rightarrow> nat \<Rightarrow> nat \<Rightarrow> ('m, unit) cpu_op" where
  "ST16_DIR r em nm = do { a \<leftarrow> ea_direct; v \<leftarrow> gets (get16 r); write16 a v;
     modify (\<lambda>c. st16_flags (get16 r c) c); tick_mode em nm }"

definition ST16_IDX :: "reg16 \<Rightarrow> nat \<Rightarrow> ('m, unit) cpu_op" where
  "ST16_IDX r n = do { a \<leftarrow> ea_indexed; v \<leftarrow> gets (get16 r); write16 a v;
     modify (\<lambda>c. st16_flags (get16 r c) c); tick n }"

definition ST16_EXT :: "reg16 \<Rightarrow> nat \<Rightarrow> nat \<Rightarrow> ('m, unit) cpu_op" where
  "ST16_EXT r em nm = do { a \<leftarrow> ea_extended; v \<leftarrow> gets (get16 r); write16 a v;
     modify (\<lambda>c. st16_flags (get16 r c) c); tick_mode em nm }"

definition CMP16_IMM :: "reg16 \<Rightarrow> nat \<Rightarrow> nat \<Rightarrow> ('m, unit) cpu_op" where
  "CMP16_IMM r em nm = do { v \<leftarrow> fetch16; modify (\<lambda>c. cmp16 (get16 r c) v c); tick_mode em nm }"

definition CMP16_DIR :: "reg16 \<Rightarrow> nat \<Rightarrow> nat \<Rightarrow> ('m, unit) cpu_op" where
  "CMP16_DIR r em nm = do { a \<leftarrow> ea_direct; v \<leftarrow> read16 a; modify (\<lambda>c. cmp16 (get16 r c) v c); tick_mode em nm }"

definition CMP16_IDX :: "reg16 \<Rightarrow> nat \<Rightarrow> ('m, unit) cpu_op" where
  "CMP16_IDX r n = do { a \<leftarrow> ea_indexed; v \<leftarrow> read16 a; modify (\<lambda>c. cmp16 (get16 r c) v c); tick n }"

definition CMP16_EXT :: "reg16 \<Rightarrow> nat \<Rightarrow> nat \<Rightarrow> ('m, unit) cpu_op" where
  "CMP16_EXT r em nm = do { a \<leftarrow> ea_extended; v \<leftarrow> read16 a; modify (\<lambda>c. cmp16 (get16 r c) v c); tick_mode em nm }"

text \<open>The macros on D and W.\<close>

definition LD16M_IMM :: "reg16 \<Rightarrow> nat \<Rightarrow> ('m, unit) cpu_op" where
  "LD16M_IMM r n = do { v \<leftarrow> fetch16; modify (st16_flags v); modify (set16 r v); tick n }"

definition LD16M_DIR :: "reg16 \<Rightarrow> nat \<Rightarrow> nat \<Rightarrow> ('m, unit) cpu_op" where
  "LD16M_DIR r em nm = do { a \<leftarrow> ea_direct; v \<leftarrow> read16 a; modify (st16_flags v); modify (set16 r v); tick_mode em nm }"

definition LD16M_IDX :: "reg16 \<Rightarrow> nat \<Rightarrow> ('m, unit) cpu_op" where
  "LD16M_IDX r n = do { a \<leftarrow> ea_indexed; v \<leftarrow> read16 a; modify (st16_flags v); modify (set16 r v); tick n }"

definition LD16M_EXT :: "reg16 \<Rightarrow> nat \<Rightarrow> nat \<Rightarrow> ('m, unit) cpu_op" where
  "LD16M_EXT r em nm = do { a \<leftarrow> ea_extended; v \<leftarrow> read16 a; modify (st16_flags v); modify (set16 r v); tick_mode em nm }"

definition ST16M_DIR :: "reg16 \<Rightarrow> nat \<Rightarrow> nat \<Rightarrow> ('m, unit) cpu_op" where
  "ST16M_DIR r em nm = do { a \<leftarrow> ea_direct; v \<leftarrow> gets (get16 r); write16 a v; modify (st16_flags v); tick_mode em nm }"

definition ST16M_IDX :: "reg16 \<Rightarrow> nat \<Rightarrow> ('m, unit) cpu_op" where
  "ST16M_IDX r n = do { a \<leftarrow> ea_indexed; v \<leftarrow> gets (get16 r); write16 a v; modify (st16_flags v); tick n }"

definition ST16M_EXT :: "reg16 \<Rightarrow> nat \<Rightarrow> nat \<Rightarrow> ('m, unit) cpu_op" where
  "ST16M_EXT r em nm = do { a \<leftarrow> ea_extended; v \<leftarrow> gets (get16 r); write16 a v; modify (st16_flags v); tick_mode em nm }"

section \<open>Logic on memory: OIM, AIM, EIM, TIM\<close>

definition logicmem :: "(u8 \<Rightarrow> u8 \<Rightarrow> u8) \<Rightarrow> bool \<Rightarrow> u8 \<Rightarrow> u16 \<Rightarrow> ('m, unit) cpu_op" where
  "logicmem opsym write msk a = do {
     v \<leftarrow> read8 a;
     let res = opsym v msk;
     only_if write (write8 a res);
     modify (st8_flags res)
   }"

definition LOGICMEM_DIR :: "(u8 \<Rightarrow> u8 \<Rightarrow> u8) \<Rightarrow> bool \<Rightarrow> ('m, unit) cpu_op" where
  "LOGICMEM_DIR opsym write = do { msk \<leftarrow> fetch8; a \<leftarrow> ea_direct; logicmem opsym write msk a; tick 6 }"

definition LOGICMEM_IDX :: "(u8 \<Rightarrow> u8 \<Rightarrow> u8) \<Rightarrow> bool \<Rightarrow> ('m, unit) cpu_op" where
  "LOGICMEM_IDX opsym write = do { msk \<leftarrow> fetch8; a \<leftarrow> ea_indexed; logicmem opsym write msk a; tick 7 }"

definition LOGICMEM_EXT :: "(u8 \<Rightarrow> u8 \<Rightarrow> u8) \<Rightarrow> bool \<Rightarrow> ('m, unit) cpu_op" where
  "LOGICMEM_EXT opsym write = do { msk \<leftarrow> fetch8; a \<leftarrow> ea_extended; logicmem opsym write msk a; tick 7 }"

end
