(* ===== verification/Opcode_Ops.thy ===== *)
theory Opcode_Ops
  imports Opcode_Macros
begin

text \<open>
  The bodies of the opcodes that \<^verbatim>\<open>hd6309_opcodes.cpp\<close> writes out without a macro, one definition
  per case (or per group of cases that share a body).
\<close>

unbundle bit_operations_syntax

section \<open>Unprefixed opcodes\<close>

definition op_tst_dir :: "('m, unit) cpu_op" where
  "op_tst_dir = do { a \<leftarrow> ea_direct; v \<leftarrow> read8 a; modify (\<lambda>c. snd (rmw8 TST v c)); tick_mode 6 4 }"

definition op_tst_idx :: "('m, unit) cpu_op" where
  "op_tst_idx = do { a \<leftarrow> ea_indexed; v \<leftarrow> read8 a; modify (\<lambda>c. snd (rmw8 TST v c)); tick 5 }"

definition op_tst_ext :: "('m, unit) cpu_op" where
  "op_tst_ext = do { a \<leftarrow> ea_extended; v \<leftarrow> read8 a; modify (\<lambda>c. snd (rmw8 TST v c)); tick_mode 7 5 }"

definition op_jmp_dir :: "('m, unit) cpu_op" where
  "op_jmp_dir = do { a \<leftarrow> ea_direct; modify (\<lambda>c. c\<lparr>r_pc := a\<rparr>); tick_mode 3 2 }"

definition op_jmp_idx :: "('m, unit) cpu_op" where
  "op_jmp_idx = do { a \<leftarrow> ea_indexed; modify (\<lambda>c. c\<lparr>r_pc := a\<rparr>); tick 3 }"

definition op_jmp_ext :: "('m, unit) cpu_op" where
  "op_jmp_ext = do { a \<leftarrow> ea_extended; modify (\<lambda>c. c\<lparr>r_pc := a\<rparr>); tick_mode 4 3 }"

definition op_nop :: "('m, unit) cpu_op" where
  "op_nop = tick_mode 2 1"

definition op_sync :: "('m, unit) cpu_op" where
  "op_sync = do { modify (\<lambda>c. c\<lparr>wait_sync := True\<rparr>); tick_mode 2 1 }"

definition op_sexw :: "('m, unit) cpu_op" where
  "op_sexw = do {
     w \<leftarrow> gets reg_w;
     let d = (if w AND 0x8000 \<noteq> 0 then 0xFFFF else 0x0000);
     modify (set_d d);
     modify (set_nz16 d);
     modify (set_flag CC_V False);
     tick 4
   }"

definition op_lbra :: "('m, unit) cpu_op" where
  "op_lbra = do { off \<leftarrow> rel16; modify (\<lambda>c. c\<lparr>r_pc := r_pc c + off\<rparr>); tick_mode 5 4 }"

definition op_lbsr :: "('m, unit) cpu_op" where
  "op_lbsr = do { off \<leftarrow> rel16; push16_of RegS r_pc; modify (\<lambda>c. c\<lparr>r_pc := r_pc c + off\<rparr>); tick_mode 9 7 }"

definition op_daa :: "('m, unit) cpu_op" where
  "op_daa = do { modify do_daa; tick_mode 2 1 }"

definition op_orcc :: "('m, unit) cpu_op" where
  "op_orcc = do { m \<leftarrow> fetch8; modify (\<lambda>c. c\<lparr>r_cc := r_cc c OR m\<rparr>); tick_mode 3 2 }"

definition op_andcc :: "('m, unit) cpu_op" where
  "op_andcc = do { m \<leftarrow> fetch8; modify (\<lambda>c. c\<lparr>r_cc := r_cc c AND m\<rparr>); tick_mode 3 2 }"

definition op_sex :: "('m, unit) cpu_op" where
  "op_sex = do {
     modify (\<lambda>c. set_d (sext8 (r_b c)) c);
     modify (\<lambda>c. set_nz16 (reg_d c) c);
     modify (set_flag CC_V False);
     tick_mode 2 1
   }"

definition op_exg :: "('m, unit) cpu_op" where
  "op_exg = do { pb \<leftarrow> fetch8; modify (do_tfr_exg pb True); tick_mode 8 5 }"

definition op_tfr :: "('m, unit) cpu_op" where
  "op_tfr = do { pb \<leftarrow> fetch8; modify (do_tfr_exg pb False); tick_mode 6 4 }"

definition op_branch :: "u8 \<Rightarrow> ('m, unit) cpu_op" where
  "op_branch opcode = do {
     off \<leftarrow> rel8;
     taken \<leftarrow> gets (test_condition opcode);
     only_if taken (modify (\<lambda>c. c\<lparr>r_pc := r_pc c + off\<rparr>));
     tick 3
   }"

definition op_leax :: "('m, unit) cpu_op" where
  "op_leax = do { a \<leftarrow> ea_indexed; modify (\<lambda>c. c\<lparr>r_x := a\<rparr>); modify (\<lambda>c. set_flag CC_Z (r_x c = 0) c); tick 4 }"

definition op_leay :: "('m, unit) cpu_op" where
  "op_leay = do { a \<leftarrow> ea_indexed; modify (\<lambda>c. c\<lparr>r_y := a\<rparr>); modify (\<lambda>c. set_flag CC_Z (r_y c = 0) c); tick 4 }"

definition op_leas :: "('m, unit) cpu_op" where
  "op_leas = do { a \<leftarrow> ea_indexed; modify (\<lambda>c. c\<lparr>r_s := a\<rparr>); tick 4 }"

definition op_leau :: "('m, unit) cpu_op" where
  "op_leau = do { a \<leftarrow> ea_indexed; modify (\<lambda>c. c\<lparr>r_u := a\<rparr>); tick 4 }"

text \<open>PSHS and PSHU differ in the stack register and in the other stack pointer they push.\<close>

definition push_list :: "reg16 \<Rightarrow> reg16 \<Rightarrow> u8 \<Rightarrow> ('m, unit) cpu_op" where
  "push_list sp other pb = do {
     only_if (pb AND 0x80 \<noteq> 0) (push16_of sp r_pc);
     only_if (pb AND 0x40 \<noteq> 0) (push16_of sp (get16 other));
     only_if (pb AND 0x20 \<noteq> 0) (push16_of sp r_y);
     only_if (pb AND 0x10 \<noteq> 0) (push16_of sp r_x);
     only_if (pb AND 0x08 \<noteq> 0) (push8_of sp r_dp);
     only_if (pb AND 0x04 \<noteq> 0) (push8_of sp r_b);
     only_if (pb AND 0x02 \<noteq> 0) (push8_of sp r_a);
     only_if (pb AND 0x01 \<noteq> 0) (push8_of sp r_cc)
   }"

definition pull_list :: "reg16 \<Rightarrow> reg16 \<Rightarrow> u8 \<Rightarrow> ('m, unit) cpu_op" where
  "pull_list sp other pb = do {
     only_if (pb AND 0x01 \<noteq> 0) (pull8_to sp (\<lambda>v c. c\<lparr>r_cc := v\<rparr>));
     only_if (pb AND 0x02 \<noteq> 0) (pull8_to sp (\<lambda>v c. c\<lparr>r_a := v\<rparr>));
     only_if (pb AND 0x04 \<noteq> 0) (pull8_to sp (\<lambda>v c. c\<lparr>r_b := v\<rparr>));
     only_if (pb AND 0x08 \<noteq> 0) (pull8_to sp (\<lambda>v c. c\<lparr>r_dp := v\<rparr>));
     only_if (pb AND 0x10 \<noteq> 0) (pull16_to sp (\<lambda>v c. c\<lparr>r_x := v\<rparr>));
     only_if (pb AND 0x20 \<noteq> 0) (pull16_to sp (\<lambda>v c. c\<lparr>r_y := v\<rparr>));
     only_if (pb AND 0x40 \<noteq> 0) (pull16_to sp (set16 other));
     only_if (pb AND 0x80 \<noteq> 0) (pull16_to sp (\<lambda>v c. c\<lparr>r_pc := v\<rparr>))
   }"

definition op_pshs :: "('m, unit) cpu_op" where
  "op_pshs = do { pb \<leftarrow> fetch8; push_list RegS RegU pb;
     tick_mode (5 + rlist_extra_cycles pb) (4 + rlist_extra_cycles pb) }"

definition op_puls :: "('m, unit) cpu_op" where
  "op_puls = do { pb \<leftarrow> fetch8; pull_list RegS RegU pb;
     tick_mode (5 + rlist_extra_cycles pb) (4 + rlist_extra_cycles pb) }"

definition op_pshu :: "('m, unit) cpu_op" where
  "op_pshu = do { pb \<leftarrow> fetch8; push_list RegU RegS pb;
     tick_mode (5 + rlist_extra_cycles pb) (4 + rlist_extra_cycles pb) }"

definition op_pulu :: "('m, unit) cpu_op" where
  "op_pulu = do { pb \<leftarrow> fetch8; pull_list RegU RegS pb;
     tick_mode (5 + rlist_extra_cycles pb) (4 + rlist_extra_cycles pb) }"

definition op_rts :: "('m, unit) cpu_op" where
  "op_rts = do { pull16_to RegS (\<lambda>v c. c\<lparr>r_pc := v\<rparr>); tick_mode 5 4 }"

definition op_abx :: "('m, unit) cpu_op" where
  "op_abx = do { modify (\<lambda>c. c\<lparr>r_x := r_x c + ucast (r_b c)\<rparr>); tick_mode 3 1 }"

definition op_rti :: "('m, unit) cpu_op" where
  "op_rti = do {
     cc \<leftarrow> pull8 RegS;
     modify (\<lambda>c. c\<lparr>r_cc := cc\<rparr>);
     if cc AND CC_E \<noteq> 0 then do {
       pull8_to RegS (\<lambda>v c. c\<lparr>r_a := v\<rparr>);
       pull8_to RegS (\<lambda>v c. c\<lparr>r_b := v\<rparr>);
       nm \<leftarrow> gets native;
       only_if nm (do {
         pull8_to RegS (\<lambda>v c. c\<lparr>r_e := v\<rparr>);
         pull8_to RegS (\<lambda>v c. c\<lparr>r_f := v\<rparr>)
       });
       pull8_to RegS (\<lambda>v c. c\<lparr>r_dp := v\<rparr>);
       pull16_to RegS (\<lambda>v c. c\<lparr>r_x := v\<rparr>);
       pull16_to RegS (\<lambda>v c. c\<lparr>r_y := v\<rparr>);
       pull16_to RegS (\<lambda>v c. c\<lparr>r_u := v\<rparr>);
       pull16_to RegS (\<lambda>v c. c\<lparr>r_pc := v\<rparr>);
       tick_mode 15 17
     }
     else do {
       pull16_to RegS (\<lambda>v c. c\<lparr>r_pc := v\<rparr>);
       tick 6
     }
   }"

definition op_cwai :: "('m, unit) cpu_op" where
  "op_cwai = do {
     msk \<leftarrow> fetch8;
     modify (\<lambda>c. c\<lparr>r_cc := r_cc c AND msk\<rparr>);
     push_full_set;
     modify (\<lambda>c. c\<lparr>cwai_pushed_pending := True\<rparr>);
     modify (\<lambda>c. c\<lparr>wait_sync := True\<rparr>);
     tick_mode 22 20
   }"

definition mul_result :: "'z regs_scheme \<Rightarrow> 'z regs_scheme" where
  "mul_result c =
    (let result = word_of_nat (unat (r_a c) * unat (r_b c));
         c = set_d result c;
         c = set_flag CC_Z (result = 0) c
     in set_flag CC_C (result AND 0x80 \<noteq> 0) c)"

definition op_mul :: "('m, unit) cpu_op" where
  "op_mul = do { modify mul_result; tick_mode 11 10 }"

definition op_swi :: "('m, unit) cpu_op" where
  "op_swi = do {
     push_full_set;
     modify (\<lambda>c. c\<lparr>r_cc := r_cc c OR (CC_I OR CC_F)\<rparr>);
     pc \<leftarrow> read16 0xFFFA;
     modify (\<lambda>c. c\<lparr>r_pc := pc\<rparr>);
     tick_mode 19 21
   }"

definition op_bsr :: "('m, unit) cpu_op" where
  "op_bsr = do { off \<leftarrow> rel8; push16_of RegS r_pc; modify (\<lambda>c. c\<lparr>r_pc := r_pc c + off\<rparr>); tick_mode 7 6 }"

definition op_jsr_dir :: "('m, unit) cpu_op" where
  "op_jsr_dir = do { a \<leftarrow> ea_direct; push16_of RegS r_pc; modify (\<lambda>c. c\<lparr>r_pc := a\<rparr>); tick_mode 7 6 }"

definition op_jsr_idx :: "('m, unit) cpu_op" where
  "op_jsr_idx = do { a \<leftarrow> ea_indexed; push16_of RegS r_pc; modify (\<lambda>c. c\<lparr>r_pc := a\<rparr>); tick_mode 7 6 }"

definition op_jsr_ext :: "('m, unit) cpu_op" where
  "op_jsr_ext = do { a \<leftarrow> ea_extended; push16_of RegS r_pc; modify (\<lambda>c. c\<lparr>r_pc := a\<rparr>); tick_mode 8 7 }"

text \<open>The flags of LDQ and STQ.\<close>

definition q_flags :: "u32 \<Rightarrow> 'z regs_scheme \<Rightarrow> 'z regs_scheme" where
  "q_flags v c = set_flag CC_N (v AND 0x80000000 \<noteq> 0) (set_flag CC_Z (v = 0) (set_flag CC_V False c))"

definition op_ldq_imm :: "('m, unit) cpu_op" where
  "op_ldq_imm = do {
     h \<leftarrow> fetch16;
     l \<leftarrow> fetch16;
     let v = mk32 h l;
     modify (q_flags v);
     modify (set_q v);
     tick 5
   }"

section \<open>Opcodes with prefix 10\<close>

definition op_lbcc :: "u8 \<Rightarrow> ('m, unit) cpu_op" where
  "op_lbcc opcode = do {
     off \<leftarrow> rel16;
     taken \<leftarrow> gets (test_condition opcode);
     only_if taken (modify (\<lambda>c. c\<lparr>r_pc := r_pc c + off\<rparr>));
     tick_mode (if taken then 6 else 5) 5
   }"

definition regreg_op :: "u8 \<Rightarrow> AluOp" where
  "regreg_op opcode =
    (if opcode = 0x30 then ADD
     else if opcode = 0x31 then ADC
     else if opcode = 0x32 then SUB
     else if opcode = 0x33 then SBC
     else if opcode = 0x34 then AND_op
     else if opcode = 0x35 then OR_op
     else if opcode = 0x36 then EOR
     else CMP)"

definition regreg :: "AluOp \<Rightarrow> u8 \<Rightarrow> u8 \<Rightarrow> 'z regs_scheme \<Rightarrow> 'z regs_scheme" where
  "regreg op src dst c =
    (if reg_code_is_16bit dst then
       (case apply_alu16 op (get_reg_by_code dst c) (get_reg_by_code src c) c of
          (result, c) \<Rightarrow> set_reg_by_code dst result c)
     else
       (case apply_alu8 op (get_reg_raw8 dst c) (get_reg_raw8 src c) c of
          (result, c) \<Rightarrow> set_reg_by_code dst (ucast result) c))"

definition op_regreg :: "u8 \<Rightarrow> ('m, unit) cpu_op" where
  "op_regreg opcode = do {
     pb \<leftarrow> fetch8;
     let src = drop_bit 4 pb AND 0xF;
     let dst = pb AND 0xF;
     modify (regreg (regreg_op opcode) src dst);
     tick 4
   }"

definition op_pshsw :: "('m, unit) cpu_op" where
  "op_pshsw = do { push16_of RegS reg_w; tick 6 }"

definition op_pulsw :: "('m, unit) cpu_op" where
  "op_pulsw = do { pull16_to RegS set_w; tick 6 }"

definition op_pshuw :: "('m, unit) cpu_op" where
  "op_pshuw = do { push16_of RegU reg_w; tick 6 }"

definition op_puluw :: "('m, unit) cpu_op" where
  "op_puluw = do { pull16_to RegU set_w; tick 6 }"

definition op_swi2 :: "('m, unit) cpu_op" where
  "op_swi2 = do { push_full_set; pc \<leftarrow> read16 0xFFF4; modify (\<lambda>c. c\<lparr>r_pc := pc\<rparr>); tick_mode 20 22 }"

text \<open>The two reads of LDQ are the operands of \<^verbatim>\<open>|\<close>, whose order C++ leaves open; they are done from
  left to right here.\<close>

definition ldq_mem :: "u16 \<Rightarrow> ('m, unit) cpu_op" where
  "ldq_mem a = do {
     h \<leftarrow> read16 a;
     l \<leftarrow> read16 (a + 2);
     let v = mk32 h l;
     modify (q_flags v);
     modify (set_q v)
   }"

definition stq_mem :: "u16 \<Rightarrow> ('m, unit) cpu_op" where
  "stq_mem a = do {
     v \<leftarrow> gets reg_q;
     write16 a (hi16 v);
     write16 (a + 2) (lo16 v);
     modify (q_flags v)
   }"

definition op_ldq_dir :: "('m, unit) cpu_op" where
  "op_ldq_dir = do { a \<leftarrow> ea_direct; ldq_mem a; tick_mode 8 7 }"

definition op_stq_dir :: "('m, unit) cpu_op" where
  "op_stq_dir = do { a \<leftarrow> ea_direct; stq_mem a; tick_mode 8 7 }"

definition op_ldq_idx :: "('m, unit) cpu_op" where
  "op_ldq_idx = do { a \<leftarrow> ea_indexed; ldq_mem a; tick 8 }"

definition op_stq_idx :: "('m, unit) cpu_op" where
  "op_stq_idx = do { a \<leftarrow> ea_indexed; stq_mem a; tick 8 }"

definition op_ldq_ext :: "('m, unit) cpu_op" where
  "op_ldq_ext = do { a \<leftarrow> ea_extended; ldq_mem a; tick_mode 9 8 }"

definition op_stq_ext :: "('m, unit) cpu_op" where
  "op_stq_ext = do { a \<leftarrow> ea_extended; stq_mem a; tick_mode 9 8 }"

section \<open>Opcodes with prefix 11\<close>

definition bitmd :: "u8 \<Rightarrow> 'z regs_scheme \<Rightarrow> 'z regs_scheme" where
  "bitmd imm c =
    (let test = r_md c AND imm;
         c = set_flag CC_Z (test = 0) c
     in c\<lparr>r_md := r_md c AND NOT test\<rparr>)"

definition op_bitmd :: "('m, unit) cpu_op" where
  "op_bitmd = do { imm \<leftarrow> fetch8; modify (bitmd imm); tick 4 }"

definition op_ldmd :: "('m, unit) cpu_op" where
  "op_ldmd = do { v \<leftarrow> fetch8; modify (\<lambda>c. c\<lparr>r_md := v\<rparr>); tick 5 }"

definition op_swi3 :: "('m, unit) cpu_op" where
  "op_swi3 = do { push_full_set; pc \<leftarrow> read16 0xFFF2; modify (\<lambda>c. c\<lparr>r_pc := pc\<rparr>); tick_mode 20 22 }"

definition op_divd_imm :: "('m, unit) cpu_op" where
  "op_divd_imm = do { v \<leftarrow> fetch8; do_divd v; tick 25 }"

definition op_divq_imm :: "('m, unit) cpu_op" where
  "op_divq_imm = do { v \<leftarrow> fetch16; do_divq v; tick 34 }"

definition op_muld_imm :: "('m, unit) cpu_op" where
  "op_muld_imm = do { v \<leftarrow> fetch16; modify (do_muld v); tick 28 }"

definition op_divd_dir :: "('m, unit) cpu_op" where
  "op_divd_dir = do { a \<leftarrow> ea_direct; v \<leftarrow> read8 a; do_divd v; tick_mode 27 26 }"

definition op_divq_dir :: "('m, unit) cpu_op" where
  "op_divq_dir = do { a \<leftarrow> ea_direct; v \<leftarrow> read16 a; do_divq v; tick_mode 36 35 }"

definition op_muld_dir :: "('m, unit) cpu_op" where
  "op_muld_dir = do { a \<leftarrow> ea_direct; v \<leftarrow> read16 a; modify (do_muld v); tick_mode 30 29 }"

definition op_divd_idx :: "('m, unit) cpu_op" where
  "op_divd_idx = do { a \<leftarrow> ea_indexed; v \<leftarrow> read8 a; do_divd v; tick 27 }"

definition op_divq_idx :: "('m, unit) cpu_op" where
  "op_divq_idx = do { a \<leftarrow> ea_indexed; v \<leftarrow> read16 a; do_divq v; tick 36 }"

definition op_muld_idx :: "('m, unit) cpu_op" where
  "op_muld_idx = do { a \<leftarrow> ea_indexed; v \<leftarrow> read16 a; modify (do_muld v); tick 30 }"

definition op_divd_ext :: "('m, unit) cpu_op" where
  "op_divd_ext = do { a \<leftarrow> ea_extended; v \<leftarrow> read8 a; do_divd v; tick_mode 28 27 }"

definition op_divq_ext :: "('m, unit) cpu_op" where
  "op_divq_ext = do { a \<leftarrow> ea_extended; v \<leftarrow> read16 a; do_divq v; tick_mode 37 36 }"

definition op_muld_ext :: "('m, unit) cpu_op" where
  "op_muld_ext = do { a \<leftarrow> ea_extended; v \<leftarrow> read16 a; modify (do_muld v); tick_mode 31 30 }"

end
