(* ===== verification/Opcodes.thy ===== *)
theory Opcodes
  imports Opcode_Ops
begin

text \<open>
  The three opcode switches of \<^verbatim>\<open>simulator/src/hd6309_opcodes.cpp\<close>. A switch is an association list
  from opcode to body, one list per commented group of the source, in source order; \<^verbatim>\<open>default\<close> is
  the illegal opcode trap.
\<close>

unbundle bit_operations_syntax

section \<open>Prefix 11\<close>

definition table_1130 :: "(u8 \<times> ('m, unit) cpu_op) list" where
  "table_1130 =
    [(0x30, do_bitbit 0x1130),
     (0x31, do_bitbit 0x1131),
     (0x32, do_bitbit 0x1132),
     (0x33, do_bitbit 0x1133),
     (0x34, do_bitbit 0x1134),
     (0x35, do_bitbit 0x1135),
     (0x36, do_bitbit 0x1136),
     (0x37, do_bitbit 0x1137),
     (0x38, do_tfm 0x1138),
     (0x39, do_tfm 0x1139),
     (0x3A, do_tfm 0x113A),
     (0x3B, do_tfm 0x113B),
     (0x3C, op_bitmd),
     (0x3D, op_ldmd),
     (0x3F, op_swi3)]"

definition table_1140 :: "(u8 \<times> ('m, unit) cpu_op) list" where
  "table_1140 =
    [(0x43, RMW8E_INH COM),
     (0x4A, RMW8E_INH DEC),
     (0x4C, RMW8E_INH INC),
     (0x4D, RMW8E_INH TST),
     (0x4F, RMW8E_INH CLR),
     (0x53, RMW8F_INH COM),
     (0x5A, RMW8F_INH DEC),
     (0x5C, RMW8F_INH INC),
     (0x5D, RMW8F_INH TST),
     (0x5F, RMW8F_INH CLR)]"

definition table_1180 :: "(u8 \<times> ('m, unit) cpu_op) list" where
  "table_1180 =
    [(0x80, ALU8_IMM RegE SUB 3),
     (0x81, ALU8_IMM RegE CMP 3),
     (0x83, CMP16_IMM RegU 5 4),
     (0x86, ALU8_IMM RegE LD 3),
     (0x8B, ALU8_IMM RegE ADD 3),
     (0x8C, CMP16_IMM RegS 5 4),
     (0x8D, op_divd_imm),
     (0x8E, op_divq_imm),
     (0x8F, op_muld_imm)]"

definition table_1190 :: "(u8 \<times> ('m, unit) cpu_op) list" where
  "table_1190 =
    [(0x90, ALU8_DIR RegE SUB 5 4),
     (0x91, ALU8_DIR RegE CMP 5 4),
     (0x93, CMP16_DIR RegU 7 5),
     (0x96, ALU8_DIR RegE LD 5 4),
     (0x97, ST8_DIR RegE 5 4),
     (0x9B, ALU8_DIR RegE ADD 5 4),
     (0x9C, CMP16_DIR RegS 7 5),
     (0x9D, op_divd_dir),
     (0x9E, op_divq_dir),
     (0x9F, op_muld_dir)]"

definition table_11A0 :: "(u8 \<times> ('m, unit) cpu_op) list" where
  "table_11A0 =
    [(0xA0, ALU8_IDX RegE SUB 5),
     (0xA1, ALU8_IDX RegE CMP 5),
     (0xA3, CMP16_IDX RegU 7),
     (0xA6, ALU8_IDX RegE LD 5),
     (0xA7, ST8_IDX RegE 5),
     (0xAB, ALU8_IDX RegE ADD 5),
     (0xAC, CMP16_IDX RegS 7),
     (0xAD, op_divd_idx),
     (0xAE, op_divq_idx),
     (0xAF, op_muld_idx)]"

definition table_11B0 :: "(u8 \<times> ('m, unit) cpu_op) list" where
  "table_11B0 =
    [(0xB0, ALU8_EXT RegE SUB 6 5),
     (0xB1, ALU8_EXT RegE CMP 6 5),
     (0xB3, CMP16_EXT RegU 8 6),
     (0xB6, ALU8_EXT RegE LD 6 5),
     (0xB7, ST8_EXT RegE 6 5),
     (0xBB, ALU8_EXT RegE ADD 6 5),
     (0xBC, CMP16_EXT RegS 8 6),
     (0xBD, op_divd_ext),
     (0xBE, op_divq_ext),
     (0xBF, op_muld_ext)]"

definition table_11C0 :: "(u8 \<times> ('m, unit) cpu_op) list" where
  "table_11C0 =
    [(0xC0, ALU8_IMM RegF SUB 3),
     (0xC1, ALU8_IMM RegF CMP 3),
     (0xC6, ALU8_IMM RegF LD 3),
     (0xCB, ALU8_IMM RegF ADD 3)]"

definition table_11D0 :: "(u8 \<times> ('m, unit) cpu_op) list" where
  "table_11D0 =
    [(0xD0, ALU8_DIR RegF SUB 5 4),
     (0xD1, ALU8_DIR RegF CMP 5 4),
     (0xD6, ALU8_DIR RegF LD 5 4),
     (0xD7, ST8_DIR RegF 5 4),
     (0xDB, ALU8_DIR RegF ADD 5 4)]"

definition table_11E0 :: "(u8 \<times> ('m, unit) cpu_op) list" where
  "table_11E0 =
    [(0xE0, ALU8_IDX RegF SUB 5),
     (0xE1, ALU8_IDX RegF CMP 5),
     (0xE6, ALU8_IDX RegF LD 5),
     (0xE7, ST8_IDX RegF 5),
     (0xEB, ALU8_IDX RegF ADD 5)]"

definition table_11F0 :: "(u8 \<times> ('m, unit) cpu_op) list" where
  "table_11F0 =
    [(0xF0, ALU8_EXT RegF SUB 6 5),
     (0xF1, ALU8_EXT RegF CMP 6 5),
     (0xF6, ALU8_EXT RegF LD 6 5),
     (0xF7, ST8_EXT RegF 6 5),
     (0xFB, ALU8_EXT RegF ADD 6 5)]"

definition page11_table :: "(u8 \<times> ('m, unit) cpu_op) list" where
  "page11_table = table_1130 @ table_1140 @ table_1180 @ table_1190 @ table_11A0 @ table_11B0 @
     table_11C0 @ table_11D0 @ table_11E0 @ table_11F0"

definition execute_page11 :: "u8 \<Rightarrow> ('m, unit) cpu_op" where
  "execute_page11 opcode = (case map_of page11_table opcode of Some body \<Rightarrow> body | None \<Rightarrow> illegal_opcode_trap)"

section \<open>Prefix 10\<close>

definition table_1020 :: "(u8 \<times> ('m, unit) cpu_op) list" where
  "table_1020 =
    [(0x21, op_lbcc 0x21),
     (0x22, op_lbcc 0x22),
     (0x23, op_lbcc 0x23),
     (0x24, op_lbcc 0x24),
     (0x25, op_lbcc 0x25),
     (0x26, op_lbcc 0x26),
     (0x27, op_lbcc 0x27),
     (0x28, op_lbcc 0x28),
     (0x29, op_lbcc 0x29),
     (0x2A, op_lbcc 0x2A),
     (0x2B, op_lbcc 0x2B),
     (0x2C, op_lbcc 0x2C),
     (0x2D, op_lbcc 0x2D),
     (0x2E, op_lbcc 0x2E),
     (0x2F, op_lbcc 0x2F)]"

definition table_1030 :: "(u8 \<times> ('m, unit) cpu_op) list" where
  "table_1030 =
    [(0x30, op_regreg 0x30),
     (0x31, op_regreg 0x31),
     (0x32, op_regreg 0x32),
     (0x33, op_regreg 0x33),
     (0x34, op_regreg 0x34),
     (0x35, op_regreg 0x35),
     (0x36, op_regreg 0x36),
     (0x37, op_regreg 0x37),
     (0x38, op_pshsw),
     (0x39, op_pulsw),
     (0x3A, op_pshuw),
     (0x3B, op_puluw),
     (0x3F, op_swi2)]"

definition table_1040 :: "(u8 \<times> ('m, unit) cpu_op) list" where
  "table_1040 =
    [(0x40, RMW16D_INH NEG),
     (0x43, RMW16D_INH COM),
     (0x44, RMW16D_INH LSR),
     (0x46, RMW16D_INH ROR),
     (0x47, RMW16D_INH ASR),
     (0x48, RMW16D_INH ASL),
     (0x49, RMW16D_INH ROL),
     (0x4A, RMW16D_INH DEC),
     (0x4C, RMW16D_INH INC),
     (0x4D, RMW16D_INH TST),
     (0x4F, RMW16D_INH CLR)]"

definition table_1050 :: "(u8 \<times> ('m, unit) cpu_op) list" where
  "table_1050 =
    [(0x53, RMW16W_INH COM),
     (0x54, RMW16W_INH LSR),
     (0x56, RMW16W_INH ROR),
     (0x59, RMW16W_INH ROL),
     (0x5A, RMW16W_INH DEC),
     (0x5C, RMW16W_INH INC),
     (0x5D, RMW16W_INH TST),
     (0x5F, RMW16W_INH CLR)]"

definition table_1080 :: "(u8 \<times> ('m, unit) cpu_op) list" where
  "table_1080 =
    [(0x80, ALU16_IMM RegW SUB 5 4),
     (0x81, ALU16_IMM RegW CMP 5 4),
     (0x82, ALU16_IMM RegD SBC 5 4),
     (0x83, ALU16_IMM RegD CMP 5 4),
     (0x84, ALU16_IMM RegD AND_op 5 4),
     (0x85, ALU16_IMM RegD BIT_op 5 4),
     (0x86, LD16M_IMM RegW 4),
     (0x88, ALU16_IMM RegD EOR 5 4),
     (0x89, ALU16_IMM RegD ADC 5 4),
     (0x8A, ALU16_IMM RegD OR_op 5 4),
     (0x8B, ALU16_IMM RegW ADD 5 4),
     (0x8C, CMP16_IMM RegY 5 4),
     (0x8E, LD16_IMM RegY 4)]"

definition table_1090 :: "(u8 \<times> ('m, unit) cpu_op) list" where
  "table_1090 =
    [(0x90, ALU16_DIR RegW SUB 7 5),
     (0x91, ALU16_DIR RegW CMP 7 5),
     (0x92, ALU16_DIR RegD SBC 7 5),
     (0x93, ALU16_DIR RegD CMP 7 5),
     (0x94, ALU16_DIR RegD AND_op 7 5),
     (0x95, ALU16_DIR RegD BIT_op 7 5),
     (0x96, LD16M_DIR RegW 6 5),
     (0x97, ST16M_DIR RegW 6 5),
     (0x98, ALU16_DIR RegD EOR 7 5),
     (0x99, ALU16_DIR RegD ADC 7 5),
     (0x9A, ALU16_DIR RegD OR_op 7 5),
     (0x9B, ALU16_DIR RegW ADD 7 5),
     (0x9C, CMP16_DIR RegY 7 5),
     (0x9E, LD16_DIR RegY 6 5),
     (0x9F, ST16_DIR RegY 6 5)]"

definition table_10A0 :: "(u8 \<times> ('m, unit) cpu_op) list" where
  "table_10A0 =
    [(0xA0, ALU16_IDX RegW SUB 7),
     (0xA1, ALU16_IDX RegW CMP 7),
     (0xA2, ALU16_IDX RegD SBC 7),
     (0xA3, ALU16_IDX RegD CMP 7),
     (0xA4, ALU16_IDX RegD AND_op 7),
     (0xA5, ALU16_IDX RegD BIT_op 7),
     (0xA6, LD16M_IDX RegW 6),
     (0xA7, ST16M_IDX RegW 6),
     (0xA8, ALU16_IDX RegD EOR 7),
     (0xA9, ALU16_IDX RegD ADC 7),
     (0xAA, ALU16_IDX RegD OR_op 7),
     (0xAB, ALU16_IDX RegW ADD 7),
     (0xAC, CMP16_IDX RegY 7),
     (0xAE, LD16_IDX RegY 6),
     (0xAF, ST16_IDX RegY 6)]"

definition table_10B0 :: "(u8 \<times> ('m, unit) cpu_op) list" where
  "table_10B0 =
    [(0xB0, ALU16_EXT RegW SUB 8 6),
     (0xB1, ALU16_EXT RegW CMP 8 6),
     (0xB2, ALU16_EXT RegD SBC 8 6),
     (0xB3, ALU16_EXT RegD CMP 8 6),
     (0xB4, ALU16_EXT RegD AND_op 8 6),
     (0xB5, ALU16_EXT RegD BIT_op 8 6),
     (0xB6, LD16M_EXT RegW 7 6),
     (0xB7, ST16M_EXT RegW 7 6),
     (0xB8, ALU16_EXT RegD EOR 8 6),
     (0xB9, ALU16_EXT RegD ADC 8 6),
     (0xBA, ALU16_EXT RegD OR_op 8 6),
     (0xBB, ALU16_EXT RegW ADD 8 6),
     (0xBC, CMP16_EXT RegY 8 6),
     (0xBE, LD16_EXT RegY 7 6),
     (0xBF, ST16_EXT RegY 7 6)]"

definition table_10C0 :: "(u8 \<times> ('m, unit) cpu_op) list" where
  "table_10C0 =
    [(0xCE, LD16_IMM RegS 4),
     (0xDC, op_ldq_dir),
     (0xDD, op_stq_dir),
     (0xDE, LD16_DIR RegS 6 5),
     (0xDF, ST16_DIR RegS 6 5),
     (0xEC, op_ldq_idx),
     (0xED, op_stq_idx),
     (0xEE, LD16_IDX RegS 6),
     (0xEF, ST16_IDX RegS 6),
     (0xFC, op_ldq_ext),
     (0xFD, op_stq_ext),
     (0xFE, LD16_EXT RegS 7 6),
     (0xFF, ST16_EXT RegS 7 6)]"

definition page10_table :: "(u8 \<times> ('m, unit) cpu_op) list" where
  "page10_table = table_1020 @ table_1030 @ table_1040 @ table_1050 @ table_1080 @ table_1090 @
     table_10A0 @ table_10B0 @ table_10C0"

definition execute_page10 :: "u8 \<Rightarrow> ('m, unit) cpu_op" where
  "execute_page10 opcode = (case map_of page10_table opcode of Some body \<Rightarrow> body | None \<Rightarrow> illegal_opcode_trap)"

section \<open>Unprefixed opcodes\<close>

definition table_00 :: "(u8 \<times> ('m, unit) cpu_op) list" where
  "table_00 =
    [(0x00, RMW8_DIR NEG),
     (0x01, LOGICMEM_DIR (OR) True),
     (0x02, LOGICMEM_DIR (AND) True),
     (0x03, RMW8_DIR COM),
     (0x04, RMW8_DIR LSR),
     (0x05, LOGICMEM_DIR (XOR) True),
     (0x06, RMW8_DIR ROR),
     (0x07, RMW8_DIR ASR),
     (0x08, RMW8_DIR ASL),
     (0x09, RMW8_DIR ROL),
     (0x0A, RMW8_DIR DEC),
     (0x0B, LOGICMEM_DIR (AND) False),
     (0x0C, RMW8_DIR INC),
     (0x0D, op_tst_dir),
     (0x0E, op_jmp_dir),
     (0x0F, RMW8_DIR CLR)]"

definition table_10 :: "(u8 \<times> ('m, unit) cpu_op) list" where
  "table_10 =
    [(0x10, do { op \<leftarrow> fetch8; execute_page10 op }),
     (0x11, do { op \<leftarrow> fetch8; execute_page11 op }),
     (0x12, op_nop),
     (0x13, op_sync),
     (0x14, op_sexw),
     (0x16, op_lbra),
     (0x17, op_lbsr),
     (0x19, op_daa),
     (0x1A, op_orcc),
     (0x1C, op_andcc),
     (0x1D, op_sex),
     (0x1E, op_exg),
     (0x1F, op_tfr)]"

definition table_20 :: "(u8 \<times> ('m, unit) cpu_op) list" where
  "table_20 =
    [(0x20, op_branch 0x20),
     (0x21, op_branch 0x21),
     (0x22, op_branch 0x22),
     (0x23, op_branch 0x23),
     (0x24, op_branch 0x24),
     (0x25, op_branch 0x25),
     (0x26, op_branch 0x26),
     (0x27, op_branch 0x27),
     (0x28, op_branch 0x28),
     (0x29, op_branch 0x29),
     (0x2A, op_branch 0x2A),
     (0x2B, op_branch 0x2B),
     (0x2C, op_branch 0x2C),
     (0x2D, op_branch 0x2D),
     (0x2E, op_branch 0x2E),
     (0x2F, op_branch 0x2F)]"

definition table_30 :: "(u8 \<times> ('m, unit) cpu_op) list" where
  "table_30 =
    [(0x30, op_leax),
     (0x31, op_leay),
     (0x32, op_leas),
     (0x33, op_leau),
     (0x34, op_pshs),
     (0x35, op_puls),
     (0x36, op_pshu),
     (0x37, op_pulu),
     (0x39, op_rts),
     (0x3A, op_abx),
     (0x3B, op_rti),
     (0x3C, op_cwai),
     (0x3D, op_mul),
     (0x3F, op_swi)]"

definition table_40 :: "(u8 \<times> ('m, unit) cpu_op) list" where
  "table_40 =
    [(0x40, RMW8_INH NEG RegA 2 1),
     (0x43, RMW8_INH COM RegA 2 1),
     (0x44, RMW8_INH LSR RegA 2 1),
     (0x46, RMW8_INH ROR RegA 2 1),
     (0x47, RMW8_INH ASR RegA 2 1),
     (0x48, RMW8_INH ASL RegA 2 1),
     (0x49, RMW8_INH ROL RegA 2 1),
     (0x4A, RMW8_INH DEC RegA 2 1),
     (0x4C, RMW8_INH INC RegA 2 1),
     (0x4D, RMW8_INH TST RegA 2 1),
     (0x4F, RMW8_INH CLR RegA 2 1)]"

definition table_50 :: "(u8 \<times> ('m, unit) cpu_op) list" where
  "table_50 =
    [(0x50, RMW8_INH NEG RegB 2 1),
     (0x53, RMW8_INH COM RegB 2 1),
     (0x54, RMW8_INH LSR RegB 2 1),
     (0x56, RMW8_INH ROR RegB 2 1),
     (0x57, RMW8_INH ASR RegB 2 1),
     (0x58, RMW8_INH ASL RegB 2 1),
     (0x59, RMW8_INH ROL RegB 2 1),
     (0x5A, RMW8_INH DEC RegB 2 1),
     (0x5C, RMW8_INH INC RegB 2 1),
     (0x5D, RMW8_INH TST RegB 2 1),
     (0x5F, RMW8_INH CLR RegB 2 1)]"

definition table_60 :: "(u8 \<times> ('m, unit) cpu_op) list" where
  "table_60 =
    [(0x60, RMW8_IDX NEG),
     (0x61, LOGICMEM_IDX (OR) True),
     (0x62, LOGICMEM_IDX (AND) True),
     (0x63, RMW8_IDX COM),
     (0x64, RMW8_IDX LSR),
     (0x65, LOGICMEM_IDX (XOR) True),
     (0x66, RMW8_IDX ROR),
     (0x67, RMW8_IDX ASR),
     (0x68, RMW8_IDX ASL),
     (0x69, RMW8_IDX ROL),
     (0x6A, RMW8_IDX DEC),
     (0x6B, LOGICMEM_IDX (AND) False),
     (0x6C, RMW8_IDX INC),
     (0x6D, op_tst_idx),
     (0x6E, op_jmp_idx),
     (0x6F, RMW8_IDX CLR)]"

definition table_70 :: "(u8 \<times> ('m, unit) cpu_op) list" where
  "table_70 =
    [(0x70, RMW8_EXT NEG),
     (0x71, LOGICMEM_EXT (OR) True),
     (0x72, LOGICMEM_EXT (AND) True),
     (0x73, RMW8_EXT COM),
     (0x74, RMW8_EXT LSR),
     (0x75, LOGICMEM_EXT (XOR) True),
     (0x76, RMW8_EXT ROR),
     (0x77, RMW8_EXT ASR),
     (0x78, RMW8_EXT ASL),
     (0x79, RMW8_EXT ROL),
     (0x7A, RMW8_EXT DEC),
     (0x7B, LOGICMEM_EXT (AND) False),
     (0x7C, RMW8_EXT INC),
     (0x7D, op_tst_ext),
     (0x7E, op_jmp_ext),
     (0x7F, RMW8_EXT CLR)]"

definition table_80 :: "(u8 \<times> ('m, unit) cpu_op) list" where
  "table_80 =
    [(0x80, ALU8_IMM RegA SUB 2),
     (0x81, ALU8_IMM RegA CMP 2),
     (0x82, ALU8_IMM RegA SBC 2),
     (0x83, ALU16_IMM RegD SUB 4 3),
     (0x84, ALU8_IMM RegA AND_op 2),
     (0x85, ALU8_IMM RegA BIT_op 2),
     (0x86, ALU8_IMM RegA LD 2),
     (0x8C, CMP16_IMM RegX 4 3),
     (0x8D, op_bsr),
     (0x8E, LD16_IMM RegX 3),
     (0x88, ALU8_IMM RegA EOR 2),
     (0x89, ALU8_IMM RegA ADC 2),
     (0x8A, ALU8_IMM RegA OR_op 2),
     (0x8B, ALU8_IMM RegA ADD 2)]"

definition table_90 :: "(u8 \<times> ('m, unit) cpu_op) list" where
  "table_90 =
    [(0x90, ALU8_DIR RegA SUB 4 3),
     (0x91, ALU8_DIR RegA CMP 4 3),
     (0x92, ALU8_DIR RegA SBC 4 3),
     (0x93, ALU16_DIR RegD SUB 6 4),
     (0x94, ALU8_DIR RegA AND_op 4 3),
     (0x95, ALU8_DIR RegA BIT_op 4 3),
     (0x96, ALU8_DIR RegA LD 4 3),
     (0x97, ST8_DIR RegA 4 3),
     (0x98, ALU8_DIR RegA EOR 4 3),
     (0x99, ALU8_DIR RegA ADC 4 3),
     (0x9A, ALU8_DIR RegA OR_op 4 3),
     (0x9B, ALU8_DIR RegA ADD 4 3),
     (0x9C, CMP16_DIR RegX 6 4),
     (0x9D, op_jsr_dir),
     (0x9E, LD16_DIR RegX 5 4),
     (0x9F, ST16_DIR RegX 5 4)]"

definition table_A0 :: "(u8 \<times> ('m, unit) cpu_op) list" where
  "table_A0 =
    [(0xA0, ALU8_IDX RegA SUB 4),
     (0xA1, ALU8_IDX RegA CMP 4),
     (0xA2, ALU8_IDX RegA SBC 4),
     (0xA3, ALU16_IDX RegD SUB 6),
     (0xA4, ALU8_IDX RegA AND_op 4),
     (0xA5, ALU8_IDX RegA BIT_op 4),
     (0xA6, ALU8_IDX RegA LD 4),
     (0xA7, ST8_IDX RegA 4),
     (0xA8, ALU8_IDX RegA EOR 4),
     (0xA9, ALU8_IDX RegA ADC 4),
     (0xAA, ALU8_IDX RegA OR_op 4),
     (0xAB, ALU8_IDX RegA ADD 4),
     (0xAC, CMP16_IDX RegX 6),
     (0xAD, op_jsr_idx),
     (0xAE, LD16_IDX RegX 5),
     (0xAF, ST16_IDX RegX 5)]"

definition table_B0 :: "(u8 \<times> ('m, unit) cpu_op) list" where
  "table_B0 =
    [(0xB0, ALU8_EXT RegA SUB 5 4),
     (0xB1, ALU8_EXT RegA CMP 5 4),
     (0xB2, ALU8_EXT RegA SBC 5 4),
     (0xB3, ALU16_EXT RegD SUB 7 5),
     (0xB4, ALU8_EXT RegA AND_op 5 4),
     (0xB5, ALU8_EXT RegA BIT_op 5 4),
     (0xB6, ALU8_EXT RegA LD 5 4),
     (0xB7, ST8_EXT RegA 5 4),
     (0xB8, ALU8_EXT RegA EOR 5 4),
     (0xB9, ALU8_EXT RegA ADC 5 4),
     (0xBA, ALU8_EXT RegA OR_op 5 4),
     (0xBB, ALU8_EXT RegA ADD 5 4),
     (0xBC, CMP16_EXT RegX 7 5),
     (0xBD, op_jsr_ext),
     (0xBE, LD16_EXT RegX 6 5),
     (0xBF, ST16_EXT RegX 6 5)]"

definition table_C0 :: "(u8 \<times> ('m, unit) cpu_op) list" where
  "table_C0 =
    [(0xC0, ALU8_IMM RegB SUB 2),
     (0xC1, ALU8_IMM RegB CMP 2),
     (0xC2, ALU8_IMM RegB SBC 2),
     (0xC3, ALU16_IMM RegD ADD 4 3),
     (0xC4, ALU8_IMM RegB AND_op 2),
     (0xC5, ALU8_IMM RegB BIT_op 2),
     (0xC6, ALU8_IMM RegB LD 2),
     (0xC8, ALU8_IMM RegB EOR 2),
     (0xC9, ALU8_IMM RegB ADC 2),
     (0xCA, ALU8_IMM RegB OR_op 2),
     (0xCB, ALU8_IMM RegB ADD 2),
     (0xCC, LD16M_IMM RegD 3),
     (0xCD, op_ldq_imm),
     (0xCE, LD16_IMM RegU 3)]"

definition table_D0 :: "(u8 \<times> ('m, unit) cpu_op) list" where
  "table_D0 =
    [(0xD0, ALU8_DIR RegB SUB 4 3),
     (0xD1, ALU8_DIR RegB CMP 4 3),
     (0xD2, ALU8_DIR RegB SBC 4 3),
     (0xD3, ALU16_DIR RegD ADD 6 4),
     (0xD4, ALU8_DIR RegB AND_op 4 3),
     (0xD5, ALU8_DIR RegB BIT_op 4 3),
     (0xD6, ALU8_DIR RegB LD 4 3),
     (0xD7, ST8_DIR RegB 4 3),
     (0xD8, ALU8_DIR RegB EOR 4 3),
     (0xD9, ALU8_DIR RegB ADC 4 3),
     (0xDA, ALU8_DIR RegB OR_op 4 3),
     (0xDB, ALU8_DIR RegB ADD 4 3),
     (0xDC, LD16M_DIR RegD 5 4),
     (0xDD, ST16M_DIR RegD 5 4),
     (0xDE, LD16_DIR RegU 5 4),
     (0xDF, ST16_DIR RegU 5 4)]"

definition table_E0 :: "(u8 \<times> ('m, unit) cpu_op) list" where
  "table_E0 =
    [(0xE0, ALU8_IDX RegB SUB 4),
     (0xE1, ALU8_IDX RegB CMP 4),
     (0xE2, ALU8_IDX RegB SBC 4),
     (0xE3, ALU16_IDX RegD ADD 6),
     (0xE4, ALU8_IDX RegB AND_op 4),
     (0xE5, ALU8_IDX RegB BIT_op 4),
     (0xE6, ALU8_IDX RegB LD 4),
     (0xE7, ST8_IDX RegB 4),
     (0xE8, ALU8_IDX RegB EOR 4),
     (0xE9, ALU8_IDX RegB ADC 4),
     (0xEA, ALU8_IDX RegB OR_op 4),
     (0xEB, ALU8_IDX RegB ADD 4),
     (0xEC, LD16M_IDX RegD 5),
     (0xED, ST16M_IDX RegD 5),
     (0xEE, LD16_IDX RegU 5),
     (0xEF, ST16_IDX RegU 5)]"

definition table_F0 :: "(u8 \<times> ('m, unit) cpu_op) list" where
  "table_F0 =
    [(0xF0, ALU8_EXT RegB SUB 5 4),
     (0xF1, ALU8_EXT RegB CMP 5 4),
     (0xF2, ALU8_EXT RegB SBC 5 4),
     (0xF3, ALU16_EXT RegD ADD 7 5),
     (0xF4, ALU8_EXT RegB AND_op 5 4),
     (0xF5, ALU8_EXT RegB BIT_op 5 4),
     (0xF6, ALU8_EXT RegB LD 5 4),
     (0xF7, ST8_EXT RegB 5 4),
     (0xF8, ALU8_EXT RegB EOR 5 4),
     (0xF9, ALU8_EXT RegB ADC 5 4),
     (0xFA, ALU8_EXT RegB OR_op 5 4),
     (0xFB, ALU8_EXT RegB ADD 5 4),
     (0xFC, LD16M_EXT RegD 6 5),
     (0xFD, ST16M_EXT RegD 6 5),
     (0xFE, LD16_EXT RegU 6 5),
     (0xFF, ST16_EXT RegU 6 5)]"

definition page00_table :: "(u8 \<times> ('m, unit) cpu_op) list" where
  "page00_table = table_00 @ table_10 @ table_20 @ table_30 @ table_40 @ table_50 @
     table_60 @ table_70 @ table_80 @ table_90 @ table_A0 @ table_B0 @
     table_C0 @ table_D0 @ table_E0 @ table_F0"

definition execute :: "u8 \<Rightarrow> ('m, unit) cpu_op" where
  "execute opcode = (case map_of page00_table opcode of Some body \<Rightarrow> body | None \<Rightarrow> illegal_opcode_trap)"

end
