(* ===== verification/Execution.thy ===== *)
theory Execution
  imports Opcodes
begin

text \<open>
  \<^verbatim>\<open>CPU::step\<close> and \<^verbatim>\<open>CPU::run\<close> of \<^verbatim>\<open>simulator/src/hd6309_core.cpp\<close> and the C interface of
  \<^verbatim>\<open>simulator/src/hd6309_api.cpp\<close>. A handle is an option: \<^verbatim>\<open>nullptr\<close> is \<open>None\<close>.
\<close>

section \<open>Single step\<close>

text \<open>\<^verbatim>\<open>cycles_ += n; total_cycles_ += cycles_; return cycles_;\<close>\<close>

definition account :: "('m, nat) cpu_op" where
  "account = do {
     modify (\<lambda>c. c\<lparr>total_cycles := total_cycles c + of_nat (cycles c)\<rparr>);
     gets cycles
   }"

definition step :: "('m, nat) cpu_op" where
  "step = do {
     modify (\<lambda>c. c\<lparr>cycles := 0\<rparr>);
     modify (\<lambda>c. c\<lparr>stop_reason := CycleBudget\<rparr>);
     h \<leftarrow> gets halted;
     if h then do { modify (\<lambda>c. c\<lparr>stop_reason := Halted\<rparr>); return 0 }
     else do {
       serviced \<leftarrow> service_interrupts;
       if serviced then account
       else do {
         waiting \<leftarrow> gets wait_sync;
         if waiting then do {
           modify (\<lambda>c. c\<lparr>cycles := 1\<rparr>);
           n \<leftarrow> account;
           modify (\<lambda>c. c\<lparr>stop_reason := Sync\<rparr>);
           return n
         }
         else do {
           modify (\<lambda>c. c\<lparr>insn_pc := r_pc c\<rparr>);
           opcode \<leftarrow> fetch8;
           execute opcode;
           account
         }
       }
     }
   }"

section \<open>Running\<close>

text \<open>The loop of \<^verbatim>\<open>run\<close>. It is a partial function: the cycle counter is a \<^verbatim>\<open>uint64_t\<close> that wraps, so
  that a budget close to $2^{64}$ may never be reached.\<close>

definition at_breakpoint :: "'m CPU \<Rightarrow> bool" where
  "at_breakpoint c \<longleftrightarrow> list_ex (\<lambda>b. snd b = r_pc c) (breakpoints c)"

partial_function (option) run_loop :: "u64 \<Rightarrow> u64 \<Rightarrow> 'm CPU \<Rightarrow> (u64 \<times> 'm CPU) option" where
  "run_loop max_cycles consumed c =
    (if consumed < max_cycles then
       if halted c then Some (consumed, c\<lparr>stop_reason := Halted\<rparr>)
       else if at_breakpoint c then Some (consumed, c\<lparr>stop_reason := Breakpoint\<rparr>)
       else (case run_state step c of (n, c') \<Rightarrow> run_loop max_cycles (consumed + of_nat n) c')
     else Some (consumed, c\<lparr>stop_reason := CycleBudget\<rparr>))"

declare run_loop.simps [code]

definition run :: "u64 \<Rightarrow> 'm CPU \<Rightarrow> (u64 \<times> 'm CPU) option" where
  "run max_cycles c = run_loop max_cycles 0 (c\<lparr>stop_reason := CycleBudget\<rparr>)"

section \<open>The C interface\<close>

definition hd6309_create :: "('m \<Rightarrow> u16 \<Rightarrow> u8 \<times> 'm) option \<Rightarrow> ('m \<Rightarrow> u16 \<Rightarrow> u8 \<Rightarrow> 'm) option \<Rightarrow> 'm \<Rightarrow> 'm CPU option" where
  "hd6309_create rfn wfn m =
    (case (rfn, wfn) of (Some rd, Some wr) \<Rightarrow> Some (new_CPU rd wr m) | _ \<Rightarrow> None)"

definition hd6309_reset :: "'m CPU option \<Rightarrow> 'm CPU option" where
  "hd6309_reset h = map_option (\<lambda>c. snd (run_state reset_cpu c)) h"

definition hd6309_step :: "'m CPU option \<Rightarrow> nat \<times> 'm CPU option" where
  "hd6309_step h = (case h of None \<Rightarrow> (0, None) | Some c \<Rightarrow> map_prod id Some (run_state step c))"

definition hd6309_run :: "u64 \<Rightarrow> 'm CPU option \<Rightarrow> (u64 \<times> 'm CPU option) option" where
  "hd6309_run max_cycles h =
    (case h of None \<Rightarrow> Some (0, None) | Some c \<Rightarrow> map_option (map_prod id Some) (run max_cycles c))"

definition hd6309_get_stop_reason :: "'m CPU option \<Rightarrow> StopReason" where
  "hd6309_get_stop_reason h = (case h of None \<Rightarrow> CycleBudget | Some c \<Rightarrow> stop_reason c)"

definition hd6309_halt :: "'m CPU option \<Rightarrow> 'm CPU option" where
  "hd6309_halt h = map_option halt h"

definition hd6309_resume :: "'m CPU option \<Rightarrow> 'm CPU option" where
  "hd6309_resume h = map_option resume h"

definition hd6309_is_halted :: "'m CPU option \<Rightarrow> bool" where
  "hd6309_is_halted h = (case h of None \<Rightarrow> False | Some c \<Rightarrow> halted c)"

definition hd6309_set_irq :: "bool \<Rightarrow> 'm CPU option \<Rightarrow> 'm CPU option" where
  "hd6309_set_irq asserted h = map_option (set_irq asserted) h"

definition hd6309_set_firq :: "bool \<Rightarrow> 'm CPU option \<Rightarrow> 'm CPU option" where
  "hd6309_set_firq asserted h = map_option (set_firq asserted) h"

definition hd6309_nmi_pulse :: "'m CPU option \<Rightarrow> 'm CPU option" where
  "hd6309_nmi_pulse h = map_option nmi_pulse h"

definition hd6309_get_regs :: "'m CPU option \<Rightarrow> regs option" where
  "hd6309_get_regs h = map_option regs.truncate h"

definition hd6309_set_regs :: "regs \<Rightarrow> 'm CPU option \<Rightarrow> 'm CPU option" where
  "hd6309_set_regs r h = map_option (\<lambda>c. regs.extend r (regs.more c)) h"

definition hd6309_total_cycles :: "'m CPU option \<Rightarrow> u64" where
  "hd6309_total_cycles h = (case h of None \<Rightarrow> 0 | Some c \<Rightarrow> total_cycles c)"

definition hd6309_add_breakpoint :: "u16 \<Rightarrow> 'm CPU option \<Rightarrow> int \<times> 'm CPU option" where
  "hd6309_add_breakpoint addr h =
    (case h of None \<Rightarrow> (-1, None) | Some c \<Rightarrow> map_prod id Some (add_breakpoint addr c))"

definition hd6309_remove_breakpoint :: "int \<Rightarrow> 'm CPU option \<Rightarrow> 'm CPU option" where
  "hd6309_remove_breakpoint i h = map_option (remove_breakpoint i) h"

definition hd6309_clear_breakpoints :: "'m CPU option \<Rightarrow> 'm CPU option" where
  "hd6309_clear_breakpoints h = map_option clear_breakpoints h"

definition hd6309_peek :: "u16 \<Rightarrow> 'm CPU option \<Rightarrow> u8 \<times> 'm CPU option" where
  "hd6309_peek addr h = (case h of None \<Rightarrow> (0, None) | Some c \<Rightarrow> map_prod id Some (run_state (read8 addr) c))"

definition hd6309_poke :: "u16 \<Rightarrow> u8 \<Rightarrow> 'm CPU option \<Rightarrow> 'm CPU option" where
  "hd6309_poke addr v h = map_option (\<lambda>c. snd (run_state (write8 addr v) c)) h"

section \<open>The convenience RAM bus\<close>

text \<open>\<^verbatim>\<open>hd6309_ram_bus_t\<close>: an array of 65536 bytes, indexed by a 16-bit address.\<close>

type_synonym ram_bus = "u16 \<Rightarrow> u8"

definition ram_bus_create :: ram_bus where
  "ram_bus_create = (\<lambda>_. 0)"

definition ram_bus_read :: "ram_bus \<Rightarrow> u16 \<Rightarrow> u8 \<times> ram_bus" where
  "ram_bus_read m a = (m a, m)"

definition ram_bus_write :: "ram_bus \<Rightarrow> u16 \<Rightarrow> u8 \<Rightarrow> ram_bus" where
  "ram_bus_write m a v = m(a := v)"

end
