(* ===== verification/Cpu_Relations.thy ===== *)
theory Cpu_Relations
  imports Execution
begin

text \<open>
  What an instruction leaves alone. The locale \<open>cpu_relation\<close> collects the requirements on a relation
  between CPU states for every instruction to preserve it (it ignores registers and the CPU's own
  bookkeeping, and admits bus accesses through the two callbacks), and proves that they all do, opcode
  table by opcode table; \<open>cpu_step_relation\<close> extends it to \<open>step\<close> and \<open>run\<close>. The interpretations are
  the lines and settings the host owns, and the trace of bus accesses.
\<close>

section \<open>Register operations leave the rest of the CPU alone\<close>

named_theorems more_simps "operations on registers that do not touch the other members"

lemma more_flags [more_simps]:
  "regs.more (set_flag b v c) = regs.more c" "regs.more (set_nz8 x c) = regs.more c"
  "regs.more (set_nz16 y c) = regs.more c" "regs.more (set_d y c) = regs.more c"
  "regs.more (set_w y c) = regs.more c" "regs.more (set_q q c) = regs.more c"
  by (simp_all add: set_flag_def set_nz8_def set_nz16_def set_d_def set_w_def set_q_def)

lemma more_set [more_simps]:
  "regs.more (set8 r x c) = regs.more c" "regs.more (set16 s y c) = regs.more c"
  by (cases r; simp) (cases s; simp add: more_flags)

lemma more_alu [more_simps]:
  "regs.more (snd (add8 a b ci h c)) = regs.more c" "regs.more (snd (sub8 a b ci c)) = regs.more c"
  "regs.more (snd (add16 p q ci c)) = regs.more c" "regs.more (snd (sub16 p q ci c)) = regs.more c"
  "regs.more (cmp8 a b c) = regs.more c" "regs.more (cmp16 p q c) = regs.more c"
  by (simp_all add: add8_def sub8_def add16_def sub16_def cmp8_def cmp16_def Let_def more_flags)

lemma more_logic [more_simps]:
  "regs.more (snd (and8 a b c)) = regs.more c" "regs.more (snd (or8 a b c)) = regs.more c"
  "regs.more (snd (eor8 a b c)) = regs.more c" "regs.more (bit8 a b c) = regs.more c"
  "regs.more (snd (and16 p q c)) = regs.more c" "regs.more (snd (or16 p q c)) = regs.more c"
  "regs.more (snd (eor16 p q c)) = regs.more c" "regs.more (bit16 p q c) = regs.more c"
  by (simp_all add: and8_def or8_def eor8_def bit8_def and16_def or16_def eor16_def bit16_def Let_def more_flags)

lemma more_rmw [more_simps]:
  "regs.more (snd (rmw8 op v c)) = regs.more c" "regs.more (snd (rmw16 op w c)) = regs.more c"
  by (cases op; simp add: Let_def more_flags)+

lemma more_apply [more_simps]:
  "regs.more (snd (apply_alu8 op a b c)) = regs.more c" "regs.more (snd (apply_alu16 op p q c)) = regs.more c"
  by (cases op; simp add: more_flags more_alu more_logic)+

lemma more_reg [more_simps]:
  "regs.more (alu8_reg r op v c) = regs.more c" "regs.more (alu16_reg s op w c) = regs.more c"
  "regs.more (rmw8_reg rop r c) = regs.more c" "regs.more (rmw16_reg rop s c) = regs.more c"
  "regs.more (st8_flags v c) = regs.more c" "regs.more (st16_flags w c) = regs.more c"
  by (simp_all add: alu8_reg_def alu16_reg_def rmw8_reg_def rmw16_reg_def st8_flags_def st16_flags_def
      split_beta more_flags more_set more_apply more_rmw)

lemma more_code [more_simps]:
  "regs.more (set_reg_by_code k v c) = regs.more c"
  by (simp add: set_reg_by_code_def Let_def more_flags)

lemma more_helpers [more_simps]:
  "regs.more (do_daa c) = regs.more c" "regs.more (do_muld w c) = regs.more c"
  "regs.more (divd_result v c) = regs.more c" "regs.more (divq_result w c) = regs.more c"
  "regs.more (do_tfr_exg v exg c) = regs.more c" "regs.more (mul_result c) = regs.more c"
  "regs.more (q_flags q c) = regs.more c" "regs.more (bitmd v c) = regs.more c"
  "regs.more (set_bitbit_reg v x c) = regs.more c"
  by (simp_all add: do_daa_def do_muld_def divd_result_def divq_result_def do_tfr_exg_def mul_result_def
      q_flags_def bitmd_def set_bitbit_reg_def Let_def more_flags more_code)

lemma more_regreg [more_simps]: "regs.more (regreg op src dst c) = regs.more c"
  by (simp add: regreg_def split_beta more_apply more_code)

lemmas page11_defs = page11_table_def table_1130_def table_1140_def table_1180_def table_1190_def table_11A0_def table_11B0_def table_11C0_def table_11D0_def table_11E0_def table_11F0_def
lemmas page10_defs = page10_table_def table_1020_def table_1030_def table_1040_def table_1050_def table_1080_def table_1090_def table_10A0_def table_10B0_def table_10C0_def
lemmas page00_defs = page00_table_def table_00_def table_10_def table_20_def table_30_def table_40_def table_50_def table_60_def table_70_def table_80_def table_90_def table_A0_def table_B0_def table_C0_def table_D0_def table_E0_def table_F0_def

section \<open>Relations an instruction preserves\<close>

definition preserves :: "('s \<Rightarrow> 's \<Rightarrow> bool) \<Rightarrow> ('s, 'a) state \<Rightarrow> bool" where
  "preserves P m \<longleftrightarrow> (\<forall>s. P s (snd (run_state m s)))"

lemma run_state_gets [simp]: "run_state (gets f) s = (f s, s)"
  by (simp add: gets_def)

lemma run_state_modify [simp]: "run_state (modify f) s = ((), f s)"
  by (simp add: modify_def)

lemma preservesD: "preserves P m \<Longrightarrow> P s (snd (run_state m s))"
  by (simp add: preserves_def)

locale cpu_relation =
  fixes P :: "'m CPU \<Rightarrow> 'm CPU \<Rightarrow> bool"
  assumes rel_trans: "P a b \<Longrightarrow> P b c \<Longrightarrow> P a c"
    and rel_regs: "regs.more c' = regs.more c \<Longrightarrow> P c c'"
    and rel_cycles: "P c (c\<lparr>cycles := cycles c + n\<rparr>)"
    and rel_flags: "P c (c\<lparr>cwai_pushed_pending := bo\<rparr>)" "P c (c\<lparr>wait_sync := bo\<rparr>)"
      "P c (c\<lparr>stop_reason := sr\<rparr>)" "P c (c\<lparr>host_ub := bo\<rparr>)"
    and rel_read: "P c (c\<lparr>bus_ctx := snd (read_fn c (bus_ctx c) addr)\<rparr>)"
    and rel_write: "P c (c\<lparr>bus_ctx := write_fn c (bus_ctx c) addr v\<rparr>)"
begin

lemma keep_bind: "preserves P m \<Longrightarrow> (\<And>x. preserves P (f x)) \<Longrightarrow> preserves P (State_Monad.bind m f)"
  unfolding preserves_def by (auto simp: split_beta intro: rel_trans)

lemma keep_pure: "preserves P (return x)" "preserves P (gets f)"
  by (simp_all add: preserves_def rel_regs)

lemma keep_if: "preserves P m \<Longrightarrow> preserves P n \<Longrightarrow> preserves P (if b then m else n)"
  by simp

lemma keep_only_if: "preserves P m \<Longrightarrow> preserves P (only_if b m)"
  by (simp add: only_if_def keep_pure)

lemma keep_let: "(\<And>x. preserves P (f x)) \<Longrightarrow> preserves P (Let t f)"
  by (simp add: Let_def)

lemma keep_modify_cpu:
  "preserves P (modify (\<lambda>c. c\<lparr>cycles := cycles c + n\<rparr>))"
  "preserves P (modify (\<lambda>c. c\<lparr>cwai_pushed_pending := b\<rparr>))"
  "preserves P (modify (\<lambda>c. c\<lparr>wait_sync := b\<rparr>))"
  "preserves P (modify (\<lambda>c. c\<lparr>stop_reason := sr\<rparr>))"
  "preserves P (modify (\<lambda>c. c\<lparr>host_ub := b\<rparr>))"
  by (simp_all add: preserves_def rel_cycles rel_flags)

lemma keep_modify: "(\<And>c. regs.more (f c) = regs.more c) \<Longrightarrow> preserves P (modify f)"
  by (simp add: preserves_def rel_regs)

lemma keep_State: "(\<And>c. regs.more (snd (f c)) = regs.more c) \<Longrightarrow> preserves P (State f)"
  by (simp add: preserves_def rel_regs)

lemma keep_read8: "preserves P (read8 a)"
  by (simp add: preserves_def read8_def split_beta rel_read)

lemma keep_write8: "preserves P (write8 a v)"
  by (simp add: preserves_def write8_def rel_write)

lemmas keep_rules = keep_bind keep_pure keep_if keep_only_if keep_let keep_read8 keep_write8
  keep_modify_cpu keep_modify keep_State

lemma keep_access:
  "preserves P (tick n)" "preserves P (tick_mode em nm)"
  "preserves P (read16 a)" "preserves P (write16 a w)"
  "preserves P fetch8" "preserves P fetch16"
proof -
  show 1: "preserves P (tick n)" for n
    unfolding tick_def by (rule keep_rules)
  then show "preserves P (tick_mode em nm)"
    unfolding tick_mode_def by (intro keep_rules)
  show "preserves P (read16 a)" "preserves P (write16 a w)"
    unfolding read16_def write16_def by (rule keep_rules)+
  show f: "preserves P fetch8"
    unfolding fetch8_def by (rule keep_rules | simp)+
  show "preserves P fetch16"
    unfolding fetch16_def by (rule keep_rules f)+
qed

lemma keep_ea:
  "preserves P ea_direct" "preserves P ea_extended" "preserves P rel8" "preserves P rel16"
  "preserves P ea_indexed"
  unfolding ea_direct_def ea_extended_def rel8_def rel16_def ea_indexed_def
  by (rule keep_rules keep_access | simp add: more_simps)+

lemma keep_stack:
  "preserves P (push8 sp v)" "preserves P (push16 sp w)"
  "preserves P (pull8 sp)" "preserves P (pull16 sp)"
  unfolding push16_def pull16_def push8_def pull8_def
  by (rule keep_rules keep_access | simp add: more_simps)+

lemma keep_push_of: "preserves P (push8_of sp f)" "preserves P (push16_of sp g)"
  unfolding push8_of_def push16_of_def by (rule keep_rules keep_stack)+

lemma keep_pull_to:
  "(\<And>v c. regs.more (f v c) = regs.more c) \<Longrightarrow> preserves P (pull8_to sp f)"
  "(\<And>v c. regs.more (g v c) = regs.more c) \<Longrightarrow> preserves P (pull16_to sp g)"
  unfolding pull8_to_def pull16_to_def by (rule keep_rules keep_stack | simp)+

lemmas keep_basic = keep_rules keep_access keep_ea keep_stack keep_push_of keep_pull_to

lemma keep_interrupts:
  "preserves P push_full_set" "preserves P push_partial_set"
  "preserves P (enter_interrupt vec m full)"
  "preserves P illegal_opcode_trap" "preserves P division_by_zero_trap"
proof -
  show 1: "preserves P push_full_set" "preserves P push_partial_set"
    unfolding push_full_set_def push_partial_set_def by (rule keep_basic | simp add: more_simps)+
  show 2: "preserves P (enter_interrupt vec m full)" for vec m full
    unfolding enter_interrupt_def by (rule keep_basic 1 | simp)+
  show "preserves P illegal_opcode_trap" "preserves P division_by_zero_trap"
    unfolding illegal_opcode_trap_def division_by_zero_trap_def by (rule keep_basic 2 | simp)+
qed

lemma keep_helpers:
  "preserves P (do_tfm opc)" "preserves P (do_bitbit opc)" "preserves P (do_divd v)" "preserves P (do_divq w)"
proof -
  have tfm: "preserves P (tfm_loop src dst ss ds n sp dp)" for src dst ss ds n sp dp
    by (induction n arbitrary: sp dp) (simp add: keep_pure, simp only: tfm_loop.simps,
      (rule keep_basic | assumption | simp add: more_simps)+)
  show "preserves P (do_tfm opc)"
    unfolding do_tfm_def by (rule keep_basic tfm | simp)+
  show "preserves P (do_bitbit opc)" "preserves P (do_divd v)" "preserves P (do_divq w)"
    unfolding do_bitbit_def do_divd_def do_divq_def
    by (rule keep_basic keep_interrupts | simp add: more_simps)+
qed

lemma keep_mem_ops:
  "preserves P (rmw8_mem x1 x2)"
  "preserves P (logicmem x3 x4 x5 x6)"
  unfolding rmw8_mem_def logicmem_def
  by (rule keep_basic | simp add: more_simps)+

lemma keep_macros:
  "preserves P (ALU8_IMM x7 x8 x9)"
  "preserves P (ALU8_DIR x10 x11 x12 x13)"
  "preserves P (ALU8_IDX x14 x15 x16)"
  "preserves P (ALU8_EXT x17 x18 x19 x20)"
  "preserves P (ST8_DIR x21 x22 x23)"
  "preserves P (ST8_IDX x24 x25)"
  "preserves P (ST8_EXT x26 x27 x28)"
  "preserves P (RMW8_DIR x29)"
  "preserves P (RMW8_IDX x30)"
  "preserves P (RMW8_EXT x31)"
  "preserves P (RMW8_INH x32 x33 x34 x35)"
  "preserves P (RMW16D_INH x36)"
  "preserves P (RMW16W_INH x37)"
  "preserves P (RMW8E_INH x38)"
  "preserves P (RMW8F_INH x39)"
  "preserves P (ALU16_IMM x40 x41 x42 x43)"
  "preserves P (ALU16_DIR x44 x45 x46 x47)"
  "preserves P (ALU16_IDX x48 x49 x50)"
  "preserves P (ALU16_EXT x51 x52 x53 x54)"
  "preserves P (LD16_IMM x55 x56)"
  "preserves P (LD16_DIR x57 x58 x59)"
  "preserves P (LD16_IDX x60 x61)"
  "preserves P (LD16_EXT x62 x63 x64)"
  "preserves P (ST16_DIR x65 x66 x67)"
  "preserves P (ST16_IDX x68 x69)"
  "preserves P (ST16_EXT x70 x71 x72)"
  "preserves P (CMP16_IMM x73 x74 x75)"
  "preserves P (CMP16_DIR x76 x77 x78)"
  "preserves P (CMP16_IDX x79 x80)"
  "preserves P (CMP16_EXT x81 x82 x83)"
  "preserves P (LD16M_IMM x84 x85)"
  "preserves P (LD16M_DIR x86 x87 x88)"
  "preserves P (LD16M_IDX x89 x90)"
  "preserves P (LD16M_EXT x91 x92 x93)"
  "preserves P (ST16M_DIR x94 x95 x96)"
  "preserves P (ST16M_IDX x97 x98)"
  "preserves P (ST16M_EXT x99 x100 x101)"
  "preserves P (LOGICMEM_DIR x102 x103)"
  "preserves P (LOGICMEM_IDX x104 x105)"
  "preserves P (LOGICMEM_EXT x106 x107)"
  unfolding ALU8_IMM_def ALU8_DIR_def ALU8_IDX_def ALU8_EXT_def ST8_DIR_def ST8_IDX_def ST8_EXT_def RMW8_DIR_def RMW8_IDX_def RMW8_EXT_def RMW8_INH_def RMW16D_INH_def RMW16W_INH_def RMW8E_INH_def RMW8F_INH_def ALU16_IMM_def ALU16_DIR_def ALU16_IDX_def ALU16_EXT_def LD16_IMM_def LD16_DIR_def LD16_IDX_def LD16_EXT_def ST16_DIR_def ST16_IDX_def ST16_EXT_def CMP16_IMM_def CMP16_DIR_def CMP16_IDX_def CMP16_EXT_def LD16M_IMM_def LD16M_DIR_def LD16M_IDX_def LD16M_EXT_def ST16M_DIR_def ST16M_IDX_def ST16M_EXT_def LOGICMEM_DIR_def LOGICMEM_IDX_def LOGICMEM_EXT_def
  by (rule keep_basic keep_mem_ops | simp add: more_simps)+

lemma keep_op_helpers:
  "preserves P (push_list x108 x109 x110)"
  "preserves P (pull_list x111 x112 x113)"
  "preserves P (ldq_mem x114)"
  "preserves P (stq_mem x115)"
  unfolding push_list_def pull_list_def ldq_mem_def stq_mem_def
  by (rule keep_basic | simp add: more_simps)+

lemma keep_ops:
  "preserves P op_tst_dir"
  "preserves P op_tst_idx"
  "preserves P op_tst_ext"
  "preserves P op_jmp_dir"
  "preserves P op_jmp_idx"
  "preserves P op_jmp_ext"
  "preserves P op_nop"
  "preserves P op_sync"
  "preserves P op_sexw"
  "preserves P op_lbra"
  "preserves P op_lbsr"
  "preserves P op_daa"
  "preserves P op_orcc"
  "preserves P op_andcc"
  "preserves P op_sex"
  "preserves P op_exg"
  "preserves P op_tfr"
  "preserves P (op_branch x116)"
  "preserves P op_leax"
  "preserves P op_leay"
  "preserves P op_leas"
  "preserves P op_leau"
  "preserves P op_pshs"
  "preserves P op_puls"
  "preserves P op_pshu"
  "preserves P op_pulu"
  "preserves P op_rts"
  "preserves P op_abx"
  "preserves P op_rti"
  "preserves P op_cwai"
  "preserves P op_mul"
  "preserves P op_swi"
  "preserves P op_bsr"
  "preserves P op_jsr_dir"
  "preserves P op_jsr_idx"
  "preserves P op_jsr_ext"
  "preserves P op_ldq_imm"
  "preserves P (op_lbcc x117)"
  "preserves P (op_regreg x118)"
  "preserves P op_pshsw"
  "preserves P op_pulsw"
  "preserves P op_pshuw"
  "preserves P op_puluw"
  "preserves P op_swi2"
  "preserves P op_ldq_dir"
  "preserves P op_stq_dir"
  "preserves P op_ldq_idx"
  "preserves P op_stq_idx"
  "preserves P op_ldq_ext"
  "preserves P op_stq_ext"
  "preserves P op_bitmd"
  "preserves P op_ldmd"
  "preserves P op_swi3"
  "preserves P op_divd_imm"
  "preserves P op_divq_imm"
  "preserves P op_muld_imm"
  "preserves P op_divd_dir"
  "preserves P op_divq_dir"
  "preserves P op_muld_dir"
  "preserves P op_divd_idx"
  "preserves P op_divq_idx"
  "preserves P op_muld_idx"
  "preserves P op_divd_ext"
  "preserves P op_divq_ext"
  "preserves P op_muld_ext"
  unfolding op_tst_dir_def op_tst_idx_def op_tst_ext_def op_jmp_dir_def op_jmp_idx_def op_jmp_ext_def op_nop_def op_sync_def op_sexw_def op_lbra_def op_lbsr_def op_daa_def op_orcc_def op_andcc_def op_sex_def op_exg_def op_tfr_def op_branch_def op_leax_def op_leay_def op_leas_def op_leau_def op_pshs_def op_puls_def op_pshu_def op_pulu_def op_rts_def op_abx_def op_rti_def op_cwai_def op_mul_def op_swi_def op_bsr_def op_jsr_dir_def op_jsr_idx_def op_jsr_ext_def op_ldq_imm_def op_lbcc_def op_regreg_def op_pshsw_def op_pulsw_def op_pshuw_def op_puluw_def op_swi2_def op_ldq_dir_def op_stq_dir_def op_ldq_idx_def op_stq_idx_def op_ldq_ext_def op_stq_ext_def op_bitmd_def op_ldmd_def op_swi3_def op_divd_imm_def op_divq_imm_def op_muld_imm_def op_divd_dir_def op_divq_dir_def op_muld_dir_def op_divd_idx_def op_divq_idx_def op_muld_idx_def op_divd_ext_def op_divq_ext_def op_muld_ext_def
  by (rule keep_basic keep_interrupts keep_helpers keep_op_helpers | simp add: more_simps)+

lemmas keep_bodies = keep_macros keep_ops keep_helpers

lemma keep_dispatch:
  assumes "\<forall>e\<in>set t. preserves P (snd e)"
  shows "preserves P (case map_of t opcode of Some body \<Rightarrow> body | None \<Rightarrow> illegal_opcode_trap)"
  using assms by (auto simp: keep_interrupts split: option.split dest!: map_of_SomeD)

lemma keep_page11: "preserves P (execute_page11 opcode)"
  unfolding execute_page11_def
  by (rule keep_dispatch) (simp add: page11_defs keep_bodies)

lemma keep_page10: "preserves P (execute_page10 opcode)"
  unfolding execute_page10_def
  by (rule keep_dispatch) (simp add: page10_defs keep_bodies)

lemma keep_execute: "preserves P (execute opcode)"
  unfolding execute_def
  by (rule keep_dispatch)
    (simp add: page00_defs keep_bodies keep_bind keep_page10 keep_page11 keep_access)

end

section \<open>Whole steps and runs\<close>

locale cpu_step_relation = cpu_relation P for P :: "'m CPU \<Rightarrow> 'm CPU \<Rightarrow> bool" +
  assumes rel_step: "P c (c\<lparr>cycles := n\<rparr>)" "P c (c\<lparr>nmi_pending := bo\<rparr>)" "P c (c\<lparr>insn_pc := w\<rparr>)"
    "P c (c\<lparr>total_cycles := q\<rparr>)"
begin

lemma keep_modify_step:
  "preserves P (modify (\<lambda>c. c\<lparr>cycles := n\<rparr>))"
  "preserves P (modify (\<lambda>c. c\<lparr>nmi_pending := bo\<rparr>))"
  "preserves P (modify (\<lambda>c. c\<lparr>insn_pc := g c\<rparr>))"
  "preserves P (modify (\<lambda>c. c\<lparr>total_cycles := h c\<rparr>))"
  by (simp_all add: preserves_def rel_step)

lemma keep_service_interrupts: "preserves P service_interrupts"
  unfolding service_interrupts_def
  by (rule keep_modify_step keep_basic keep_interrupts | simp)+

lemma keep_step: "preserves P step"
  unfolding step_def account_def
  by (rule keep_modify_step keep_basic keep_service_interrupts keep_execute | simp)+

lemma keep_run_loop: "run_loop max_cycles consumed c = Some r \<Longrightarrow> P c (snd r)"
proof (induction rule: run_loop.raw_induct [rotated, consumes 1, case_names step])
  case (step loop max_cycles consumed c r)
  obtain k d where d: "run_state step c = (k, d)" by fastforce
  have "P c d" using preservesD [OF keep_step, of c] d by simp
  then show ?case
    using step(2) step(1) [of max_cycles "consumed + of_nat k" d r] rel_flags(3) [of c]
    by (auto simp: d split: if_splits intro: rel_trans)
qed

end

section \<open>What the host owns\<close>

text \<open>The members only the host changes (through the C interface): no instruction does.\<close>

definition same_host :: "'m CPU \<Rightarrow> 'm CPU \<Rightarrow> bool" where
  "same_host c c' \<longleftrightarrow> read_fn c' = read_fn c \<and> write_fn c' = write_fn c \<and>
     irq_line c' = irq_line c \<and> firq_line c' = firq_line c \<and> nmi_pending c' = nmi_pending c \<and>
     halted c' = halted c \<and> total_cycles c' = total_cycles c \<and> breakpoints c' = breakpoints c \<and>
     next_bp_id c' = next_bp_id c \<and> insn_pc c' = insn_pc c"

lemma more_eq:
  assumes "regs.more c' = regs.more c"
  shows "c' = c\<lparr>r_pc := r_pc c', r_x := r_x c', r_y := r_y c', r_u := r_u c', r_s := r_s c', r_v := r_v c',
    r_a := r_a c', r_b := r_b c', r_dp := r_dp c', r_cc := r_cc c', r_e := r_e c', r_f := r_f c', r_md := r_md c'\<rparr>"
  by (rule regs.equality) (simp_all add: assms)

lemma more_cong:
  assumes "regs.more c' = regs.more c"
  shows "bus_ctx c' = bus_ctx c" "cycles c' = cycles c" "wait_sync c' = wait_sync c"
    "cwai_pushed_pending c' = cwai_pushed_pending c" "stop_reason c' = stop_reason c"
    "read_fn c' = read_fn c" "write_fn c' = write_fn c" "halted c' = halted c"
    "irq_line c' = irq_line c" "firq_line c' = firq_line c" "nmi_pending c' = nmi_pending c"
    "breakpoints c' = breakpoints c" "next_bp_id c' = next_bp_id c" "host_ub c' = host_ub c"
    "insn_pc c' = insn_pc c" "total_cycles c' = total_cycles c"
  by (subst more_eq [OF assms], simp)+

lemma same_host_regs: "regs.more c' = regs.more c \<Longrightarrow> same_host c c'"
  by (simp add: same_host_def more_cong [of c' c])

lemma same_host_trans: "same_host a b \<Longrightarrow> same_host b c \<Longrightarrow> same_host a c"
  by (simp add: same_host_def)

interpretation host: cpu_relation same_host
  by unfold_locales (erule (1) same_host_trans, erule same_host_regs, simp_all add: same_host_def)

section \<open>The trace of bus accesses\<close>

text \<open>The contexts reachable from a bus context by calls of the callbacks.\<close>

inductive bus_reach :: "('m \<Rightarrow> u16 \<Rightarrow> u8 \<times> 'm) \<Rightarrow> ('m \<Rightarrow> u16 \<Rightarrow> u8 \<Rightarrow> 'm) \<Rightarrow> 'm \<Rightarrow> 'm \<Rightarrow> bool"
  for rd :: "'m \<Rightarrow> u16 \<Rightarrow> u8 \<times> 'm" and wr :: "'m \<Rightarrow> u16 \<Rightarrow> u8 \<Rightarrow> 'm" and m :: 'm where
  bus_refl: "bus_reach rd wr m m"
| bus_read: "bus_reach rd wr m m' \<Longrightarrow> bus_reach rd wr m (snd (rd m' a))"
| bus_write: "bus_reach rd wr m m' \<Longrightarrow> bus_reach rd wr m (wr m' a v)"

lemma bus_reach_trans: "bus_reach rd wr m m' \<Longrightarrow> bus_reach rd wr m' m'' \<Longrightarrow> bus_reach rd wr m m''"
  by (rotate_tac, induction rule: bus_reach.induct) (auto intro: bus_reach.intros)

definition bus_trace :: "'m CPU \<Rightarrow> 'm CPU \<Rightarrow> bool" where
  "bus_trace c c' \<longleftrightarrow> read_fn c' = read_fn c \<and> write_fn c' = write_fn c \<and> halted c' = halted c \<and>
     bus_reach (read_fn c) (write_fn c) (bus_ctx c) (bus_ctx c')"

lemma bus_trace_trans: "bus_trace a b \<Longrightarrow> bus_trace b c \<Longrightarrow> bus_trace a c"
  by (auto simp: bus_trace_def intro: bus_reach_trans)

lemma bus_trace_regs: "regs.more c' = regs.more c \<Longrightarrow> bus_trace c c'"
  by (simp add: bus_trace_def bus_refl more_cong [of c' c])

interpretation bus: cpu_step_relation bus_trace
  by unfold_locales (erule (1) bus_trace_trans, erule bus_trace_regs,
    simp_all add: bus_trace_def bus_refl bus_reach.intros)

end
