(* ===== verification/Timing.thy ===== *)
theory Timing
  imports Cpu_Relations
begin

text \<open>
  The cycles instructions take. \<open>costs lo hi m\<close> says that the action \<open>m\<close> adds between \<open>lo\<close> and \<open>hi\<close> to
  \<^verbatim>\<open>cycles_\<close>; every instruction costs between 1 and 65 cycles, a block transfer up to 196611 (six and three for
  each of at most 65535 bytes). Hence a step always makes progress, and \<^verbatim>\<open>run\<close> comes back.
\<close>

section \<open>Cost bounds of actions\<close>

definition costs :: "nat \<Rightarrow> nat \<Rightarrow> ('m, 'a) cpu_op \<Rightarrow> bool" where
  "costs lo hi m \<longleftrightarrow> (\<forall>c. cycles c + lo \<le> cycles (snd (run_state m c)) \<and> cycles (snd (run_state m c)) \<le> cycles c + hi)"

lemma costs_weaken: "costs a b m \<Longrightarrow> lo \<le> a \<Longrightarrow> b \<le> hi \<Longrightarrow> costs lo hi m"
  unfolding costs_def by (meson add_left_mono order_trans)

lemma costs_bind: "costs a b m \<Longrightarrow> (\<And>x. costs a' b' (f x)) \<Longrightarrow> costs (a + a') (b + b') (State_Monad.bind m f)"
  unfolding costs_def run_state_bind split_beta
  by (smt (verit, ccfv_SIG) add.assoc add_mono_thms_linordered_semiring(3) order_trans)

lemma costs_free: "costs 0 0 (return x)" "costs 0 0 (gets f)" "costs 0 0 (read8 a)" "costs 0 0 (write8 a v)"
  by (simp_all add: costs_def read8_def write8_def split_beta)

lemma costs_if: "costs a b m \<Longrightarrow> costs a' b' n \<Longrightarrow> costs (min a a') (max b b') (if p then m else n)"
  unfolding costs_def by (simp add: max_def min_def) (meson add_left_mono order_trans nat_le_linear)

lemma costs_only_if: "costs a b m \<Longrightarrow> costs 0 b (only_if p m)"
  unfolding costs_def only_if_def by (auto dest: spec intro: order_trans [OF le_add1])

lemma costs_let: "(\<And>x. costs a b (f x)) \<Longrightarrow> costs a b (Let t f)"
  by (simp add: Let_def)

lemma costs_tick: "costs n n (tick n)"
  by (simp add: costs_def tick_def)

lemma costs_tick_mode: "costs (min em nm) (max em nm) (tick_mode em nm)"
  by (simp add: costs_def tick_mode_def tick_def)

lemma costs_modify_cpu:
  "costs 0 0 (modify (\<lambda>c. c\<lparr>cwai_pushed_pending := b\<rparr>))" "costs 0 0 (modify (\<lambda>c. c\<lparr>wait_sync := b\<rparr>))"
  "costs 0 0 (modify (\<lambda>c. c\<lparr>stop_reason := sr\<rparr>))" "costs 0 0 (modify (\<lambda>c. c\<lparr>host_ub := b\<rparr>))"
  "costs 0 0 (modify (\<lambda>c. c\<lparr>nmi_pending := b\<rparr>))"
  by (simp_all add: costs_def)

lemma costs_modify: "(\<And>c. regs.more (f c) = regs.more c) \<Longrightarrow> costs 0 0 (modify f)"
  by (simp add: costs_def more_cong(2) [of "f c" c for c])

lemma costs_State: "(\<And>c. regs.more (snd (f c)) = regs.more c) \<Longrightarrow> costs 0 0 (State f)"
  by (simp add: costs_def more_cong(2) [of "snd (f c)" c for c])

lemmas costs_rules = costs_bind costs_free costs_if costs_only_if costs_let costs_tick costs_tick_mode
  costs_modify_cpu costs_modify costs_State

section \<open>Memory access, addressing modes and stacks\<close>

lemma costs_access:
  "costs 0 0 (read16 a)" "costs 0 0 (write16 a w)" "costs 0 0 fetch8" "costs 0 0 fetch16"
  "costs 0 0 ea_direct" "costs 0 0 ea_extended" "costs 0 0 rel8" "costs 0 0 rel16"
  "costs 0 0 (push8 sp v)" "costs 0 0 (push16 sp w)" "costs 0 0 (pull8 sp)" "costs 0 0 (pull16 sp)"
  "costs 0 0 (push8_of sp f)" "costs 0 0 (push16_of sp g)"
  unfolding ea_direct_def ea_extended_def rel8_def rel16_def push8_of_def push16_of_def push16_def pull16_def
    push8_def pull8_def read16_def write16_def fetch16_def fetch8_def
  by ((rule costs_weaken, (rule costs_rules | simp add: more_simps)+)[1])+

lemma costs_pull_to:
  "(\<And>v c. regs.more (f v c) = regs.more c) \<Longrightarrow> costs 0 0 (pull8_to sp f)"
  "(\<And>v c. regs.more (g v c) = regs.more c) \<Longrightarrow> costs 0 0 (pull16_to sp g)"
  unfolding pull8_to_def pull16_to_def
  by ((rule costs_weaken, (rule costs_rules costs_access | simp)+)[1])+

lemma indexed_extra_cycles_le: "indexed_extra_cycles pb c \<le> 8"
proof -
  have "\<forall>n<16. idx_em ! n \<le> 8 \<and> idx_nm ! n \<le> 8 \<and> indir_em ! n \<le> 8 \<and> indir_nm ! n \<le> 8"
    by code_simp
  moreover have "unat (pb AND 0xF) < 16" by (simp add: unat_and_15)
  ultimately have "idx_em ! unat (pb AND 0xF) \<le> 8 \<and> idx_nm ! unat (pb AND 0xF) \<le> 8 \<and>
      indir_em ! unat (pb AND 0xF) \<le> 8 \<and> indir_nm ! unat (pb AND 0xF) \<le> 8"
    by blast
  then show ?thesis by (simp add: indexed_extra_cycles_def Let_def nat_le_iff)
qed

lemma rlist_extra_cycles_le: "rlist_extra_cycles pb \<le> 12"
  by (simp add: rlist_extra_cycles_def upt_rec)

lemma costs_gets_tick:
  assumes "\<And>c. f c \<le> n" "costs a b m"
  shows "costs a (b + n) (State_Monad.bind (gets f) (\<lambda>e. State_Monad.bind (tick e) (\<lambda>_. m)))"
  unfolding costs_def
proof
  fix c
  let ?d = "snd (run_state (tick (f c)) c)"
  have "cycles ?d = cycles c + f c" by (simp add: tick_def)
  moreover have "cycles ?d + a \<le> cycles (snd (run_state m ?d))" "cycles (snd (run_state m ?d)) \<le> cycles ?d + b"
    using assms(2) by (simp_all add: costs_def)
  ultimately show "cycles c + a \<le> cycles (snd (run_state (State_Monad.bind (gets f) (\<lambda>e. State_Monad.bind (tick e) (\<lambda>_. m))) c)) \<and>
      cycles (snd (run_state (State_Monad.bind (gets f) (\<lambda>e. State_Monad.bind (tick e) (\<lambda>_. m))) c)) \<le> cycles c + (b + n)"
    using assms(1) [of c] by (simp add: split_beta)
qed

lemma costs_ea_indexed: "costs 0 8 ea_indexed"
  unfolding ea_indexed_def
  by (rule costs_weaken,
    (rule costs_gets_tick [OF indexed_extra_cycles_le] costs_rules costs_access | simp add: more_simps)+)

lemmas costs_basic = costs_rules costs_access costs_pull_to costs_ea_indexed

lemma costs_pushes: "costs 0 0 push_full_set" "costs 0 0 push_partial_set"
  unfolding push_full_set_def push_partial_set_def
  by ((rule costs_weaken, (rule costs_basic | simp add: more_simps)+)[1])+

lemma costs_enter_interrupt: "costs 0 0 (enter_interrupt vec m full)"
  unfolding enter_interrupt_def
  by (rule costs_weaken, (rule costs_basic costs_pushes | simp add: more_simps)+)

lemma costs_traps: "costs 19 21 illegal_opcode_trap" "costs 19 21 division_by_zero_trap"
  unfolding illegal_opcode_trap_def division_by_zero_trap_def
  by ((rule costs_weaken, (rule costs_basic costs_enter_interrupt | simp add: more_simps)+)[1])+

lemmas costs_interrupts = costs_pushes costs_enter_interrupt costs_traps

lemma costs_rlist: "costs 4 17 (tick_mode (5 + rlist_extra_cycles pb) (4 + rlist_extra_cycles pb))"
  using rlist_extra_cycles_le [of pb] by (intro costs_weaken [OF costs_tick_mode]) simp_all

lemma costs_taken: "costs 5 6 (tick_mode (if taken then 6 else 5) 5)"
  by (intro costs_weaken [OF costs_tick_mode]) simp_all

section \<open>Instructions\<close>

definition instruction_cost :: "('m, unit) cpu_op \<Rightarrow> bool" where
  "instruction_cost m \<longleftrightarrow> costs 1 65 m"

lemma costs_mem_ops: "costs 0 0 (rmw8_mem rop a)" "costs 0 0 (logicmem opsym write msk a)"
  unfolding rmw8_mem_def logicmem_def
  by ((rule costs_weaken, (rule costs_basic | simp add: more_simps)+)[1])+

lemma cost_macros_8:
  "1 \<le> n \<Longrightarrow> n \<le> 50 \<Longrightarrow> instruction_cost (ALU8_IMM r op n)"
  "1 \<le> em \<Longrightarrow> em \<le> 50 \<Longrightarrow> 1 \<le> nm \<Longrightarrow> nm \<le> 50 \<Longrightarrow> instruction_cost (ALU8_DIR r op em nm)"
  "1 \<le> n \<Longrightarrow> n \<le> 50 \<Longrightarrow> instruction_cost (ALU8_IDX r op n)"
  "1 \<le> em \<Longrightarrow> em \<le> 50 \<Longrightarrow> 1 \<le> nm \<Longrightarrow> nm \<le> 50 \<Longrightarrow> instruction_cost (ALU8_EXT r op em nm)"
  "1 \<le> em \<Longrightarrow> em \<le> 50 \<Longrightarrow> 1 \<le> nm \<Longrightarrow> nm \<le> 50 \<Longrightarrow> instruction_cost (ST8_DIR r em nm)"
  "1 \<le> n \<Longrightarrow> n \<le> 50 \<Longrightarrow> instruction_cost (ST8_IDX r n)"
  "1 \<le> em \<Longrightarrow> em \<le> 50 \<Longrightarrow> 1 \<le> nm \<Longrightarrow> nm \<le> 50 \<Longrightarrow> instruction_cost (ST8_EXT r em nm)"
  unfolding instruction_cost_def ALU8_IMM_def ALU8_DIR_def ALU8_IDX_def ALU8_EXT_def ST8_DIR_def ST8_IDX_def ST8_EXT_def
  by ((rule costs_weaken, (rule costs_basic costs_mem_ops | simp add: more_simps)+)[1])+

lemma cost_macros_rmw8:
  "instruction_cost (RMW8_DIR op)"
  "instruction_cost (RMW8_IDX op)"
  "instruction_cost (RMW8_EXT op)"
  "1 \<le> em \<Longrightarrow> em \<le> 50 \<Longrightarrow> 1 \<le> nm \<Longrightarrow> nm \<le> 50 \<Longrightarrow> instruction_cost (RMW8_INH op r em nm)"
  "instruction_cost (RMW8E_INH op)"
  "instruction_cost (RMW8F_INH op)"
  unfolding instruction_cost_def RMW8_DIR_def RMW8_IDX_def RMW8_EXT_def RMW8_INH_def RMW8E_INH_def RMW8F_INH_def
  by ((rule costs_weaken, (rule costs_basic costs_mem_ops | simp add: more_simps)+)[1])+

lemma cost_macros_rmw16:
  "instruction_cost (RMW16D_INH op)"
  "instruction_cost (RMW16W_INH op)"
  unfolding instruction_cost_def RMW16D_INH_def RMW16W_INH_def
  by ((rule costs_weaken, (rule costs_basic costs_mem_ops | simp add: more_simps)+)[1])+

lemma cost_macros_alu16:
  "1 \<le> em \<Longrightarrow> em \<le> 50 \<Longrightarrow> 1 \<le> nm \<Longrightarrow> nm \<le> 50 \<Longrightarrow> instruction_cost (ALU16_IMM r op em nm)"
  "1 \<le> em \<Longrightarrow> em \<le> 50 \<Longrightarrow> 1 \<le> nm \<Longrightarrow> nm \<le> 50 \<Longrightarrow> instruction_cost (ALU16_DIR r op em nm)"
  "1 \<le> n \<Longrightarrow> n \<le> 50 \<Longrightarrow> instruction_cost (ALU16_IDX r op n)"
  "1 \<le> em \<Longrightarrow> em \<le> 50 \<Longrightarrow> 1 \<le> nm \<Longrightarrow> nm \<le> 50 \<Longrightarrow> instruction_cost (ALU16_EXT r op em nm)"
  unfolding instruction_cost_def ALU16_IMM_def ALU16_DIR_def ALU16_IDX_def ALU16_EXT_def
  by ((rule costs_weaken, (rule costs_basic costs_mem_ops | simp add: more_simps)+)[1])+

lemma cost_macros_reg16:
  "1 \<le> n \<Longrightarrow> n \<le> 50 \<Longrightarrow> instruction_cost (LD16_IMM r n)"
  "1 \<le> em \<Longrightarrow> em \<le> 50 \<Longrightarrow> 1 \<le> nm \<Longrightarrow> nm \<le> 50 \<Longrightarrow> instruction_cost (LD16_DIR r em nm)"
  "1 \<le> n \<Longrightarrow> n \<le> 50 \<Longrightarrow> instruction_cost (LD16_IDX r n)"
  "1 \<le> em \<Longrightarrow> em \<le> 50 \<Longrightarrow> 1 \<le> nm \<Longrightarrow> nm \<le> 50 \<Longrightarrow> instruction_cost (LD16_EXT r em nm)"
  "1 \<le> em \<Longrightarrow> em \<le> 50 \<Longrightarrow> 1 \<le> nm \<Longrightarrow> nm \<le> 50 \<Longrightarrow> instruction_cost (ST16_DIR r em nm)"
  "1 \<le> n \<Longrightarrow> n \<le> 50 \<Longrightarrow> instruction_cost (ST16_IDX r n)"
  "1 \<le> em \<Longrightarrow> em \<le> 50 \<Longrightarrow> 1 \<le> nm \<Longrightarrow> nm \<le> 50 \<Longrightarrow> instruction_cost (ST16_EXT r em nm)"
  "1 \<le> em \<Longrightarrow> em \<le> 50 \<Longrightarrow> 1 \<le> nm \<Longrightarrow> nm \<le> 50 \<Longrightarrow> instruction_cost (CMP16_IMM r em nm)"
  "1 \<le> em \<Longrightarrow> em \<le> 50 \<Longrightarrow> 1 \<le> nm \<Longrightarrow> nm \<le> 50 \<Longrightarrow> instruction_cost (CMP16_DIR r em nm)"
  "1 \<le> n \<Longrightarrow> n \<le> 50 \<Longrightarrow> instruction_cost (CMP16_IDX r n)"
  "1 \<le> em \<Longrightarrow> em \<le> 50 \<Longrightarrow> 1 \<le> nm \<Longrightarrow> nm \<le> 50 \<Longrightarrow> instruction_cost (CMP16_EXT r em nm)"
  "1 \<le> n \<Longrightarrow> n \<le> 50 \<Longrightarrow> instruction_cost (LD16M_IMM r n)"
  "1 \<le> em \<Longrightarrow> em \<le> 50 \<Longrightarrow> 1 \<le> nm \<Longrightarrow> nm \<le> 50 \<Longrightarrow> instruction_cost (LD16M_DIR r em nm)"
  "1 \<le> n \<Longrightarrow> n \<le> 50 \<Longrightarrow> instruction_cost (LD16M_IDX r n)"
  "1 \<le> em \<Longrightarrow> em \<le> 50 \<Longrightarrow> 1 \<le> nm \<Longrightarrow> nm \<le> 50 \<Longrightarrow> instruction_cost (LD16M_EXT r em nm)"
  "1 \<le> em \<Longrightarrow> em \<le> 50 \<Longrightarrow> 1 \<le> nm \<Longrightarrow> nm \<le> 50 \<Longrightarrow> instruction_cost (ST16M_DIR r em nm)"
  "1 \<le> n \<Longrightarrow> n \<le> 50 \<Longrightarrow> instruction_cost (ST16M_IDX r n)"
  "1 \<le> em \<Longrightarrow> em \<le> 50 \<Longrightarrow> 1 \<le> nm \<Longrightarrow> nm \<le> 50 \<Longrightarrow> instruction_cost (ST16M_EXT r em nm)"
  unfolding instruction_cost_def LD16_IMM_def LD16_DIR_def LD16_IDX_def LD16_EXT_def ST16_DIR_def ST16_IDX_def ST16_EXT_def CMP16_IMM_def CMP16_DIR_def CMP16_IDX_def CMP16_EXT_def LD16M_IMM_def LD16M_DIR_def LD16M_IDX_def LD16M_EXT_def ST16M_DIR_def ST16M_IDX_def ST16M_EXT_def
  by ((rule costs_weaken, (rule costs_basic costs_mem_ops | simp add: more_simps)+)[1])+

lemma cost_macros_logicmem:
  "instruction_cost (LOGICMEM_DIR opsym write)"
  "instruction_cost (LOGICMEM_IDX opsym write)"
  "instruction_cost (LOGICMEM_EXT opsym write)"
  unfolding instruction_cost_def LOGICMEM_DIR_def LOGICMEM_IDX_def LOGICMEM_EXT_def
  by ((rule costs_weaken, (rule costs_basic costs_mem_ops | simp add: more_simps)+)[1])+

lemmas cost_macros = cost_macros_8 cost_macros_rmw8 cost_macros_rmw16 cost_macros_alu16 cost_macros_reg16 cost_macros_logicmem

lemma costs_op_helpers:
  "costs 0 0 (push_list sp other pb)" "costs 0 0 (pull_list sp other pb)" "costs 0 0 (ldq_mem a)" "costs 0 0 (stq_mem a)"
  "costs 0 21 (do_divd v)" "costs 0 21 (do_divq w)" "costs 6 8 (do_bitbit opc)"
  unfolding push_list_def pull_list_def ldq_mem_def stq_mem_def do_divd_def do_divq_def do_bitbit_def
  by ((rule costs_weaken, (rule costs_basic costs_interrupts | simp add: more_simps)+)[1])+

lemma cost_ops:
  "instruction_cost op_tst_dir"
  "instruction_cost op_tst_idx"
  "instruction_cost op_tst_ext"
  "instruction_cost op_jmp_dir"
  "instruction_cost op_jmp_idx"
  "instruction_cost op_jmp_ext"
  "instruction_cost op_nop"
  "instruction_cost op_sync"
  "instruction_cost op_sexw"
  "instruction_cost op_lbra"
  "instruction_cost op_lbsr"
  "instruction_cost op_daa"
  "instruction_cost op_orcc"
  "instruction_cost op_andcc"
  "instruction_cost op_sex"
  "instruction_cost op_exg"
  "instruction_cost op_tfr"
  "instruction_cost (op_branch opcode)"
  "instruction_cost op_leax"
  "instruction_cost op_leay"
  "instruction_cost op_leas"
  "instruction_cost op_leau"
  "instruction_cost op_pshs"
  "instruction_cost op_puls"
  "instruction_cost op_pshu"
  "instruction_cost op_pulu"
  "instruction_cost op_rts"
  "instruction_cost op_abx"
  "instruction_cost op_rti"
  "instruction_cost op_cwai"
  "instruction_cost op_mul"
  "instruction_cost op_swi"
  "instruction_cost op_bsr"
  "instruction_cost op_jsr_dir"
  "instruction_cost op_jsr_idx"
  "instruction_cost op_jsr_ext"
  "instruction_cost op_ldq_imm"
  "instruction_cost (op_lbcc opcode)"
  "instruction_cost op_pshsw"
  "instruction_cost op_pulsw"
  "instruction_cost op_pshuw"
  "instruction_cost op_puluw"
  "instruction_cost op_swi2"
  "instruction_cost op_ldq_dir"
  "instruction_cost op_stq_dir"
  "instruction_cost op_ldq_idx"
  "instruction_cost op_stq_idx"
  "instruction_cost op_ldq_ext"
  "instruction_cost op_stq_ext"
  "instruction_cost op_bitmd"
  "instruction_cost op_ldmd"
  "instruction_cost op_swi3"
  "instruction_cost op_divd_imm"
  "instruction_cost op_divq_imm"
  "instruction_cost op_muld_imm"
  "instruction_cost op_divd_dir"
  "instruction_cost op_divq_dir"
  "instruction_cost op_muld_dir"
  "instruction_cost op_divd_idx"
  "instruction_cost op_divq_idx"
  "instruction_cost op_muld_idx"
  "instruction_cost op_divd_ext"
  "instruction_cost op_divq_ext"
  "instruction_cost op_muld_ext"
  unfolding instruction_cost_def op_tst_dir_def op_tst_idx_def op_tst_ext_def op_jmp_dir_def op_jmp_idx_def op_jmp_ext_def op_nop_def op_sync_def op_sexw_def op_lbra_def op_lbsr_def op_daa_def op_orcc_def op_andcc_def op_sex_def op_exg_def op_tfr_def op_branch_def op_leax_def op_leay_def op_leas_def op_leau_def op_pshs_def op_puls_def op_pshu_def op_pulu_def op_rts_def op_abx_def op_rti_def op_cwai_def op_mul_def op_swi_def op_bsr_def op_jsr_dir_def op_jsr_idx_def op_jsr_ext_def op_ldq_imm_def op_lbcc_def op_pshsw_def op_pulsw_def op_pshuw_def op_puluw_def op_swi2_def op_ldq_dir_def op_stq_dir_def op_ldq_idx_def op_stq_idx_def op_ldq_ext_def op_stq_ext_def op_bitmd_def op_ldmd_def op_swi3_def op_divd_imm_def op_divq_imm_def op_muld_imm_def op_divd_dir_def op_divq_dir_def op_muld_dir_def op_divd_idx_def op_divq_idx_def op_muld_idx_def op_divd_ext_def op_divq_ext_def op_muld_ext_def
  by ((rule costs_weaken, (rule costs_rlist costs_taken costs_basic costs_interrupts costs_op_helpers | simp add: more_simps)+)[1])+

lemma cost_regreg: "instruction_cost (op_regreg opcode)"
  unfolding instruction_cost_def op_regreg_def
  by ((rule costs_weaken, (rule costs_basic | simp add: more_simps)+)[1])

lemma cost_traps:
  "instruction_cost illegal_opcode_trap" "instruction_cost (do_bitbit opc)"
  unfolding instruction_cost_def
  by (rule costs_weaken [OF costs_interrupts(4)] costs_weaken [OF costs_op_helpers(7)]; simp)+

lemma costs_tfm_loop: "costs 0 (3 * n) (tfm_loop src dst ss ds n sp dp)"
proof (induction n arbitrary: sp dp)
  case (Suc n)
  show ?case
    unfolding tfm_loop.simps
    by (rule costs_weaken, (rule Suc.IH costs_basic | simp add: more_simps)+)
qed (simp add: costs_free)

lemma costs_tfm: "costs 6 196611 (do_tfm opc)"
proof -
  have "costs 0 196605 (tfm_loop src dst ss ds (unat (w :: u16)) sp dp)" for src dst ss ds w sp dp
    using unat16_less [of w] by (intro costs_weaken [OF costs_tfm_loop]) (simp_all del: unat16_less)
  note tfm = this
  show ?thesis
    unfolding do_tfm_def
    by (rule costs_weaken, (rule tfm costs_basic | simp add: more_simps)+)
qed

section \<open>Dispatch\<close>

lemma cost_page10: "instruction_cost (execute_page10 opcode)"
proof -
  have "\<forall>e\<in>set page10_table. instruction_cost (snd e)"
    by (simp add: page10_defs cost_macros cost_ops cost_regreg cost_traps)
  then show ?thesis
    by (auto simp: execute_page10_def cost_traps split: option.split dest!: map_of_SomeD)
qed

lemma cost_page11:
  assumes "opcode \<notin> {0x38, 0x39, 0x3A, 0x3B}"
  shows "instruction_cost (execute_page11 opcode)"
proof -
  have "\<forall>e\<in>set page11_table. fst e \<in> {0x38, 0x39, 0x3A, 0x3B} \<or> instruction_cost (snd e)"
    by (simp add: page11_defs cost_macros cost_ops cost_traps)
  then show ?thesis
    using assms
    by (auto simp: execute_page11_def cost_traps split: option.split dest!: map_of_SomeD bspec)
qed

lemma cost_page00:
  assumes "opcode \<noteq> 0x10" "opcode \<noteq> 0x11"
  shows "instruction_cost (execute opcode)"
proof -
  have "\<forall>e\<in>set page00_table. fst e = 0x10 \<or> fst e = 0x11 \<or> instruction_cost (snd e)"
    by (simp add: page00_defs cost_macros cost_ops cost_traps)
  then show ?thesis
    using assms
    by (auto simp: execute_def cost_traps split: option.split dest!: map_of_SomeD bspec)
qed

section \<open>Steps\<close>

definition step_cost :: "('m, unit) cpu_op \<Rightarrow> bool" where
  "step_cost m \<longleftrightarrow> costs 1 196611 m"

lemma step_cost: "instruction_cost m \<Longrightarrow> step_cost m" "step_cost (do_tfm opc)"
  unfolding instruction_cost_def step_cost_def
  by (erule costs_weaken; simp) (rule costs_weaken [OF costs_tfm]; simp)

lemma costs_page11: "step_cost (execute_page11 opcode)"
proof -
  have "\<forall>e\<in>set page11_table. step_cost (snd e)"
    by (simp add: page11_defs step_cost cost_macros cost_ops cost_traps)
  then show ?thesis
    by (auto simp: execute_page11_def step_cost cost_traps split: option.split dest!: map_of_SomeD)
qed

lemma costs_prefix:
  assumes "\<And>op. step_cost (f op :: ('m, unit) cpu_op)"
  shows "step_cost (State_Monad.bind fetch8 f)"
  using costs_bind [OF costs_access(3) assms [unfolded step_cost_def]] by (simp add: step_cost_def)

lemma costs_execute: "step_cost (execute opcode)"
proof -
  have "\<forall>e\<in>set page00_table. step_cost (snd e)"
    by (simp add: page00_defs step_cost cost_macros cost_ops cost_traps costs_prefix costs_page11 cost_page10)
  then show ?thesis
    by (auto simp: execute_def step_cost cost_traps split: option.split dest!: map_of_SomeD)
qed

lemma costsD: "costs lo hi m \<Longrightarrow> cycles c + lo \<le> cycles (snd (run_state m c)) \<and> cycles (snd (run_state m c)) \<le> cycles c + hi"
  by (simp add: costs_def)

text \<open>The branches of \<open>service_interrupts\<close>, in its order.\<close>

definition interrupt_entry :: "u16 \<Rightarrow> u8 \<Rightarrow> bool \<Rightarrow> nat \<Rightarrow> nat \<Rightarrow> ('m, unit) cpu_op" where
  "interrupt_entry vec msk full em nm = do {
     modify (\<lambda>c. c\<lparr>wait_sync := False\<rparr>);
     enter_interrupt vec msk full;
     tick_mode em nm
   }"

lemma service_interrupts_cases:
  "run_state service_interrupts c =
    (if nmi_pending c then
       (True, snd (run_state (interrupt_entry VEC_NMI (CC_I OR CC_F) True 19 21) (c\<lparr>nmi_pending := False\<rparr>)))
     else if firq_line c \<and> \<not> get_flag CC_F c then
       (if r_md c AND MD_FIRQ_NATIVE \<noteq> 0
        then (True, snd (run_state (interrupt_entry VEC_FIRQ (CC_I OR CC_F) True 19 21) c))
        else (True, snd (run_state (interrupt_entry VEC_FIRQ (CC_I OR CC_F) False 10 8) c)))
     else if irq_line c \<and> \<not> get_flag CC_I c then
       (True, snd (run_state (interrupt_entry VEC_IRQ CC_I True 19 21) c))
     else (False, c))"
  by (simp add: service_interrupts_def interrupt_entry_def Let_def split_beta)

lemma costs_interrupt_entry: "costs (min em nm) (max em nm) (interrupt_entry vec msk full em nm)"
  unfolding interrupt_entry_def
  by ((rule costs_weaken, (rule costs_basic costs_interrupts | simp add: more_simps)+)[1])

lemma service_interrupts_due: "fst (run_state service_interrupts c) = interrupt_due c"
  by (auto simp: service_interrupts_cases interrupt_due_def)

lemma interrupt_entry_cycles:
  assumes "8 \<le> em" "8 \<le> nm" "em \<le> 21" "nm \<le> 21"
  shows "cycles c + 8 \<le> cycles (snd (run_state (interrupt_entry vec msk full em nm) c)) \<and>
    cycles (snd (run_state (interrupt_entry vec msk full em nm) c)) \<le> cycles c + 21"
  using costsD [OF costs_weaken [OF costs_interrupt_entry, of 8 em nm 21], of c vec msk full] assms by simp

lemma service_interrupts_cycles:
  assumes "interrupt_due c"
  shows "cycles c + 8 \<le> cycles (snd (run_state service_interrupts c)) \<and>
    cycles (snd (run_state service_interrupts c)) \<le> cycles c + 21"
proof -
  have nmi: "cycles (c\<lparr>nmi_pending := False\<rparr>) = cycles c" by simp
  show ?thesis
    using assms unfolding service_interrupts_cases interrupt_due_def
    by (auto simp: interrupt_entry_cycles interrupt_entry_cycles [of _ _ "c\<lparr>nmi_pending := False\<rparr>", unfolded nmi])
qed

section \<open>Steps and runs\<close>

lemma step_halted: "halted c \<Longrightarrow> run_state step c = (0, c\<lparr>cycles := 0, stop_reason := Halted\<rparr>)"
  by (simp add: step_def account_def)

lemma costs_fetch_execute: "costs 1 196611 (do { opcode \<leftarrow> fetch8; execute opcode })"
  using costs_prefix [OF costs_execute] by (simp add: step_cost_def)

text \<open>A step of a running CPU, by cases: interrupt, SYNC wait, instruction.\<close>

lemma step_running:
  assumes "\<not> halted c"
  defines "d \<equiv> c\<lparr>cycles := 0, stop_reason := CycleBudget\<rparr>"
  shows "run_state step c =
    (if interrupt_due c then run_state account (snd (run_state service_interrupts d))
     else if wait_sync c then (1, d\<lparr>cycles := 1, total_cycles := total_cycles c + 1, stop_reason := Sync\<rparr>)
     else run_state account (snd (run_state (do { opcode \<leftarrow> fetch8; execute opcode }) (d\<lparr>insn_pc := r_pc c\<rparr>))))"
proof -
  have due: "fst (run_state service_interrupts d) = interrupt_due c"
    by (simp add: service_interrupts_due d_def interrupt_due_def get_flag_def)
  have idle: "run_state service_interrupts d = (False, d)" if "\<not> interrupt_due c"
    using that by (auto simp: service_interrupts_cases interrupt_due_def d_def get_flag_def)
  show ?thesis
    using assms(1) due idle
    by (cases "interrupt_due c"; simp add: step_def split_beta d_def account_def)
qed

lemma step_cycles:
  assumes "\<not> halted c"
  shows "1 \<le> fst (run_state step c)" "fst (run_state step c) \<le> 196611"
proof -
  let ?d = "c\<lparr>cycles := 0, stop_reason := CycleBudget\<rparr>"
  have "interrupt_due ?d = interrupt_due c"
    by (simp add: interrupt_due_def get_flag_def)
  then show "1 \<le> fst (run_state step c)" "fst (run_state step c) \<le> 196611"
    using service_interrupts_cycles [of ?d] costsD [OF costs_fetch_execute, of "?d\<lparr>insn_pc := r_pc c\<rparr>"]
    by (auto simp: step_running [OF assms] account_def)
qed

lemma step_total: "total_cycles (snd (run_state step c)) = (if halted c then total_cycles c
    else total_cycles c + of_nat (fst (run_state step c)))"
proof -
  have exec: "total_cycles (snd (run_state (execute opc) d)) = total_cycles d" for opc and d :: "'a CPU"
    using preservesD [OF host.keep_execute, of d opc] by (simp add: same_host_def)
  have fetch: "total_cycles (snd (run_state fetch8 d)) = total_cycles d" for d :: "'a CPU"
    using preservesD [OF host.keep_access(5), of d] by (simp add: same_host_def)
  have entry: "total_cycles (snd (run_state (interrupt_entry v m f em nm) d)) = total_cycles d"
    for v m f em nm and d :: "'a CPU"
  proof -
    have "preserves same_host (interrupt_entry v m f em nm)"
      unfolding interrupt_entry_def by (rule host.keep_basic host.keep_interrupts | simp)+
    then show ?thesis using preservesD by (fastforce simp: same_host_def)
  qed
  have service: "total_cycles (snd (run_state service_interrupts d)) = total_cycles d" for d :: "'a CPU"
    by (simp add: service_interrupts_cases entry)
  show ?thesis
    by (cases "halted c") (simp_all add: step_halted step_running account_def service exec fetch split_beta)
qed

text \<open>C4. Every step of a CPU that is not halted makes progress: it takes at least one cycle and at most
  196611 (a block transfer of 65535 bytes), the 64-bit total advances by exactly the returned
  count; and a halted CPU's step takes none.\<close>
theorem step_progress:
  "(if halted c then fst (run_state step c) = 0
    else 1 \<le> fst (run_state step c) \<and> fst (run_state step c) \<le> 196611) \<and>
   total_cycles (snd (run_state step c)) = total_cycles c + of_nat (fst (run_state step c))"
  by (simp add: step_total step_cycles [simplified] step_halted)

lemma step_progress_running: "\<not> halted c \<Longrightarrow> 0 < fst (run_state step c)"
  using step_cycles(1) [of c] by simp

text \<open>Apart from the block transfers, whatever the opcode bytes, an instruction takes between 1 and 65
  cycles (a division by zero trap taken by an indexed DIVQ is the longest).\<close>
theorem instruction_time:
  "(opcode \<noteq> 0x10 \<and> opcode \<noteq> 0x11 \<longrightarrow> instruction_cost (execute opcode)) \<and>
   instruction_cost (execute_page10 opcode) \<and>
   (opcode \<notin> {0x38, 0x39, 0x3A, 0x3B} \<longrightarrow> instruction_cost (execute_page11 opcode))"
  by (simp add: cost_page00 cost_page10 cost_page11)

theorem instruction_time_witness: "instruction_cost (execute 0x12) \<and> instruction_cost (execute_page11 0x8E)"
  by (simp add: instruction_time [THEN conjunct1, rule_format]
      instruction_time [THEN conjunct2, THEN conjunct2, rule_format])

lemma halted_step: "halted (snd (run_state step c)) = halted c"
  using preservesD [OF bus.keep_step, of c] by (simp add: bus_trace_def)

lemma unat_add_small:
  assumes "unat (x :: u64) \<le> 2 ^ 63" "n \<le> 196611"
  shows "unat (x + of_nat n) = unat x + n"
proof -
  have "unat (of_nat n :: u64) = n"
    using assms(2) by (simp add: unsigned_of_nat take_bit_nat_eq_self)
  then show ?thesis
    using assms by (subst unat_plus_simple [THEN iffD1]) (simp_all add: word_le_nat_alt unat_word_ariths)
qed

text \<open>How \<^verbatim>\<open>run\<close> ends.\<close>

definition run_outcome :: "u64 \<Rightarrow> 'm CPU \<Rightarrow> u64 \<Rightarrow> 'm CPU \<Rightarrow> bool" where
  "run_outcome max_cycles c n c' \<longleftrightarrow>
    (case stop_reason c' of
       CycleBudget \<Rightarrow> max_cycles \<le> n \<and> unat n \<le> unat max_cycles + 196611
     | Halted \<Rightarrow> halted c \<and> n < max_cycles
     | Breakpoint \<Rightarrow> \<not> halted c \<and> n < max_cycles \<and> at_breakpoint c'
     | _ \<Rightarrow> False)"

lemma run_loop_outcome:
  assumes "unat max_cycles \<le> 2 ^ 63" "unat consumed \<le> unat max_cycles + 196611"
  shows "\<exists>n c'. run_loop max_cycles consumed c = Some (n, c') \<and> run_outcome max_cycles c n c'"
  using assms(2)
proof (induction "unat max_cycles - unat consumed" arbitrary: consumed c rule: less_induct)
  case less
  show ?case
  proof (cases "consumed < max_cycles \<and> \<not> halted c \<and> \<not> at_breakpoint c")
    case True
    obtain k d where d: "run_state step c = (k, d)" by fastforce
    have k: "1 \<le> k" "k \<le> 196611" and hd: "halted d = halted c"
      using step_cycles [of c] halted_step [of c] d True by simp_all
    have lt: "unat consumed < unat max_cycles"
      using True by (simp add: word_less_nat_alt)
    then have "unat (consumed + of_nat k) = unat consumed + k"
      using assms(1) k by (intro unat_add_small) simp_all
    then obtain n c' where "run_loop max_cycles (consumed + of_nat k) d = Some (n, c')" "run_outcome max_cycles d n c'"
      using less.hyps [of "consumed + of_nat k" d] lt k by fastforce
    then show ?thesis
      using True d hd by (subst run_loop.simps) (auto simp: run_outcome_def split: StopReason.splits)
  next
    case False
    then show ?thesis
      using less.prems by (subst run_loop.simps) (auto simp: run_outcome_def at_breakpoint_def)
  qed
qed

text \<open>C10. \<^verbatim>\<open>hd6309_run\<close> returns, for every budget up to $2^{63}$ cycles and whatever program and bus: with
  CycleBudget when the budget is used up (overrun by less than one instruction), with Halted at once
  when the CPU is halted, or with Breakpoint before the budget is used up with the PC at a
  breakpoint. It never reports Sync or IllegalOpcodeTrap, although the enumeration documents these as
  reasons why a run stopped.\<close>
theorem run_terminates:
  assumes "unat max_cycles \<le> 2 ^ 63"
  shows "\<exists>n c'. run max_cycles c = Some (n, c') \<and> run_outcome max_cycles c n c'"
  using run_loop_outcome [OF assms, of 0 "c\<lparr>stop_reason := CycleBudget\<rparr>"]
  by (auto simp: run_def run_outcome_def split: StopReason.splits)

theorem run_terminates_witness:
  "\<exists>n c'. run 1000 (new_CPU ram_bus_read ram_bus_write ram_bus_create) = Some (n, c') \<and>
     run_outcome 1000 (new_CPU ram_bus_read ram_bus_write ram_bus_create) n c'"
  using run_terminates [of 1000] by simp

end
