(* ===== verification/Device.thy ===== *)
theory Device
  imports Prelude
begin

text \<open>
  The device interface of \<^verbatim>\<open>simulator/include/pugputer/device.hpp\<close> as a locale, and the ROM device of
  \<^verbatim>\<open>rom_device.hpp\<close>. A device class is a type of states with the five virtual methods; what the bus relies
  on is that every method returns and keeps the class's invariant (its vectors keep their sizes, its cursors
  stay inside them), which is what makes the class's array accesses stay in bounds.
\<close>

section \<open>The interface\<close>

datatype IrqLine = NoLine | IRQ | FIRQ | NMI

text \<open>The methods as the bus calls them; \<open>reset\<close> and \<open>tick\<close> hold loops of the class, and what the bus relies on includes
  that they return (\<open>None\<close> stands for a call that does not).\<close>

locale device_methods =
  fixes dread :: "'d \<Rightarrow> u16 \<Rightarrow> u8 \<times> 'd"
    and dwrite :: "'d \<Rightarrow> u16 \<Rightarrow> u8 \<Rightarrow> 'd"
    and preset :: "'d \<Rightarrow> 'd option"
    and ptick :: "u32 \<Rightarrow> 'd \<Rightarrow> 'd option"
    and inv :: "'d \<Rightarrow> bool"
  assumes inv_read: "inv d \<Longrightarrow> inv (snd (dread d a))"
    and inv_write: "inv d \<Longrightarrow> inv (dwrite d a v)"
    and reset_returns: "inv d \<Longrightarrow> \<exists>d'. preset d = Some d' \<and> inv d'"
    and tick_returns: "inv d \<Longrightarrow> \<exists>d'. ptick n d = Some d' \<and> inv d'"

text \<open>A class whose \<open>reset\<close> and \<open>tick\<close> return in every state.\<close>

locale device_class =
  fixes dread :: "'d \<Rightarrow> u16 \<Rightarrow> u8 \<times> 'd"
    and dwrite :: "'d \<Rightarrow> u16 \<Rightarrow> u8 \<Rightarrow> 'd"
    and dreset :: "'d \<Rightarrow> 'd"
    and dtick :: "u32 \<Rightarrow> 'd \<Rightarrow> 'd"
    and inv :: "'d \<Rightarrow> bool"
  assumes inv_read: "inv d \<Longrightarrow> inv (snd (dread d a))"
    and inv_write: "inv d \<Longrightarrow> inv (dwrite d a v)"
    and inv_reset: "inv d \<Longrightarrow> inv (dreset d)"
    and inv_tick: "inv d \<Longrightarrow> inv (dtick n d)"

sublocale device_class \<subseteq> methods: device_methods dread dwrite "\<lambda>d. Some (dreset d)" "\<lambda>n d. Some (dtick n d)" inv
  by unfold_locales (simp_all add: inv_read inv_write inv_reset inv_tick)

text \<open>What a device sees of the bus is a sequence of these events.\<close>

datatype bus_event = ReadEv u16 | WriteEv u16 u8 | ResetEv | TickEv u32

fun apply_event :: "('d \<Rightarrow> u16 \<Rightarrow> u8 \<times> 'd) \<Rightarrow> ('d \<Rightarrow> u16 \<Rightarrow> u8 \<Rightarrow> 'd) \<Rightarrow> ('d \<Rightarrow> 'd) \<Rightarrow> (u32 \<Rightarrow> 'd \<Rightarrow> 'd)
    \<Rightarrow> bus_event \<Rightarrow> 'd \<Rightarrow> 'd" where
  "apply_event rd wr rst tck (ReadEv a) d = snd (rd d a)"
| "apply_event rd wr rst tck (WriteEv a v) d = wr d a v"
| "apply_event rd wr rst tck ResetEv d = rst d"
| "apply_event rd wr rst tck (TickEv n) d = tck n d"

context device_class
begin

lemma inv_event: "inv d \<Longrightarrow> inv (apply_event dread dwrite dreset dtick e d)"
  by (cases e) (simp_all add: inv_read inv_write inv_reset inv_tick)

lemma inv_events: "inv d \<Longrightarrow> inv (fold (apply_event dread dwrite dreset dtick) es d)"
  by (induction es arbitrary: d) (simp_all add: inv_event)

end

section \<open>The ROM device\<close>

record rom_device =
  rom_data :: "u8 list"

definition new_rom :: "u16 \<Rightarrow> rom_device" where
  "new_rom n = \<lparr>rom_data = replicate (unat n) 0\<rparr>"

definition rom_read :: "rom_device \<Rightarrow> u16 \<Rightarrow> u8 \<times> rom_device" where
  "rom_read d offset =
    (if unat offset < length (rom_data d) then rom_data d ! unat offset else 0xFF, d)"

definition rom_write :: "rom_device \<Rightarrow> u16 \<Rightarrow> u8 \<Rightarrow> rom_device" where
  "rom_write d offset v = d"

definition rom_reset :: "rom_device \<Rightarrow> rom_device" where
  "rom_reset d = d"

definition rom_load :: "u8 list \<Rightarrow> rom_device \<Rightarrow> rom_device" where
  "rom_load src d =
    (let n = length src;
         count = (if n < length (rom_data d) then n else length (rom_data d))
     in d\<lparr>rom_data := take count src @ drop count (rom_data d)\<rparr>)"

text \<open>The default \<^verbatim>\<open>tick\<close> and \<^verbatim>\<open>irq_asserted\<close> of \<^verbatim>\<open>IDevice\<close>.\<close>

definition default_tick :: "u32 \<Rightarrow> 'd \<Rightarrow> 'd" where
  "default_tick cpu_cycles d = d"

definition default_irq_asserted :: "'d \<Rightarrow> bool" where
  "default_irq_asserted d = False"

interpretation rom: device_class rom_read rom_write rom_reset default_tick "\<lambda>d. rom_data d = bytes"
  by unfold_locales (simp_all add: rom_read_def rom_write_def rom_reset_def default_tick_def)

text \<open>A ROM keeps what was loaded into it: whatever reads, writes, resets and ticks the bus sends, in
  whatever order, each later read returns the loaded byte, and $FF beyond the device's size.\<close>
theorem rom_contents_fixed:
  "fst (rom_read (fold (apply_event rom_read rom_write rom_reset default_tick) es (rom_load src d)) offset) =
    (if unat offset < length (rom_data d)
     then (if unat offset < length src then src ! unat offset else rom_data d ! unat offset)
     else 0xFF)"
proof -
  have "rom_data (fold (apply_event rom_read rom_write rom_reset default_tick) es (rom_load src d)) = rom_data (rom_load src d)"
    by (rule rom.inv_events [OF refl])
  then show ?thesis
    by (auto simp: rom_read_def rom_load_def Let_def nth_append min_def)
qed

end
