(* ===== verification/Uart.thy ===== *)
theory Uart
  imports Device Complex_Main "HOL-Library.Sublist"
begin

text \<open>
  The serial port of \<^verbatim>\<open>simulator/src/pugputer/uart_r65c51.cpp\<close>: its registers, the transmitter and
  receiver paced by \<^verbatim>\<open>tick\<close>, the interrupt latch and the host side queues. \<^verbatim>\<open>double\<close> values are exact
  rationals here, and the conversion to an integer is the floor (in C++ a value out of range is
  undefined). The transmit callback is the list of the bytes it was called with.
\<close>

unbundle bit_operations_syntax

section \<open>State\<close>

record uart =
  u_command :: u8
  u_control :: u8
  u_irq_flag :: bool
  u_dsr_ready :: bool
  u_dcd_detected :: bool
  u_cts_clear :: bool
  u_overrun :: bool
  u_framing_error :: bool
  u_parity_error :: bool
  u_tdre :: bool
  u_rdrf :: bool
  u_rx_data :: u8
  u_tx_active :: bool
  u_tx_shift_byte :: u8
  u_tx_cycles_remaining :: int
  u_rx_pending :: "u8 list"
  u_rx_active :: bool
  u_rx_shift_byte :: u8
  u_rx_cycles_remaining :: int
  u_crystal_hz :: rat
  u_cpu_clock_hz :: rat
  u_tx_cb :: bool
  u_tx_cb_calls :: "u8 list"
  u_tx_queue :: "u8 list"

definition new_uart :: "rat \<Rightarrow> uart" where
  "new_uart crystal = \<lparr>u_command = 0, u_control = 0, u_irq_flag = False, u_dsr_ready = True,
     u_dcd_detected = True, u_cts_clear = True, u_overrun = False, u_framing_error = False,
     u_parity_error = False, u_tdre = True, u_rdrf = False, u_rx_data = 0, u_tx_active = False,
     u_tx_shift_byte = 0, u_tx_cycles_remaining = 0, u_rx_pending = [], u_rx_active = False,
     u_rx_shift_byte = 0, u_rx_cycles_remaining = 0, u_crystal_hz = crystal, u_cpu_clock_hz = 3579545,
     u_tx_cb = False, u_tx_cb_calls = [], u_tx_queue = []\<rparr>"

section \<open>Baud rate and character time\<close>

definition divisors :: "nat list" where
  "divisors = [0, 36864, 24576, 16769, 13704, 12288, 6144, 3072, 1536, 1024, 768, 512, 384, 256, 192, 96]"

definition baud_rate :: "uart \<Rightarrow> nat" where
  "baud_rate u =
    (let sbr = unat (u_control u AND 0x0F);
         d = divisors ! sbr
     in if d = 0 then 0 else nat \<lfloor>u_crystal_hz u / of_nat d + 1 / 2\<rfloor>)"

definition bits_per_char :: "uart \<Rightarrow> rat" where
  "bits_per_char u =
    (let wl_code = unat (drop_bit 5 (u_control u) AND 3);
         data_bits = [8, 7, 6, 5] ! wl_code;
         parity_enabled = (u_command u AND 0x20 \<noteq> 0);
         parity_bits = (if parity_enabled then 1 else 0);
         sbn = (u_control u AND 0x80 \<noteq> 0);
         stop_bits = (if \<not> sbn then 1
                      else if data_bits = 5 \<and> \<not> parity_enabled then 3 / 2
                      else if data_bits = 8 \<and> parity_enabled then 1
                      else 2)
     in 1 + data_bits + parity_bits + stop_bits)"

definition cycles_per_char :: "uart \<Rightarrow> nat" where
  "cycles_per_char u =
    (let baud = baud_rate u in
     if baud = 0 then 0xFFFFFFFF
     else
       let cycles = u_cpu_clock_hz u / of_nat baud * bits_per_char u;
           cycles = (if cycles < 1 then 1 else cycles)
       in nat \<lfloor>cycles + 1 / 2\<rfloor>)"

definition tx_irq_enabled :: "uart \<Rightarrow> bool" where
  "tx_irq_enabled u \<longleftrightarrow> u_command u AND 0x01 \<noteq> 0 \<and> drop_bit 2 (u_command u) AND 0x3 = 0x1"

definition rx_irq_enabled :: "uart \<Rightarrow> bool" where
  "rx_irq_enabled u \<longleftrightarrow> u_command u AND 0x01 \<noteq> 0 \<and> drop_bit 1 (u_command u) AND 0x1 = 0"

section \<open>Registers\<close>

definition status_register :: "uart \<Rightarrow> u8" where
  "status_register u =
    (if u_irq_flag u then 0x80 else 0) OR (if \<not> u_dsr_ready u then 0x40 else 0) OR
    (if \<not> u_dcd_detected u then 0x20 else 0) OR (if u_tdre u then 0x10 else 0) OR
    (if u_rdrf u then 0x08 else 0) OR (if u_overrun u then 0x04 else 0) OR
    (if u_framing_error u then 0x02 else 0) OR (if u_parity_error u then 0x01 else 0)"

definition uart_read :: "uart \<Rightarrow> u16 \<Rightarrow> u8 \<times> uart" where
  "uart_read u offset = (let k = offset AND 3 in
     if k = 0 then
       let u = u\<lparr>u_rdrf := False, u_overrun := False, u_framing_error := False, u_parity_error := False\<rparr>
       in (u_rx_data u, u)
     else if k = 1 then (status_register u, u\<lparr>u_irq_flag := False\<rparr>)
     else if k = 2 then (u_command u, u)
     else (u_control u, u))"

definition uart_write :: "uart \<Rightarrow> u16 \<Rightarrow> u8 \<Rightarrow> uart" where
  "uart_write u offset v = (let k = offset AND 3 in
     if k = 0 then
       u\<lparr>u_tx_shift_byte := v, u_tx_active := True,
         u_tx_cycles_remaining := int (cycles_per_char u), u_tdre := False\<rparr>
     else if k = 1 then u\<lparr>u_command := u_command u AND 0xE0, u_overrun := False\<rparr>
     else if k = 2 then
       let u = u\<lparr>u_command := v\<rparr>;
           u = (if u_tdre u \<and> tx_irq_enabled u then u\<lparr>u_irq_flag := True\<rparr> else u)
       in if u_rdrf u \<and> rx_irq_enabled u then u\<lparr>u_irq_flag := True\<rparr> else u
     else u\<lparr>u_control := v\<rparr>)"

definition uart_reset :: "uart \<Rightarrow> uart" where
  "uart_reset u = u\<lparr>u_command := 0, u_control := 0, u_irq_flag := False, u_overrun := False,
     u_framing_error := False, u_parity_error := False, u_tdre := True, u_rdrf := False,
     u_rx_data := 0, u_tx_active := False, u_tx_cycles_remaining := 0, u_rx_active := False,
     u_rx_cycles_remaining := 0, u_rx_pending := [], u_tx_queue := []\<rparr>"

section \<open>Time\<close>

definition tick_tx :: "u32 \<Rightarrow> uart \<Rightarrow> uart" where
  "tick_tx cpu_cycles u =
    (if u_tx_active u then
       let u = u\<lparr>u_tx_cycles_remaining := u_tx_cycles_remaining u - uint cpu_cycles\<rparr> in
       if u_tx_cycles_remaining u \<le> 0 then
         let u = u\<lparr>u_tx_active := False, u_tdre := True\<rparr>;
             u = (if u_tx_cb u then u\<lparr>u_tx_cb_calls := u_tx_cb_calls u @ [u_tx_shift_byte u]\<rparr> else u);
             u = u\<lparr>u_tx_queue := u_tx_queue u @ [u_tx_shift_byte u]\<rparr>
         in if tx_irq_enabled u then u\<lparr>u_irq_flag := True\<rparr> else u
       else u
     else u)"

definition rx_start :: "uart \<Rightarrow> uart" where
  "rx_start u =
    (if \<not> u_rx_active u \<and> u_rx_pending u \<noteq> [] \<and> u_command u AND 0x01 \<noteq> 0 then
       u\<lparr>u_rx_active := True, u_rx_shift_byte := hd (u_rx_pending u),
         u_rx_pending := tl (u_rx_pending u), u_rx_cycles_remaining := int (cycles_per_char u)\<rparr>
     else u)"

definition rx_advance :: "u32 \<Rightarrow> uart \<Rightarrow> uart" where
  "rx_advance cpu_cycles u =
    (if u_rx_active u then
       let u = u\<lparr>u_rx_cycles_remaining := u_rx_cycles_remaining u - uint cpu_cycles\<rparr> in
       if u_rx_cycles_remaining u \<le> 0 then
         let u = u\<lparr>u_rx_active := False\<rparr> in
         if u_rdrf u then u\<lparr>u_overrun := True\<rparr>
         else
           let u = u\<lparr>u_rx_data := u_rx_shift_byte u, u_rdrf := True\<rparr>
           in if rx_irq_enabled u then u\<lparr>u_irq_flag := True\<rparr> else u
       else u
     else u)"

definition uart_tick :: "u32 \<Rightarrow> uart \<Rightarrow> uart" where
  "uart_tick cpu_cycles u = rx_advance cpu_cycles (rx_start (tick_tx cpu_cycles u))"

section \<open>Host side\<close>

definition uart_irq_asserted :: "uart \<Rightarrow> bool" where
  "uart_irq_asserted u = u_irq_flag u"

definition rx_enqueue :: "u8 \<Rightarrow> uart \<Rightarrow> bool \<times> uart" where
  "rx_enqueue b u =
    (if 65536 \<le> length (u_rx_pending u) then (False, u)
     else (True, u\<lparr>u_rx_pending := u_rx_pending u @ [b]\<rparr>))"

definition tx_dequeue :: "uart \<Rightarrow> u8 option \<times> uart" where
  "tx_dequeue u =
    (case u_tx_queue u of [] \<Rightarrow> (None, u) | b # bs \<Rightarrow> (Some b, u\<lparr>u_tx_queue := bs\<rparr>))"

definition set_tx_callback :: "bool \<Rightarrow> uart \<Rightarrow> uart" where "set_tx_callback cb u = u\<lparr>u_tx_cb := cb\<rparr>"
definition set_dsr :: "bool \<Rightarrow> uart \<Rightarrow> uart" where "set_dsr ready u = u\<lparr>u_dsr_ready := ready\<rparr>"
definition set_dcd :: "bool \<Rightarrow> uart \<Rightarrow> uart" where "set_dcd detected u = u\<lparr>u_dcd_detected := detected\<rparr>"
definition set_cts :: "bool \<Rightarrow> uart \<Rightarrow> uart" where "set_cts cts u = u\<lparr>u_cts_clear := cts\<rparr>"
definition set_cpu_clock_hz :: "rat \<Rightarrow> uart \<Rightarrow> uart" where "set_cpu_clock_hz hz u = u\<lparr>u_cpu_clock_hz := hz\<rparr>"
definition current_baud_rate :: "uart \<Rightarrow> nat" where "current_baud_rate u = baud_rate u"

section \<open>Invariant\<close>

text \<open>The transmitter is idle exactly when TDRE is set; a character in progress has time left.\<close>

definition uart_inv :: "uart \<Rightarrow> bool" where
  "uart_inv u \<longleftrightarrow> u_tdre u = (\<not> u_tx_active u) \<and> (u_tx_active u \<longrightarrow> 0 < u_tx_cycles_remaining u) \<and>
     (u_rx_active u \<longrightarrow> 0 < u_rx_cycles_remaining u) \<and> length (u_rx_pending u) \<le> 65536"

lemma cycles_per_char_pos: "0 < cycles_per_char u"
proof -
  have "0 < nat \<lfloor>(if x < 1 then 1 else x) + 1 / 2\<rfloor>" for x :: rat
    unfolding zero_less_nat_eq by (rule less_le_trans [of _ 1]) (auto simp: le_floor_iff)
  then show ?thesis
    unfolding cycles_per_char_def Let_def by (simp only: if_split) simp
qed

lemma uart_inv_tick_tx: "uart_inv u \<Longrightarrow> uart_inv (tick_tx n u)"
  by (simp add: uart_inv_def tick_tx_def Let_def)

lemma uart_inv_rx_start: "uart_inv u \<Longrightarrow> uart_inv (rx_start u)"
  by (auto simp: uart_inv_def rx_start_def cycles_per_char_pos)

lemma uart_inv_rx_advance: "uart_inv u \<Longrightarrow> uart_inv (rx_advance n u)"
  by (simp add: uart_inv_def rx_advance_def Let_def)

interpretation uart: device_class uart_read uart_write uart_reset uart_tick uart_inv
proof
  fix u :: uart and a :: u16 and v :: u8 and n :: u32
  assume inv: "uart_inv u"
  show "uart_inv (snd (uart_read u a))"
    using inv by (simp add: uart_inv_def uart_read_def Let_def)
  show "uart_inv (uart_write u a v)"
    using inv by (simp add: uart_inv_def uart_write_def Let_def cycles_per_char_pos)
  show "uart_inv (uart_reset u)"
    by (simp add: uart_inv_def uart_reset_def)
  show "uart_inv (uart_tick n u)"
    using inv by (simp add: uart_tick_def uart_inv_tick_tx uart_inv_rx_start uart_inv_rx_advance)
qed

lemma uart_inv_new: "uart_inv (new_uart crystal)"
  by (simp add: uart_inv_def new_uart_def)

section \<open>Transmitting\<close>

lemma rx_part_tx:
  "u_tx_active (rx_advance n (rx_start u)) = u_tx_active u" "u_tdre (rx_advance n (rx_start u)) = u_tdre u"
  "u_tx_queue (rx_advance n (rx_start u)) = u_tx_queue u" "u_tx_cb (rx_advance n (rx_start u)) = u_tx_cb u"
  "u_tx_cb_calls (rx_advance n (rx_start u)) = u_tx_cb_calls u"
  "u_tx_shift_byte (rx_advance n (rx_start u)) = u_tx_shift_byte u"
  "u_tx_cycles_remaining (rx_advance n (rx_start u)) = u_tx_cycles_remaining u"
  by (simp_all add: rx_advance_def rx_start_def Let_def)

text \<open>What the host has been given: the bytes of the queue and of the callback.\<close>

definition host_got :: "uart \<Rightarrow> u8 list \<times> bool \<times> u8 list" where
  "host_got u = (u_tx_queue u, u_tx_cb u, u_tx_cb_calls u)"

lemma tx_pending:
  assumes "u_tx_active u" "sum_list (map uint ts) < u_tx_cycles_remaining u"
  shows "let v = fold uart_tick ts u in u_tx_active v \<and> u_tdre v = u_tdre u \<and> host_got v = host_got u \<and>
    u_tx_shift_byte v = u_tx_shift_byte u \<and>
    u_tx_cycles_remaining v = u_tx_cycles_remaining u - sum_list (map uint ts)"
  using assms
proof (induction ts arbitrary: u)
  case (Cons t ts)
  have pos: "0 \<le> sum_list (map uint ts)"
    by (intro sum_list_nonneg) auto
  have rem: "u_tx_cycles_remaining (uart_tick t u) = u_tx_cycles_remaining u - uint t"
    and keep: "u_tx_active (uart_tick t u)" "u_tdre (uart_tick t u) = u_tdre u"
      "host_got (uart_tick t u) = host_got u" "u_tx_shift_byte (uart_tick t u) = u_tx_shift_byte u"
    using Cons.prems pos by (simp_all add: uart_tick_def rx_part_tx tick_tx_def host_got_def Let_def)
  show ?case
    using Cons.IH [of "uart_tick t u"] Cons.prems by (simp add: rem keep Let_def algebra_simps)
qed simp

lemma tx_idle:
  assumes "\<not> u_tx_active u"
  shows "\<not> u_tx_active (fold uart_tick ts u) \<and> u_tdre (fold uart_tick ts u) = u_tdre u \<and> host_got (fold uart_tick ts u) = host_got u"
  using assms
proof (induction ts arbitrary: u)
  case (Cons t ts)
  have "\<not> u_tx_active (uart_tick t u)" "u_tdre (uart_tick t u) = u_tdre u" "host_got (uart_tick t u) = host_got u"
    using Cons.prems by (simp_all add: uart_tick_def rx_part_tx tick_tx_def host_got_def)
  then show ?case using Cons.IH by simp
qed simp

text \<open>C13. Transmission takes exactly one character time: after a write of the data register, TDRE stays clear and
  neither the queue nor the callback gets anything while less than the character time has been ticked away,
  whatever the steps; the tick that completes it sets TDRE and gives that byte to both (to the callback if there is
  one), and no later tick gives either of them another byte.\<close>
theorem uart_transmit:
  assumes "sum_list (map uint ts) < int (cycles_per_char u)"
  shows "let v = fold uart_tick ts (uart_write u 0 b); w = fold uart_tick later (uart_tick t v) in
    \<not> u_tdre v \<and> u_tx_queue v = u_tx_queue u \<and> u_tx_cb_calls v = u_tx_cb_calls u \<and>
    (int (cycles_per_char u) \<le> sum_list (map uint ts) + uint t \<longrightarrow>
       u_tdre w \<and> \<not> u_tx_active w \<and> u_tx_queue w = u_tx_queue u @ [b] \<and>
       u_tx_cb_calls w = u_tx_cb_calls u @ (if u_tx_cb u then [b] else []))"
proof -
  let ?u = "uart_write u 0 b"
  let ?v = "fold uart_tick ts ?u"
  have w: "u_tx_active ?u" "\<not> u_tdre ?u" "u_tx_shift_byte ?u = b" "host_got ?u = host_got u"
    "u_tx_cycles_remaining ?u = int (cycles_per_char u)"
    by (simp_all add: uart_write_def host_got_def Let_def)
  have v: "u_tx_active ?v" "\<not> u_tdre ?v" "host_got ?v = host_got u" "u_tx_shift_byte ?v = b"
    "u_tx_cycles_remaining ?v = int (cycles_per_char u) - sum_list (map uint ts)"
    using tx_pending [of ?u ts] assms w by (simp_all add: Let_def)
  have "u_tdre (uart_tick t ?v) \<and> \<not> u_tx_active (uart_tick t ?v) \<and>
      host_got (uart_tick t ?v) = (u_tx_queue u @ [b], u_tx_cb u, u_tx_cb_calls u @ (if u_tx_cb u then [b] else []))"
    if "int (cycles_per_char u) \<le> sum_list (map uint ts) + uint t"
    using v that by (simp add: uart_tick_def rx_part_tx tick_tx_def host_got_def Let_def)
  then show ?thesis
    using v(2,3) tx_idle [of "uart_tick t ?v" later] by (auto simp: host_got_def Let_def)
qed

theorem uart_transmit_witness:
  "u_tx_cb_calls (fold uart_tick [5, 5] (uart_tick 1800 (fold uart_tick [100]
     (uart_write ((set_tx_callback True (new_uart 1843200))\<lparr>u_control := 0x1F\<rparr>) 0 65)))) = [65]"
proof -
  let ?u = "(set_tx_callback True (new_uart 1843200))\<lparr>u_control := 0x1F\<rparr>"
  have "\<lfloor>(38401 / 2 :: rat)\<rfloor> = 19200" "\<lfloor>(35795450 / 19200 + 1 / 2 :: rat)\<rfloor> = 1864" by (simp_all add: floor_eq_iff)
  then have "cycles_per_char ?u = 1864"
    by (simp add: cycles_per_char_def baud_rate_def bits_per_char_def set_tx_callback_def new_uart_def divisors_def Let_def)
  then show ?thesis
    using uart_transmit [of "[100]" ?u 65 "[5, 5]" 1800] by (simp add: Let_def set_tx_callback_def new_uart_def)
qed

section \<open>Receiving\<close>

text \<open>The bytes on their way to the program, oldest first: in the data register, in the shift register,
  and queued by the host.\<close>

definition rx_stream :: "uart \<Rightarrow> u8 list" where
  "rx_stream u = (if u_rdrf u then [u_rx_data u] else []) @
     (if u_rx_active u then [u_rx_shift_byte u] else []) @ u_rx_pending u"

datatype serial_event = Bus bus_event | Arrive u8

fun serial_step :: "serial_event \<Rightarrow> uart \<Rightarrow> uart" where
  "serial_step (Bus e) u = apply_event uart_read uart_write uart_reset uart_tick e u"
| "serial_step (Arrive b) u = snd (rx_enqueue b u)"

text \<open>The byte a program takes with an event: a read of the data register while RDRF is set.\<close>

fun taken :: "serial_event \<Rightarrow> uart \<Rightarrow> u8 list" where
  "taken (Bus (ReadEv a)) u = (if a AND 3 = 0 \<and> u_rdrf u then [fst (uart_read u a)] else [])"
| "taken _ u = []"

fun accepted :: "serial_event \<Rightarrow> uart \<Rightarrow> u8 list" where
  "accepted (Arrive b) u = (if fst (rx_enqueue b u) then [b] else [])"
| "accepted _ u = []"

fun all_taken :: "serial_event list \<Rightarrow> uart \<Rightarrow> u8 list" where
  "all_taken [] u = []"
| "all_taken (e # es) u = taken e u @ all_taken es (serial_step e u)"

fun all_accepted :: "serial_event list \<Rightarrow> uart \<Rightarrow> u8 list" where
  "all_accepted [] u = []"
| "all_accepted (e # es) u = accepted e u @ all_accepted es (serial_step e u)"

fun overrun_seen :: "serial_event list \<Rightarrow> uart \<Rightarrow> bool" where
  "overrun_seen [] u = False"
| "overrun_seen (e # es) u = (u_overrun (serial_step e u) \<or> overrun_seen es (serial_step e u))"

lemma rx_stream_tick_tx: "rx_stream (tick_tx n u) = rx_stream u"
  by (simp add: rx_stream_def tick_tx_def Let_def)

lemma rx_stream_start: "rx_stream (rx_start u) = rx_stream u"
  by (auto simp: rx_stream_def rx_start_def)

lemma rx_stream_advance:
  "rx_stream (rx_advance n u) = rx_stream u \<or>
   u_overrun (rx_advance n u) \<and> subseq (rx_stream (rx_advance n u)) (rx_stream u)"
  by (simp add: rx_stream_def rx_advance_def Let_def list_emb_Cons)

lemma rx_stream_tick:
  "rx_stream (uart_tick n u) = rx_stream u \<or>
   u_overrun (uart_tick n u) \<and> subseq (rx_stream (uart_tick n u)) (rx_stream u)"
  using rx_stream_advance [of n "rx_start (tick_tx n u)"]
  by (simp add: uart_tick_def rx_stream_start rx_stream_tick_tx)

lemma rx_stream_read:
  "taken (Bus (ReadEv a)) u @ rx_stream (snd (uart_read u a)) = rx_stream u"
  by (simp add: rx_stream_def uart_read_def Let_def)

lemma rx_stream_write: "rx_stream (uart_write u a v) = rx_stream u"
  by (simp add: rx_stream_def uart_write_def Let_def)

lemma rx_stream_step:
  assumes "e \<noteq> Bus ResetEv"
  shows "taken e u @ rx_stream (serial_step e u) = rx_stream u @ accepted e u \<or>
    u_overrun (serial_step e u) \<and> subseq (taken e u @ rx_stream (serial_step e u)) (rx_stream u @ accepted e u)"
proof (cases e)
  case (Bus b)
  then show ?thesis
    using assms rx_stream_read rx_stream_tick
    by (cases b) (simp_all add: rx_stream_write)
next
  case (Arrive b)
  then show ?thesis by (simp add: rx_enqueue_def rx_stream_def)
qed

text \<open>C20. The receiver delivers the host's bytes in order: over any sequence of bus accesses, ticks and
  arrivals, what the program has taken followed by what is still on its way is a subsequence of what
  was on its way before followed by what the host queued; and it is all of it, unless the overrun bit
  was set at some point.\<close>
theorem uart_receive_order:
  assumes "Bus ResetEv \<notin> set es"
  shows "subseq (all_taken es u @ rx_stream (fold serial_step es u)) (rx_stream u @ all_accepted es u) \<and>
    (\<not> overrun_seen es u \<longrightarrow>
       all_taken es u @ rx_stream (fold serial_step es u) = rx_stream u @ all_accepted es u)"
  using assms
proof (induction es arbitrary: u)
  case (Cons e es)
  let ?v = "serial_step e u"
  have step: "taken e u @ rx_stream ?v = rx_stream u @ accepted e u \<or>
      u_overrun ?v \<and> subseq (taken e u @ rx_stream ?v) (rx_stream u @ accepted e u)"
    using Cons.prems by (intro rx_stream_step) auto
  have "subseq (taken e u @ rx_stream ?v) (rx_stream u @ accepted e u)"
    using step by auto
  then have "subseq (taken e u @ rx_stream ?v @ all_accepted es ?v) (rx_stream u @ accepted e u @ all_accepted es ?v)"
    using list_emb_append_mono [OF _ subseq_order.order_refl [of "all_accepted es ?v"]] by fastforce
  moreover have "subseq (taken e u @ all_taken es ?v @ rx_stream (fold serial_step es ?v))
      (taken e u @ rx_stream ?v @ all_accepted es ?v)"
    using Cons.IH [of ?v] Cons.prems by (intro list_emb_append_mono [OF subseq_order.order_refl]) simp
  ultimately have "subseq (all_taken (e # es) u @ rx_stream (fold serial_step (e # es) u))
      (rx_stream u @ all_accepted (e # es) u)"
    by (auto dest: subseq_order.order_trans)
  moreover have "all_taken (e # es) u @ rx_stream (fold serial_step (e # es) u) = rx_stream u @ all_accepted (e # es) u"
    if "\<not> overrun_seen (e # es) u"
  proof -
    have "taken e u @ rx_stream ?v = rx_stream u @ accepted e u"
      and "all_taken es ?v @ rx_stream (fold serial_step es ?v) = rx_stream ?v @ all_accepted es ?v"
      using that step Cons.IH [of ?v] Cons.prems by auto
    then show ?thesis
      by simp
  qed
  ultimately show ?case by blast
qed simp

theorem uart_receive_order_witness:
  "all_taken [Arrive 72, Bus (ReadEv 0)] (new_uart 1843200\<lparr>u_rdrf := True, u_rx_data := 65\<rparr>) = [65]"
proof -
  let ?es = "[Arrive 72, Bus (ReadEv 0)]" and ?u = "new_uart 1843200\<lparr>u_rdrf := True, u_rx_data := 65\<rparr>"
  have "\<not> overrun_seen ?es ?u" "rx_stream ?u = [65]" "all_accepted ?es ?u = [72]"
    "rx_stream (fold serial_step ?es ?u) = [72]"
    by (simp_all add: new_uart_def rx_enqueue_def rx_stream_def uart_read_def)
  then show ?thesis
    using uart_receive_order [of ?es ?u] by simp
qed

section \<open>The interrupt latch\<close>

text \<open>No interrupt is lost: once the IRQ latch is set, only a read of the status register or a reset
  clears it, and that read reports it in bit 7; a read of the status register leaves it clear.\<close>
theorem uart_irq_latch:
  "(u_irq_flag u \<and> e \<noteq> Bus ResetEv \<and> (\<forall>a. e = Bus (ReadEv a) \<longrightarrow> a AND 3 \<noteq> 1) \<longrightarrow>
     u_irq_flag (serial_step e u)) \<and>
   (bit (fst (uart_read u 1)) 7 \<longleftrightarrow> u_irq_flag u) \<and> \<not> u_irq_flag (snd (uart_read u 1))"
proof -
  have tick: "u_irq_flag (uart_tick n u)" if "u_irq_flag u" for n
    using that by (simp add: uart_tick_def tick_tx_def rx_start_def rx_advance_def Let_def)
  have other: "u_irq_flag (uart_write u a v)" "a AND 3 \<noteq> 1 \<Longrightarrow> u_irq_flag (snd (uart_read u a))"
    "u_irq_flag (snd (rx_enqueue v u))" if "u_irq_flag u" for a v
    using that by (simp_all add: uart_read_def uart_write_def rx_enqueue_def Let_def)
  have "u_irq_flag (serial_step e u)"
    if set: "u_irq_flag u" and ok: "e \<noteq> Bus ResetEv" "\<forall>a. e = Bus (ReadEv a) \<longrightarrow> a AND 3 \<noteq> 1"
  proof (cases e)
    case (Bus b)
    then show ?thesis using ok tick [OF set] other [OF set] by (cases b) simp_all
  next
    case (Arrive v)
    then show ?thesis using other(3) [OF set] by simp
  qed
  moreover have "bit (status_register u) 7 \<longleftrightarrow> u_irq_flag u"
    by (simp add: status_register_def bit_or_iff)
  ultimately show ?thesis
    by (simp add: uart_read_def Let_def)
qed

theorem uart_irq_latch_witness:
  "u_irq_flag (serial_step (Bus (TickEv 7)) (new_uart 1843200\<lparr>u_irq_flag := True\<rparr>))"
  using uart_irq_latch [where u = "new_uart 1843200\<lparr>u_irq_flag := True\<rparr>" and e = "Bus (TickEv 7)"] by simp

end
