(* ===== verification/Sd_Card.thy ===== *)
theory Sd_Card
  imports Device
begin

text \<open>
  The block storage device of \<^verbatim>\<open>simulator/src/pugputer/sdcard_device.cpp\<close>. The disk image file behind
  the \<^verbatim>\<open>fstream\<close> is a byte list (\<open>None\<close> when no file is open): a read that runs past its end fails, a
  write past its end extends it with zero bytes. Whether the host lets the file be written
  (permissions, space) is the field \<open>sd_writable\<close>.
\<close>

unbundle bit_operations_syntax

section \<open>State\<close>

definition kBlockSize :: nat where "kBlockSize = 512"
definition kStaBusy :: u8 where "kStaBusy = 0x01"
definition kStaCard :: u8 where "kStaCard = 0x02"
definition kStaError :: u8 where "kStaError = 0x04"
definition kCmdRead :: u8 where "kCmdRead = 1"
definition kCmdWrite :: u8 where "kCmdWrite = 2"
definition kCmdSetHi :: u8 where "kCmdSetHi = 3"

lemmas sd_consts = kBlockSize_def kStaBusy_def kStaCard_def kStaError_def kCmdRead_def kCmdWrite_def kCmdSetHi_def

record sdcard =
  sd_file :: "u8 list option"
  sd_writable :: bool
  sd_lba :: u16
  sd_lba_hi :: u16
  sd_buffer :: "u8 list"
  sd_cursor :: u16
  sd_last_error :: bool
  sd_write_log :: "(u32 \<times> u8 list) list option"
  sd_card_present :: bool
  sd_stuck_busy :: bool
  sd_fail_reads :: int
  sd_fail_writes :: int
  sd_fail_reads_after :: int
  sd_commands :: u64

definition new_sdcard :: sdcard where
  "new_sdcard = \<lparr>sd_file = None, sd_writable = True, sd_lba = 0, sd_lba_hi = 0,
     sd_buffer = replicate kBlockSize 0, sd_cursor = 0, sd_last_error = False, sd_write_log = None,
     sd_card_present = True, sd_stuck_busy = False, sd_fail_reads = 0, sd_fail_writes = 0,
     sd_fail_reads_after = -1, sd_commands = 0\<rparr>"

definition sd_open :: "u8 list option \<Rightarrow> bool \<Rightarrow> sdcard \<Rightarrow> bool \<times> sdcard" where
  "sd_open img writable d = (img \<noteq> None, d\<lparr>sd_file := img, sd_writable := writable\<rparr>)"

definition is_open :: "sdcard \<Rightarrow> bool" where
  "is_open d \<longleftrightarrow> sd_file d \<noteq> None"

section \<open>The data port and the status\<close>

text \<open>\<^verbatim>\<open>if (cursor_ + 1 < kBlockSize) ++cursor_;\<close>\<close>

definition advance_cursor :: "sdcard \<Rightarrow> sdcard" where
  "advance_cursor d =
    (if unat (sd_cursor d) + 1 < kBlockSize then d\<lparr>sd_cursor := sd_cursor d + 1\<rparr> else d)"

definition sd_read :: "sdcard \<Rightarrow> u16 \<Rightarrow> u8 \<times> sdcard" where
  "sd_read d offset =
    (if offset = 0 then (hi8 (sd_lba d), d)
     else if offset = 1 then (lo8 (sd_lba d), d)
     else if offset = 2 then (sd_buffer d ! unat (sd_cursor d), advance_cursor d)
     else if offset = 3 then
       ((if sd_stuck_busy d then kStaBusy else 0) OR
        (if is_open d \<and> sd_card_present d then kStaCard else 0) OR
        (if sd_last_error d then kStaError else 0), d)
     else (0xFF, d))"

section \<open>Commands\<close>

definition block_number :: "sdcard \<Rightarrow> nat" where
  "block_number d = unat (mk32 (sd_lba_hi d) (sd_lba d))"

text \<open>Reading and writing a block of the file at a byte position.\<close>

definition file_read :: "nat \<Rightarrow> u8 list \<Rightarrow> u8 list option" where
  "file_read pos img = (if pos + kBlockSize \<le> length img then Some (take kBlockSize (drop pos img)) else None)"

definition file_write :: "nat \<Rightarrow> u8 list \<Rightarrow> u8 list \<Rightarrow> u8 list" where
  "file_write pos bs img =
    take pos (img @ replicate (pos - length img) 0) @ bs @ drop (pos + length bs) img"

definition command_read :: "sdcard \<Rightarrow> sdcard" where
  "command_read d =
    (case file_read (block_number d * kBlockSize) (the (sd_file d)) of
       Some bs \<Rightarrow> d\<lparr>sd_buffer := bs\<rparr>
     | None \<Rightarrow> d\<lparr>sd_last_error := True, sd_buffer := replicate kBlockSize 0\<rparr>)"

definition command_write :: "sdcard \<Rightarrow> sdcard" where
  "command_write d =
    (let d = (if sd_writable d
              then d\<lparr>sd_file := Some (file_write (block_number d * kBlockSize) (sd_buffer d) (the (sd_file d)))\<rparr>
              else d\<lparr>sd_last_error := True\<rparr>)
     in d\<lparr>sd_write_log := map_option (\<lambda>log. log @ [(mk32 (sd_lba_hi d) (sd_lba d), sd_buffer d)]) (sd_write_log d)\<rparr>)"

definition do_command :: "u8 \<Rightarrow> sdcard \<Rightarrow> sdcard" where
  "do_command cmd d =
    (let d = d\<lparr>sd_last_error := False\<rparr> in
     if cmd = kCmdSetHi then d\<lparr>sd_lba_hi := sd_lba d, sd_cursor := 0\<rparr>
     else if \<not> is_open d \<or> \<not> sd_card_present d then d\<lparr>sd_last_error := True, sd_cursor := 0\<rparr>
     else
       let d = (if cmd = kCmdRead \<or> cmd = kCmdWrite then d\<lparr>sd_commands := sd_commands d + 1\<rparr> else d) in
       if cmd = kCmdRead \<and> 0 \<le> sd_fail_reads_after d \<and> sd_fail_reads_after d < sint (sd_commands d)
       then d\<lparr>sd_last_error := True, sd_cursor := 0\<rparr>
       else if (cmd = kCmdRead \<and> 0 < sd_fail_reads d) \<or> (cmd = kCmdWrite \<and> 0 < sd_fail_writes d) then
         let d = (if cmd = kCmdRead then d\<lparr>sd_fail_reads := sd_fail_reads d - 1\<rparr>
                  else d\<lparr>sd_fail_writes := sd_fail_writes d - 1\<rparr>)
         in d\<lparr>sd_last_error := True, sd_cursor := 0\<rparr>
       else
         let d = (if cmd = kCmdRead then command_read d
                  else if cmd = kCmdWrite then command_write d
                  else d)
         in d\<lparr>sd_cursor := 0\<rparr>)"

definition sd_write :: "sdcard \<Rightarrow> u16 \<Rightarrow> u8 \<Rightarrow> sdcard" where
  "sd_write d offset v =
    (if offset = 0 then d\<lparr>sd_lba := mk16 v (lo8 (sd_lba d)), sd_cursor := 0\<rparr>
     else if offset = 1 then d\<lparr>sd_lba := mk16 (hi8 (sd_lba d)) v, sd_cursor := 0\<rparr>
     else if offset = 2 then
       advance_cursor (d\<lparr>sd_buffer := (sd_buffer d)[unat (sd_cursor d) := v]\<rparr>)
     else if offset = 3 then do_command v d
     else d)"

definition sd_reset :: "sdcard \<Rightarrow> sdcard" where
  "sd_reset d = d\<lparr>sd_lba := 0, sd_lba_hi := 0, sd_cursor := 0, sd_buffer := replicate kBlockSize 0\<rparr>"

section \<open>Test hooks\<close>

definition record_writes :: "(u32 \<times> u8 list) list option \<Rightarrow> sdcard \<Rightarrow> sdcard" where
  "record_writes log d = d\<lparr>sd_write_log := log\<rparr>"
definition set_card_present :: "bool \<Rightarrow> sdcard \<Rightarrow> sdcard" where
  "set_card_present present d = d\<lparr>sd_card_present := present\<rparr>"
definition set_stuck_busy :: "bool \<Rightarrow> sdcard \<Rightarrow> sdcard" where
  "set_stuck_busy stuck d = d\<lparr>sd_stuck_busy := stuck\<rparr>"
definition fail_next_reads :: "int \<Rightarrow> sdcard \<Rightarrow> sdcard" where
  "fail_next_reads n d = d\<lparr>sd_fail_reads := n\<rparr>"
definition fail_next_writes :: "int \<Rightarrow> sdcard \<Rightarrow> sdcard" where
  "fail_next_writes n d = d\<lparr>sd_fail_writes := n\<rparr>"
definition fail_reads_after :: "int \<Rightarrow> sdcard \<Rightarrow> sdcard" where
  "fail_reads_after n d = d\<lparr>sd_fail_reads_after := n\<rparr>"

section \<open>Invariant\<close>

definition sd_inv :: "sdcard \<Rightarrow> bool" where
  "sd_inv d \<longleftrightarrow> length (sd_buffer d) = kBlockSize \<and> unat (sd_cursor d) < kBlockSize"

lemma file_read_length: "file_read pos img = Some bs \<Longrightarrow> length bs = kBlockSize"
  by (auto simp: file_read_def split: if_splits)

lemma advance_cursor_value:
  "unat (sd_cursor d) < kBlockSize \<Longrightarrow>
   unat (sd_cursor (advance_cursor d)) = (if unat (sd_cursor d) + 1 < kBlockSize then unat (sd_cursor d) + 1 else unat (sd_cursor d))"
  by (auto simp: advance_cursor_def kBlockSize_def unat_word_ariths)

lemma sd_inv_advance: "sd_inv d \<Longrightarrow> sd_inv (advance_cursor d)"
  by (auto simp: sd_inv_def advance_cursor_value) (simp add: advance_cursor_def)

lemma sd_inv_command_read: "sd_inv d \<Longrightarrow> sd_inv (command_read d)"
  by (auto simp: sd_inv_def command_read_def file_read_length split: option.split)

lemma sd_inv_command_write: "sd_inv d \<Longrightarrow> sd_inv (command_write d)"
  by (simp add: sd_inv_def command_write_def Let_def)

lemma sd_inv_command: "sd_inv d \<Longrightarrow> sd_inv (do_command cmd d)"
  using sd_inv_command_read [of "d\<lparr>sd_last_error := False, sd_commands := sd_commands d + 1\<rparr>"]
    sd_inv_command_write [of "d\<lparr>sd_last_error := False, sd_commands := sd_commands d + 1\<rparr>"]
  by (simp add: do_command_def Let_def) (simp add: sd_inv_def kBlockSize_def)

interpretation sd: device_class sd_read sd_write sd_reset default_tick sd_inv
proof
  fix d :: sdcard and a :: u16 and v :: u8 and n :: u32
  assume inv: "sd_inv d"
  show "sd_inv (snd (sd_read d a))"
    using inv by (simp add: sd_read_def sd_inv_advance)
  have "sd_inv (d\<lparr>sd_buffer := (sd_buffer d)[unat (sd_cursor d) := v]\<rparr>)"
    "sd_inv (d\<lparr>sd_lba := w, sd_cursor := 0\<rparr>)" for w
    using inv by (simp_all add: sd_inv_def kBlockSize_def)
  then show "sd_inv (sd_write d a v)"
    using inv by (simp add: sd_write_def sd_inv_advance sd_inv_command)
  show "sd_inv (sd_reset d)"
    using inv by (simp add: sd_inv_def sd_reset_def kBlockSize_def)
  show "sd_inv (default_tick n d)"
    using inv by (simp add: default_tick_def)
qed

lemma sd_inv_new: "sd_inv new_sdcard"
  by (simp add: sd_inv_def new_sdcard_def kBlockSize_def)

section \<open>The driver's protocol\<close>

text \<open>How a program uses the device: it latches the high word of the block number with SETHI, stores the low word,
  then streams 512 bytes through the data port after a READ command, or before a WRITE command.\<close>

definition sd_select :: "u16 \<Rightarrow> sdcard \<Rightarrow> sdcard" where
  "sd_select lba d = sd_write (sd_write d 0 (hi8 lba)) 1 (lo8 lba)"

definition stream_in :: "u8 list \<Rightarrow> sdcard \<Rightarrow> sdcard" where
  "stream_in bs d = fold (\<lambda>b d. sd_write d 2 b) bs d"

primrec stream_out :: "nat \<Rightarrow> sdcard \<Rightarrow> u8 list \<times> sdcard" where
  "stream_out 0 d = ([], d)"
| "stream_out (Suc n) d =
    (let (b, d) = sd_read d 2; (bs, d) = stream_out n d in (b # bs, d))"

definition select_block :: "u32 \<Rightarrow> sdcard \<Rightarrow> sdcard" where
  "select_block n d = sd_select (lo16 n) (sd_write (sd_select (hi16 n) d) 3 kCmdSetHi)"

definition write_block :: "u32 \<Rightarrow> u8 list \<Rightarrow> sdcard \<Rightarrow> sdcard" where
  "write_block n bs d = sd_write (stream_in bs (select_block n d)) 3 kCmdWrite"

definition read_block :: "u32 \<Rightarrow> sdcard \<Rightarrow> u8 list \<times> sdcard" where
  "read_block n d = stream_out kBlockSize (sd_write (select_block n d) 3 kCmdRead)"

text \<open>A card with a file, in the slot, and no injected failure.\<close>

definition healthy :: "sdcard \<Rightarrow> bool" where
  "healthy d \<longleftrightarrow> sd_inv d \<and> is_open d \<and> sd_card_present d \<and> sd_fail_reads d \<le> 0 \<and> sd_fail_writes d \<le> 0 \<and>
     sd_fail_reads_after d < 0"

text \<open>The members the data port leaves alone.\<close>

definition same_card :: "sdcard \<Rightarrow> sdcard \<Rightarrow> bool" where
  "same_card d e \<longleftrightarrow> sd_file e = sd_file d \<and> sd_writable e = sd_writable d \<and> sd_lba e = sd_lba d \<and>
     sd_lba_hi e = sd_lba_hi d \<and> sd_card_present e = sd_card_present d \<and> sd_fail_reads e = sd_fail_reads d \<and>
     sd_fail_writes e = sd_fail_writes d \<and> sd_fail_reads_after e = sd_fail_reads_after d \<and>
     sd_write_log e = sd_write_log d"

lemma select_simps [simp]:
  "sd_file (sd_select lba d) = sd_file d" "sd_writable (sd_select lba d) = sd_writable d"
  "sd_lba (sd_select lba d) = lba" "sd_lba_hi (sd_select lba d) = sd_lba_hi d"
  "sd_buffer (sd_select lba d) = sd_buffer d" "sd_cursor (sd_select lba d) = 0"
  "sd_card_present (sd_select lba d) = sd_card_present d" "sd_fail_reads (sd_select lba d) = sd_fail_reads d"
  "sd_fail_writes (sd_select lba d) = sd_fail_writes d" "sd_fail_reads_after (sd_select lba d) = sd_fail_reads_after d"
  "healthy (sd_select lba d) = healthy d" if "sd_inv d"
  using that by (simp_all add: sd_select_def sd_write_def healthy_def sd_inv_def is_open_def kBlockSize_def)

lemma select_block_simps [simp]:
  "sd_file (select_block n d) = sd_file d" "sd_writable (select_block n d) = sd_writable d"
  "block_number (select_block n d) = unat n" "sd_cursor (select_block n d) = 0"
  "sd_inv (select_block n d)" "healthy (select_block n d) = healthy d" if "sd_inv d"
proof -
  let ?d = "sd_write (sd_select (hi16 n) d) 3 kCmdSetHi"
  have d: "?d = (sd_select (hi16 n) d)\<lparr>sd_last_error := False, sd_lba_hi := hi16 n, sd_cursor := 0\<rparr>"
    using that by (simp add: sd_write_def do_command_def kCmdSetHi_def)
  have inv: "sd_inv (sd_select (hi16 n) d)" using that by (simp add: sd_select_def sd.inv_write)
  then have inv': "sd_inv ?d" by (rule sd.inv_write)
  then show "sd_inv (select_block n d)" by (simp add: select_block_def sd_select_def sd.inv_write)
  show "sd_file (select_block n d) = sd_file d" "sd_writable (select_block n d) = sd_writable d"
    "block_number (select_block n d) = unat n" "sd_cursor (select_block n d) = 0"
    using inv' that unfolding select_block_def by (simp_all add: block_number_def) (simp_all add: d that)
  have "healthy ?d = healthy (sd_select (hi16 n) d)"
    using inv inv' unfolding healthy_def by (simp add: d is_open_def)
  then show "healthy (select_block n d) = healthy d" using inv' that unfolding select_block_def by simp
qed

lemma stream_in_same: "same_card d (stream_in bs d)"
  by (induction bs arbitrary: d)
    (auto simp: stream_in_def same_card_def sd_write_def advance_cursor_def)

lemma stream_in_buffer:
  assumes "sd_inv d" "unat (sd_cursor d) + length bs \<le> kBlockSize"
  shows "sd_inv (stream_in bs d) \<and> sd_buffer (stream_in bs d) =
    take (unat (sd_cursor d)) (sd_buffer d) @ bs @ drop (unat (sd_cursor d) + length bs) (sd_buffer d)"
  using assms
proof (induction bs arbitrary: d)
  case (Cons b bs)
  let ?k = "unat (sd_cursor d)" and ?d = "sd_write d 2 b"
  have inv: "sd_inv ?d" using Cons.prems(1) by (rule sd.inv_write)
  have len: "length (sd_buffer d) = kBlockSize" "?k < kBlockSize"
    using Cons.prems(1) by (simp_all add: sd_inv_def)
  have buf: "sd_buffer ?d = (sd_buffer d)[?k := b]"
    by (simp add: sd_write_def advance_cursor_def)
  have cur: "unat (sd_cursor ?d) = (if ?k + 1 < kBlockSize then ?k + 1 else ?k)"
    using advance_cursor_value [of "d\<lparr>sd_buffer := (sd_buffer d)[?k := b]\<rparr>"] len(2) by (simp add: sd_write_def)
  show ?case
  proof (cases "?k + 1 < kBlockSize")
    case True
    have "sd_inv (stream_in bs ?d) \<and> sd_buffer (stream_in bs ?d) =
        take (?k + 1) (sd_buffer ?d) @ bs @ drop (?k + 1 + length bs) (sd_buffer ?d)"
      using Cons.IH [OF inv] Cons.prems(2) cur True by simp
    then show ?thesis
      using len by (simp add: buf stream_in_def take_Suc_conv_app_nth)
  next
    case False
    then have "bs = []" using Cons.prems(2) by (cases bs) simp_all
    then show ?thesis
      using inv len False by (simp add: buf stream_in_def upd_conv_take_nth_drop)
  qed
qed (simp add: stream_in_def)

lemma stream_out_buffer:
  assumes "sd_inv d" "unat (sd_cursor d) + n \<le> kBlockSize"
  shows "fst (stream_out n d) = take n (drop (unat (sd_cursor d)) (sd_buffer d))"
  using assms
proof (induction n arbitrary: d)
  case (Suc n)
  let ?k = "unat (sd_cursor d)" and ?d = "snd (sd_read d 2)"
  have inv: "sd_inv ?d" using Suc.prems(1) by (rule sd.inv_read)
  have len: "length (sd_buffer d) = kBlockSize" "?k < kBlockSize"
    using Suc.prems(1) by (simp_all add: sd_inv_def)
  have b: "fst (sd_read d 2) = sd_buffer d ! ?k" and buf: "sd_buffer ?d = sd_buffer d"
    by (simp_all add: sd_read_def advance_cursor_def)
  have cur: "unat (sd_cursor ?d) = (if ?k + 1 < kBlockSize then ?k + 1 else ?k)"
    using advance_cursor_value [OF len(2)] by (simp add: sd_read_def)
  have hd: "drop ?k (sd_buffer d) = sd_buffer d ! ?k # drop (Suc ?k) (sd_buffer d)"
    using len by (simp add: Cons_nth_drop_Suc)
  show ?case
  proof (cases n)
    case 0
    then show ?thesis by (simp add: split_beta b hd)
  next
    case (Suc m)
    then have "fst (stream_out n ?d) = take n (drop (Suc ?k) (sd_buffer d))"
      using Suc.IH [OF inv] Suc.prems(2) cur buf by simp
    then show ?thesis by (simp add: split_beta b hd)
  qed
qed simp

section \<open>Blocks of the image\<close>

lemma length_file_write: "length (file_write pos bs img) = max (pos + length bs) (length img)"
  by (simp add: file_write_def)

lemma file_read_write_same: "length bs = kBlockSize \<Longrightarrow> file_read pos (file_write pos bs img) = Some bs"
  by (simp add: file_read_def length_file_write) (simp add: file_write_def)

lemma file_read_write_other:
  assumes "length bs = kBlockSize" "pos' + kBlockSize \<le> length img" "pos' + kBlockSize \<le> pos \<or> pos + kBlockSize \<le> pos'"
  shows "file_read pos' (file_write pos bs img) = file_read pos' img"
proof -
  have nth: "file_write pos bs img ! i = img ! i" if "i < length img" "i < pos \<or> pos + length bs \<le> i" for i
    using that by (auto simp: file_write_def nth_append min_def)
  have "take kBlockSize (drop pos' (file_write pos bs img)) = take kBlockSize (drop pos' img)"
    using assms by (intro nth_equalityI) (auto simp: length_file_write nth)
  then show ?thesis
    using assms by (simp add: file_read_def length_file_write)
qed

section \<open>Properties\<close>

lemma command_read_healthy:
  assumes "healthy d"
  shows "do_command kCmdRead d =
    (command_read (d\<lparr>sd_last_error := False, sd_commands := sd_commands d + 1\<rparr>))\<lparr>sd_cursor := 0\<rparr>"
  using assms by (auto simp: do_command_def Let_def healthy_def sd_consts is_open_def)

lemma command_write_healthy:
  assumes "healthy d"
  shows "do_command kCmdWrite d =
    (command_write (d\<lparr>sd_last_error := False, sd_commands := sd_commands d + 1\<rparr>))\<lparr>sd_cursor := 0\<rparr>"
  using assms by (auto simp: do_command_def Let_def healthy_def sd_consts is_open_def)

definition block_of :: "nat \<Rightarrow> u8 list \<Rightarrow> u8 list" where
  "block_of n img = (case file_read (n * kBlockSize) img of Some bs \<Rightarrow> bs | None \<Rightarrow> replicate kBlockSize 0)"

lemma read_block_value:
  assumes "healthy d"
  shows "fst (read_block n d) = block_of (unat n) (the (sd_file d))"
proof -
  let ?s = "select_block n d"
  let ?d = "sd_write ?s 3 kCmdRead"
  have inv: "sd_inv d" using assms by (simp add: healthy_def)
  have "healthy ?s" using assms inv by simp
  then have d: "?d = (command_read (?s\<lparr>sd_last_error := False, sd_commands := sd_commands ?s + 1\<rparr>))\<lparr>sd_cursor := 0\<rparr>"
    by (simp add: sd_write_def command_read_healthy)
  have bn: "block_number (?s\<lparr>sd_last_error := e, sd_commands := k\<rparr>) = block_number ?s" for e k
    by (simp add: block_number_def)
  have "sd_buffer ?d = block_of (unat n) (the (sd_file d))" "sd_cursor ?d = 0"
    unfolding d using inv by (simp_all add: command_read_def block_of_def bn split: option.split)
  moreover have "sd_inv ?d" using inv by (intro sd.inv_write) simp
  moreover from this have "length (sd_buffer ?d) = kBlockSize" by (simp add: sd_inv_def)
  ultimately show ?thesis
    using stream_out_buffer [of ?d kBlockSize] by (simp add: read_block_def)
qed

lemma write_block_state:
  assumes "healthy d" "sd_writable d" "length bs = kBlockSize"
  shows "healthy (write_block n bs d) \<and> \<not> sd_last_error (write_block n bs d) \<and>
    sd_file (write_block n bs d) = Some (file_write (unat n * kBlockSize) bs (the (sd_file d)))"
proof -
  have inv: "sd_inv d" using assms by (simp add: healthy_def)
  let ?q = "select_block n d"
  let ?s = "stream_in bs ?q"
  have b: "sd_inv ?s" "sd_buffer ?s = bs"
    using stream_in_buffer [of ?q bs] select_block_simps(4,5) [OF inv, of n] assms(3) by (simp_all add: sd_inv_def)
  have same: "same_card ?q ?s" by (rule stream_in_same)
  have "healthy ?q" using assms(1) inv by simp
  then have h: "healthy ?s" using same b(1) by (simp add: healthy_def same_card_def is_open_def)
  have bn: "block_number (?s\<lparr>sd_last_error := e, sd_commands := k\<rparr>) = unat n" for e k
    using same select_block_simps(3) [OF inv, of n] by (simp add: block_number_def same_card_def)
  have w: "write_block n bs d = (command_write (?s\<lparr>sd_last_error := False, sd_commands := sd_commands ?s + 1\<rparr>))\<lparr>sd_cursor := 0\<rparr>"
    by (simp add: write_block_def sd_write_def command_write_healthy [OF h])
  show ?thesis
    unfolding w using h same inv assms(2) b
    by (simp add: command_write_def Let_def healthy_def same_card_def sd_inv_def is_open_def bn kBlockSize_def)
qed

lemma file_write_bytes:
  assumes "i < length img"
  shows "file_write pos bs img ! i = (if pos \<le> i \<and> i < pos + length bs then bs ! (i - pos) else img ! i)"
  using assms by (auto simp: file_write_def nth_append min_def)

text \<open>C21. Block storage: writing 512 bytes to a 32-bit block number of a healthy card succeeds, and reading that
  number then returns those bytes; every block of another number, also one that differs in the high word only,
  reads as before if the image held it. In the image the bytes stand from 512 times the number on, and every byte
  before and after them is what it was.\<close>
theorem sd_block_roundtrip:
  assumes "healthy d" "sd_writable d" "length bs = kBlockSize"
  shows "let e = write_block n bs d; img = the (sd_file d); img' = the (sd_file e) in
    \<not> sd_last_error e \<and> fst (read_block n e) = bs \<and>
    (n' \<noteq> n \<and> (unat n' + 1) * 512 \<le> length img \<longrightarrow> fst (read_block n' e) = fst (read_block n' d)) \<and>
    take 512 (drop (unat n * 512) img') = bs \<and>
    (\<forall>i<length img. i < unat n * 512 \<or> unat n * 512 + 512 \<le> i \<longrightarrow> img' ! i = img ! i)"
proof -
  let ?e = "write_block n bs d" and ?img = "the (sd_file d)"
  have e: "healthy ?e" "\<not> sd_last_error ?e" "sd_file ?e = Some (file_write (unat n * kBlockSize) bs ?img)"
    using write_block_state [OF assms, of n] by simp_all
  have same: "file_read (unat n * kBlockSize) (file_write (unat n * kBlockSize) bs ?img) = Some bs"
    by (rule file_read_write_same) (rule assms(3))
  have "block_of (unat n') (the (sd_file ?e)) = block_of (unat n') ?img"
    if "n' \<noteq> n" "(unat n' + 1) * kBlockSize \<le> length ?img"
  proof -
    have "unat n \<noteq> unat n'" using that(1) by (metis word_unat_eq_iff)
    then have "unat n' * kBlockSize + kBlockSize \<le> unat n * kBlockSize \<or> unat n * kBlockSize + kBlockSize \<le> unat n' * kBlockSize"
      by (cases "unat n' < unat n") (simp_all add: kBlockSize_def)
    then show ?thesis
      using that(2) assms(3) e by (simp add: block_of_def file_read_write_other)
  qed
  moreover have "take 512 (drop (unat n * 512) (the (sd_file ?e))) = bs"
    using same e(3) by (simp add: file_read_def kBlockSize_def split: if_splits)
  ultimately show ?thesis
    using e assms same by (auto simp: Let_def read_block_value block_of_def file_write_bytes kBlockSize_def)
qed

theorem sd_block_roundtrip_witness:
  "fst (read_block 1 (write_block 1 (replicate 512 7) (snd (sd_open (Some (replicate 1024 0)) True new_sdcard))))
     = replicate 512 7"
proof -
  let ?d = "snd (sd_open (Some (replicate 1024 0)) True new_sdcard)"
  have "healthy ?d" "sd_writable ?d" "length (replicate 512 (7 :: u8)) = kBlockSize"
    by (simp_all add: sd_open_def new_sdcard_def healthy_def sd_inv_def is_open_def kBlockSize_def)
  then show ?thesis
    using sd_block_roundtrip [of ?d "replicate 512 7" 1] by (auto simp: Let_def)
qed



section \<open>The write log\<close>

definition replay :: "(u32 \<times> u8 list) list \<Rightarrow> u8 list \<Rightarrow> u8 list" where
  "replay log img = fold (\<lambda>(lba, bs) img. file_write (unat lba * kBlockSize) bs img) log img"

definition log_matches :: "u8 list \<Rightarrow> sdcard \<Rightarrow> bool" where
  "log_matches img d \<longleftrightarrow> (\<exists>log. sd_write_log d = Some log \<and> sd_file d = Some (if sd_writable d then replay log img else img))"

lemma log_matches_write: "log_matches img d \<Longrightarrow> log_matches img (command_write d)"
  by (auto simp: log_matches_def command_write_def block_number_def replay_def Let_def)

lemma log_matches_read: "log_matches img d \<Longrightarrow> log_matches img (command_read d)"
  by (auto simp: log_matches_def command_read_def split: option.split)

lemma log_matches_updates:
  "log_matches img (d\<lparr>sd_last_error := e\<rparr>) = log_matches img d" "log_matches img (d\<lparr>sd_cursor := k\<rparr>) = log_matches img d"
  "log_matches img (d\<lparr>sd_commands := n\<rparr>) = log_matches img d" "log_matches img (d\<lparr>sd_lba_hi := w\<rparr>) = log_matches img d"
  "log_matches img (d\<lparr>sd_fail_reads := i\<rparr>) = log_matches img d" "log_matches img (d\<lparr>sd_fail_writes := i\<rparr>) = log_matches img d"
  "log_matches img (d\<lparr>sd_lba := w\<rparr>) = log_matches img d" "log_matches img (d\<lparr>sd_buffer := bs\<rparr>) = log_matches img d"
  by (simp_all add: log_matches_def)

interpretation sd_log: device_class sd_read sd_write sd_reset default_tick "log_matches img"
proof
  fix d :: sdcard and a :: u16 and v :: u8 and n :: u32
  assume inv: "log_matches img d"
  show "log_matches img (snd (sd_read d a))"
    using inv by (simp add: sd_read_def advance_cursor_def log_matches_updates)
  show "log_matches img (sd_write d a v)"
    using inv by (simp add: sd_write_def advance_cursor_def do_command_def Let_def log_matches_updates
        log_matches_write log_matches_read)
  show "log_matches img (sd_reset d)"
    using inv by (simp add: sd_reset_def log_matches_updates)
  show "log_matches img (default_tick n d)"
    using inv by (simp add: default_tick_def)
qed

text \<open>No access changes whether the host lets the file be written.\<close>

interpretation sd_host: device_class sd_read sd_write sd_reset default_tick "\<lambda>d. sd_writable d = w"
  by unfold_locales (auto simp: sd_read_def sd_write_def sd_reset_def default_tick_def advance_cursor_def do_command_def
      command_read_def command_write_def Let_def split: option.split)

text \<open>C39. The write log is complete and in order: from the moment logging starts, whatever the bus does, replaying the
  log onto the original image gives the current image, as long as the host lets the file be written. When it does
  not, the image stays the original one.\<close>
theorem sd_log_replay:
  assumes "sd_file d = Some img" "sd_write_log d = Some []"
  shows "let e = fold (apply_event sd_read sd_write sd_reset default_tick) es d in
    \<exists>log. sd_write_log e = Some log \<and> sd_file e = Some (if sd_writable d then replay log img else img)"
proof -
  have "sd_writable (fold (apply_event sd_read sd_write sd_reset default_tick) es d) = sd_writable d"
    by (rule sd_host.inv_events [OF refl])
  then show ?thesis
    using sd_log.inv_events [of img d es] assms by (simp add: log_matches_def replay_def)
qed

theorem sd_log_replay_witness:
  "let e = fold (apply_event sd_read sd_write sd_reset default_tick) [WriteEv 3 2]
      (new_sdcard\<lparr>sd_file := Some [1], sd_write_log := Some []\<rparr>) in
    \<exists>log. sd_write_log e = Some log \<and> sd_file e = Some (replay log [1])"
  using sd_log_replay [of "new_sdcard\<lparr>sd_file := Some [1], sd_write_log := Some []\<rparr>" "[1]" "[WriteEv 3 2]"]
  by (simp add: new_sdcard_def)

end
