(* ===== verification/Opl3.thy ===== *)
theory Opl3
  imports Device Complex_Main
begin

text \<open>
  The music card of \<^verbatim>\<open>simulator/src/pugputer/opl3_device.cpp\<close>: the register port, the two timers and the
  status register, and the making of sound frames at the pace of the CPU's clock. The synthesizer behind
  it (Nuked OPL3, third-party code) is a parameter, three functions on a state of its own; the sink is the
  list of the calls it got. \<^verbatim>\<open>double\<close> values are exact rationals, 64-bit counters natural numbers.
\<close>

unbundle bit_operations_syntax

section \<open>State\<close>

type_synonym sample = "16 word"

record 'c synthesizer =
  sy_reset :: "u32 \<Rightarrow> 'c \<Rightarrow> 'c"
  sy_write_reg :: "u16 \<Rightarrow> u8 \<Rightarrow> 'c \<Rightarrow> 'c"
  sy_generate :: "nat \<Rightarrow> 'c \<Rightarrow> sample list \<times> 'c"

datatype sink_call = Frames nat "sample list" | Idle

record 'c opl3_device =
  op_chip :: 'c
  op_sink :: bool
  op_calls :: "sink_call list"
  op_rate :: u32
  op_cpu_hz :: rat
  op_address :: u16
  op_regs :: "u8 list"
  op_status :: u8
  op_t1_on :: bool
  op_t2_on :: bool
  op_t1_us :: rat
  op_t2_us :: rat
  op_active :: bool
  op_due :: rat
  op_quiet :: nat
  op_cycles :: nat
  op_idle_at :: nat
  op_frames_made :: nat
  op_writes :: nat

definition kChunk :: nat where "kChunk = 512"
definition kTimer1Us :: rat where "kTimer1Us = 80"
definition kTimer2Us :: rat where "kTimer2Us = 320"
definition kQuiet :: int where "kQuiet = 16"
definition kMaxRest :: rat where "kMaxRest = 10"

definition set_sink :: "bool \<Rightarrow> 'c opl3_device \<Rightarrow> 'c opl3_device" where
  "set_sink sink d = d\<lparr>op_sink := sink\<rparr>"

definition opl3_reset :: "'c synthesizer \<Rightarrow> 'c opl3_device \<Rightarrow> 'c opl3_device" where
  "opl3_reset S d =
    (let d = d\<lparr>op_chip := sy_reset S (op_rate d) (op_chip d), op_regs := replicate 0x200 0, op_address := 0,
               op_status := 0, op_t1_on := False, op_t2_on := False, op_t1_us := 0, op_t2_us := 0\<rparr>;
         d = (if op_active d \<and> op_sink d then d\<lparr>op_calls := op_calls d @ [Idle]\<rparr> else d)
     in d\<lparr>op_active := False, op_due := 0, op_quiet := 0\<rparr>)"

text \<open>\<open>chip\<close> is the synthesizer's state as allocated.\<close>

definition new_opl3 :: "'c synthesizer \<Rightarrow> 'c \<Rightarrow> u32 \<Rightarrow> rat \<Rightarrow> 'c opl3_device" where
  "new_opl3 S chip sample_rate cpu_clock_hz = opl3_reset S
     \<lparr>op_chip = chip, op_sink = False, op_calls = [], op_rate = sample_rate, op_cpu_hz = cpu_clock_hz, op_address = 0,
      op_regs = replicate 0x200 0, op_status = 0, op_t1_on = False, op_t2_on = False, op_t1_us = 0, op_t2_us = 0,
      op_active = False, op_due = 0, op_quiet = 0, op_cycles = 0, op_idle_at = 0, op_frames_made = 0, op_writes = 0\<rparr>"

section \<open>Making sound\<close>

definition quiet_sample :: "sample \<Rightarrow> bool" where
  "quiet_sample s \<longleftrightarrow> - kQuiet \<le> sint s \<and> sint s \<le> kQuiet"

definition generate :: "'c synthesizer \<Rightarrow> nat \<Rightarrow> 'c opl3_device \<Rightarrow> 'c opl3_device" where
  "generate S frames d =
    (let (buf, chip) = sy_generate S frames (op_chip d);
         d = d\<lparr>op_chip := chip, op_frames_made := op_frames_made d + frames\<rparr>;
         silent = list_all quiet_sample (take (2 * frames) buf);
         d = d\<lparr>op_quiet := (if silent then op_quiet d + frames else 0), op_calls := op_calls d @ [Frames frames buf]\<rparr>
     in if unat (op_rate d) \<le> op_quiet d
        then d\<lparr>op_active := False, op_due := 0, op_idle_at := op_cycles d, op_calls := op_calls d @ [Idle]\<rparr>
        else d)"

function generate_all :: "'c synthesizer \<Rightarrow> nat \<Rightarrow> 'c opl3_device \<Rightarrow> 'c opl3_device" where
  "generate_all S n d =
    (if 0 < n \<and> op_active d then let k = min n kChunk in generate_all S (n - k) (generate S k d) else d)"
  by pat_completeness auto
termination
  by (relation "measure (\<lambda>(S, n, d). n)") (auto simp: kChunk_def)

declare generate_all.simps [simp del]

definition catch_up :: "'c synthesizer \<Rightarrow> 'c opl3_device \<Rightarrow> 'c opl3_device" where
  "catch_up S d =
    (if \<not> op_active d \<or> \<not> op_sink d then d\<lparr>op_due := 0\<rparr>
     else let n = nat \<lfloor>op_due d\<rfloor> in generate_all S n (d\<lparr>op_due := op_due d - of_nat n\<rparr>))"

text \<open>The silence of a rest, a chunk at a time.\<close>

function send_silence :: "nat \<Rightarrow> 'c opl3_device \<Rightarrow> 'c opl3_device" where
  "send_silence n d =
    (if 0 < n then
       let k = min n kChunk
       in send_silence (n - k) (d\<lparr>op_calls := op_calls d @ [Frames k (replicate (2 * kChunk) 0)],
                                 op_frames_made := op_frames_made d + k\<rparr>)
     else d)"
  by pat_completeness auto
termination
  by (relation "measure (\<lambda>(n, d). n)") (auto simp: kChunk_def)

declare send_silence.simps [simp del]

section \<open>Registers\<close>

definition opl3_read :: "'c opl3_device \<Rightarrow> u16 \<Rightarrow> u8 \<times> 'c opl3_device" where
  "opl3_read d offset = (if offset AND 3 = 0 then op_status d else 0xFF, d)"

definition timer_control :: "u16 \<Rightarrow> u8 \<Rightarrow> 'c opl3_device \<Rightarrow> 'c opl3_device" where
  "timer_control r v d =
    (if v AND 0x80 \<noteq> 0 then d\<lparr>op_status := 0\<rparr>
     else
       let t1 = (v AND 0x01 \<noteq> 0); t2 = (v AND 0x02 \<noteq> 0);
           d = (if t1 \<and> \<not> op_t1_on d then d\<lparr>op_t1_us := 0\<rparr> else d);
           d = (if t2 \<and> \<not> op_t2_on d then d\<lparr>op_t2_us := 0\<rparr> else d)
       in d\<lparr>op_t1_on := t1, op_t2_on := t2, op_regs := (op_regs d)[unat r := v]\<rparr>)"

definition wake :: "'c opl3_device \<Rightarrow> 'c opl3_device" where
  "wake d =
    (if \<not> op_active d then
       let d = d\<lparr>op_active := True, op_due := 0\<rparr>;
           rest = of_nat (op_cycles d - op_idle_at d) / op_cpu_hz d
       in if op_sink d \<and> op_idle_at d \<noteq> 0 \<and> rest < kMaxRest
          then send_silence (nat \<lfloor>rest * of_nat (unat (op_rate d))\<rfloor>) d else d
     else d)"

definition write_register :: "'c synthesizer \<Rightarrow> u16 \<Rightarrow> u8 \<Rightarrow> 'c opl3_device \<Rightarrow> 'c opl3_device" where
  "write_register S r v d =
    (let d = catch_up S d;
         d = d\<lparr>op_writes := op_writes d + 1\<rparr>
     in if r = 0x04 then timer_control r v d
        else
          let d = d\<lparr>op_regs := (op_regs d)[unat r := v], op_chip := sy_write_reg S r v (op_chip d)\<rparr>
          in if r = 0x02 \<or> r = 0x03 then d else (wake d)\<lparr>op_quiet := 0\<rparr>)"

definition opl3_write :: "'c synthesizer \<Rightarrow> 'c opl3_device \<Rightarrow> u16 \<Rightarrow> u8 \<Rightarrow> 'c opl3_device" where
  "opl3_write S d offset v =
    (if offset AND 3 = 0 then d\<lparr>op_address := ucast v\<rparr>
     else if offset AND 3 = 2 then d\<lparr>op_address := 0x100 OR ucast v\<rparr>
     else write_register S (op_address d) v d)"

definition opl3_reg :: "'c opl3_device \<Rightarrow> u16 \<Rightarrow> u8" where
  "opl3_reg d r = op_regs d ! unat (r AND 0x1FF)"

section \<open>Time\<close>

lemma timer_measure:
  fixes period us :: rat
  assumes "0 < period \<and> period \<le> us"
  shows "nat \<lfloor>(us - period) / period\<rfloor> < nat \<lfloor>us / period\<rfloor>"
proof -
  have "(us - period) / period = us / period - 1" using assms by (simp add: diff_divide_distrib)
  moreover have "1 \<le> us / period" using assms by simp
  ultimately show ?thesis by (simp add: le_floor_iff)
qed

text \<open>The loop of one timer. The period is positive (a preset is a byte), so the first test never stops it.\<close>

function timer_loop :: "rat \<Rightarrow> bool \<Rightarrow> u8 \<Rightarrow> rat \<Rightarrow> u8 \<Rightarrow> rat \<times> u8" where
  "timer_loop period masked flag us status =
    (if 0 < period \<and> period \<le> us
     then timer_loop period masked flag (us - period) (if masked then status else status OR flag)
     else (us, status))"
  by pat_completeness auto
termination
  by (relation "measure (\<lambda>(period, _, _, us, _). nat \<lfloor>us / period\<rfloor>)")
    (simp_all only: wf_measure in_measure prod.case timer_measure simp_thms)

declare timer_loop.simps [simp del]

definition tick_timers :: "rat \<Rightarrow> 'c opl3_device \<Rightarrow> 'c opl3_device" where
  "tick_timers us d =
    (let d = (if op_t1_on d then
                case timer_loop (of_nat (256 - unat (op_regs d ! 0x02)) * kTimer1Us) (op_regs d ! 0x04 AND 0x40 \<noteq> 0) 0x40
                       (op_t1_us d + us) (op_status d) of
                  (t, s) \<Rightarrow> d\<lparr>op_t1_us := t, op_status := s\<rparr>
              else d)
     in if op_t2_on d then
          case timer_loop (of_nat (256 - unat (op_regs d ! 0x03)) * kTimer2Us) (op_regs d ! 0x04 AND 0x20 \<noteq> 0) 0x20
                 (op_t2_us d + us) (op_status d) of
            (t, s) \<Rightarrow> d\<lparr>op_t2_us := t, op_status := s\<rparr>
        else d)"

definition opl3_tick :: "'c synthesizer \<Rightarrow> u32 \<Rightarrow> 'c opl3_device \<Rightarrow> 'c opl3_device" where
  "opl3_tick S cpu_cycles d =
    (let n = unat cpu_cycles;
         d = d\<lparr>op_cycles := op_cycles d + n\<rparr>;
         us = of_nat n * 1000000 / op_cpu_hz d;
         d = tick_timers us d;
         d = d\<lparr>op_status := (op_status d AND 0x60) OR (if op_status d AND 0x60 \<noteq> 0 then 0x80 else 0)\<rparr>
     in if \<not> op_active d \<or> \<not> op_sink d then d
        else
          let d = d\<lparr>op_due := op_due d + of_nat n * of_nat (unat (op_rate d)) / op_cpu_hz d\<rparr>
          in if of_nat kChunk \<le> op_due d then catch_up S d else d)"

section \<open>What each part leaves alone\<close>

definition same_port :: "'c opl3_device \<Rightarrow> 'c opl3_device \<Rightarrow> bool" where
  "same_port d e \<longleftrightarrow> op_sink e = op_sink d \<and> op_rate e = op_rate d \<and> op_cpu_hz e = op_cpu_hz d \<and>
     op_address e = op_address d \<and> op_regs e = op_regs d \<and> op_status e = op_status d \<and> op_t1_on e = op_t1_on d \<and>
     op_t2_on e = op_t2_on d \<and> op_t1_us e = op_t1_us d \<and> op_t2_us e = op_t2_us d \<and> op_cycles e = op_cycles d"

lemma same_port_refl [simp]: "same_port d d"
  by (simp add: same_port_def)

lemma same_port_trans: "same_port d e \<Longrightarrow> same_port e f \<Longrightarrow> same_port d f"
  by (simp add: same_port_def)

text \<open>The frames of a list of calls, and what making sound does: it only adds calls, every frame made is in
  one of them, none larger than a chunk, and unless the sink is told that the chip is idle the chip stays
  active and owes what it owed.\<close>

fun call_frames :: "sink_call \<Rightarrow> nat" where
  "call_frames (Frames n buf) = n"
| "call_frames Idle = 0"

fun chunked :: "sink_call \<Rightarrow> bool" where
  "chunked (Frames n buf) = (0 < n \<and> n \<le> kChunk)"
| "chunked Idle = True"

definition makes :: "sink_call list \<Rightarrow> 'c opl3_device \<Rightarrow> 'c opl3_device \<Rightarrow> bool" where
  "makes new d e \<longleftrightarrow> same_port d e \<and> op_calls e = op_calls d @ new \<and> list_all chunked new \<and>
     op_frames_made e = op_frames_made d + sum_list (map call_frames new) \<and>
     (op_idle_at d \<le> op_cycles d \<longrightarrow> op_idle_at e \<le> op_cycles e)"

lemma makes_none [simp]: "makes [] d d"
  by (simp add: makes_def)

lemma makes_trans: "makes xs d e \<Longrightarrow> makes ys e f \<Longrightarrow> makes (xs @ ys) d f"
  by (auto simp: makes_def intro: same_port_trans)

lemma generate_makes:
  assumes "0 < k" "k \<le> kChunk"
  shows "\<exists>new. makes new d (generate S k d) \<and>
    (if Idle \<in> set new then op_due (generate S k d) = 0
     else op_active (generate S k d) = op_active d \<and> op_due (generate S k d) = op_due d \<and> sum_list (map call_frames new) = k)"
proof -
  obtain buf chip where buf: "sy_generate S k (op_chip d) = (buf, chip)" by (cases "sy_generate S k (op_chip d)")
  let ?q = "if list_all quiet_sample (take (2 * k) buf) then op_quiet d + k else 0"
  show ?thesis
    using assms
    by (intro exI [of _ "Frames k buf # (if unat (op_rate d) \<le> ?q then [Idle] else [])"])
      (auto simp: generate_def buf makes_def same_port_def)
qed

lemma generate_all_makes:
  "\<exists>new. makes new d (generate_all S n d) \<and>
    (if Idle \<in> set new then op_due (generate_all S n d) = 0 \<or> op_due (generate_all S n d) = op_due d
     else op_active (generate_all S n d) = op_active d \<and> op_due (generate_all S n d) = op_due d \<and>
       (op_active d \<longrightarrow> sum_list (map call_frames new) = n))"
proof (induction S n d rule: generate_all.induct)
  case (1 S n d)
  show ?case
  proof (cases "0 < n \<and> op_active d")
    case True
    let ?k = "min n kChunk"
    let ?e = "generate S ?k d"
    obtain new where new: "makes new d ?e" "if Idle \<in> set new then op_due ?e = 0
        else op_active ?e = op_active d \<and> op_due ?e = op_due d \<and> sum_list (map call_frames new) = ?k"
      using generate_makes [of ?k d S] True by (auto simp: kChunk_def)
    obtain more where more: "makes more ?e (generate_all S (n - ?k) ?e)"
      "if Idle \<in> set more then op_due (generate_all S (n - ?k) ?e) = 0 \<or> op_due (generate_all S (n - ?k) ?e) = op_due ?e
       else op_active (generate_all S (n - ?k) ?e) = op_active ?e \<and> op_due (generate_all S (n - ?k) ?e) = op_due ?e \<and>
         (op_active ?e \<longrightarrow> sum_list (map call_frames more) = n - ?k)"
      using 1 [OF True refl] by blast
    have "generate_all S n d = generate_all S (n - ?k) ?e" using True by (subst generate_all.simps) (simp add: Let_def)
    then show ?thesis
      using makes_trans [OF new(1) more(1)] new(2) more(2) True by (intro exI [of _ "new @ more"]) (auto split: if_splits)
  next
    case False
    then show ?thesis by (subst (1 2 3 4 5) generate_all.simps) (auto intro!: exI [of _ "[]"])
  qed
qed

lemma send_silence_makes:
  "\<exists>new. makes new d (send_silence n d) \<and> Idle \<notin> set new \<and> op_active (send_silence n d) = op_active d \<and>
    op_due (send_silence n d) = op_due d \<and> sum_list (map call_frames new) = n"
proof (induction n d rule: send_silence.induct)
  case (1 n d)
  show ?case
  proof (cases "0 < n")
    case True
    let ?k = "min n kChunk"
    let ?c = "Frames ?k (replicate (2 * kChunk) 0)"
    let ?e = "d\<lparr>op_calls := op_calls d @ [?c], op_frames_made := op_frames_made d + ?k\<rparr>"
    have step: "makes [?c] d ?e"
      using True by (simp add: makes_def same_port_def kChunk_def)
    have eq: "send_silence n d = send_silence (n - ?k) ?e" using True by (subst send_silence.simps) (simp add: Let_def)
    obtain new where new: "makes new ?e (send_silence (n - ?k) ?e)" "Idle \<notin> set new"
      "op_active (send_silence (n - ?k) ?e) = op_active ?e" "op_due (send_silence (n - ?k) ?e) = op_due ?e"
      "sum_list (map call_frames new) = n - ?k"
      using 1 [OF True refl] by auto
    then show ?thesis
      using makes_trans [OF step new(1)] unfolding eq by (intro exI [of _ "?c # new"]) simp
  next
    case False
    then show ?thesis by (subst (1 2 3) send_silence.simps) (auto intro!: exI [of _ "[]"])
  qed
qed

section \<open>The pace of the sound\<close>

definition opl3_inv :: "'c opl3_device \<Rightarrow> bool" where
  "opl3_inv d \<longleftrightarrow> length (op_regs d) = 0x200 \<and> op_address d < 0x200 \<and> 0 < op_cpu_hz d \<and>
     0 \<le> op_t1_us d \<and> 0 \<le> op_t2_us d \<and> 0 \<le> op_due d \<and> op_due d < of_nat kChunk \<and> op_idle_at d \<le> op_cycles d \<and>
     list_all chunked (op_calls d) \<and> op_frames_made d = sum_list (map call_frames (op_calls d))"

text \<open>What the parts of an operation do to the frames owed.\<close>

lemma catch_up_makes:
  assumes "0 \<le> op_due d"
  shows "\<exists>new. makes new d (catch_up S d) \<and> 0 \<le> op_due (catch_up S d) \<and> op_due (catch_up S d) < 1 \<and>
    (op_active d \<and> op_sink d \<and> Idle \<notin> set new \<longrightarrow> op_active (catch_up S d) \<and>
       of_nat (sum_list (map call_frames new)) + op_due (catch_up S d) = op_due d)"
proof (cases "op_active d \<and> op_sink d")
  case True
  let ?n = "nat \<lfloor>op_due d\<rfloor>"
  let ?d = "d\<lparr>op_due := op_due d - of_nat ?n\<rparr>"
  have "of_nat ?n = (of_int \<lfloor>op_due d\<rfloor> :: rat)" using assms by simp
  then have due: "0 \<le> op_due ?d" "op_due ?d < 1" using floor_correct [of "op_due d"] by auto
  have eq: "catch_up S d = generate_all S ?n ?d" using True by (simp add: catch_up_def Let_def)
  obtain new where new: "makes new ?d (generate_all S ?n ?d)"
    "if Idle \<in> set new then op_due (generate_all S ?n ?d) = 0 \<or> op_due (generate_all S ?n ?d) = op_due ?d
     else op_active (generate_all S ?n ?d) = op_active ?d \<and> op_due (generate_all S ?n ?d) = op_due ?d \<and>
       (op_active ?d \<longrightarrow> sum_list (map call_frames new) = ?n)"
    using generate_all_makes [of ?d S ?n] by blast
  have "makes [] d ?d" by (simp add: makes_def same_port_def)
  from makes_trans [OF this new(1)] have "makes new d (catch_up S d)" unfolding eq by simp
  then show ?thesis using new(2) due True unfolding eq by (intro exI [of _ new]) (auto split: if_splits)
next
  case False
  then show ?thesis by (intro exI [of _ "[]"]) (auto simp: catch_up_def makes_def same_port_def)
qed

lemma wake_makes:
  "\<exists>new. makes new d (wake d) \<and> Idle \<notin> set new \<and> op_active (wake d) \<and>
    (op_active d \<longrightarrow> new = [] \<and> op_due (wake d) = op_due d) \<and> (\<not> op_active d \<longrightarrow> op_due (wake d) = 0)"
proof (cases "op_active d")
  case True
  then show ?thesis by (intro exI [of _ "[]"]) (simp add: wake_def)
next
  case False
  let ?d = "d\<lparr>op_active := True, op_due := 0\<rparr>"
  let ?n = "nat \<lfloor>of_nat (op_cycles d - op_idle_at d) / op_cpu_hz d * of_nat (unat (op_rate d))\<rfloor>"
  obtain new where new: "makes new ?d (send_silence ?n ?d)" "Idle \<notin> set new" "op_active (send_silence ?n ?d)"
    "op_due (send_silence ?n ?d) = 0"
    using send_silence_makes [of ?d ?n] by auto
  have start: "makes [] d ?d" by (simp add: makes_def same_port_def)
  from makes_trans [OF start new(1)] have "makes new d (send_silence ?n ?d)" by simp
  with start show ?thesis using new(2-4) False
    by (cases "op_sink d \<and> op_idle_at d \<noteq> 0 \<and> of_nat (op_cycles d - op_idle_at d) / op_cpu_hz d < kMaxRest")
      (auto simp: wake_def Let_def)
qed

text \<open>The part of \<open>makes\<close> that also holds of a register write and of a tick, and the frames owed: from \<open>due\<close> on, as
  long as the sink is not told that the chip is idle.\<close>

definition sounds :: "sink_call list \<Rightarrow> rat \<Rightarrow> 'c opl3_device \<Rightarrow> 'c opl3_device \<Rightarrow> bool" where
  "sounds new owed d e \<longleftrightarrow> op_calls e = op_calls d @ new \<and> list_all chunked new \<and>
     op_frames_made e = op_frames_made d + sum_list (map call_frames new) \<and>
     op_idle_at e \<le> op_cycles e \<and> op_sink e = op_sink d \<and> op_rate e = op_rate d \<and> op_cpu_hz e = op_cpu_hz d \<and>
     0 \<le> op_due e \<and> op_due e < of_nat kChunk \<and>
     (op_active d \<and> op_sink d \<and> Idle \<notin> set new \<longrightarrow>
        op_active e \<and> of_nat (sum_list (map call_frames new)) + op_due e = op_due d + owed)"

lemma timer_loop_time: "0 \<le> us \<Longrightarrow> 0 \<le> fst (timer_loop period masked flag us status)"
  by (induction period masked flag us status rule: timer_loop.induct) (subst timer_loop.simps, simp)

lemma tick_timers_fields [simp]:
  "op_calls (tick_timers us d) = op_calls d" "op_frames_made (tick_timers us d) = op_frames_made d"
  "op_idle_at (tick_timers us d) = op_idle_at d" "op_cycles (tick_timers us d) = op_cycles d"
  "op_sink (tick_timers us d) = op_sink d" "op_rate (tick_timers us d) = op_rate d"
  "op_cpu_hz (tick_timers us d) = op_cpu_hz d" "op_active (tick_timers us d) = op_active d"
  "op_due (tick_timers us d) = op_due d" "op_regs (tick_timers us d) = op_regs d"
  "op_address (tick_timers us d) = op_address d" "op_t1_on (tick_timers us d) = op_t1_on d"
  "op_t2_on (tick_timers us d) = op_t2_on d"
  by (simp_all add: tick_timers_def Let_def split: prod.splits)

lemma tick_timers_time:
  assumes "0 \<le> us" "0 \<le> op_t1_us d" "0 \<le> op_t2_us d"
  shows "0 \<le> op_t1_us (tick_timers us d) \<and> 0 \<le> op_t2_us (tick_timers us d)"
proof -
  have "0 \<le> t" if "timer_loop p m f (x + us) s = (t, s')" "0 \<le> x" for p m f x s t s'
    using timer_loop_time [of "x + us" p m f s] that assms(1) by simp
  then show ?thesis using assms by (auto simp: tick_timers_def Let_def split: prod.splits)
qed

lemma catch_up_sounds:
  assumes "0 \<le> op_due d" "op_idle_at d \<le> op_cycles d"
  shows "\<exists>new. sounds new 0 d (catch_up S d) \<and> same_port d (catch_up S d)"
  using catch_up_makes [OF assms(1), of S] assms(2) by (force simp: sounds_def makes_def same_port_def kChunk_def)

lemma tick_sounds:
  assumes "opl3_inv d"
  shows "\<exists>new. sounds new (of_nat (unat n) * of_nat (unat (op_rate d)) / op_cpu_hz d) d (opl3_tick S n d) \<and> opl3_inv (opl3_tick S n d)"
proof -
  let ?d1 = "tick_timers (of_nat (unat n) * 1000000 / op_cpu_hz d) (d\<lparr>op_cycles := op_cycles d + unat n\<rparr>)"
  let ?d2 = "?d1\<lparr>op_status := (op_status ?d1 AND 0x60) OR (if op_status ?d1 AND 0x60 \<noteq> 0 then 0x80 else 0)\<rparr>"
  let ?owed = "of_nat (unat n) * of_nat (unat (op_rate d)) / op_cpu_hz d"
  let ?d3 = "?d2\<lparr>op_due := op_due d + ?owed\<rparr>"
  have inv: "length (op_regs d) = 0x200" "op_address d < 0x200" "0 < op_cpu_hz d" "0 \<le> op_t1_us d" "0 \<le> op_t2_us d" "0 \<le> op_due d"
    "op_due d < of_nat kChunk" "op_idle_at d \<le> op_cycles d" "list_all chunked (op_calls d)"
    "op_frames_made d = sum_list (map call_frames (op_calls d))"
    using assms by (simp_all add: opl3_inv_def)
  have us: "0 \<le> of_nat (unat n) * 1000000 / op_cpu_hz d" and owed: "0 \<le> ?owed"
    using inv(3) by (auto intro!: divide_nonneg_pos mult_nonneg_nonneg simp del: of_nat_unat)
  have times: "0 \<le> op_t1_us ?d1 \<and> 0 \<le> op_t2_us ?d1" using us inv(4,5) by (intro tick_timers_time) simp_all
  have keep: "opl3_inv e" if "sounds new x d e" "same_port ?d2 e" for new x e
    using that inv times by (simp add: opl3_inv_def sounds_def same_port_def)
  show ?thesis
  proof (cases "op_active d \<and> op_sink d")
    case False
    then have e: "opl3_tick S n d = ?d2" by (auto simp: opl3_tick_def Let_def)
    have sound: "sounds [] ?owed d ?d2" using False inv by (auto simp: sounds_def)
    show ?thesis unfolding e by (intro exI conjI) (rule sound, rule keep [OF sound same_port_refl])
  next
    case True
    show ?thesis
    proof (cases "op_due ?d3 < of_nat kChunk")
      case less: True
      then have e: "opl3_tick S n d = ?d3" using True by (simp add: opl3_tick_def Let_def)
      have sound: "sounds [] ?owed d ?d3" using less inv owed True by (auto simp: sounds_def)
      have port: "same_port ?d2 ?d3" by (simp add: same_port_def)
      show ?thesis unfolding e by (intro exI conjI) (rule sound, rule keep [OF sound port])
    next
      case False
      then have e: "opl3_tick S n d = catch_up S ?d3" using True by (simp add: opl3_tick_def Let_def)
      obtain new where new: "sounds new 0 ?d3 (catch_up S ?d3)" "same_port ?d3 (catch_up S ?d3)"
        using catch_up_sounds [of ?d3 S] inv owed by auto
      have sound: "sounds new ?owed d (catch_up S ?d3)" using new(1) by (simp add: sounds_def)
      have "same_port ?d2 ?d3" by (simp add: same_port_def)
      then have port: "same_port ?d2 (catch_up S ?d3)" using new(2) by (rule same_port_trans)
      show ?thesis unfolding e by (intro exI conjI) (rule sound, rule keep [OF sound port])
    qed
  qed
qed

lemma write_register_sounds:
  assumes "opl3_inv d" "r < 0x200"
  shows "\<exists>new. sounds new 0 d (write_register S r v d) \<and> opl3_inv (write_register S r v d)"
proof -
  have inv: "length (op_regs d) = 0x200" "op_address d < 0x200" "0 < op_cpu_hz d" "0 \<le> op_t1_us d" "0 \<le> op_t2_us d" "0 \<le> op_due d"
    "op_due d < of_nat kChunk" "op_idle_at d \<le> op_cycles d" "list_all chunked (op_calls d)"
    "op_frames_made d = sum_list (map call_frames (op_calls d))"
    using assms by (simp_all add: opl3_inv_def)
  obtain new where new: "sounds new 0 d (catch_up S d)" "same_port d (catch_up S d)"
    using catch_up_sounds [of d S] inv by auto
  let ?d1 = "catch_up S d\<lparr>op_writes := op_writes (catch_up S d) + 1\<rparr>"
  let ?d2 = "?d1\<lparr>op_regs := (op_regs ?d1)[unat r := v], op_chip := sy_write_reg S r v (op_chip ?d1)\<rparr>"
  show ?thesis
  proof (cases "r = 2 \<or> r = 3 \<or> r = 4")
    case True
    then have e: "write_register S r v d = (if r = 4 then timer_control r v ?d1 else ?d2)"
      by (auto simp: write_register_def Let_def)
    have "sounds new 0 d (if r = 4 then timer_control r v ?d1 else ?d2)"
      using new(1) by (simp add: sounds_def timer_control_def Let_def)
    moreover have "opl3_inv (if r = 4 then timer_control r v ?d1 else ?d2)"
      using new inv by (simp add: opl3_inv_def sounds_def same_port_def timer_control_def Let_def)
    ultimately show ?thesis unfolding e by blast
  next
    case False
    then have e: "write_register S r v d = (wake ?d2)\<lparr>op_quiet := 0\<rparr>" by (simp add: write_register_def Let_def)
    obtain more where more: "makes more ?d2 (wake ?d2)" "Idle \<notin> set more" "op_active (wake ?d2)"
      "op_active ?d2 \<Longrightarrow> more = [] \<and> op_due (wake ?d2) = op_due ?d2" "\<not> op_active ?d2 \<Longrightarrow> op_due (wake ?d2) = 0"
      using wake_makes [of ?d2] by blast
    obtain w where w: "wake ?d2 = w" by blast
    have "sounds (new @ more) 0 d (w\<lparr>op_quiet := 0\<rparr>)"
      using new(1) more unfolding w
      by (cases "op_active ?d2") (auto simp: sounds_def makes_def same_port_def kChunk_def)
    moreover have "opl3_inv (w\<lparr>op_quiet := 0\<rparr>)"
      using new more inv unfolding w
      by (cases "op_active ?d2") (auto simp: opl3_inv_def sounds_def makes_def same_port_def kChunk_def)
    ultimately show ?thesis unfolding e w by blast
  qed
qed

abbreviation opl3_event :: "'c synthesizer \<Rightarrow> bus_event \<Rightarrow> 'c opl3_device \<Rightarrow> 'c opl3_device" where
  "opl3_event S \<equiv> apply_event opl3_read (opl3_write S) (opl3_reset S) (opl3_tick S)"

lemma address_bound: "ucast (v :: u8) < (0x200 :: u16)" "0x100 OR ucast (v :: u8) < (0x200 :: u16)"
proof -
  show "ucast v < (0x200 :: u16)"
    unfolding word_less_nat_alt unat_ucast_8_16 by (rule less_le_trans [OF unat8_less]) simp
  then have "ucast v AND mask 9 = (ucast v :: u16)" by (intro less_mask_eq) simp
  moreover have "0x100 AND mask 9 = (0x100 :: u16)" by (simp add: mask_eq_exp_minus_1)
  ultimately have "0x100 OR ucast v = (0x100 OR ucast v) AND (mask 9 :: u16)" by (simp only: bit.conj_disj_distrib2)
  also have "\<dots> < 2 ^ 9" by (rule and_mask_less_size) (simp add: word_size)
  finally show "0x100 OR ucast v < (0x200 :: u16)" by simp
qed

lemma write_sounds:
  assumes "opl3_inv d"
  shows "\<exists>new. sounds new 0 d (opl3_write S d a v) \<and> opl3_inv (opl3_write S d a v)"
proof (cases "a AND 3 = 0 \<or> a AND 3 = 2")
  case True
  let ?d = "d\<lparr>op_address := if a AND 3 = 0 then ucast v else 0x100 OR ucast v\<rparr>"
  have e: "opl3_write S d a v = ?d" using True by (auto simp: opl3_write_def)
  have "sounds [] 0 d ?d" "opl3_inv ?d" using assms address_bound by (auto simp: sounds_def opl3_inv_def)
  then show ?thesis unfolding e by blast
next
  case False
  then show ?thesis
    using write_register_sounds [OF assms, of "op_address d"] assms by (auto simp: opl3_write_def opl3_inv_def)
qed

lemma reset_inv: "opl3_inv d \<Longrightarrow> opl3_inv (opl3_reset S d)"
  by (simp add: opl3_inv_def opl3_reset_def Let_def kChunk_def)

lemma write_inv: "opl3_inv d \<Longrightarrow> opl3_inv (opl3_write S d a v)"
  using write_sounds by blast

lemma tick_inv: "opl3_inv d \<Longrightarrow> opl3_inv (opl3_tick S n d)"
  using tick_sounds by blast

interpretation opl3: device_class opl3_read "opl3_write S" "opl3_reset S" "opl3_tick S" opl3_inv
  for S :: "'c synthesizer"
  by unfold_locales (simp_all add: opl3_read_def write_inv reset_inv tick_inv)

lemma sounds_trans: "sounds xs a d e \<Longrightarrow> sounds ys b e f \<Longrightarrow> sounds (xs @ ys) (a + b) d f"
  by (auto simp: sounds_def)

fun ticks :: "bus_event list \<Rightarrow> nat" where
  "ticks [] = 0"
| "ticks (TickEv n # es) = unat n + ticks es"
| "ticks (e # es) = ticks es"

lemma events_sound:
  assumes "opl3_inv d" "ResetEv \<notin> set es"
  shows "\<exists>new. sounds new (of_nat (ticks es) * of_nat (unat (op_rate d)) / op_cpu_hz d) d (fold (opl3_event S) es d)"
  using assms
proof (induction es arbitrary: d)
  case Nil
  then show ?case by (intro exI [of _ "[]"]) (simp add: sounds_def opl3_inv_def)
next
  case (Cons e es)
  let ?d = "opl3_event S e d"
  let ?owed = "\<lambda>n. of_nat n * of_nat (unat (op_rate d)) / op_cpu_hz d"
  have step: "\<exists>new. sounds new (?owed (ticks [e])) d ?d"
  proof (cases e)
    case (ReadEv a)
    have "sounds [] 0 d d" using Cons.prems(1) by (simp add: sounds_def opl3_inv_def)
    then show ?thesis unfolding ReadEv by (intro exI [of _ "[]"]) (simp add: opl3_read_def)
  next
    case (WriteEv a v)
    then show ?thesis using write_sounds [OF Cons.prems(1), of S a v] by auto
  next
    case (TickEv n)
    then show ?thesis using tick_sounds [OF Cons.prems(1), of n S] by auto
  qed (use Cons.prems in simp)
  then obtain new where new: "sounds new (?owed (ticks [e])) d ?d" by blast
  have inv: "opl3_inv ?d" using opl3.inv_event [OF Cons.prems(1)] .
  have same: "op_rate ?d = op_rate d" "op_cpu_hz ?d = op_cpu_hz d" using new by (simp_all add: sounds_def)
  obtain more where more: "sounds more (?owed (ticks es)) ?d (fold (opl3_event S) es ?d)"
    using Cons.IH [OF inv] Cons.prems(2) unfolding same by auto
  have "ticks (e # es) = ticks [e] + ticks es" by (cases e) simp_all
  then have "?owed (ticks (e # es)) = ?owed (ticks [e]) + ?owed (ticks es)"
    by (simp add: add_divide_distrib distrib_right del: ticks.simps)
  then show ?case using sounds_trans [OF new more] by (simp del: ticks.simps) blast
qed

text \<open>The frames in the calls that the sink has got since the device was in the state \<open>d\<close>.\<close>

definition played_since :: "'c opl3_device \<Rightarrow> 'c opl3_device \<Rightarrow> nat" where
  "played_since d e = sum_list (map call_frames (drop (length (op_calls d)) (op_calls e)))"

text \<open>C26. The music keeps the tempo of the CPU: over any sequence of reads, register writes and ticks in which the
  chip stays active, the frames in the calls the sink gets and the fraction still owed grow by exactly the elapsed
  cycles times the sample rate over the clock, less than one chunk is ever owed, and the counter of frames agrees.\<close>
theorem opl3_keeps_time:
  assumes "opl3_inv d" "op_active d" "op_sink d" "ResetEv \<notin> set es"
    and "Idle \<notin> set (drop (length (op_calls d)) (op_calls (fold (opl3_event S) es d)))"
  shows "of_nat (played_since d (fold (opl3_event S) es d)) + op_due (fold (opl3_event S) es d) =
      op_due d + of_nat (ticks es) * of_nat (unat (op_rate d)) / op_cpu_hz d \<and>
    op_frames_made (fold (opl3_event S) es d) = op_frames_made d + played_since d (fold (opl3_event S) es d) \<and>
    0 \<le> op_due (fold (opl3_event S) es d) \<and> op_due (fold (opl3_event S) es d) < of_nat kChunk \<and>
    op_active (fold (opl3_event S) es d)"
proof -
  obtain new where "sounds new (of_nat (ticks es) * of_nat (unat (op_rate d)) / op_cpu_hz d) d (fold (opl3_event S) es d)"
    using events_sound [OF assms(1,4), of S] by blast
  then show ?thesis using assms(2,3,5) by (simp add: sounds_def played_since_def)
qed

theorem opl3_keeps_time_witness:
  "let S = \<lparr>sy_reset = (\<lambda>_ c. c), sy_write_reg = (\<lambda>_ _ c. c), sy_generate = (\<lambda>n c. ([100, 100], c))\<rparr>;
     d = set_sink True (new_opl3 S (0 :: nat) 48000 96000)\<lparr>op_active := True\<rparr>;
     e = fold (opl3_event S) [TickEv 1001, WriteEv 1 0x20] d
   in of_nat (played_since d e) + op_due e = (1001 / 2 :: rat)"
proof -
  let ?S = "\<lparr>sy_reset = (\<lambda>_ c. c), sy_write_reg = (\<lambda>_ _ c. c), sy_generate = (\<lambda>n c. ([100, 100], c))\<rparr> :: nat synthesizer"
  let ?d = "set_sink True (new_opl3 ?S 0 48000 96000)\<lparr>op_active := True\<rparr>"
  let ?es = "[TickEv 1001, WriteEv 1 0x20]"
  note d = set_sink_def new_opl3_def opl3_reset_def
  have "opl3_inv ?d" "op_active ?d" "op_sink ?d" "op_frames_made ?d = 0" "op_due ?d = 0" "op_rate ?d = 48000" "op_cpu_hz ?d = 96000"
    "op_calls ?d = []"
    by (simp_all add: opl3_inv_def d kChunk_def)
  moreover have "\<lfloor>1001 / 2 :: rat\<rfloor> = 500" by (simp add: floor_eq_iff)
  then have "op_calls (fold (opl3_event ?S) ?es ?d) = [Frames 500 [100, 100]]"
    by (simp add: d opl3_tick_def tick_timers_def opl3_write_def write_register_def catch_up_def generate_def quiet_sample_def
        kQuiet_def kChunk_def wake_def generate_all.simps [of _ 500] generate_all.simps [of _ 0])
  ultimately show ?thesis using opl3_keeps_time [of ?d ?es ?S] by simp
qed

section \<open>The timers\<close>
lemma timer_loop_result:
  assumes "0 < period" "0 \<le> us"
  shows "fst (timer_loop period masked flag us status) < period \<and>
    (us < period \<longrightarrow> fst (timer_loop period masked flag us status) = us) \<and>
    snd (timer_loop period masked flag us status) = (if \<not> masked \<and> period \<le> us then status OR flag else status)"
  using assms
proof (induction period masked flag us status rule: timer_loop.induct)
  case (1 period masked flag us status)
  then show ?case
    by (subst (1 2 3) timer_loop.simps) (auto simp: or.assoc)
qed

definition period1 :: "'c opl3_device \<Rightarrow> rat" where
  "period1 d = of_nat (256 - unat (op_regs d ! 2)) * kTimer1Us"

definition period2 :: "'c opl3_device \<Rightarrow> rat" where
  "period2 d = of_nat (256 - unat (op_regs d ! 3)) * kTimer2Us"

lemma periods_pos: "0 < period1 d" "0 < period2 d"
proof -
  have "0 < 256 - unat (v :: u8)" for v using unat8_less [of v] by linarith
  then show "0 < period1 d" "0 < period2 d"
    by (simp_all only: period1_def period2_def kTimer1Us_def kTimer2Us_def zero_less_mult_iff of_nat_0_less_iff) simp_all
qed

lemma tick_port:
  assumes "opl3_inv d"
  shows "same_port ((\<lambda>d. d\<lparr>op_status := (op_status d AND 0x60) OR (if op_status d AND 0x60 \<noteq> 0 then 0x80 else 0)\<rparr>)
      (tick_timers (of_nat (unat n) * 1000000 / op_cpu_hz d) (d\<lparr>op_cycles := op_cycles d + unat n\<rparr>))) (opl3_tick S n d)"
proof -
  let ?d2 = "(\<lambda>d. d\<lparr>op_status := (op_status d AND 0x60) OR (if op_status d AND 0x60 \<noteq> 0 then 0x80 else 0)\<rparr>)
      (tick_timers (of_nat (unat n) * 1000000 / op_cpu_hz d) (d\<lparr>op_cycles := op_cycles d + unat n\<rparr>))"
  let ?d3 = "?d2\<lparr>op_due := op_due d + of_nat (unat n) * of_nat (unat (op_rate d)) / op_cpu_hz d\<rparr>"
  have "0 \<le> op_due d" "0 < op_cpu_hz d" using assms by (simp_all add: opl3_inv_def)
  then have "0 \<le> op_due ?d3"
    by (auto intro!: divide_nonneg_pos add_nonneg_nonneg mult_nonneg_nonneg simp del: of_nat_unat)
  then have "same_port ?d3 (catch_up S ?d3)" using catch_up_makes [of ?d3 S] by (auto simp: makes_def)
  moreover have port: "same_port ?d2 ?d3" by (simp add: same_port_def)
  ultimately have "same_port ?d2 (catch_up S ?d3)" by (blast intro: same_port_trans)
  moreover have "opl3_tick S n d = (if \<not> op_active d \<or> \<not> op_sink d then ?d2 else if of_nat kChunk \<le> op_due ?d3 then catch_up S ?d3 else ?d3)"
    by (simp add: opl3_tick_def Let_def)
  ultimately show ?thesis using port by (simp only: same_port_refl split: if_split) simp
qed

text \<open>Whether a timer that runs on for some microseconds raises its flag.\<close>

definition expires1 :: "rat \<Rightarrow> 'c opl3_device \<Rightarrow> bool" where
  "expires1 us d \<longleftrightarrow> op_t1_on d \<and> op_regs d ! 4 AND 0x40 = 0 \<and> period1 d \<le> op_t1_us d + us"

definition expires2 :: "rat \<Rightarrow> 'c opl3_device \<Rightarrow> bool" where
  "expires2 us d \<longleftrightarrow> op_t2_on d \<and> op_regs d ! 4 AND 0x20 = 0 \<and> period2 d \<le> op_t2_us d + us"

definition elapsed_us :: "nat \<Rightarrow> 'c opl3_device \<Rightarrow> rat" where
  "elapsed_us cycles d = of_nat cycles * 1000000 / op_cpu_hz d"

definition counting :: "'c opl3_device \<Rightarrow> bool" where
  "counting d \<longleftrightarrow> (op_t1_on d \<longrightarrow> op_t1_us d < period1 d) \<and> (op_t2_on d \<longrightarrow> op_t2_us d < period2 d)"

lemma status_bits:
  fixes s :: u8
  defines "t \<equiv> (s AND 0x60) OR (if s AND 0x60 \<noteq> 0 then 0x80 else 0)"
  shows "bit t 6 = bit s 6" "bit t 5 = bit s 5" "bit t 7 \<longleftrightarrow> bit s 6 \<or> bit s 5"
proof -
  have mask: "bit (0x60 :: u8) k \<longleftrightarrow> k = 5 \<or> k = 6" "bit (0x80 :: u8) k \<longleftrightarrow> k = 7" for k
  proof -
    have m: "(0x60 :: u8) = 2 ^ 5 OR 2 ^ 6" "(0x80 :: u8) = 2 ^ 7" by simp_all
    show "bit (0x60 :: u8) k \<longleftrightarrow> k = 5 \<or> k = 6" "bit (0x80 :: u8) k \<longleftrightarrow> k = 7"
      unfolding m by (simp_all only: bit_or_iff bit_exp_iff) auto
  qed
  have "s AND 0x60 = 0" if "\<not> bit s 6" "\<not> bit s 5"
  proof (rule bit_eqI)
    fix k
    show "bit (s AND 0x60) k = bit 0 k" using that unfolding bit_and_iff mask(1) by auto
  qed
  moreover have "bit (s AND 0x60) 6 = bit s 6" "bit (s AND 0x60) 5 = bit s 5" by (simp_all add: bit_and_iff)
  ultimately have "s AND 0x60 \<noteq> 0 \<longleftrightarrow> bit s 6 \<or> bit s 5" by (metis bit_0_eq bot_apply bot_bool_def)
  then show "bit t 6 = bit s 6" "bit t 5 = bit s 5" "bit t 7 \<longleftrightarrow> bit s 6 \<or> bit s 5"
    by (auto simp: t_def bit_or_iff bit_and_iff mask)
qed

lemma tick_timers_result:
  assumes "0 \<le> us" "0 \<le> op_t1_us d" "0 \<le> op_t2_us d"
  shows "bit (op_status (tick_timers us d)) 6 \<longleftrightarrow> bit (op_status d) 6 \<or> expires1 us d"
    and "bit (op_status (tick_timers us d)) 5 \<longleftrightarrow> bit (op_status d) 5 \<or> expires2 us d"
    and "op_t1_on d \<Longrightarrow> op_t1_us (tick_timers us d) < period1 d \<and>
      (op_t1_us d + us < period1 d \<longrightarrow> op_t1_us (tick_timers us d) = op_t1_us d + us)"
    and "op_t2_on d \<Longrightarrow> op_t2_us (tick_timers us d) < period2 d \<and>
      (op_t2_us d + us < period2 d \<longrightarrow> op_t2_us (tick_timers us d) = op_t2_us d + us)"
proof -
  let ?loop1 = "timer_loop (period1 d) (op_regs d ! 4 AND 0x40 \<noteq> 0) 0x40 (op_t1_us d + us) (op_status d)"
  let ?s = "if op_t1_on d then snd ?loop1 else op_status d"
  let ?loop2 = "timer_loop (period2 d) (op_regs d ! 4 AND 0x20 \<noteq> 0) 0x20 (op_t2_us d + us) ?s"
  have d: "op_status (tick_timers us d) = (if op_t2_on d then snd ?loop2 else ?s)"
    "op_t1_us (tick_timers us d) = (if op_t1_on d then fst ?loop1 else op_t1_us d)"
    "op_t2_us (tick_timers us d) = (if op_t2_on d then fst ?loop2 else op_t2_us d)"
    by (simp_all add: tick_timers_def Let_def period1_def period2_def split: prod.splits)
  have loop1: "snd (timer_loop (period1 d) m f (op_t1_us d + us) s) = (if \<not> m \<and> period1 d \<le> op_t1_us d + us then s OR f else s)"
    "fst (timer_loop (period1 d) m f (op_t1_us d + us) s) < period1 d"
    "op_t1_us d + us < period1 d \<Longrightarrow> fst (timer_loop (period1 d) m f (op_t1_us d + us) s) = op_t1_us d + us" for m f s
    using timer_loop_result [OF periods_pos(1) [of d], of "op_t1_us d + us"] assms by simp_all
  have loop2: "snd (timer_loop (period2 d) m f (op_t2_us d + us) s) = (if \<not> m \<and> period2 d \<le> op_t2_us d + us then s OR f else s)"
    "fst (timer_loop (period2 d) m f (op_t2_us d + us) s) < period2 d"
    "op_t2_us d + us < period2 d \<Longrightarrow> fst (timer_loop (period2 d) m f (op_t2_us d + us) s) = op_t2_us d + us" for m f s
    using timer_loop_result [OF periods_pos(2) [of d], of "op_t2_us d + us"] assms by simp_all
  show "bit (op_status (tick_timers us d)) 6 \<longleftrightarrow> bit (op_status d) 6 \<or> expires1 us d"
    "bit (op_status (tick_timers us d)) 5 \<longleftrightarrow> bit (op_status d) 5 \<or> expires2 us d"
    by (auto simp: d loop1 loop2 expires1_def expires2_def bit_or_iff)
  show "op_t1_on d \<Longrightarrow> op_t1_us (tick_timers us d) < period1 d \<and>
      (op_t1_us d + us < period1 d \<longrightarrow> op_t1_us (tick_timers us d) = op_t1_us d + us)"
    "op_t2_on d \<Longrightarrow> op_t2_us (tick_timers us d) < period2 d \<and>
      (op_t2_us d + us < period2 d \<longrightarrow> op_t2_us (tick_timers us d) = op_t2_us d + us)"
    by (simp_all add: d loop1 loop2)
qed

lemma tick_result:
  assumes inv: "opl3_inv d" and e: "e = opl3_tick S n d"
  shows "op_regs e = op_regs d \<and> op_t1_on e = op_t1_on d \<and> op_t2_on e = op_t2_on d \<and> op_cpu_hz e = op_cpu_hz d \<and> counting e \<and>
    (bit (op_status e) 6 \<longleftrightarrow> bit (op_status d) 6 \<or> expires1 (elapsed_us (unat n) d) d) \<and>
    (bit (op_status e) 5 \<longleftrightarrow> bit (op_status d) 5 \<or> expires2 (elapsed_us (unat n) d) d) \<and>
    (bit (op_status e) 7 \<longleftrightarrow> bit (op_status e) 6 \<or> bit (op_status e) 5) \<and>
    (op_t1_on d \<and> op_t1_us d + elapsed_us (unat n) d < period1 d \<longrightarrow> op_t1_us e = op_t1_us d + elapsed_us (unat n) d) \<and>
    (op_t2_on d \<and> op_t2_us d + elapsed_us (unat n) d < period2 d \<longrightarrow> op_t2_us e = op_t2_us d + elapsed_us (unat n) d)"
proof -
  let ?us = "of_nat (unat n) * 1000000 / op_cpu_hz d" and ?d = "d\<lparr>op_cycles := op_cycles d + unat n\<rparr>"
  have us: "0 \<le> ?us" "0 \<le> op_t1_us ?d" "0 \<le> op_t2_us ?d"
    using inv by (auto simp: opl3_inv_def intro!: divide_nonneg_pos mult_nonneg_nonneg simp del: of_nat_unat)
  note timers = tick_timers_result [OF us]
  note port = tick_port [OF inv, of n S, folded e]
  have same: "period1 ?d = period1 d" "period2 ?d = period2 d" "expires1 ?us ?d = expires1 ?us d" "expires2 ?us ?d = expires2 ?us d"
    by (simp_all add: period1_def period2_def expires1_def expires2_def)
  have "op_regs e = op_regs d" "op_t1_on e = op_t1_on d" "op_t2_on e = op_t2_on d" "op_cpu_hz e = op_cpu_hz d"
    "op_t1_us e = op_t1_us (tick_timers ?us ?d)" "op_t2_us e = op_t2_us (tick_timers ?us ?d)"
    using port by (simp_all add: same_port_def)
  moreover have "op_status e = (op_status (tick_timers ?us ?d) AND 0x60) OR (if op_status (tick_timers ?us ?d) AND 0x60 \<noteq> 0 then 0x80 else 0)"
    using port by (simp only: same_port_def) simp
  then have "bit (op_status e) 6 \<longleftrightarrow> bit (op_status d) 6 \<or> expires1 ?us d" "bit (op_status e) 5 \<longleftrightarrow> bit (op_status d) 5 \<or> expires2 ?us d"
    "bit (op_status e) 7 \<longleftrightarrow> bit (op_status e) 6 \<or> bit (op_status e) 5"
    using timers(1,2) same by (simp_all only: status_bits) simp_all
  moreover have "period1 e = period1 d" "period2 e = period2 d"
    using calculation(1) by (simp_all add: period1_def period2_def)
  ultimately show ?thesis
    using timers(3,4) by (simp add: counting_def elapsed_us_def same)
qed

text \<open>C28. The timers keep time: from any moment on, over any sequence of ticks, the flag of a timer is raised exactly
  when it runs, is not masked, and the time it has counted reaches its period (256 less its preset, in
  80 or 320 microseconds), however the time is cut into ticks; bit 7 is the or of the two flags.\<close>
theorem opl3_timers:
  assumes "opl3_inv d" "counting d" "e = fold (opl3_tick S) ns d"
  shows "(bit (op_status e) 6 \<longleftrightarrow> bit (op_status d) 6 \<or> expires1 (elapsed_us (sum_list (map unat ns)) d) d) \<and>
    (bit (op_status e) 5 \<longleftrightarrow> bit (op_status d) 5 \<or> expires2 (elapsed_us (sum_list (map unat ns)) d) d) \<and>
    (ns \<noteq> [] \<longrightarrow> (bit (op_status e) 7 \<longleftrightarrow> bit (op_status e) 6 \<or> bit (op_status e) 5))"
  using assms
proof (induction ns arbitrary: d)
  case Nil
  then show ?case by (auto simp: counting_def expires1_def expires2_def elapsed_us_def)
next
  case (Cons n ns)
  let ?d = "opl3_tick S n d" and ?a = "elapsed_us (unat n) d" and ?b = "elapsed_us (sum_list (map unat ns)) d"
  note tick = tick_result [OF Cons.prems(1) refl [of "opl3_tick S n d"]]
  have same: "op_regs ?d = op_regs d" "op_t1_on ?d = op_t1_on d" "op_t2_on ?d = op_t2_on d" "op_cpu_hz ?d = op_cpu_hz d"
    and count: "counting ?d"
    and flags: "bit (op_status ?d) 6 \<longleftrightarrow> bit (op_status d) 6 \<or> expires1 ?a d"
      "bit (op_status ?d) 5 \<longleftrightarrow> bit (op_status d) 5 \<or> expires2 ?a d"
      "bit (op_status ?d) 7 \<longleftrightarrow> bit (op_status ?d) 6 \<or> bit (op_status ?d) 5"
    and time: "op_t1_on d \<Longrightarrow> op_t1_us d + ?a < period1 d \<Longrightarrow> op_t1_us ?d = op_t1_us d + ?a"
      "op_t2_on d \<Longrightarrow> op_t2_us d + ?a < period2 d \<Longrightarrow> op_t2_us ?d = op_t2_us d + ?a"
    using tick by blast+
  have split: "elapsed_us (sum_list (map unat (n # ns))) d = ?a + ?b" "elapsed_us (sum_list (map unat ns)) ?d = ?b"
    by (simp_all add: elapsed_us_def add_divide_distrib distrib_right same(4))
  have pos: "0 \<le> ?b"
    using Cons.prems(1) by (auto simp: elapsed_us_def opl3_inv_def intro!: divide_nonneg_pos mult_nonneg_nonneg simp del: of_nat_unat)
  have periods: "period1 ?d = period1 d" "period2 ?d = period2 d"
    by (simp_all add: period1_def period2_def same(1))
  have one: "expires1 ?a d \<or> expires1 ?b ?d \<longleftrightarrow> expires1 (?a + ?b) d"
    using time(1) pos count unfolding expires1_def counting_def periods same by (cases "op_t1_us d + ?a < period1 d") auto
  have two: "expires2 ?a d \<or> expires2 ?b ?d \<longleftrightarrow> expires2 (?a + ?b) d"
    using time(2) pos count unfolding expires2_def counting_def periods same by (cases "op_t2_us d + ?a < period2 d") auto
  have IH: "(bit (op_status e) 6 \<longleftrightarrow> bit (op_status ?d) 6 \<or> expires1 ?b ?d) \<and>
    (bit (op_status e) 5 \<longleftrightarrow> bit (op_status ?d) 5 \<or> expires2 ?b ?d) \<and>
    (ns \<noteq> [] \<longrightarrow> (bit (op_status e) 7 \<longleftrightarrow> bit (op_status e) 6 \<or> bit (op_status e) 5))"
    using Cons.IH [OF tick_inv [OF Cons.prems(1)] count] Cons.prems(3) unfolding split(2) by simp
  show ?case
  proof (cases "ns = []")
    case True
    then have e: "e = ?d" using Cons.prems(3) by simp
    show ?thesis unfolding split(1) one [symmetric] two [symmetric] using IH flags unfolding e by blast
  next
    case False
    then show ?thesis unfolding split(1) one [symmetric] two [symmetric] using IH flags(1,2) by blast
  qed
qed

theorem opl3_timers_witness:
  "let S = \<lparr>sy_reset = (\<lambda>_ c. c), sy_write_reg = (\<lambda>_ _ c. c), sy_generate = (\<lambda>n c. ([], c))\<rparr>;
     d = new_opl3 S (0 :: nat) 48000 1000000\<lparr>op_regs := (replicate 0x200 0)[2 := 255], op_t1_on := True\<rparr>
   in \<not> bit (op_status (fold (opl3_tick S) [50, 29] d)) 6 \<and>
     bit (op_status (fold (opl3_tick S) [50, 29, 1] d)) 6 \<and> bit (op_status (fold (opl3_tick S) [50, 29, 1] d)) 7"
proof -
  let ?S = "\<lparr>sy_reset = (\<lambda>_ c. c), sy_write_reg = (\<lambda>_ _ c. c), sy_generate = (\<lambda>n c. ([], c))\<rparr> :: nat synthesizer"
  let ?d = "new_opl3 ?S (0 :: nat) 48000 1000000\<lparr>op_regs := (replicate 0x200 0)[2 := 255], op_t1_on := True\<rparr>"
  note d = new_opl3_def opl3_reset_def
  have "opl3_inv ?d" "counting ?d" by (simp_all add: d opl3_inv_def counting_def period1_def kChunk_def kTimer1Us_def)
  moreover have "\<not> bit (op_status ?d) 6" "\<not> expires1 (elapsed_us 79 ?d) ?d" "expires1 (elapsed_us 80 ?d) ?d"
    by (simp_all add: d expires1_def elapsed_us_def period1_def kTimer1Us_def)
  ultimately show ?thesis
    using opl3_timers [of ?d _ ?S "[50, 29]"] opl3_timers [of ?d _ ?S "[50, 29, 1]"] by (simp add: Let_def)
qed

section \<open>A rest after a reset\<close>

text \<open>A reset silences the card without noting the time, so the next note is preceded by silence reaching back to
  the last time the chip fell silent by itself, even when it was playing until the reset.\<close>

lemma reset_keeps_rest:
  assumes "op_sink d" "op_idle_at d \<noteq> 0" "of_nat (op_cycles d - op_idle_at d) / op_cpu_hz d < kMaxRest"
  shows "op_frames_made (write_register S 0x20 v (opl3_reset S d)) =
    op_frames_made d + nat \<lfloor>of_nat (op_cycles d - op_idle_at d) / op_cpu_hz d * of_nat (unat (op_rate d))\<rfloor>"
proof -
  have sent: "op_frames_made (send_silence n e) = op_frames_made e + n" for n and e :: "'c opl3_device"
    using send_silence_makes [of e n] by (auto simp: makes_def)
  show ?thesis
    using assms by (simp add: write_register_def opl3_reset_def catch_up_def wake_def sent Let_def)
qed

end
