(* ===== verification/Video_Card.thy ===== *)
theory Video_Card
  imports Prelude
begin

text \<open>
  The video card of \<^verbatim>\<open>vidcard/core/vc.c\<close> and \<^verbatim>\<open>vc.h\<close>: the state, the address space, the registers and the
  input side. The drawing commands are in \<^verbatim>\<open>Video_Draw\<close>, the scanline renderer in \<^verbatim>\<open>Video_Render\<close>.

  The C arrays \<^verbatim>\<open>vram\<close>, \<^verbatim>\<open>cfg\<close> and \<^verbatim>\<open>psram\<close> are functions from indexes, the arrays of two \<^verbatim>\<open>addr\<close> and
  \<^verbatim>\<open>inc\<close> functions from the port's number, and the command buffer and the key queue lists of their C
  sizes, with counters as natural numbers: the invariant \<open>vc_inv\<close> bounds them, so the \<^verbatim>\<open>uint8_t\<close> they are
  never wraps and every index is inside its array. \<^verbatim>\<open>vc_font8x16\<close> is a table generated by a tool: it is
  the argument \<open>font\<close> of the operations that reset the card.
\<close>

unbundle bit_operations_syntax

section \<open>Constants\<close>

definition VC_WIDTH :: nat where "VC_WIDTH = 640"
definition VC_HEIGHT :: nat where "VC_HEIGHT = 480"
definition VC_LINES :: nat where "VC_LINES = 525"
definition VC_FPS :: nat where "VC_FPS = 60"
definition VC_VRAM_SIZE :: u32 where "VC_VRAM_SIZE = 0x40000"
definition VC_CFG_BASE :: u32 where "VC_CFG_BASE = 0x40000"
definition VC_CFG_SIZE :: u32 where "VC_CFG_SIZE = 0x400"
definition VC_PAL_BASE :: u32 where "VC_PAL_BASE = 0x40200"
definition VC_PSRAM_BASE :: u32 where "VC_PSRAM_BASE = 0x800000"
definition VRAM_MASK :: u32 where "VRAM_MASK = VC_VRAM_SIZE - 1"

lemmas vc_memory_map = VC_VRAM_SIZE_def VC_CFG_BASE_def VC_CFG_SIZE_def VC_PAL_BASE_def VC_PSRAM_BASE_def VRAM_MASK_def

text \<open>Register offsets.\<close>

definition VC_ADDR0_H :: u8 where "VC_ADDR0_H = 0x00"
definition VC_ADDR0_M :: u8 where "VC_ADDR0_M = 0x01"
definition VC_ADDR0_L :: u8 where "VC_ADDR0_L = 0x02"
definition VC_INC0_H :: u8 where "VC_INC0_H = 0x03"
definition VC_INC0_L :: u8 where "VC_INC0_L = 0x04"
definition VC_DATA0 :: u8 where "VC_DATA0 = 0x05"
definition VC_ADDR1_H :: u8 where "VC_ADDR1_H = 0x06"
definition VC_ADDR1_M :: u8 where "VC_ADDR1_M = 0x07"
definition VC_ADDR1_L :: u8 where "VC_ADDR1_L = 0x08"
definition VC_INC1_H :: u8 where "VC_INC1_H = 0x09"
definition VC_INC1_L :: u8 where "VC_INC1_L = 0x0A"
definition VC_DATA1 :: u8 where "VC_DATA1 = 0x0B"
definition VC_CTRL :: u8 where "VC_CTRL = 0x0C"
definition VC_STATUS :: u8 where "VC_STATUS = 0x0D"
definition VC_IEN :: u8 where "VC_IEN = 0x0E"
definition VC_ISR :: u8 where "VC_ISR = 0x0F"
definition VC_LINE_H :: u8 where "VC_LINE_H = 0x10"
definition VC_LINE_L :: u8 where "VC_LINE_L = 0x11"
definition VC_CMD :: u8 where "VC_CMD = 0x12"
definition VC_FRAME :: u8 where "VC_FRAME = 0x13"
definition VC_IN_CTRL :: u8 where "VC_IN_CTRL = 0x14"
definition VC_MOUSE_X_H :: u8 where "VC_MOUSE_X_H = 0x15"
definition VC_MOUSE_X_L :: u8 where "VC_MOUSE_X_L = 0x16"
definition VC_MOUSE_Y_H :: u8 where "VC_MOUSE_Y_H = 0x17"
definition VC_MOUSE_Y_L :: u8 where "VC_MOUSE_Y_L = 0x18"
definition VC_MOUSE_BTN :: u8 where "VC_MOUSE_BTN = 0x19"
definition VC_MOUSE_WHEEL :: u8 where "VC_MOUSE_WHEEL = 0x1A"
definition VC_KEY :: u8 where "VC_KEY = 0x1B"
definition VC_KEY_CHAR :: u8 where "VC_KEY_CHAR = 0x1C"
definition VC_KEY_MODS :: u8 where "VC_KEY_MODS = 0x1D"
definition VC_ID :: u8 where "VC_ID = 0x1E"
definition VC_VERSION :: u8 where "VC_VERSION = 0x1F"

lemmas vc_reg_defs = VC_ADDR0_H_def VC_ADDR0_M_def VC_ADDR0_L_def VC_INC0_H_def VC_INC0_L_def VC_DATA0_def VC_ADDR1_H_def VC_ADDR1_M_def VC_ADDR1_L_def VC_INC1_H_def VC_INC1_L_def VC_DATA1_def VC_CTRL_def VC_STATUS_def VC_IEN_def VC_ISR_def VC_LINE_H_def VC_LINE_L_def VC_CMD_def VC_FRAME_def VC_IN_CTRL_def VC_MOUSE_X_H_def VC_MOUSE_X_L_def VC_MOUSE_Y_H_def VC_MOUSE_Y_L_def VC_MOUSE_BTN_def VC_MOUSE_WHEEL_def VC_KEY_def VC_KEY_CHAR_def VC_KEY_MODS_def VC_ID_def VC_VERSION_def

text \<open>Status, interrupt, input and modifier bits.\<close>

definition VC_STATUS_VBLANK :: u8 where "VC_STATUS_VBLANK = 0x80"
definition VC_STATUS_BUSY :: u8 where "VC_STATUS_BUSY = 0x40"
definition VC_STATUS_KEY :: u8 where "VC_STATUS_KEY = 0x10"
definition VC_IRQ_VSYNC :: u8 where "VC_IRQ_VSYNC = 0x01"
definition VC_IRQ_LINE :: u8 where "VC_IRQ_LINE = 0x02"
definition VC_IRQ_CMDDONE :: u8 where "VC_IRQ_CMDDONE = 0x04"
definition VC_IRQ_INPUT :: u8 where "VC_IRQ_INPUT = 0x08"
definition VC_IN_POINTER :: u8 where "VC_IN_POINTER = 0x01"
definition VC_IN_KEYS :: u8 where "VC_IN_KEYS = 0x02"
definition VC_IN_FLUSH :: u8 where "VC_IN_FLUSH = 0x80"
definition VC_KEY_QUEUE :: nat where "VC_KEY_QUEUE = 32"

text \<open>The display settings, and where reset puts things.\<close>

definition VC_DC_CTRL :: nat where "VC_DC_CTRL = 0x00"
definition VC_DC_BACK :: nat where "VC_DC_BACK = 0x01"
definition VC_SPR_CTRL :: nat where "VC_SPR_CTRL = 0x02"
definition VC_SPR_COUNT :: nat where "VC_SPR_COUNT = 0x03"
definition VC_SPR_BASE :: nat where "VC_SPR_BASE = 0x04"
definition VC_LAYER0 :: nat where "VC_LAYER0 = 0x10"
definition VC_L_MODE :: nat where "VC_L_MODE = 0x00"
definition VC_L_MAP :: nat where "VC_L_MAP = 0x01"
definition VC_L_MAPBASE :: nat where "VC_L_MAPBASE = 0x02"
definition VC_L_TILEBASE :: nat where "VC_L_TILEBASE = 0x05"
definition VC_L_HSCROLL :: nat where "VC_L_HSCROLL = 0x08"
definition VC_L_VSCROLL :: nat where "VC_L_VSCROLL = 0x0A"
definition VC_L_STRIDE :: nat where "VC_L_STRIDE = 0x0C"
definition VC_L_PALOFS :: nat where "VC_L_PALOFS = 0x0E"
definition VC_LAYER_SIZE :: nat where "VC_LAYER_SIZE = 0x10"
definition PAL_OFFSET :: nat where "PAL_OFFSET = 0x200"
definition VC_RESET_SPR_BASE :: u32 where "VC_RESET_SPR_BASE = 0x037C00"
definition VC_RESET_TEXT_MAP :: u32 where "VC_RESET_TEXT_MAP = 0x038000"
definition VC_RESET_FONT :: u32 where "VC_RESET_FONT = 0x03F000"

section \<open>The card\<close>

record vc_card =
  vc_vram :: "nat \<Rightarrow> u8"
  vc_cfg :: "nat \<Rightarrow> u8"
  vc_psram :: "(nat \<Rightarrow> u8) option"
  vc_addr :: "nat \<Rightarrow> u32"
  vc_inc :: "nat \<Rightarrow> u16"
  vc_ien :: u8
  vc_isr :: u8
  vc_frame :: u8
  vc_line :: u16
  vc_irq_line :: u16
  vc_cmd :: "u8 list"
  vc_cmd_len :: nat
  vc_t_addr :: u32
  vc_t_stride :: u16
  vc_t_w :: u16
  vc_t_h :: u16
  vc_t_bpp :: nat
  vc_color :: u8
  vc_font :: u32
  vc_font_h :: u8
  vc_in_ctrl :: u8
  vc_mouse_x :: u16
  vc_mouse_y :: u16
  vc_snap_x :: u16
  vc_snap_y :: u16
  vc_buttons :: u8
  vc_wheel :: int
  vc_mods :: u8
  vc_caps_lock :: bool
  vc_key_char :: u8
  vc_keyq :: "(u8 \<times> u8) list"
  vc_keyq_head :: nat
  vc_keyq_len :: nat

text \<open>Big-endian fields of a byte array, at an index.\<close>

definition be16 :: "(nat \<Rightarrow> u8) \<Rightarrow> nat \<Rightarrow> u32" where
  "be16 p i = push_bit 8 (ucast (p i)) OR ucast (p (i + 1))"

definition be24 :: "(nat \<Rightarrow> u8) \<Rightarrow> nat \<Rightarrow> u32" where
  "be24 p i = push_bit 16 (ucast (p i)) OR push_bit 8 (ucast (p (i + 1))) OR ucast (p (i + 2))"

definition s16 :: "(nat \<Rightarrow> u8) \<Rightarrow> nat \<Rightarrow> int" where
  "s16 p i = sint (ucast (be16 p i) :: u16)"

section \<open>The address space\<close>

definition vc_peek :: "vc_card \<Rightarrow> u32 \<Rightarrow> u8" where
  "vc_peek c a =
    (let a = a AND 0xFFFFFF
     in if a < VC_VRAM_SIZE then vc_vram c (unat a)
        else if a - VC_CFG_BASE < VC_CFG_SIZE then vc_cfg c (unat (a - VC_CFG_BASE))
        else if VC_PSRAM_BASE \<le> a
             then (case vc_psram c of Some m \<Rightarrow> m (unat (a - VC_PSRAM_BASE)) | None \<Rightarrow> 0)
        else 0)"

definition vc_poke :: "u32 \<Rightarrow> u8 \<Rightarrow> vc_card \<Rightarrow> vc_card" where
  "vc_poke a v c =
    (let a = a AND 0xFFFFFF
     in if a < VC_VRAM_SIZE then c\<lparr>vc_vram := (vc_vram c)(unat a := v)\<rparr>
        else if a - VC_CFG_BASE < VC_CFG_SIZE then c\<lparr>vc_cfg := (vc_cfg c)(unat (a - VC_CFG_BASE) := v)\<rparr>
        else if VC_PSRAM_BASE \<le> a
             then c\<lparr>vc_psram := map_option (\<lambda>m. m(unat (a - VC_PSRAM_BASE) := v)) (vc_psram c)\<rparr>
        else c)"

section \<open>Reset\<close>

definition set_color :: "nat \<Rightarrow> nat \<Rightarrow> nat \<Rightarrow> nat \<Rightarrow> (nat \<Rightarrow> u8) \<Rightarrow> (nat \<Rightarrow> u8)" where
  "set_color i r g b cfg =
    (let p = (push_bit 11 (of_nat (r div 8)) OR push_bit 5 (of_nat (g div 4)) OR of_nat (b div 8) :: u16)
     in cfg(PAL_OFFSET + 2 * i := hi8 p, PAL_OFFSET + 2 * i + 1 := lo8 p))"

definition put24 :: "nat \<Rightarrow> u32 \<Rightarrow> (nat \<Rightarrow> u8) \<Rightarrow> (nat \<Rightarrow> u8)" where
  "put24 i v p = p(i := ucast (drop_bit 16 v), i + 1 := ucast (drop_bit 8 v), i + 2 := ucast v)"

definition base16 :: "(nat \<times> nat \<times> nat) list" where
  "base16 = [(0, 0, 0), (128, 0, 0), (0, 128, 0), (128, 128, 0), (0, 0, 128), (128, 0, 128),
     (0, 128, 128), (192, 192, 192), (128, 128, 128), (255, 0, 0), (0, 255, 0), (255, 255, 0),
     (0, 0, 255), (255, 0, 255), (0, 255, 255), (255, 255, 255)]"

definition cube :: "nat list" where
  "cube = [0, 95, 135, 175, 215, 255]"

text \<open>The palette: xterm's 256 colors.\<close>

definition reset_palette :: "(nat \<Rightarrow> u8) \<Rightarrow> (nat \<Rightarrow> u8)" where
  "reset_palette cfg =
    (let cfg = fold (\<lambda>i. case base16 ! i of (r, g, b) \<Rightarrow> set_color i r g b) [0..<16] cfg;
         cfg = fold (\<lambda>i. set_color (16 + i) (cube ! (i div 36)) (cube ! (i div 6 mod 6)) (cube ! (i mod 6))) [0..<216] cfg
     in fold (\<lambda>i. set_color (232 + i) (8 + 10 * i) (8 + 10 * i) (8 + 10 * i)) [0..<24] cfg)"

definition reset_cfg :: "nat \<Rightarrow> u8" where
  "reset_cfg =
    (let cfg = reset_palette (\<lambda>_. 0);
         cfg = cfg(VC_DC_CTRL := 0x01, VC_SPR_COUNT := 128);
         cfg = put24 VC_SPR_BASE VC_RESET_SPR_BASE cfg;
         cfg = cfg(VC_LAYER0 + VC_L_MODE := 0x24, VC_LAYER0 + VC_L_MAP := 0x02);
         cfg = put24 (VC_LAYER0 + VC_L_MAPBASE) VC_RESET_TEXT_MAP cfg
     in put24 (VC_LAYER0 + VC_L_TILEBASE) VC_RESET_FONT cfg)"

definition reset_vram :: "u8 list \<Rightarrow> nat \<Rightarrow> u8" where
  "reset_vram font =
    (let vram = (\<lambda>_. 0);
         vram = fold (\<lambda>i v. v(unat VC_RESET_FONT + i := font ! i)) [0..<length font] vram
     in fold (\<lambda>i v. let cell = unat VC_RESET_TEXT_MAP + 4 * i
                     in v(cell := 0x20, cell + 1 := 7, cell + 2 := 0, cell + 3 := 0)) [0..<128 * 32] vram)"

definition vc_reset :: "u8 list \<Rightarrow> vc_card \<Rightarrow> vc_card" where
  "vc_reset font c =
    c\<lparr>vc_vram := reset_vram font, vc_cfg := reset_cfg, vc_addr := (\<lambda>_. 0), vc_inc := (\<lambda>_. 1),
      vc_ien := 0, vc_isr := 0, vc_irq_line := 0, vc_cmd_len := 0, vc_t_addr := 0, vc_t_stride := 0,
      vc_t_w := 0, vc_t_h := 0, vc_t_bpp := 8, vc_color := 15, vc_font := VC_RESET_FONT, vc_font_h := 16,
      vc_in_ctrl := 0, vc_wheel := 0, vc_key_char := 0, vc_keyq_head := 0, vc_keyq_len := 0\<rparr>"

section \<open>Register reads\<close>

definition step_port :: "nat \<Rightarrow> vc_card \<Rightarrow> vc_card" where
  "step_port p c = c\<lparr>vc_addr := (vc_addr c)(p := (vc_addr c p + scast (vc_inc c p)) AND 0xFFFFFF)\<rparr>"

definition read_data :: "nat \<Rightarrow> vc_card \<Rightarrow> u8 \<times> vc_card" where
  "read_data p c = (vc_peek c (vc_addr c p), step_port p c)"

definition read_status :: "vc_card \<Rightarrow> u8" where
  "read_status c =
    (if VC_HEIGHT \<le> unat (vc_line c) then VC_STATUS_VBLANK else 0) OR
    (if vc_cmd_len c \<noteq> 0 then VC_STATUS_BUSY else 0) OR
    (if vc_keyq_len c \<noteq> 0 then VC_STATUS_KEY else 0)"

definition read_key :: "vc_card \<Rightarrow> u8 \<times> vc_card" where
  "read_key c =
    (if vc_keyq_len c = 0 then (0, c\<lparr>vc_key_char := 0\<rparr>)
     else (fst (vc_keyq c ! vc_keyq_head c),
           c\<lparr>vc_key_char := snd (vc_keyq c ! vc_keyq_head c),
             vc_keyq_head := (vc_keyq_head c + 1) mod VC_KEY_QUEUE,
             vc_keyq_len := vc_keyq_len c - 1\<rparr>))"

definition vc_read :: "u8 \<Rightarrow> vc_card \<Rightarrow> u8 \<times> vc_card" where
  "vc_read reg c =
    (let r = reg AND 0x1F; p = (if VC_ADDR1_H \<le> r then 1 else 0)
     in if r = VC_ADDR0_H \<or> r = VC_ADDR1_H then (ucast (drop_bit 16 (vc_addr c p)), c)
        else if r = VC_ADDR0_M \<or> r = VC_ADDR1_M then (ucast (drop_bit 8 (vc_addr c p)), c)
        else if r = VC_ADDR0_L \<or> r = VC_ADDR1_L then (ucast (vc_addr c p), c)
        else if r = VC_INC0_H \<or> r = VC_INC1_H then (hi8 (vc_inc c p), c)
        else if r = VC_INC0_L \<or> r = VC_INC1_L then (lo8 (vc_inc c p), c)
        else if r = VC_DATA0 \<or> r = VC_DATA1 then read_data p c
        else if r = VC_STATUS then (read_status c, c)
        else if r = VC_IEN then (vc_ien c, c)
        else if r = VC_ISR then (vc_isr c, c)
        else if r = VC_LINE_H then (hi8 (vc_line c), c)
        else if r = VC_LINE_L then (lo8 (vc_line c), c)
        else if r = VC_FRAME then (vc_frame c, c)
        else if r = VC_IN_CTRL then (vc_in_ctrl c, c)
        else if r = VC_MOUSE_X_H then (hi8 (vc_mouse_x c), c\<lparr>vc_snap_x := vc_mouse_x c, vc_snap_y := vc_mouse_y c\<rparr>)
        else if r = VC_MOUSE_X_L then (lo8 (vc_snap_x c), c)
        else if r = VC_MOUSE_Y_H then (hi8 (vc_snap_y c), c)
        else if r = VC_MOUSE_Y_L then (lo8 (vc_snap_y c), c)
        else if r = VC_MOUSE_BTN then (vc_buttons c, c)
        else if r = VC_MOUSE_WHEEL then (of_int (vc_wheel c), c\<lparr>vc_wheel := 0\<rparr>)
        else if r = VC_KEY then read_key c
        else if r = VC_KEY_CHAR then (vc_key_char c, c)
        else if r = VC_KEY_MODS then (vc_mods c, c)
        else if r = VC_ID then (0x56, c)
        else if r = VC_VERSION then (0x11, c)
        else (0, c))"

section \<open>Input\<close>

definition clamp :: "int \<Rightarrow> int \<Rightarrow> int" where
  "clamp v hi = (let v = (if v < 0 then 0 else v) in if hi < v then hi else v)"

definition vc_mouse_to :: "int \<Rightarrow> int \<Rightarrow> u8 \<Rightarrow> vc_card \<Rightarrow> vc_card" where
  "vc_mouse_to x y buttons c =
    (let b = 0x80 OR (buttons AND 7);
         x = clamp x (int VC_WIDTH - 1);
         y = clamp y (int VC_HEIGHT - 1);
         c = (if x \<noteq> uint (vc_mouse_x c) \<or> y \<noteq> uint (vc_mouse_y c) \<or> b \<noteq> vc_buttons c
              then c\<lparr>vc_isr := vc_isr c OR VC_IRQ_INPUT\<rparr> else c)
     in c\<lparr>vc_mouse_x := of_int x, vc_mouse_y := of_int y, vc_buttons := b\<rparr>)"

definition vc_mouse_by :: "int \<Rightarrow> int \<Rightarrow> u8 \<Rightarrow> vc_card \<Rightarrow> vc_card" where
  "vc_mouse_by dx dy buttons c = vc_mouse_to (uint (vc_mouse_x c) + dx) (uint (vc_mouse_y c) + dy) buttons c"

definition vc_mouse_wheel :: "int \<Rightarrow> vc_card \<Rightarrow> vc_card" where
  "vc_mouse_wheel clicks c =
    (let w = vc_wheel c + clicks
     in if clicks = 0 then c
        else c\<lparr>vc_wheel := (if 127 < w then 127 else if w < -128 then -128 else w),
               vc_buttons := vc_buttons c OR 0x80, vc_isr := vc_isr c OR VC_IRQ_INPUT\<rparr>)"

definition k_keys :: string where
  "k_keys = ''abcdefghijklmnopqrstuvwxyz1234567890'' @ [CHR 0x0D, CHR 0x1B, CHR 0x08, CHR 0x09] @
     '' -=[]'' @ [CHR 0x5C] @ ''#;'' @ [CHR 0x27, CHR 0x60] @ '',./''"

definition k_shifted :: string where
  "k_shifted = ''ABCDEFGHIJKLMNOPQRSTUVWXYZ!@#$%^&*()'' @ [CHR 0x0D, CHR 0x1B, CHR 0x08, CHR 0x09] @
     '' _+{}|~:'' @ [CHR 0x22] @ ''~<>?''"

definition k_keypad :: string where
  "k_keypad = ''/*-+'' @ [CHR 0x0D] @ ''1234567890.''"

definition key_char :: "vc_card \<Rightarrow> u8 \<Rightarrow> u8" where
  "key_char c usage =
    (let shift = vc_mods c AND 0x22 \<noteq> 0;
         ch = (if 0x04 \<le> usage \<and> usage \<le> 0x38
               then let shift = (if usage \<le> 0x1D \<and> vc_caps_lock c then \<not> shift else shift)
                    in of_char ((if shift then k_shifted else k_keys) ! unat (usage - 0x04))
               else if 0x54 \<le> usage \<and> usage \<le> 0x63 then of_char (k_keypad ! unat (usage - 0x54))
               else if usage = 0x4C then 0x7F
               else 0) :: u8
     in if 0x40 \<le> ch \<and> ch < 0x7F \<and> vc_mods c AND 0x11 \<noteq> 0 then ch AND 0x1F else ch)"

definition vc_key :: "u8 \<Rightarrow> bool \<Rightarrow> vc_card \<Rightarrow> vc_card" where
  "vc_key usage down c =
    (let c = (if 0xE0 \<le> usage \<and> usage \<le> 0xE7
              then let b = push_bit (unat (usage - 0xE0)) 1
                   in c\<lparr>vc_mods := (if down then vc_mods c OR b else vc_mods c AND NOT b)\<rparr>
              else if usage = 0x39 \<and> down then c\<lparr>vc_caps_lock := \<not> vc_caps_lock c\<rparr>
              else c)
     in if usage = 0 \<or> vc_keyq_len c = VC_KEY_QUEUE then c
        else c\<lparr>vc_keyq := (vc_keyq c)[(vc_keyq_head c + vc_keyq_len c) mod VC_KEY_QUEUE :=
                 (usage, key_char c usage OR (if down then 0 else 0x80))],
               vc_keyq_len := vc_keyq_len c + 1,
               vc_isr := vc_isr c OR VC_IRQ_INPUT\<rparr>)"

definition vc_irq :: "vc_card \<Rightarrow> bool" where
  "vc_irq c \<longleftrightarrow> vc_ien c AND vc_isr c \<noteq> 0"

section \<open>The beam\<close>

text \<open>Sprite 0 to the mouse.\<close>

definition move_pointer :: "vc_card \<Rightarrow> vc_card" where
  "move_pointer c =
    (let hires = vc_cfg c VC_SPR_CTRL AND 1 \<noteq> 0;
         a = be24 (vc_cfg c) VC_SPR_BASE;
         x = (if hires then vc_mouse_x c else vc_mouse_x c div 2);
         y = (if hires then vc_mouse_y c else vc_mouse_y c div 2)
     in c\<lparr>vc_vram := (vc_vram c)
          (unat ((a + 2) AND VRAM_MASK) := hi8 x, unat ((a + 3) AND VRAM_MASK) := lo8 x,
           unat ((a + 4) AND VRAM_MASK) := hi8 y, unat ((a + 5) AND VRAM_MASK) := lo8 y)\<rparr>)"

definition vc_begin_line :: "u16 \<Rightarrow> vc_card \<Rightarrow> vc_card" where
  "vc_begin_line ln c =
    (let c = c\<lparr>vc_line := ln\<rparr>;
         c = (if unat ln = VC_HEIGHT
              then let c = c\<lparr>vc_isr := vc_isr c OR VC_IRQ_VSYNC, vc_frame := vc_frame c + 1\<rparr>
                   in if vc_in_ctrl c AND VC_IN_POINTER \<noteq> 0 then move_pointer c else c
              else c)
     in if ln = vc_irq_line c then c\<lparr>vc_isr := vc_isr c OR VC_IRQ_LINE\<rparr> else c)"

section \<open>Lemmas on the address space\<close>

lemma poke_fields [simp]:
  "vc_addr (vc_poke a v c) = vc_addr c" "vc_inc (vc_poke a v c) = vc_inc c" "vc_cmd (vc_poke a v c) = vc_cmd c"
  "vc_cmd_len (vc_poke a v c) = vc_cmd_len c" "vc_t_addr (vc_poke a v c) = vc_t_addr c"
  "vc_t_stride (vc_poke a v c) = vc_t_stride c" "vc_t_w (vc_poke a v c) = vc_t_w c" "vc_t_h (vc_poke a v c) = vc_t_h c"
  "vc_t_bpp (vc_poke a v c) = vc_t_bpp c" "vc_color (vc_poke a v c) = vc_color c" "vc_font (vc_poke a v c) = vc_font c"
  "vc_font_h (vc_poke a v c) = vc_font_h c"
  by (simp_all add: vc_poke_def Let_def)

end
