(* ===== verification/Video_Draw.thy ===== *)
theory Video_Draw
  imports Video_Card "HOL-Library.Signed_Division"
begin

text \<open>
  The drawing of \<^verbatim>\<open>vidcard/core/vc.c\<close>: pixels, lines, circles and triangles on the target, the sixteen
  commands of \<^verbatim>\<open>run_command\<close>, and the registers' write side, whose \<^verbatim>\<open>VC_CMD\<close> collects a command byte by
  byte. Coordinates are \<^verbatim>\<open>int\<close> in C and 16 bits wide when they come from a command, so the sums of
  \<^verbatim>\<open>line\<close> and \<^verbatim>\<open>circle\<close> stay in range; they are unbounded here.

  The lemmas: drawing changes memory only (\<open>mem_only\<close>); a line ends and is the best line there is
  (\<open>line_draws\<close>); \<^verbatim>\<open>COPY\<close> moves a range whatever the overlap (\<open>copy_moves\<close>).
\<close>

unbundle bit_operations_syntax

section \<open>Pixels\<close>

text \<open>The depth is 1, 2, 4 or 8 (\<open>vc_inv\<close>), so \<open>8 - bpp - bit mod 8\<close> is never negative.\<close>

definition pset :: "int \<Rightarrow> int \<Rightarrow> u8 \<Rightarrow> vc_card \<Rightarrow> vc_card" where
  "pset x y col c =
    (if x < 0 \<or> y < 0 \<or> uint (vc_t_w c) \<le> x \<or> uint (vc_t_h c) \<le> y then c
     else let bits = of_int x * of_nat (vc_t_bpp c) :: u32;
              a = vc_t_addr c + of_int y * ucast (vc_t_stride c) + bits div 8
          in if vc_t_bpp c = 8 then vc_poke a col c
             else let shift = 8 - vc_t_bpp c - unat (bits AND 7);
                      mask = push_bit shift (2 ^ vc_t_bpp c - 1) :: u8
                  in vc_poke a ((vc_peek c a AND NOT mask) OR (push_bit shift col AND mask)) c)"

definition pget :: "vc_card \<Rightarrow> u32 \<Rightarrow> u32 \<Rightarrow> int \<Rightarrow> int \<Rightarrow> nat \<Rightarrow> u8" where
  "pget c base stride x y bpp =
    (let bits = of_int x * of_nat bpp :: u32;
         b = vc_peek c (base + of_int y * stride + bits div 8)
     in if bpp = 8 then b else drop_bit (8 - bpp - unat (bits AND 7)) b AND (2 ^ bpp - 1))"

definition hline :: "int \<Rightarrow> int \<Rightarrow> int \<Rightarrow> u8 \<Rightarrow> vc_card \<Rightarrow> vc_card" where
  "hline x0 x1 y col c =
    (let (x0, x1) = (if x1 < x0 then (x1, x0) else (x0, x1))
     in if y < 0 \<or> uint (vc_t_h c) \<le> y then c
        else let x0 = (if x0 < 0 then 0 else x0);
                 x1 = (if uint (vc_t_w c) \<le> x1 then uint (vc_t_w c) - 1 else x1)
             in fold (\<lambda>x. pset x y col) [x0..x1] c)"

section \<open>Lines\<close>

text \<open>The loop of \<^verbatim>\<open>line\<close> is \<^verbatim>\<open>for (;;)\<close>: that it ends is \<open>line_draws\<close> below, so the \<open>None\<close> branch of
  \<open>line\<close> is never taken.\<close>

partial_function (option) line_loop ::
    "int \<Rightarrow> int \<Rightarrow> int \<Rightarrow> int \<Rightarrow> int \<Rightarrow> int \<Rightarrow> int \<Rightarrow> int \<Rightarrow> int \<Rightarrow> vc_card \<Rightarrow> vc_card option" where
  "line_loop dx sx dy sy x1 y1 err x0 y0 c =
    (let e2 = 2 * err;
         c = pset x0 y0 (vc_color c) c
     in if x0 = x1 \<and> y0 = y1 then Some c
        else let (err, x0) = (if dy \<le> e2 then (err + dy, x0 + sx) else (err, x0));
                 (err, y0) = (if e2 \<le> dx then (err + dx, y0 + sy) else (err, y0))
             in line_loop dx sx dy sy x1 y1 err x0 y0 c)"

definition line :: "int \<Rightarrow> int \<Rightarrow> int \<Rightarrow> int \<Rightarrow> vc_card \<Rightarrow> vc_card" where
  "line x0 y0 x1 y1 c =
    (let dx = (if x0 < x1 then x1 - x0 else x0 - x1); sx = (if x0 < x1 then 1 else -1);
         dy = (if y0 < y1 then y0 - y1 else y1 - y0); sy = (if y0 < y1 then 1 else -1)
     in case line_loop dx sx dy sy x1 y1 (dx + dy) x0 y0 c of Some c' \<Rightarrow> c' | None \<Rightarrow> c)"

section \<open>Circles and triangles\<close>

definition circle_points :: "bool \<Rightarrow> int \<Rightarrow> int \<Rightarrow> int \<Rightarrow> int \<Rightarrow> vc_card \<Rightarrow> vc_card" where
  "circle_points fill cx cy x y c =
    (if fill
     then hline (cx - y) (cx + y) (cy - x) (vc_color c) (hline (cx - y) (cx + y) (cy + x) (vc_color c)
         (hline (cx - x) (cx + x) (cy - y) (vc_color c) (hline (cx - x) (cx + x) (cy + y) (vc_color c) c)))
     else fold (\<lambda>(px, py). pset px py (vc_color c))
       [(cx + x, cy + y), (cx - x, cy + y), (cx + x, cy - y), (cx - x, cy - y),
        (cx + y, cy + x), (cx - y, cy + x), (cx + y, cy - x), (cx - y, cy - x)] c)"

function circle_loop :: "bool \<Rightarrow> int \<Rightarrow> int \<Rightarrow> int \<Rightarrow> int \<Rightarrow> int \<Rightarrow> vc_card \<Rightarrow> vc_card" where
  "circle_loop fill cx cy x y err c =
    (if y \<le> x
     then let c = circle_points fill cx cy x y c; y = y + 1
          in if err < 0 then circle_loop fill cx cy x y (err + 2 * y + 1) c
             else circle_loop fill cx cy (x - 1) y (err + 2 * (y - (x - 1)) + 1) c
     else c)"
  by pat_completeness auto
termination
  by (relation "measure (\<lambda>(_, _, _, x, y, _). nat (x + 1 - y))") auto

declare circle_loop.simps [simp del]

definition circle :: "int \<Rightarrow> int \<Rightarrow> int \<Rightarrow> bool \<Rightarrow> vc_card \<Rightarrow> vc_card" where
  "circle cx cy r fill c = (if r < 0 then c else circle_loop fill cx cy r 0 (1 - r) c)"

definition edge_x :: "int \<Rightarrow> int \<Rightarrow> int \<Rightarrow> int \<Rightarrow> int \<Rightarrow> int" where
  "edge_x xa ya xb yb y =
    (if yb = ya then xa
     else let num = (y - ya) * (xb - xa) * 2 + (yb - ya)
          in xa + (if 0 \<le> num then num else num - 2 * (yb - ya) + 1) sdiv (2 * (yb - ya)))"

definition triangle :: "int \<Rightarrow> int \<Rightarrow> int \<Rightarrow> int \<Rightarrow> int \<Rightarrow> int \<Rightarrow> vc_card \<Rightarrow> vc_card" where
  "triangle x0 y0 x1 y1 x2 y2 c =
    (let (x0, y0, x1, y1) = (if y1 < y0 then (x1, y1, x0, y0) else (x0, y0, x1, y1));
         (x0, y0, x2, y2) = (if y2 < y0 then (x2, y2, x0, y0) else (x0, y0, x2, y2));
         (x1, y1, x2, y2) = (if y2 < y1 then (x2, y2, x1, y1) else (x1, y1, x2, y2))
     in fold (\<lambda>y c. let xa = edge_x x0 y0 x2 y2 y;
                        xb = (if y < y1 then edge_x x0 y0 x1 y1 y else edge_x x1 y1 x2 y2 y)
                    in hline xa xb y (vc_color c) c)
          [(if y0 < 0 then 0 else y0)..min y2 (uint (vc_t_h c) - 1)] c)"

section \<open>Commands\<close>

text \<open>Parameter bytes of each command, by opcode.\<close>

definition k_params :: "nat list" where
  "k_params = [0, 10, 1, 4, 8, 8, 8, 6, 6, 0, 9, 7, 14, 12, 4, 5]"

text \<open>The opcodes.\<close>

definition VC_C_NOP :: u8 where "VC_C_NOP = 0x00"
definition VC_C_TARGET :: u8 where "VC_C_TARGET = 0x01"
definition VC_C_COLOR :: u8 where "VC_C_COLOR = 0x02"
definition VC_C_PLOT :: u8 where "VC_C_PLOT = 0x03"
definition VC_C_LINE :: u8 where "VC_C_LINE = 0x04"
definition VC_C_RECT :: u8 where "VC_C_RECT = 0x05"
definition VC_C_FILLRECT :: u8 where "VC_C_FILLRECT = 0x06"
definition VC_C_CIRCLE :: u8 where "VC_C_CIRCLE = 0x07"
definition VC_C_DISC :: u8 where "VC_C_DISC = 0x08"
definition VC_C_CLEAR :: u8 where "VC_C_CLEAR = 0x09"
definition VC_C_COPY :: u8 where "VC_C_COPY = 0x0A"
definition VC_C_FILL :: u8 where "VC_C_FILL = 0x0B"
definition VC_C_BLIT :: u8 where "VC_C_BLIT = 0x0C"
definition VC_C_TRIANGLE :: u8 where "VC_C_TRIANGLE = 0x0D"
definition VC_C_FONT :: u8 where "VC_C_FONT = 0x0E"
definition VC_C_CHAR :: u8 where "VC_C_CHAR = 0x0F"

lemmas vc_opcodes = VC_C_NOP_def VC_C_TARGET_def VC_C_COLOR_def VC_C_PLOT_def VC_C_LINE_def VC_C_RECT_def
  VC_C_FILLRECT_def VC_C_CIRCLE_def VC_C_DISC_def VC_C_CLEAR_def VC_C_COPY_def VC_C_FILL_def VC_C_BLIT_def
  VC_C_TRIANGLE_def VC_C_FONT_def VC_C_CHAR_def

definition set_target :: "(nat \<Rightarrow> u8) \<Rightarrow> vc_card \<Rightarrow> vc_card" where
  "set_target p c =
    (let c = c\<lparr>vc_t_addr := be24 p 0, vc_t_stride := ucast (be16 p 3), vc_t_w := ucast (be16 p 5),
               vc_t_h := ucast (be16 p 7), vc_t_bpp := unat (p 9)\<rparr>
     in if vc_t_bpp c \<noteq> 1 \<and> vc_t_bpp c \<noteq> 2 \<and> vc_t_bpp c \<noteq> 4 \<and> vc_t_bpp c \<noteq> 8
        then c\<lparr>vc_t_w := 0, vc_t_h := 0, vc_t_bpp := 8\<rparr> else c)"

definition draw_rect :: "int \<Rightarrow> int \<Rightarrow> int \<Rightarrow> int \<Rightarrow> vc_card \<Rightarrow> vc_card" where
  "draw_rect x y w h c =
    (if w \<le> 0 \<or> h \<le> 0 then c
     else let col = vc_color c;
              c = hline x (x + w - 1) y col c;
              c = hline x (x + w - 1) (y + h - 1) col c
          in fold (\<lambda>j c. pset (x + w - 1) j col (pset x j col c)) [y + 1..y + h - 2] c)"

definition fill_rect :: "int \<Rightarrow> int \<Rightarrow> int \<Rightarrow> int \<Rightarrow> vc_card \<Rightarrow> vc_card" where
  "fill_rect x y w h c =
    (if w \<le> 0 \<or> h \<le> 0 then c
     else fold (\<lambda>j. hline x (x + w - 1) j (vc_color c))
       [(if y < 0 then 0 else y)..min (y + h - 1) (uint (vc_t_h c) - 1)] c)"

definition clear_target :: "vc_card \<Rightarrow> vc_card" where
  "clear_target c = fold (\<lambda>j. hline 0 (uint (vc_t_w c) - 1) j (vc_color c)) [0..uint (vc_t_h c) - 1] c"

definition copy_byte :: "u32 \<Rightarrow> u32 \<Rightarrow> nat \<Rightarrow> vc_card \<Rightarrow> vc_card" where
  "copy_byte src dst k c = vc_poke (dst + of_nat k) (vc_peek c (src + of_nat k)) c"

definition copy_bytes :: "u32 \<Rightarrow> u32 \<Rightarrow> u32 \<Rightarrow> vc_card \<Rightarrow> vc_card" where
  "copy_bytes src dst len c =
    (if src < dst \<and> dst < src + len
     then fold (copy_byte src dst) (rev [0..<unat len]) c
     else fold (copy_byte src dst) [0..<unat len] c)"

definition fill_bytes :: "u32 \<Rightarrow> u32 \<Rightarrow> u8 \<Rightarrow> vc_card \<Rightarrow> vc_card" where
  "fill_bytes dst len v c = fold (\<lambda>k. vc_poke (dst + of_nat k) v) [0..<unat len] c"

definition blit :: "u32 \<Rightarrow> u32 \<Rightarrow> int \<Rightarrow> int \<Rightarrow> int \<Rightarrow> int \<Rightarrow> bool \<Rightarrow> vc_card \<Rightarrow> vc_card" where
  "blit src stride w h x y transparent c =
    fold (\<lambda>j c. fold (\<lambda>i c. let v = pget c src stride i j (vc_t_bpp c)
                            in if \<not> (transparent \<and> v = 0) then pset (x + i) (y + j) v c else c)
           [0..w - 1] c) [0..h - 1] c"

definition draw_char :: "int \<Rightarrow> int \<Rightarrow> u8 \<Rightarrow> vc_card \<Rightarrow> vc_card" where
  "draw_char x y ch c =
    fold (\<lambda>j c. let bits = vc_peek c (vc_font c + ucast ch * ucast (vc_font_h c) + of_nat j)
                in fold (\<lambda>i c. if bits AND drop_bit i 0x80 \<noteq> 0 then pset (x + int i) (y + int j) (vc_color c) c else c)
                     [0..<8] c) [0..<unat (vc_font_h c)] c"

definition run_command :: "vc_card \<Rightarrow> vc_card" where
  "run_command c =
    (let p = (\<lambda>i. vc_cmd c ! (i + 1)); cmd = vc_cmd c ! 0
     in if cmd = VC_C_TARGET then set_target p c
        else if cmd = VC_C_COLOR then c\<lparr>vc_color := p 0\<rparr>
        else if cmd = VC_C_PLOT then pset (s16 p 0) (s16 p 2) (vc_color c) c
        else if cmd = VC_C_LINE then line (s16 p 0) (s16 p 2) (s16 p 4) (s16 p 6) c
        else if cmd = VC_C_RECT then draw_rect (s16 p 0) (s16 p 2) (s16 p 4) (s16 p 6) c
        else if cmd = VC_C_FILLRECT then fill_rect (s16 p 0) (s16 p 2) (s16 p 4) (s16 p 6) c
        else if cmd = VC_C_CIRCLE then circle (s16 p 0) (s16 p 2) (s16 p 4) False c
        else if cmd = VC_C_DISC then circle (s16 p 0) (s16 p 2) (s16 p 4) True c
        else if cmd = VC_C_CLEAR then clear_target c
        else if cmd = VC_C_COPY then copy_bytes (be24 p 0) (be24 p 3) (be24 p 6) c
        else if cmd = VC_C_FILL then fill_bytes (be24 p 0) (be24 p 3) (p 6) c
        else if cmd = VC_C_BLIT
             then blit (be24 p 0) (be16 p 3) (s16 p 5) (s16 p 7) (s16 p 9) (s16 p 11) (p 13 AND 1 \<noteq> 0) c
        else if cmd = VC_C_TRIANGLE then triangle (s16 p 0) (s16 p 2) (s16 p 4) (s16 p 6) (s16 p 8) (s16 p 10) c
        else if cmd = VC_C_FONT then c\<lparr>vc_font := be24 p 0, vc_font_h := (if p 3 \<noteq> 0 then p 3 else 16)\<rparr>
        else if cmd = VC_C_CHAR then draw_char (s16 p 0) (s16 p 2) (p 4) c
        else c)"

definition params_needed :: "u8 \<Rightarrow> nat" where
  "params_needed opc = (if unat opc < length k_params then k_params ! unat opc else 0)"

definition command_byte :: "u8 \<Rightarrow> vc_card \<Rightarrow> vc_card" where
  "command_byte v c =
    (let c = c\<lparr>vc_cmd := (vc_cmd c)[vc_cmd_len c := v], vc_cmd_len := vc_cmd_len c + 1\<rparr>
     in if params_needed (vc_cmd c ! 0) < vc_cmd_len c
        then let c = run_command c
             in c\<lparr>vc_cmd_len := 0, vc_isr := vc_isr c OR VC_IRQ_CMDDONE\<rparr>
        else c)"

section \<open>Register writes\<close>

definition vc_write :: "u8 list \<Rightarrow> u8 \<Rightarrow> u8 \<Rightarrow> vc_card \<Rightarrow> vc_card" where
  "vc_write font reg v c =
    (let r = reg AND 0x1F; p = (if VC_ADDR1_H \<le> r then 1 else 0);
         set_addr = (\<lambda>a. c\<lparr>vc_addr := (vc_addr c)(p := a)\<rparr>);
         set_inc = (\<lambda>i. c\<lparr>vc_inc := (vc_inc c)(p := i)\<rparr>)
     in if r = VC_ADDR0_H \<or> r = VC_ADDR1_H then set_addr ((vc_addr c p AND 0x00FFFF) OR push_bit 16 (ucast v))
        else if r = VC_ADDR0_M \<or> r = VC_ADDR1_M then set_addr ((vc_addr c p AND 0xFF00FF) OR push_bit 8 (ucast v))
        else if r = VC_ADDR0_L \<or> r = VC_ADDR1_L then set_addr ((vc_addr c p AND 0xFFFF00) OR ucast v)
        else if r = VC_INC0_H \<or> r = VC_INC1_H then set_inc ((vc_inc c p AND 0x00FF) OR push_bit 8 (ucast v))
        else if r = VC_INC0_L \<or> r = VC_INC1_L then set_inc ((vc_inc c p AND 0xFF00) OR ucast v)
        else if r = VC_DATA0 \<or> r = VC_DATA1 then step_port p (vc_poke (vc_addr c p) v c)
        else if r = VC_CTRL then (if v AND 0x80 \<noteq> 0 then vc_reset font c else c)
        else if r = VC_IEN then c\<lparr>vc_ien := v AND 0x0F\<rparr>
        else if r = VC_ISR then c\<lparr>vc_isr := vc_isr c AND NOT v\<rparr>
        else if r = VC_LINE_H then c\<lparr>vc_irq_line := (vc_irq_line c AND 0x00FF) OR push_bit 8 (ucast (v AND 0x03))\<rparr>
        else if r = VC_LINE_L then c\<lparr>vc_irq_line := (vc_irq_line c AND 0xFF00) OR ucast v\<rparr>
        else if r = VC_CMD then command_byte v c
        else if r = VC_IN_CTRL
             then let c = c\<lparr>vc_in_ctrl := v AND (VC_IN_POINTER OR VC_IN_KEYS)\<rparr>
                  in if v AND VC_IN_FLUSH \<noteq> 0 then c\<lparr>vc_keyq_head := 0, vc_keyq_len := 0\<rparr> else c
        else c)"

section \<open>Drawing changes memory only\<close>

text \<open>The places past the ends of the three C arrays, whose sizes are $40000, $400 and $800000 bytes, are the same.\<close>

definition outside_same :: "vc_card \<Rightarrow> vc_card \<Rightarrow> bool" where
  "outside_same c c' \<longleftrightarrow> (\<forall>i\<ge>0x40000. vc_vram c' i = vc_vram c i) \<and> (\<forall>i\<ge>0x400. vc_cfg c' i = vc_cfg c i) \<and>
     (\<forall>i\<ge>0x800000. map_option (\<lambda>m. m i) (vc_psram c') = map_option (\<lambda>m. m i) (vc_psram c))"

lemma outside_same_refl [simp]: "outside_same c c"
  by (simp add: outside_same_def)

lemma outside_same_trans: "outside_same c c' \<Longrightarrow> outside_same c' c'' \<Longrightarrow> outside_same c c''"
  by (simp add: outside_same_def)

lemma poke_inside:
  "a AND 0xFFFFFF < VC_VRAM_SIZE \<Longrightarrow> unat (a AND 0xFFFFFF) < 0x40000"
  "(a AND 0xFFFFFF) - VC_CFG_BASE < VC_CFG_SIZE \<Longrightarrow> unat ((a AND 0xFFFFFF) - VC_CFG_BASE) < 0x400"
  "VC_PSRAM_BASE \<le> a AND 0xFFFFFF \<Longrightarrow> unat ((a AND 0xFFFFFF) - VC_PSRAM_BASE) < 0x800000"
proof -
  have "a AND 0xFFFFFF \<le> 0xFFFFFF" by (rule word_and_le1)
  then have "unat (a AND 0xFFFFFF) \<le> 0xFFFFFF" by (simp add: word_le_nat_alt)
  then show "VC_PSRAM_BASE \<le> a AND 0xFFFFFF \<Longrightarrow> unat ((a AND 0xFFFFFF) - VC_PSRAM_BASE) < 0x800000"
    by (simp add: unat_sub VC_PSRAM_BASE_def word_le_nat_alt)
qed (simp_all add: vc_memory_map word_less_nat_alt)

lemma outside_same_poke [simp]: "outside_same c (vc_poke a v c)"
  using poke_inside [of a] by (cases "vc_psram c") (auto simp: outside_same_def vc_poke_def Let_def)

definition mem_only :: "vc_card \<Rightarrow> vc_card \<Rightarrow> bool" where
  "mem_only c c' \<longleftrightarrow> c'\<lparr>vc_vram := vc_vram c, vc_cfg := vc_cfg c, vc_psram := vc_psram c\<rparr> = c \<and>
     (vc_psram c' = None \<longleftrightarrow> vc_psram c = None) \<and> outside_same c c'"

lemma mem_only_refl [simp]: "mem_only c c"
  by (simp add: mem_only_def)

lemma mem_only_trans:
  assumes "mem_only c c'" "mem_only c' c''"
  shows "mem_only c c''"
proof -
  have "c''\<lparr>vc_vram := vc_vram c, vc_cfg := vc_cfg c, vc_psram := vc_psram c\<rparr> =
    (c''\<lparr>vc_vram := vc_vram c', vc_cfg := vc_cfg c', vc_psram := vc_psram c'\<rparr>)
      \<lparr>vc_vram := vc_vram c, vc_cfg := vc_cfg c, vc_psram := vc_psram c\<rparr>"
    by simp
  also have "\<dots> = c'\<lparr>vc_vram := vc_vram c, vc_cfg := vc_cfg c, vc_psram := vc_psram c\<rparr>"
    using assms(2) unfolding mem_only_def by (elim conjE) (simp only:)
  also have "\<dots> = c" using assms(1) by (simp add: mem_only_def)
  finally show ?thesis using assms outside_same_trans [of c c' c''] by (simp add: mem_only_def)
qed

lemma mem_only_poke [simp]: "mem_only c (vc_poke a v c)"
  using outside_same_poke [of c a v] unfolding mem_only_def by (simp add: vc_poke_def Let_def)

lemma mem_only_fold: "(\<And>x c. mem_only c (f x c)) \<Longrightarrow> mem_only c (fold f xs c)"
  by (induction xs arbitrary: c) (auto intro: mem_only_trans)

lemma mem_only_pset [simp]: "mem_only c (pset x y col c)"
  by (simp add: pset_def Let_def)

lemma mem_only_hline [simp]: "mem_only c (hline x0 x1 y col c)"
  by (simp add: hline_def Let_def split_beta mem_only_fold)

lemma mem_only_color: "mem_only c c' \<Longrightarrow> vc_color c' = vc_color c"
  unfolding mem_only_def by (drule conjunct1, drule arg_cong [of _ _ vc_color]) simp

section \<open>Lines\<close>

text \<open>\<open>a\<close> steps of \<open>dx\<close> and \<open>b\<close> of \<open>dy\<close> have been made, and the point is within half a pixel of the segment,
  measured along the minor axis.\<close>

definition near :: "int \<Rightarrow> int \<Rightarrow> int \<Rightarrow> int \<Rightarrow> bool" where
  "near dx dy a b \<longleftrightarrow> 0 \<le> a \<and> a \<le> dx \<and> 0 \<le> b \<and> b \<le> dy \<and> \<bar>2 * (dx * b - dy * a)\<bar> \<le> max dx dy"

lemma near_start: "0 \<le> dx \<Longrightarrow> 0 \<le> dy \<Longrightarrow> near dx dy 0 0"
  by (simp add: near_def)

lemma near_flip: "near dx dy a b \<longleftrightarrow> near dy dx b a"
  by (auto simp: near_def max.commute)

lemma near_major_end:
  assumes "near dx dy dx b" "dy \<le> dx"
  shows "b = dy"
proof (rule ccontr)
  assume "b \<noteq> dy"
  then have "1 \<le> dy - b" "0 < dx" using assms by (auto simp: near_def)
  then have "dx * 1 \<le> dx * (dy - b)" by (intro mult_left_mono) simp_all
  moreover have "- (2 * (dx * b - dy * dx)) \<le> dx"
    using assms by (simp add: near_def abs_le_iff)
  ultimately show False using \<open>0 < dx\<close> by (simp add: algebra_simps)
qed

text \<open>One iteration when \<open>dx\<close> is the longer side: the x step is always taken.\<close>

lemma near_step:
  assumes n: "near dx dy a b" and "dy \<le> dx" "a \<noteq> dx \<or> b \<noteq> dy"
  defines "err \<equiv> dx * (1 + b) - dy * (1 + a)"
  shows "- dy \<le> 2 * err \<and> near dx dy (a + 1) (if 2 * err \<le> dx then b + 1 else b)"
proof -
  have a: "a < dx" using near_major_end [of dx dy b] assms(1-3) by (cases "a = dx") (auto simp: near_def)
  have bounds: "2 * (dx * b) - 2 * (dy * a) \<le> dx" "- dx \<le> 2 * (dx * b) - 2 * (dy * a)" "0 \<le> a" "0 \<le> b" "b \<le> dy"
    using n assms(2) by (auto simp: near_def)
  have err: "err = dx + dx * b - dy - dy * a" by (simp add: err_def algebra_simps)
  have "b + 1 \<le> dy" if "2 * err \<le> dx"
  proof (rule ccontr)
    assume "\<not> b + 1 \<le> dy"
    then have "b = dy" using bounds by simp
    moreover have "dy * a \<le> dy * (dx - 1)" using a bounds by (intro mult_left_mono) simp_all
    ultimately show False using that a bounds unfolding err by (simp add: algebra_simps)
  qed
  then show ?thesis
    using bounds a assms(2) unfolding near_def err by (auto simp: algebra_simps)
qed

text \<open>The points of the loop: from one end to the other, one per step of the longer side.\<close>

definition grid :: "int \<Rightarrow> int \<Rightarrow> int \<Rightarrow> int \<Rightarrow> int \<times> int \<Rightarrow> int \<times> int" where
  "grid x0 y0 sx sy ab = (x0 + sx * fst ab, y0 + sy * snd ab)"

definition draw_points :: "(int \<times> int) list \<Rightarrow> vc_card \<Rightarrow> vc_card" where
  "draw_points pts c = fold (\<lambda>(x, y). pset x y (vc_color c)) pts c"

lemma draw_points_Cons: "draw_points (p # pts) c = draw_points pts (pset (fst p) (snd p) (vc_color c) c)"
  using mem_only_color [OF mem_only_pset] by (simp add: draw_points_def split_beta)

lemma line_loop_next:
  assumes "\<not> (x = x1 \<and> y = y1)"
  shows "line_loop dx sx (- dy) sy x1 y1 err x y c =
    line_loop dx sx (- dy) sy x1 y1 (err + (if - dy \<le> 2 * err then - dy else 0) + (if 2 * err \<le> dx then dx else 0))
      (if - dy \<le> 2 * err then x + sx else x) (if 2 * err \<le> dx then y + sy else y) (pset x y (vc_color c) c)"
  by (subst line_loop.simps, cases "- dy \<le> 2 * err"; cases "2 * err \<le> dx")
    (simp_all only: Let_def if_not_P [OF assms] prod.case if_True if_False simp_thms add_0_right)

lemma line_loop_step:
  assumes "near dx dy a b" "a \<noteq> dx \<or> b \<noteq> dy" "sx \<noteq> 0" "sy \<noteq> 0"
    "x = x0 + sx * a" "y = y0 + sy * b" "err = dx * (1 + b) - dy * (1 + a)"
  shows "\<exists>a' b'. near dx dy a' b' \<and> a \<le> a' \<and> b \<le> b' \<and> a' \<le> a + 1 \<and> b' \<le> b + 1 \<and>
    (if dy \<le> dx then a' = a + 1 else b' = b + 1) \<and>
    line_loop dx sx (- dy) sy (x0 + sx * dx) (y0 + sy * dy) err x y c =
    line_loop dx sx (- dy) sy (x0 + sx * dx) (y0 + sy * dy) (dx * (1 + b') - dy * (1 + a'))
      (x0 + sx * a') (y0 + sy * b') (pset x y (vc_color c) c)"
proof -
  let ?a' = "if - dy \<le> 2 * err then a + 1 else a" and ?b' = "if 2 * err \<le> dx then b + 1 else b"
  have "near dx dy ?a' ?b' \<and> (if dy \<le> dx then - dy \<le> 2 * err else 2 * err \<le> dx)"
  proof (cases "dy \<le> dx")
    case True
    then show ?thesis using near_step [OF assms(1) True assms(2)] by (simp add: assms(7))
  next
    case False
    have "- dx \<le> 2 * (dy * (1 + a) - dx * (1 + b)) \<and>
        near dy dx (b + 1) (if 2 * (dy * (1 + a) - dx * (1 + b)) \<le> dy then a + 1 else a)"
      using near_step [of dy dx b a] assms(1,2) False near_flip by auto
    then show ?thesis using False near_flip by (auto simp: assms(7))
  qed
  moreover have e: "dx * (1 + ?b') - dy * (1 + ?a') = err + (if - dy \<le> 2 * err then - dy else 0) + (if 2 * err \<le> dx then dx else 0)"
    by (simp add: assms(7) algebra_simps)
  moreover have xy: "x0 + sx * ?a' = (if - dy \<le> 2 * err then x + sx else x)" "y0 + sy * ?b' = (if 2 * err \<le> dx then y + sy else y)"
    by (simp_all add: assms(5,6) algebra_simps)
  moreover have noteq: "\<not> (x = x0 + sx * dx \<and> y = y0 + sy * dy)"
    using assms(2-6) by auto
  moreover have "line_loop dx sx (- dy) sy (x0 + sx * dx) (y0 + sy * dy) err x y c =
    line_loop dx sx (- dy) sy (x0 + sx * dx) (y0 + sy * dy) (dx * (1 + ?b') - dy * (1 + ?a'))
      (x0 + sx * ?a') (y0 + sy * ?b') (pset x y (vc_color c) c)"
    unfolding e xy by (rule line_loop_next [OF noteq])
  ultimately show ?thesis
    by (intro exI [of _ ?a'] exI [of _ ?b']) (auto split: if_splits)
qed

lemma line_loop_points:
  assumes "near dx dy a b" "sx \<noteq> 0" "sy \<noteq> 0"
    "x = x0 + sx * a" "y = y0 + sy * b" "err = dx * (1 + b) - dy * (1 + a)"
  shows "\<exists>abs. line_loop dx sx (- dy) sy (x0 + sx * dx) (y0 + sy * dy) err x y c =
      Some (draw_points (map (grid x0 y0 sx sy) ((a, b) # abs)) c) \<and>
    last ((a, b) # abs) = (dx, dy) \<and> list_all (\<lambda>(a, b). near dx dy a b) ((a, b) # abs) \<and>
    successively (\<lambda>(a, b) (a', b'). a \<le> a' \<and> b \<le> b' \<and> a' \<le> a + 1 \<and> b' \<le> b + 1) ((a, b) # abs) \<and>
    int (length abs) = (if dy \<le> dx then dx - a else dy - b)"
  using assms
proof (induction "nat (if dy \<le> dx then dx - a else dy - b)" arbitrary: a b x y err c rule: less_induct)
  case less
  show ?case
  proof (cases "a = dx \<and> b = dy")
    case True
    then show ?thesis
      using less.prems by (intro exI [of _ "[]"], subst line_loop.simps) (simp add: draw_points_def grid_def Let_def)
  next
    case False
    obtain a' b' where step: "near dx dy a' b'" "a \<le> a'" "b \<le> b'" "a' \<le> a + 1" "b' \<le> b + 1"
      "if dy \<le> dx then a' = a + 1 else b' = b + 1"
      "line_loop dx sx (- dy) sy (x0 + sx * dx) (y0 + sy * dy) err x y c =
       line_loop dx sx (- dy) sy (x0 + sx * dx) (y0 + sy * dy) (dx * (1 + b') - dy * (1 + a'))
         (x0 + sx * a') (y0 + sy * b') (pset x y (vc_color c) c)"
      using line_loop_step [OF less.prems(1) _ less.prems(2-6), of c] False by blast
    have "a' \<le> dx" "b' \<le> dy" using step(1) by (auto simp: near_def)
    then have "nat (if dy \<le> dx then dx - a' else dy - b') < nat (if dy \<le> dx then dx - a else dy - b)"
      using step(6) by auto
    from less.hyps [OF this step(1) less.prems(2,3) refl refl refl, of "pset x y (vc_color c) c"]
    obtain abs where abs: "line_loop dx sx (- dy) sy (x0 + sx * dx) (y0 + sy * dy) (dx * (1 + b') - dy * (1 + a'))
        (x0 + sx * a') (y0 + sy * b') (pset x y (vc_color c) c) =
        Some (draw_points (map (grid x0 y0 sx sy) ((a', b') # abs)) (pset x y (vc_color c) c))"
      "last ((a', b') # abs) = (dx, dy)" "list_all (\<lambda>(a, b). near dx dy a b) ((a', b') # abs)"
      "successively (\<lambda>(a, b) (a', b'). a \<le> a' \<and> b \<le> b' \<and> a' \<le> a + 1 \<and> b' \<le> b + 1) ((a', b') # abs)"
      "int (length abs) = (if dy \<le> dx then dx - a' else dy - b')"
      by blast
    show ?thesis
      using abs step less.prems
      by (intro exI [of _ "(a', b') # abs"])
        (auto simp: draw_points_Cons grid_def split: if_splits)
  qed
qed

lemma near_offset:
  assumes "near dx dy a b" "sx = 1 \<or> sx = -1" "sy = 1 \<or> sy = -1" "X = sx * dx" "Y = sy * dy"
  shows "\<bar>2 * (X * (y0 + sy * b - y0) - Y * (x0 + sx * a - x0))\<bar> \<le> max dx dy"
  using assms by (auto simp: near_def)

lemma line_eq:
  "line x0 y0 x1 y1 c =
    (case line_loop \<bar>x1 - x0\<bar> (if x0 < x1 then 1 else - 1) (- \<bar>y1 - y0\<bar>) (if y0 < y1 then 1 else - 1) x1 y1
       (\<bar>x1 - x0\<bar> - \<bar>y1 - y0\<bar>) x0 y0 c of Some c' \<Rightarrow> c' | None \<Rightarrow> c)"
proof -
  have "(if x0 < x1 then x1 - x0 else x0 - x1) = \<bar>x1 - x0\<bar>" "(if y0 < y1 then y0 - y1 else y1 - y0) = - \<bar>y1 - y0\<bar>"
    by simp_all
  then show ?thesis by (simp only: line_def Let_def add_uminus_conv_diff)
qed

text \<open>C34. LINE always ends, and draws the line: from its first end to its last, one pixel for every step of the
  longer side, each next to the one before, and each within half a pixel of the ideal segment.\<close>
theorem line_draws:
  "\<exists>pts. line x0 y0 x1 y1 c = draw_points pts c \<and> pts \<noteq> [] \<and> hd pts = (x0, y0) \<and> last pts = (x1, y1) \<and>
    int (length pts) = max \<bar>x1 - x0\<bar> \<bar>y1 - y0\<bar> + 1 \<and>
    successively (\<lambda>(x, y) (x', y'). \<bar>x' - x\<bar> \<le> 1 \<and> \<bar>y' - y\<bar> \<le> 1) pts \<and>
    list_all (\<lambda>(x, y). \<bar>2 * ((x1 - x0) * (y - y0) - (y1 - y0) * (x - x0))\<bar> \<le> max \<bar>x1 - x0\<bar> \<bar>y1 - y0\<bar>) pts"
proof -
  let ?dx = "\<bar>x1 - x0\<bar>" and ?dy = "\<bar>y1 - y0\<bar>" and ?sx = "if x0 < x1 then 1 else - 1 :: int" and ?sy = "if y0 < y1 then 1 else - 1 :: int"
  have x1: "x0 + ?sx * ?dx = x1" "y0 + ?sy * ?dy = y1" by auto
  have n: "near ?dx ?dy 0 0" by (simp add: near_start)
  have s: "?sx \<noteq> 0" "?sy \<noteq> 0" by simp_all
  have e: "x0 = x0 + ?sx * 0" "y0 = y0 + ?sy * 0" "?dx - ?dy = ?dx * (1 + 0) - ?dy * (1 + 0)" by simp_all
  from line_loop_points [OF n s e, of c, unfolded x1]
  obtain abs where abs: "line_loop ?dx ?sx (- ?dy) ?sy x1 y1 (?dx - ?dy) x0 y0 c =
      Some (draw_points (map (grid x0 y0 ?sx ?sy) ((0, 0) # abs)) c)"
    "last ((0, 0) # abs) = (?dx, ?dy)" "list_all (\<lambda>(a, b). near ?dx ?dy a b) ((0, 0) # abs)"
    "successively (\<lambda>(a, b) (a', b'). a \<le> a' \<and> b \<le> b' \<and> a' \<le> a + 1 \<and> b' \<le> b + 1) ((0, 0) # abs)"
    "int (length abs) = (if ?dy \<le> ?dx then ?dx - 0 else ?dy - 0)"
    by blast
  let ?pts = "map (grid x0 y0 ?sx ?sy) ((0, 0) # abs)"
  have line: "line x0 y0 x1 y1 c = draw_points ?pts c"
    using abs(1) by (simp add: line_eq)
  have diff: "x1 - x0 = ?sx * ?dx" "y1 - y0 = ?sy * ?dy" by auto
  have "list_all (\<lambda>(a, b). case grid x0 y0 ?sx ?sy (a, b) of
      (x, y) \<Rightarrow> \<bar>2 * ((x1 - x0) * (y - y0) - (y1 - y0) * (x - x0))\<bar> \<le> max ?dx ?dy) ((0, 0) # abs)"
    by (rule list.pred_mono_strong [OF abs(3)])
      (simp only: split_beta grid_def fst_conv snd_conv, rule near_offset [OF _ _ _ diff], simp_all)
  then have near: "list_all (\<lambda>(x, y). \<bar>2 * ((x1 - x0) * (y - y0) - (y1 - y0) * (x - x0))\<bar> \<le> max ?dx ?dy) ?pts"
    by (simp only: list.pred_map o_def case_prod_beta' prod.collapse)
  have steps: "successively (\<lambda>(x, y) (x', y'). \<bar>x' - x\<bar> \<le> 1 \<and> \<bar>y' - y\<bar> \<le> 1) ?pts"
    unfolding successively_map by (rule successively_mono [OF abs(4)]) (auto simp: grid_def)
  have "last ?pts = (x1, y1)"
    by (simp only: last_map list.distinct not_False_eq_True abs(2) grid_def fst_conv snd_conv x1)
  then show ?thesis
    using line near steps abs(5) by (intro exI [of _ ?pts] conjI) (simp_all add: grid_def max_def)
qed

section \<open>Copies\<close>

text \<open>The addresses memory stands behind: a write anywhere else is lost.\<close>

definition backed :: "vc_card \<Rightarrow> u32 \<Rightarrow> bool" where
  "backed c a \<longleftrightarrow> (let a = a AND 0xFFFFFF in a < VC_VRAM_SIZE \<or> a - VC_CFG_BASE < VC_CFG_SIZE \<or>
     (VC_PSRAM_BASE \<le> a \<and> vc_psram c \<noteq> None))"

lemma backed_mem_only: "mem_only c c' \<Longrightarrow> backed c' a = backed c a"
  by (simp add: mem_only_def backed_def)

lemma backed_cong: "a AND 0xFFFFFF = b AND 0xFFFFFF \<Longrightarrow> backed c a = backed c b"
  by (simp add: backed_def)

lemma peek_poke:
  "vc_peek (vc_poke a v c) b = (if backed c a \<and> a AND 0xFFFFFF = b AND 0xFFFFFF then v else vc_peek c b)"
  unfolding vc_peek_def vc_poke_def backed_def Let_def
  by (auto simp: word_unat_eq_iff [symmetric] split: option.splits)

lemma addr24: "unat x < 2 ^ 24 \<Longrightarrow> x AND 0xFFFFFF = x" for x :: u32
proof -
  assume "unat x < 2 ^ 24"
  then have "take_bit 24 x = x" by (simp add: word_unat_eq_iff unsigned_take_bit_eq take_bit_nat_eq_self)
  then show ?thesis by (simp add: take_bit_eq_mask mask_eq_exp_minus_1)
qed

lemma unat_and24: "unat (x AND 0xFFFFFF) < 2 ^ 24" for x :: u32
proof -
  have "x AND 0xFFFFFF = take_bit 24 x" by (simp add: take_bit_eq_mask mask_eq_exp_minus_1)
  then show ?thesis using take_bit_nat_less_exp [of 24 "unat x"] by (simp add: unsigned_take_bit_eq)
qed

lemma unat_plus_of_nat: "unat a + k < 2 ^ 32 \<Longrightarrow> unat (a + of_nat k) = unat a + k" for a :: u32
  by (simp add: unat_word_ariths unat_of_nat)

lemma mem_only_copy_byte [simp]: "mem_only c (copy_byte src dst k c)"
  by (simp add: copy_byte_def)

lemma peek_copy_byte:
  "vc_peek (copy_byte src dst k c) x =
    (if backed c (dst + of_nat k) \<and> (dst + of_nat k) AND 0xFFFFFF = x AND 0xFFFFFF
     then vc_peek c (src + of_nat k) else vc_peek c x)"
  unfolding copy_byte_def by (rule peek_poke)

text \<open>Bytes copied one at a time, in an order in which no byte is written before it is read.\<close>

lemma copy_fold:
  assumes "\<forall>k\<in>set ks. unat src + k < 2 ^ 24 \<and> unat dst + k < 2 ^ 24"
    and "\<forall>ps k qs. ks = ps @ k # qs \<longrightarrow> (\<forall>p\<in>set ps. unat dst + p \<noteq> unat src + k)"
  shows "vc_peek (fold (copy_byte src dst) ks c) x =
    (if unat dst \<le> unat (x AND 0xFFFFFF) \<and> unat (x AND 0xFFFFFF) - unat dst \<in> set ks \<and> backed c x
     then vc_peek c (src + of_nat (unat (x AND 0xFFFFFF) - unat dst)) else vc_peek c x)"
  using assms
proof (induction ks arbitrary: x rule: rev_induct)
  case Nil
  then show ?case by simp
next
  case (snoc k ks)
  let ?c = "fold (copy_byte src dst) ks c" and ?x = "unat (x AND 0xFFFFFF)"
  have IH: "vc_peek ?c y =
    (if unat dst \<le> unat (y AND 0xFFFFFF) \<and> unat (y AND 0xFFFFFF) - unat dst \<in> set ks \<and> backed c y
     then vc_peek c (src + of_nat (unat (y AND 0xFFFFFF) - unat dst)) else vc_peek c y)" for y
  proof (rule snoc.IH)
    show "\<forall>ps j qs. ks = ps @ j # qs \<longrightarrow> (\<forall>p\<in>set ps. unat dst + p \<noteq> unat src + j)"
      using snoc.prems(2) by (metis append.assoc append_Cons)
  qed (use snoc.prems(1) in simp)
  have k: "unat src + k < 2 ^ 24" "unat dst + k < 2 ^ 24" using snoc.prems(1) by simp_all
  then have s: "unat ((src + of_nat k) AND 0xFFFFFF) = unat src + k"
    and d: "unat ((dst + of_nat k) AND 0xFFFFFF) = unat dst + k"
    by (simp_all add: addr24 unat_plus_of_nat)
  have "unat src + k - unat dst \<notin> set ks" if "unat dst \<le> unat src + k"
    using snoc.prems(2) that by (metis le_add_diff_inverse)
  then have read: "vc_peek ?c (src + of_nat k) = vc_peek c (src + of_nat k)"
    by (auto simp: IH s)
  have hit: "(dst + of_nat k) AND 0xFFFFFF = x AND 0xFFFFFF \<longleftrightarrow> ?x = unat dst + k"
    by (metis d word_unat_eq_iff)
  have "mem_only c ?c" by (rule mem_only_fold) simp
  then have b: "backed ?c (dst + of_nat k) = backed c (dst + of_nat k)" by (rule backed_mem_only)
  show ?case
  proof (cases "?x = unat dst + k")
    case True
    then have "backed c (dst + of_nat k) = backed c x" using hit backed_cong by blast
    then show ?thesis using True hit b read IH [of x] by (simp add: peek_copy_byte)
  next
    case False
    then have "vc_peek (copy_byte src dst k ?c) x = vc_peek ?c x"
      using hit by (simp add: peek_copy_byte)
    then show ?thesis using False by (auto simp: IH)
  qed
qed

text \<open>C35. COPY is a block move: as long as neither of its two ranges runs past the end of the 24-bit address space,
  and however they overlap, each byte of the destination that has memory behind it ends up with what its source
  held before the command, and no other byte changes.\<close>
theorem copy_moves:
  assumes "unat src + unat len \<le> 2 ^ 24" "unat dst + unat len \<le> 2 ^ 24"
  shows "vc_peek (copy_bytes src dst len c) x =
    (let offset = unat (x AND 0xFFFFFF) - unat dst
     in if unat dst \<le> unat (x AND 0xFFFFFF) \<and> offset < unat len \<and> backed c x
        then vc_peek c (src + of_nat offset) else vc_peek c x)"
proof -
  have "unat (src + len) = unat src + unat len"
    using assms by (simp add: unat_word_ariths)
  then have overlap: "src < dst \<and> dst < src + len \<longleftrightarrow> unat src < unat dst \<and> unat dst < unat src + unat len"
    by (simp add: word_less_nat_alt)
  show ?thesis
  proof (cases "src < dst \<and> dst < src + len")
    case True
    have "p > k" if "rev [0..<unat len] = ps @ k # qs" "p \<in> set ps" for ps k qs p
    proof -
      have "sorted_wrt (>) (ps @ k # qs)" unfolding that(1) [symmetric] by (simp add: sorted_wrt_rev)
      then show ?thesis using that(2) by (simp add: sorted_wrt_append)
    qed
    then have order: "\<forall>ps k qs. rev [0..<unat len] = ps @ k # qs \<longrightarrow> (\<forall>p\<in>set ps. unat dst + p \<noteq> unat src + k)"
      using True unfolding overlap by fastforce
    have "copy_bytes src dst len c = fold (copy_byte src dst) (rev [0..<unat len]) c"
      unfolding copy_bytes_def by (rule if_P [OF True])
    then show ?thesis using copy_fold [OF _ order, of c x] assms by (simp add: Let_def)
  next
    case False
    have "p < k \<and> k < unat len" if "[0..<unat len] = ps @ k # qs" "p \<in> set ps" for ps k qs p
    proof -
      have "sorted_wrt (<) (ps @ k # qs)" unfolding that(1) [symmetric] by simp
      moreover have "k \<in> set [0..<unat len]" unfolding that(1) by simp
      ultimately show ?thesis using that(2) by (simp add: sorted_wrt_append)
    qed
    then have order: "\<forall>ps k qs. [0..<unat len] = ps @ k # qs \<longrightarrow> (\<forall>p\<in>set ps. unat dst + p \<noteq> unat src + k)"
      using False unfolding overlap by fastforce
    have "copy_bytes src dst len c = fold (copy_byte src dst) [0..<unat len] c"
      unfolding copy_bytes_def by (rule if_not_P [OF False])
    then show ?thesis using copy_fold [OF _ order, of c x] assms by (simp add: Let_def)
  qed
qed

text \<open>A range moved up by one byte over itself.\<close>
theorem copy_moves_witness:
  "\<forall>c. vc_peek (copy_bytes 0x100 0x101 3 c) 0x103 = vc_peek c 0x102"
  using copy_moves [of "0x100" 3 "0x101" _ "0x103"]
  by (simp add: backed_def vc_memory_map)

end
