(* ===== verification/Video_State.thy ===== *)
theory Video_State
  imports Video_Draw
begin

text \<open>
  What holds of the video card between its operations: the ring buffer of key events is a bounded first-in
  first-out queue (the locale \<open>bounded_fifo\<close>, interpreted on \<^verbatim>\<open>vc_key\<close> and the read of \<^verbatim>\<open>VC_KEY\<close>), commands
  run when they are complete, and the state is well formed (\<open>vc_inv\<close>) whatever happens to the card.
\<close>

unbundle bit_operations_syntax

section \<open>The key queue\<close>

text \<open>The entries a series of inputs makes, none of them lost.\<close>

primrec entries_made :: "('i \<Rightarrow> 's \<Rightarrow> 'e option) \<Rightarrow> ('i \<Rightarrow> 's \<Rightarrow> 's) \<Rightarrow> 'i list \<Rightarrow> 's \<Rightarrow> 'e list" where
  "entries_made entry put [] s = []"
| "entries_made entry put (i # is) s =
    (case entry i s of Some e \<Rightarrow> [e] | None \<Rightarrow> []) @ entries_made entry put is (put i s)"

text \<open>A bounded first-in first-out queue, as its clients see it: \<open>contents\<close> is what is in it, oldest first,
  \<open>put\<close> adds the entry an input makes, if it makes one, and loses it when the queue is full.\<close>

locale bounded_fifo =
  fixes valid :: "'s \<Rightarrow> bool" and contents :: "'s \<Rightarrow> 'e list" and capacity :: nat
    and entry :: "'i \<Rightarrow> 's \<Rightarrow> 'e option" and put :: "'i \<Rightarrow> 's \<Rightarrow> 's" and pop :: "'s \<Rightarrow> 's"
  assumes put_valid: "valid s \<Longrightarrow> valid (put i s)"
    and pop_valid: "valid s \<Longrightarrow> valid (pop s)"
    and contents_put: "valid s \<Longrightarrow> contents (put i s) =
      contents s @ (case entry i s of Some e \<Rightarrow> if length (contents s) < capacity then [e] else [] | None \<Rightarrow> [])"
    and contents_pop: "valid s \<Longrightarrow> contents (pop s) = tl (contents s)"
begin

lemma valid_pops: "valid s \<Longrightarrow> valid ((pop ^^ n) s)"
  by (induction n) (simp_all add: pop_valid)

lemma contents_pops: "valid s \<Longrightarrow> contents ((pop ^^ n) s) = drop n (contents s)"
  by (induction n) (simp_all add: contents_pop valid_pops drop_Suc tl_drop)

lemma valid_puts: "valid s \<Longrightarrow> valid (fold put is s)"
  by (induction "is" arbitrary: s) (simp_all add: put_valid)

lemma put_extends: "valid s \<Longrightarrow> \<exists>es. contents (put i s) = contents s @ es \<and> length es \<le> 1"
  by (simp add: contents_put split: option.split)

lemma puts_extend: "valid s \<Longrightarrow> \<exists>es. contents (fold put is s) = contents s @ es \<and> length es \<le> length is"
proof (induction "is" arbitrary: s)
  case Nil
  then show ?case by simp
next
  case (Cons i "is")
  obtain es where es: "contents (put i s) = contents s @ es" "length es \<le> 1"
    using put_extends [OF Cons.prems] by blast
  obtain es' where "contents (fold put is (put i s)) = contents (put i s) @ es'" "length es' \<le> length is"
    using Cons.IH [OF put_valid [OF Cons.prems]] by blast
  then show ?case using es by (intro exI [of _ "es @ es'"]) simp
qed

lemma contents_puts:
  "valid s \<Longrightarrow> length (contents s) + length is \<le> capacity \<Longrightarrow> contents (fold put is s) = contents s @ entries_made entry put is s"
proof (induction "is" arbitrary: s)
  case Nil
  then show ?case by simp
next
  case (Cons i "is")
  have "length (contents (put i s)) + length is \<le> capacity"
    using Cons.prems put_extends [of s i] by fastforce
  then have "contents (fold put is (put i s)) = contents (put i s) @ entries_made entry put is (put i s)"
    using Cons.IH put_valid Cons.prems(1) by blast
  then show ?case using Cons.prems by (simp add: contents_put split: option.split)
qed

end

definition keyq_ok :: "vc_card \<Rightarrow> bool" where
  "keyq_ok c \<longleftrightarrow> length (vc_keyq c) = VC_KEY_QUEUE \<and> vc_keyq_head c < VC_KEY_QUEUE \<and> vc_keyq_len c \<le> VC_KEY_QUEUE"

text \<open>What the ring buffer holds, oldest first.\<close>

definition keys :: "vc_card \<Rightarrow> (u8 \<times> u8) list" where
  "keys c = map (\<lambda>i. vc_keyq c ! ((vc_keyq_head c + i) mod VC_KEY_QUEUE)) [0..<vc_keyq_len c]"

text \<open>What an event puts in the queue: \<^verbatim>\<open>vc_key\<close> looks the character up after it has updated the modifiers.\<close>

definition key_entry :: "u8 \<times> bool \<Rightarrow> vc_card \<Rightarrow> (u8 \<times> u8) option" where
  "key_entry ev c = (case ev of (usage, down) \<Rightarrow>
     if usage = 0 then None else Some (usage, key_char (vc_key usage down c) usage OR (if down then 0 else 0x80)))"

definition pop_key :: "vc_card \<Rightarrow> vc_card" where
  "pop_key c = snd (vc_read VC_KEY c)"

lemma keyq_ok_room: "keyq_ok c \<Longrightarrow> vc_keyq_len c < VC_KEY_QUEUE \<longleftrightarrow> vc_keyq_len c \<noteq> VC_KEY_QUEUE"
  by (auto simp: keyq_ok_def)

lemma key_char_cong: "vc_mods c = vc_mods c' \<Longrightarrow> vc_caps_lock c = vc_caps_lock c' \<Longrightarrow> key_char c u = key_char c' u"
  by (simp only: key_char_def)

lemma length_keys [simp]: "length (keys c) = vc_keyq_len c"
  by (simp add: keys_def)

lemma ring_index:
  fixes h i l n :: nat
  assumes "h < n" "i < l" "l < n"
  shows "(h + i) mod n \<noteq> (h + l) mod n"
proof -
  have "m mod n = (if m < n then m else m - n)" if "m < 2 * n" for m
    using that by (simp add: mod_if)
  then show ?thesis using assms by auto
qed

lemma keys_put:
  assumes "keyq_ok c" "vc_keyq_len c < VC_KEY_QUEUE" "vc_keyq_head c' = vc_keyq_head c"
    "vc_keyq c' = (vc_keyq c)[(vc_keyq_head c + vc_keyq_len c) mod VC_KEY_QUEUE := e]"
    "vc_keyq_len c' = vc_keyq_len c + 1"
  shows "keys c' = keys c @ [e]"
proof -
  have "vc_keyq c' ! ((vc_keyq_head c + i) mod VC_KEY_QUEUE) = vc_keyq c ! ((vc_keyq_head c + i) mod VC_KEY_QUEUE)"
    if "i < vc_keyq_len c" for i
    using that assms ring_index [of "vc_keyq_head c" VC_KEY_QUEUE i "vc_keyq_len c"] by (auto simp: keyq_ok_def)
  moreover have "vc_keyq c' ! ((vc_keyq_head c + vc_keyq_len c) mod VC_KEY_QUEUE) = e"
    using assms by (auto simp: keyq_ok_def VC_KEY_QUEUE_def)
  ultimately show ?thesis using assms(3,5) by (simp add: keys_def)
qed

lemma keys_pop:
  assumes "keyq_ok c" "vc_keyq_len c \<noteq> 0" "vc_keyq_head c' = (vc_keyq_head c + 1) mod VC_KEY_QUEUE"
    "vc_keyq c' = vc_keyq c" "vc_keyq_len c' = vc_keyq_len c - 1"
  shows "keys c = vc_keyq c ! vc_keyq_head c # keys c'"
proof -
  obtain n where n: "vc_keyq_len c = Suc n" using assms(2) not0_implies_Suc by blast
  have "[0..<Suc n] = 0 # map Suc [0..<n]" by (simp add: upt_conv_Cons map_Suc_upt)
  then show ?thesis
    using assms n by (simp add: keys_def keyq_ok_def o_def mod_add_left_eq)
qed

lemma read_KEY: "vc_read VC_KEY c = read_key c" "vc_read VC_KEY_CHAR c = (vc_key_char c, c)"
  by (simp_all add: vc_read_def vc_reg_defs)

lemma vc_key_keyq:
  "keyq_ok c \<Longrightarrow> keyq_ok (vc_key u d c)"
  by (simp add: vc_key_def keyq_ok_def Let_def)

lemma keys_vc_key:
  assumes "keyq_ok c"
  shows "keys (vc_key u d c) =
    (if u = 0 \<or> vc_keyq_len c = VC_KEY_QUEUE then keys c
     else keys c @ [(u, key_char (vc_key u d c) u OR (if d then 0 else 0x80))])"
proof (cases "u = 0 \<or> vc_keyq_len c = VC_KEY_QUEUE")
  case True
  then show ?thesis by (auto simp: vc_key_def keys_def Let_def)
next
  case False
  have char: "key_char (c'\<lparr>vc_keyq := q, vc_keyq_len := l, vc_isr := i\<rparr>) u = key_char c' u" for c' q l i
    by (rule key_char_cong) simp_all
  have "keys (vc_key u d c) = keys c @ [(u, key_char (vc_key u d c) u OR (if d then 0 else 0x80))]"
    using False assms by (intro keys_put) (auto simp: vc_key_def Let_def keyq_ok_def char)
  then show ?thesis using False by (simp only: if_False)
qed

lemma keyq_ok_pop: "keyq_ok c \<Longrightarrow> keyq_ok (pop_key c)"
  by (auto simp: pop_key_def read_KEY read_key_def keyq_ok_def VC_KEY_QUEUE_def)

lemma keys_pop_key: "keyq_ok c \<Longrightarrow> keys (pop_key c) = tl (keys c)"
proof (cases "vc_keyq_len c = 0")
  case True
  then show ?thesis by (simp add: pop_key_def read_KEY read_key_def keys_def)
next
  case False
  assume "keyq_ok c"
  then have "keys c = vc_keyq c ! vc_keyq_head c # keys (pop_key c)"
    using False by (intro keys_pop) (simp_all add: pop_key_def read_KEY read_key_def)
  then show ?thesis by simp
qed

lemma read_key_hd:
  assumes "keyq_ok c" "vc_keyq_len c \<noteq> 0"
  shows "fst (vc_read VC_KEY c) = fst (hd (keys c))" "vc_key_char (pop_key c) = snd (hd (keys c))"
  using assms keys_pop [OF assms, of "pop_key c"] by (simp_all add: pop_key_def read_KEY read_key_def)

interpretation key_queue: bounded_fifo keyq_ok keys VC_KEY_QUEUE key_entry "\<lambda>(u, d). vc_key u d" pop_key
  by unfold_locales (auto simp: vc_key_keyq keyq_ok_pop keys_vc_key keys_pop_key key_entry_def keyq_ok_room)

text \<open>A program that reads the key and then its character, \<open>n\<close> times.\<close>

primrec read_keys :: "nat \<Rightarrow> vc_card \<Rightarrow> (u8 \<times> u8) list" where
  "read_keys 0 c = []"
| "read_keys (Suc n) c = (fst (vc_read VC_KEY c), fst (vc_read VC_KEY_CHAR (pop_key c))) # read_keys n (pop_key c)"

lemma read_keys_take: "keyq_ok c \<Longrightarrow> n \<le> vc_keyq_len c \<Longrightarrow> read_keys n c = take n (keys c)"
proof (induction n arbitrary: c)
  case 0
  then show ?case by simp
next
  case (Suc n)
  then have "vc_keyq_len c \<noteq> 0" by simp
  then obtain k ks where ks: "keys c = k # ks" by (metis length_keys list.size(3) neq_Nil_conv)
  then have "keys (pop_key c) = ks" using Suc.prems(1) keys_pop_key by simp
  moreover then have "n \<le> vc_keyq_len (pop_key c)" using ks Suc.prems(2) by (metis Suc_le_mono length_Cons length_keys)
  ultimately show ?case
    using Suc.IH [OF keyq_ok_pop [OF Suc.prems(1)]] read_key_hd [OF Suc.prems(1) \<open>vc_keyq_len c \<noteq> 0\<close>] ks
    by (simp add: read_KEY)
qed

text \<open>C11. The ring buffer of key events is a first-in first-out queue of 32: an event is put at its end, or lost
  when it is full, and a read of the key register takes the oldest away, or gives 0 when there is none, and
  leaves the key's character in the next register.\<close>
theorem key_queue_refines:
  assumes "keyq_ok c"
  shows "keys (vc_key u d c) =
      (if u = 0 \<or> length (keys c) = 32 then keys c
       else keys c @ [(u, key_char (vc_key u d c) u OR (if d then 0 else 0x80))]) \<and>
    (case keys c of
       [] \<Rightarrow> fst (vc_read VC_KEY c) = 0 \<and> keys (snd (vc_read VC_KEY c)) = []
     | (k, ch) # ks \<Rightarrow> fst (vc_read VC_KEY c) = k \<and> keys (snd (vc_read VC_KEY c)) = ks \<and>
         fst (vc_read VC_KEY_CHAR (snd (vc_read VC_KEY c))) = ch)"
proof -
  have "vc_keyq_len c = 0 \<Longrightarrow> fst (vc_read VC_KEY c) = 0" by (simp add: read_KEY read_key_def)
  moreover have "keys c = [] \<longleftrightarrow> vc_keyq_len c = 0" by (metis length_0_conv length_keys)
  ultimately show ?thesis
    using keys_vc_key [OF assms] keys_pop_key [OF assms] read_key_hd [OF assms]
    by (auto simp: VC_KEY_QUEUE_def pop_key_def read_KEY split: list.split)
qed

section \<open>What a command may change\<close>
lemma mem_only_draw_points: "mem_only c (draw_points pts c)"
  unfolding draw_points_def by (rule mem_only_fold) (simp add: split_beta)

lemma mem_only_line [simp]: "mem_only c (line x0 y0 x1 y1 c)"
proof -
  obtain pts where "line x0 y0 x1 y1 c = draw_points pts c"
    using line_draws by metis
  then show ?thesis by (simp add: mem_only_draw_points)
qed

lemma mem_only_hline2: "mem_only c c' \<Longrightarrow> mem_only c (hline x0 x1 y col c')"
  by (rule mem_only_trans [OF _ mem_only_hline])

lemma mem_only_circle_points: "mem_only c (circle_points fill cx cy x y c)"
proof (cases fill)
  case True
  then show ?thesis by (simp add: circle_points_def mem_only_hline2)
next
  case False
  then show ?thesis
    unfolding circle_points_def if_not_P [OF False] by (intro mem_only_fold) (simp add: split_beta)
qed

lemma mem_only_circle_loop: "mem_only c (circle_loop fill cx cy x y err c)"
proof (induction fill cx cy x y err c rule: circle_loop.induct)
  case (1 fill cx cy x y err c)
  show ?case
  proof (cases "y \<le> x")
    case True
    let ?c = "circle_points fill cx cy x y c"
    have "mem_only ?c (circle_loop fill cx cy x y err c)"
      using 1(1) [OF True refl refl] 1(2) [OF True refl refl] True by (subst circle_loop.simps) (simp add: Let_def)
    then show ?thesis by (rule mem_only_trans [OF mem_only_circle_points])
  next
    case False
    then show ?thesis by (subst circle_loop.simps) simp
  qed
qed

lemma mem_only_circle [simp]: "mem_only c (circle cx cy r fill c)"
  by (simp add: circle_def mem_only_circle_loop)

lemma mem_only_triangle [simp]: "mem_only c (triangle x0 y0 x1 y1 x2 y2 c)"
  by (simp add: triangle_def split_beta Let_def mem_only_fold del: fold_append)

lemma mem_only_draw_rect [simp]: "mem_only c (draw_rect x y w h c)"
proof -
  have sides: "mem_only c (fold (\<lambda>j c. pset (x + w - 1) j col (pset x j col c)) js c)" for js col c
    by (rule mem_only_fold) (rule mem_only_trans [OF mem_only_pset mem_only_pset])
  show ?thesis
  proof (cases "w \<le> 0 \<or> h \<le> 0")
    case True
    then show ?thesis by (simp add: draw_rect_def)
  next
    case False
    show ?thesis
      unfolding draw_rect_def Let_def if_not_P [OF False]
      by (rule mem_only_trans [OF mem_only_hline2 [OF mem_only_hline] sides])
  qed
qed

lemma mem_only_fill_rect [simp]: "mem_only c (fill_rect x y w h c)"
  by (simp add: fill_rect_def mem_only_fold)

lemma mem_only_clear_target [simp]: "mem_only c (clear_target c)"
  by (simp add: clear_target_def mem_only_fold)

lemma mem_only_copy_bytes [simp]: "mem_only c (copy_bytes src dst len c)"
  unfolding copy_bytes_def by (auto intro: mem_only_fold)

lemma mem_only_fill_bytes [simp]: "mem_only c (fill_bytes dst len v c)"
  by (simp add: fill_bytes_def mem_only_fold)

lemma mem_only_blit [simp]: "mem_only c (blit src stride w h x y transparent c)"
  unfolding blit_def by (intro mem_only_fold) (simp add: Let_def)

lemma mem_only_draw_char [simp]: "mem_only c (draw_char x y ch c)"
  unfolding draw_char_def Let_def by (intro mem_only_fold) (simp add: mem_only_fold)

section \<open>The card's invariant\<close>

text \<open>Every index is inside its array and every field inside the range the code keeps it in, the last clause
  being that a command in the buffer is not complete: it runs as soon as it is.\<close>

definition vc_ok :: "vc_card \<Rightarrow> bool" where
  "vc_ok c \<longleftrightarrow> keyq_ok c \<and> length (vc_cmd c) = 16 \<and> vc_t_bpp c \<in> {1, 2, 4, 8} \<and> vc_font_h c \<noteq> 0 \<and>
     (\<forall>p. vc_addr c p AND 0xFFFFFF = vc_addr c p) \<and>
     vc_ien c AND 0x0F = vc_ien c \<and> vc_isr c AND 0x0F = vc_isr c \<and> vc_in_ctrl c AND 0x03 = vc_in_ctrl c \<and>
     vc_irq_line c AND 0x03FF = vc_irq_line c \<and> - 128 \<le> vc_wheel c \<and> vc_wheel c \<le> 127 \<and>
     unat (vc_mouse_x c) < VC_WIDTH \<and> unat (vc_mouse_y c) < VC_HEIGHT \<and>
     unat (vc_snap_x c) < VC_WIDTH \<and> unat (vc_snap_y c) < VC_HEIGHT"

definition vc_inv :: "vc_card \<Rightarrow> bool" where
  "vc_inv c \<longleftrightarrow> vc_ok c \<and> (vc_cmd_len c = 0 \<or> vc_cmd_len c \<le> params_needed (vc_cmd c ! 0))"

lemma vc_ok_mem:
  assumes "mem_only c c'" "vc_ok c"
  shows "vc_ok c'"
proof -
  have "vc_ok (c'\<lparr>vc_vram := v, vc_cfg := f, vc_psram := p\<rparr>) = vc_ok c'" for v f p
    by (simp add: vc_ok_def keyq_ok_def)
  then show ?thesis using assms by (metis mem_only_def)
qed

lemma vc_ok_poke: "vc_ok c \<Longrightarrow> vc_ok (vc_poke a v c)"
  by (rule vc_ok_mem) simp_all

lemma params_needed_le: "params_needed opc \<le> 14"
proof (cases "unat opc < length k_params")
  case True
  have "\<forall>n\<in>set k_params. n \<le> 14" by (simp add: k_params_def)
  then show ?thesis using True by (simp add: params_needed_def)
next
  case False
  then show ?thesis by (simp add: params_needed_def)
qed

lemma vc_ok_set_target: "vc_ok c \<Longrightarrow> vc_ok (set_target p c)"
  by (auto simp: set_target_def vc_ok_def keyq_ok_def Let_def)

lemma vc_ok_if: "vc_ok c \<Longrightarrow> vc_ok c' \<Longrightarrow> vc_ok (if b then c else c')"
  by simp

lemma vc_ok_run_command:
  assumes "vc_ok c"
  shows "vc_ok (run_command c)"
proof -
  have "vc_ok (c\<lparr>vc_color := col\<rparr>)" "vc_ok (c\<lparr>vc_font := a, vc_font_h := if h \<noteq> 0 then h else 16\<rparr>)" for col a h
    using assms by (simp_all add: vc_ok_def keyq_ok_def)
  moreover have "vc_ok c'" if "mem_only c c'" for c'
    using vc_ok_mem [OF that assms] .
  ultimately show ?thesis
    unfolding run_command_def Let_def using assms
    by (intro vc_ok_if) (simp_all only: mem_only_line mem_only_pset mem_only_draw_rect mem_only_fill_rect
      mem_only_circle mem_only_clear_target mem_only_copy_bytes mem_only_fill_bytes mem_only_blit mem_only_triangle
      mem_only_draw_char vc_ok_set_target)
qed

lemma in_mask_or: "x AND m = x \<Longrightarrow> y AND m = y \<Longrightarrow> (x OR y) AND m = x OR y" for x :: "'a::len word"
  by (simp add: bit.conj_disj_distrib2)

lemma in_mask_and: "x AND m = x \<Longrightarrow> (x AND y) AND m = x AND y" for x :: "'a::len word"
  by (metis and.assoc and.commute)

lemma in_mask_of_and: "a AND m = a \<Longrightarrow> (x AND a) AND m = x AND a" for x :: "'a::len word"
  by (simp add: and.assoc)

lemma vc_ok_or_isr: "vc_ok c \<Longrightarrow> b AND 0x0F = b \<Longrightarrow> vc_ok (c\<lparr>vc_isr := vc_isr c OR b\<rparr>)"
  by (simp add: vc_ok_def keyq_ok_def in_mask_or)

lemma command_step:
  "command_byte v c =
    (let c' = c\<lparr>vc_cmd := (vc_cmd c)[vc_cmd_len c := v], vc_cmd_len := vc_cmd_len c + 1\<rparr>
     in if params_needed (vc_cmd c' ! 0) < vc_cmd_len c'
        then (run_command c')\<lparr>vc_cmd_len := 0, vc_isr := vc_isr (run_command c') OR VC_IRQ_CMDDONE\<rparr> else c')"
  by (simp add: command_byte_def Let_def)

lemma vc_inv_command_byte:
  assumes "vc_inv c"
  shows "vc_inv (command_byte v c)"
proof -
  let ?c = "c\<lparr>vc_cmd := (vc_cmd c)[vc_cmd_len c := v], vc_cmd_len := vc_cmd_len c + 1\<rparr>"
  have ok: "vc_ok ?c" using assms by (simp add: vc_inv_def vc_ok_def keyq_ok_def)
  show ?thesis
  proof (cases "params_needed (vc_cmd ?c ! 0) < vc_cmd_len ?c")
    case True
    have "vc_ok ((run_command ?c)\<lparr>vc_isr := vc_isr (run_command ?c) OR VC_IRQ_CMDDONE\<rparr>)"
      using vc_ok_run_command [OF ok] by (rule vc_ok_or_isr) (simp add: VC_IRQ_CMDDONE_def)
    then have "vc_ok (command_byte v c)"
      unfolding command_step Let_def if_P [OF True] by (simp add: vc_ok_def keyq_ok_def)
    moreover have "vc_cmd_len (command_byte v c) = 0"
      unfolding command_step Let_def if_P [OF True] by simp
    ultimately show ?thesis by (simp add: vc_inv_def)
  next
    case False
    then have "vc_inv ?c" using ok by (simp only: vc_inv_def not_less simp_thms)
    then show ?thesis unfolding command_step Let_def if_not_P [OF False] .
  qed
qed

section \<open>Everything that can happen to a card\<close>

datatype card_event =
  Read_Reg u8
| Write_Reg u8 u8
| Key u8 bool
| Mouse_To int int u8
| Mouse_By int int u8
| Mouse_Wheel int
| Begin_Line u16
| Reset_Card

primrec card_step :: "u8 list \<Rightarrow> card_event \<Rightarrow> vc_card \<Rightarrow> vc_card" where
  "card_step font (Read_Reg reg) c = snd (vc_read reg c)"
| "card_step font (Write_Reg reg v) c = vc_write font reg v c"
| "card_step font (Key usage down) c = vc_key usage down c"
| "card_step font (Mouse_To x y buttons) c = vc_mouse_to x y buttons c"
| "card_step font (Mouse_By dx dy buttons) c = vc_mouse_by dx dy buttons c"
| "card_step font (Mouse_Wheel clicks) c = vc_mouse_wheel clicks c"
| "card_step font (Begin_Line ln) c = vc_begin_line ln c"
| "card_step font Reset_Card c = vc_reset font c"

text \<open>The card as its owner allocates it, all zeroes (\<^verbatim>\<open>calloc\<close>) but for the memory attached to it.\<close>

definition blank_card :: "(nat \<Rightarrow> u8) option \<Rightarrow> vc_card" where
  "blank_card psram =
    \<lparr>vc_vram = (\<lambda>_. 0), vc_cfg = (\<lambda>_. 0), vc_psram = psram, vc_addr = (\<lambda>_. 0), vc_inc = (\<lambda>_. 0),
     vc_ien = 0, vc_isr = 0, vc_frame = 0, vc_line = 0, vc_irq_line = 0, vc_cmd = replicate 16 0, vc_cmd_len = 0,
     vc_t_addr = 0, vc_t_stride = 0, vc_t_w = 0, vc_t_h = 0, vc_t_bpp = 0, vc_color = 0, vc_font = 0, vc_font_h = 0,
     vc_in_ctrl = 0, vc_mouse_x = 0, vc_mouse_y = 0, vc_snap_x = 0, vc_snap_y = 0, vc_buttons = 0, vc_wheel = 0,
     vc_mods = 0, vc_caps_lock = False, vc_key_char = 0, vc_keyq = replicate 32 (0, 0), vc_keyq_head = 0, vc_keyq_len = 0\<rparr>"

definition new_card :: "u8 list \<Rightarrow> (nat \<Rightarrow> u8) option \<Rightarrow> vc_card" where
  "new_card font psram = vc_reset font (blank_card psram)"

lemma vc_inv_reset: "vc_inv c \<Longrightarrow> vc_inv (vc_reset font c)"
  by (simp add: vc_inv_def vc_ok_def keyq_ok_def vc_reset_def VC_KEY_QUEUE_def)

lemma vc_inv_new: "vc_inv (new_card font psram)"
  by (simp add: new_card_def blank_card_def vc_inv_def vc_ok_def keyq_ok_def vc_reset_def VC_KEY_QUEUE_def VC_WIDTH_def VC_HEIGHT_def)

lemma vc_inv_step_port: "vc_inv c \<Longrightarrow> vc_inv (step_port p c)"
  by (simp add: step_port_def vc_inv_def vc_ok_def keyq_ok_def and.assoc)

lemma vc_inv_read_key: "vc_inv c \<Longrightarrow> vc_inv (snd (read_key c))"
  using keyq_ok_pop [of c] by (auto simp: read_key_def vc_inv_def vc_ok_def keyq_ok_def pop_key_def read_KEY)

lemma vc_inv_snd_if: "vc_inv (snd x) \<Longrightarrow> vc_inv (snd y) \<Longrightarrow> vc_inv (snd (if b then x else y))"
  by simp

lemma vc_inv_read:
  assumes "vc_inv c"
  shows "vc_inv (snd (vc_read reg c))"
proof -
  have "vc_inv (c\<lparr>vc_snap_x := vc_mouse_x c, vc_snap_y := vc_mouse_y c\<rparr>)" "vc_inv (c\<lparr>vc_wheel := 0\<rparr>)"
    using assms by (simp_all add: vc_inv_def vc_ok_def keyq_ok_def)
  then show ?thesis
    unfolding vc_read_def Let_def
    by (intro vc_inv_snd_if) (simp_all only: snd_conv assms vc_inv_read_key read_data_def vc_inv_step_port)
qed

lemma in24:
  "(x AND 0x00FFFF) OR push_bit 16 (ucast v) = ((x AND 0x00FFFF) OR push_bit 16 (ucast v)) AND 0xFFFFFF"
  "((x AND 0xFF00FF) OR push_bit 8 (ucast v)) = ((x AND 0xFF00FF) OR push_bit 8 (ucast v)) AND 0xFFFFFF"
  "((x AND 0xFFFF00) OR ucast v) = ((x AND 0xFFFF00) OR ucast v) AND 0xFFFFFF"
  for x :: u32 and v :: u8
proof -
  have v: "push_bit k (ucast v) AND 0xFFFFFF = (push_bit k (ucast v) :: u32)" if "k \<le> 16" for k
  proof -
    have "take_bit 24 (push_bit k (ucast v)) = (push_bit k (ucast v) :: u32)"
      using that by (intro bit_word_eqI) (auto simp: bit_simps dest: bit_imp_le_length)
    then show ?thesis by (simp add: take_bit_eq_mask mask_eq_exp_minus_1)
  qed
  show
  "(x AND 0x00FFFF) OR push_bit 16 (ucast v) = ((x AND 0x00FFFF) OR push_bit 16 (ucast v)) AND 0xFFFFFF"
  "((x AND 0xFF00FF) OR push_bit 8 (ucast v)) = ((x AND 0xFF00FF) OR push_bit 8 (ucast v)) AND 0xFFFFFF"
  "((x AND 0xFFFF00) OR ucast v) = ((x AND 0xFFFF00) OR ucast v) AND 0xFFFFFF"
    using v [of 0] by (simp_all add: in_mask_or in_mask_of_and v)
qed

lemma in16:
  "((x AND 0x00FF) OR push_bit 8 (ucast (v AND 3))) AND 0x03FF = (x AND 0x00FF) OR push_bit 8 (ucast (v AND 3))"
  "y AND 0x03FF = y \<Longrightarrow> ((y AND 0xFF00) OR ucast v) AND 0x03FF = (y AND 0xFF00) OR ucast v"
  for x y :: u16 and v :: u8
proof -
  have "take_bit 8 (ucast v) = (ucast v :: u16)"
    by (intro bit_word_eqI) (auto simp: bit_simps dest: bit_imp_le_length)
  then have v8: "ucast v AND 0xFF = (ucast v :: u16)"
    by (simp add: take_bit_eq_mask mask_eq_exp_minus_1)
  have "(ucast v AND 0xFF) AND 0x03FF = (ucast v AND 0xFF :: u16)"
    by (rule in_mask_of_and) simp
  then have v: "ucast v AND 0x03FF = (ucast v :: u16)"
    unfolding v8 .
  show "((x AND 0x00FF) OR push_bit 8 (ucast (v AND 3))) AND 0x03FF = (x AND 0x00FF) OR push_bit 8 (ucast (v AND 3))"
    by (intro in_mask_or) (simp_all add: and.assoc unsigned_and_eq push_bit_and)
  show "((y AND 0xFF00) OR ucast v) AND 0x03FF = (y AND 0xFF00) OR ucast v" if "y AND 0x03FF = y"
    using that by (intro in_mask_or in_mask_and v)
qed

lemma vc_inv_poke: "vc_inv c \<Longrightarrow> vc_inv (vc_poke a v c)"
  by (simp add: vc_inv_def vc_ok_poke)

lemma vc_inv_if: "vc_inv c \<Longrightarrow> vc_inv c' \<Longrightarrow> vc_inv (if b then c else c')"
  by simp

lemma vc_inv_addr: "vc_inv c \<Longrightarrow> a AND 0xFFFFFF = a \<Longrightarrow> vc_inv (c\<lparr>vc_addr := (vc_addr c)(p := a)\<rparr>)"
  by (simp add: vc_inv_def vc_ok_def keyq_ok_def)

lemma vc_inv_write:
  assumes "vc_inv c"
  shows "vc_inv (vc_write font reg v c)"
proof -
  have "vc_inv (c\<lparr>vc_inc := f\<rparr>)" "vc_inv (c\<lparr>vc_ien := v AND 0x0F\<rparr>)" "vc_inv (c\<lparr>vc_isr := vc_isr c AND NOT v\<rparr>)"
    "vc_inv (c\<lparr>vc_irq_line := (vc_irq_line c AND 0x00FF) OR push_bit 8 (ucast (v AND 0x03))\<rparr>)"
    "vc_inv (c\<lparr>vc_irq_line := (vc_irq_line c AND 0xFF00) OR ucast v\<rparr>)"
    "vc_inv (c\<lparr>vc_in_ctrl := v AND (VC_IN_POINTER OR VC_IN_KEYS)\<rparr>)"
    "vc_inv (c\<lparr>vc_in_ctrl := v AND (VC_IN_POINTER OR VC_IN_KEYS), vc_keyq_head := 0, vc_keyq_len := 0\<rparr>)" for f
    using assms
    by (simp_all add: vc_inv_def vc_ok_def keyq_ok_def in_mask_and in16 VC_IN_POINTER_def VC_IN_KEYS_def VC_KEY_QUEUE_def)
  note fields = this vc_inv_reset [OF assms, of font] vc_inv_command_byte [OF assms, of v] assms
    vc_inv_step_port [OF vc_inv_poke [OF assms]] vc_inv_addr [OF assms in24(1) [symmetric]]
    vc_inv_addr [OF assms in24(2) [symmetric]] vc_inv_addr [OF assms in24(3) [symmetric]]
  show ?thesis
    unfolding vc_write_def Let_def by (intro vc_inv_if) (simp_all only: fields vc_card.simps)
qed

lemma vc_inv_key: "vc_inv c \<Longrightarrow> vc_inv (vc_key u d c)"
proof -
  assume inv: "vc_inv c"
  have "keyq_ok (vc_key u d c)" using inv vc_key_keyq by (simp add: vc_inv_def vc_ok_def)
  moreover have "vc_isr (vc_key u d c) AND 0x0F = vc_isr (vc_key u d c)"
    using inv by (simp add: vc_key_def Let_def vc_inv_def vc_ok_def in_mask_or VC_IRQ_INPUT_def)
  ultimately show ?thesis
    using inv unfolding vc_inv_def vc_ok_def by (simp add: vc_key_def Let_def)
qed

lemma vc_inv_mouse_to: "vc_inv c \<Longrightarrow> vc_inv (vc_mouse_to x y b c)"
proof -
  assume inv: "vc_inv c"
  have pos: "unat (of_int (clamp x (int n - 1)) :: u16) < n" if "0 < n" "n < 2 ^ 16" for x n
    using that by (auto simp: clamp_def Let_def unat_eq_nat_uint uint_word_of_int)
  show ?thesis
    using inv pos [of 640 x] pos [of 480 y] by (simp add: vc_mouse_to_def Let_def vc_inv_def vc_ok_def keyq_ok_def in_mask_or VC_IRQ_INPUT_def
      VC_WIDTH_def VC_HEIGHT_def)
qed

lemma vc_inv_mouse_wheel: "vc_inv c \<Longrightarrow> vc_inv (vc_mouse_wheel k c)"
  by (simp add: vc_mouse_wheel_def Let_def vc_inv_def vc_ok_def keyq_ok_def in_mask_or VC_IRQ_INPUT_def)

lemma vc_inv_begin_line: "vc_inv c \<Longrightarrow> vc_inv (vc_begin_line ln c)"
  by (simp add: vc_begin_line_def move_pointer_def Let_def vc_inv_def vc_ok_def keyq_ok_def in_mask_or
      VC_IRQ_VSYNC_def VC_IRQ_LINE_def)

lemma vc_inv_step: "vc_inv c \<Longrightarrow> vc_inv (card_step font e c)"
  by (cases e) (simp_all add: vc_inv_read vc_inv_write vc_inv_key vc_inv_mouse_to vc_mouse_by_def
    vc_inv_mouse_wheel vc_inv_begin_line vc_inv_reset)

lemma vc_inv_steps: "vc_inv c \<Longrightarrow> vc_inv (fold (card_step font) es c)"
  by (induction es arbitrary: c) (simp_all add: vc_inv_step)

section \<open>The arrays\<close>

lemma outside_same_fields [simp]:
  "outside_same c (c'\<lparr>vc_addr := f\<rparr>) = outside_same c c'" "outside_same c (c'\<lparr>vc_inc := g\<rparr>) = outside_same c c'"
  "outside_same c (c'\<lparr>vc_isr := b\<rparr>) = outside_same c c'" "outside_same c (c'\<lparr>vc_ien := b\<rparr>) = outside_same c c'"
  "outside_same c (c'\<lparr>vc_irq_line := w\<rparr>) = outside_same c c'" "outside_same c (c'\<lparr>vc_in_ctrl := b\<rparr>) = outside_same c c'"
  "outside_same c (c'\<lparr>vc_cmd_len := n\<rparr>) = outside_same c c'" "outside_same c (c'\<lparr>vc_color := b\<rparr>) = outside_same c c'"
  "outside_same c (c'\<lparr>vc_cmd := l\<rparr>) = outside_same c c'" "outside_same c (c'\<lparr>vc_font := a\<rparr>) = outside_same c c'"
  "outside_same c (c'\<lparr>vc_font_h := b\<rparr>) = outside_same c c'" "outside_same c (c'\<lparr>vc_keyq_head := n\<rparr>) = outside_same c c'"
  "outside_same c (c'\<lparr>vc_keyq_len := n\<rparr>) = outside_same c c'" "outside_same c (c'\<lparr>vc_line := w\<rparr>) = outside_same c c'"
  "outside_same c (c'\<lparr>vc_frame := b\<rparr>) = outside_same c c'"
  by (simp_all add: outside_same_def)

lemma outside_same_if: "outside_same c x \<Longrightarrow> outside_same c y \<Longrightarrow> outside_same c (if b then x else y)"
  by simp

lemma outside_same_mem: "mem_only c c' \<Longrightarrow> outside_same c c'"
  by (simp add: mem_only_def)

lemma outside_same_target: "outside_same c (set_target p c)"
  by (simp add: set_target_def outside_same_def Let_def)

lemma outside_same_command: "outside_same c (run_command c)"
  unfolding run_command_def Let_def
  by (intro outside_same_if) (simp_all add: outside_same_mem outside_same_target)

lemma outside_same_command_byte: "outside_same c (command_byte v c)"
proof -
  have "outside_same c (run_command (c\<lparr>vc_cmd := l, vc_cmd_len := n\<rparr>))" for l n
    using outside_same_trans [OF _ outside_same_command] by simp
  then show ?thesis unfolding command_byte_def Let_def by (intro outside_same_if) simp_all
qed

lemma outside_same_write:
  assumes "vc_write font reg v c \<noteq> vc_reset font c"
  shows "outside_same c (vc_write font reg v c)"
proof -
  have either: "outside_same c (if b then x else y) \<or> (if b then x else y) = r"
    if "outside_same c x \<or> x = r" "outside_same c y \<or> y = r" for b x y r
    using that by simp
  have "outside_same c (vc_write font reg v c) \<or> vc_write font reg v c = vc_reset font c"
    unfolding vc_write_def Let_def by (intro either) (simp_all add: step_port_def outside_same_command_byte)
  then show ?thesis using assms by blast
qed

lemma outside_same_read: "outside_same c (snd (vc_read reg c))"
proof -
  have read: "outside_same c (snd (if b then x else y))" if "outside_same c (snd x)" "outside_same c (snd y)" for b and x y :: "u8 \<times> vc_card"
    using that by simp
  show ?thesis
    unfolding vc_read_def Let_def
    by (intro read) (simp_all add: read_data_def step_port_def read_key_def, simp_all add: outside_same_def)
qed

lemma outside_same_input:
  "outside_same c (vc_key u d c)" "outside_same c (vc_mouse_to x y b c)" "outside_same c (vc_mouse_wheel k c)"
  by (simp_all add: vc_key_def vc_mouse_to_def vc_mouse_wheel_def outside_same_def Let_def)

lemma vram_index: "0x40000 \<le> i \<Longrightarrow> i \<noteq> unat (a AND VRAM_MASK)"
proof -
  have "a AND VRAM_MASK \<le> 0x3FFFF" using word_and_le1 [of a "0x3FFFF"] by (simp add: vc_memory_map)
  then have "unat (a AND VRAM_MASK) < 0x40000" by (simp add: word_le_nat_alt)
  then show "0x40000 \<le> i \<Longrightarrow> i \<noteq> unat (a AND VRAM_MASK)" by linarith
qed

lemma outside_same_begin_line: "outside_same c (vc_begin_line ln c)"
proof -
  have "outside_same c (move_pointer (c\<lparr>vc_line := w, vc_isr := b, vc_frame := f\<rparr>))" for w b f
    by (simp add: move_pointer_def outside_same_def Let_def vram_index)
  then show ?thesis unfolding vc_begin_line_def Let_def by (intro outside_same_if) simp_all
qed

text \<open>Nothing of a card's arrays has been written past their ends, where they were allocated as zeroes.\<close>

definition clean :: "(nat \<Rightarrow> u8) option \<Rightarrow> vc_card \<Rightarrow> bool" where
  "clean psram c \<longleftrightarrow> outside_same (blank_card psram) c"

lemma set_color_inside: "i < 256 \<Longrightarrow> 0x400 \<le> k \<Longrightarrow> set_color i r g b cfg k = cfg k"
  by (simp add: set_color_def PAL_OFFSET_def Let_def)

lemma fold_at: "m k = v \<Longrightarrow> (\<And>x m. x \<in> set xs \<Longrightarrow> f x m k = m k) \<Longrightarrow> fold f xs m k = v"
  by (induction xs arbitrary: m) simp_all

lemma reset_palette_inside:
  assumes "0x400 \<le> k"
  shows "reset_palette cfg k = cfg k"
proof -
  have 1: "fold (\<lambda>i. case base16 ! i of (r, g, b) \<Rightarrow> set_color i r g b) [0..<16] cfg k = cfg k" for cfg
    using assms by (intro fold_at) (simp_all add: set_color_inside split: prod.split)
  have 2: "fold (\<lambda>i. set_color (16 + i) (f i) (g i) (h i)) [0..<216] cfg k = cfg k" for cfg f g h
    using assms by (intro fold_at) (simp_all add: set_color_inside)
  have 3: "fold (\<lambda>i. set_color (232 + i) (f i) (g i) (h i)) [0..<24] cfg k = cfg k" for cfg f g h
    using assms by (intro fold_at) (simp_all add: set_color_inside)
  show ?thesis unfolding reset_palette_def Let_def 3 2 1 ..
qed

lemma reset_cfg_inside: "0x400 \<le> k \<Longrightarrow> reset_cfg k = 0"
  by (simp add: reset_cfg_def put24_def Let_def VC_DC_CTRL_def VC_SPR_COUNT_def VC_SPR_BASE_def VC_LAYER0_def
      VC_L_MODE_def VC_L_MAP_def VC_L_MAPBASE_def VC_L_TILEBASE_def reset_palette_inside)

lemma reset_vram_inside:
  assumes "length font \<le> 0x1000" "0x40000 \<le> k"
  shows "reset_vram font k = 0"
proof -
  have f: "fold (\<lambda>i v. v(unat VC_RESET_FONT + i := font ! i)) [0..<length font] (\<lambda>_. 0) k = 0"
    using assms by (intro fold_at) (simp_all add: VC_RESET_FONT_def)
  show ?thesis
    unfolding reset_vram_def Let_def using assms(2) by (intro fold_at f) (simp add: VC_RESET_TEXT_MAP_def)
qed

lemma clean_reset: "length font \<le> 0x1000 \<Longrightarrow> clean psram c \<Longrightarrow> clean psram (vc_reset font c)"
  by (simp add: clean_def outside_same_def vc_reset_def blank_card_def reset_cfg_inside reset_vram_inside)

lemma clean_same: "clean psram c \<Longrightarrow> outside_same c c' \<Longrightarrow> clean psram c'"
  unfolding clean_def by (rule outside_same_trans)

lemma clean_write: "length font \<le> 0x1000 \<Longrightarrow> clean psram c \<Longrightarrow> clean psram (vc_write font reg v c)"
  using outside_same_write [of font reg v c] clean_reset [of font psram c] clean_same [of psram c]
  by (cases "vc_write font reg v c = vc_reset font c") simp_all

lemma clean_step: "length font \<le> 0x1000 \<Longrightarrow> clean psram c \<Longrightarrow> clean psram (card_step font e c)"
  using clean_reset [of font psram c] clean_same [of psram c]
  by (cases e) (auto simp: vc_mouse_by_def clean_write outside_same_read outside_same_input outside_same_begin_line)

lemma clean_steps: "length font \<le> 0x1000 \<Longrightarrow> clean psram c \<Longrightarrow> clean psram (fold (card_step font) es c)"
  by (induction es arbitrary: c) (simp_all add: clean_step)

text \<open>What the address space answers does not depend on what stands past the ends of the arrays.\<close>

lemma peek_inside:
  "vc_peek (c\<lparr>vc_vram := (\<lambda>i. if i < 0x40000 then vc_vram c i else x), vc_cfg := (\<lambda>i. if i < 0x400 then vc_cfg c i else x),
     vc_psram := map_option (\<lambda>m i. if i < 0x800000 then m i else x) (vc_psram c)\<rparr>) a = vc_peek c a"
  using poke_inside [of a] by (cases "vc_psram c") (simp_all add: vc_peek_def Let_def)

text \<open>C6. Whatever a program and its user do to a new card, in whatever order, the card's state is well formed: the
  cursors of the key queue and of the command buffer stay inside them, and every register inside the range the code
  keeps it in. Nothing is ever written past the end of the video memory, the settings or the PSRAM, and what the
  ports and the commands read through \<^verbatim>\<open>vc_peek\<close> never depends on what stands there.\<close>
theorem vc_well_formed:
  assumes "length font = 256 * 16"
  shows "let c = fold (card_step font) es (new_card font psram) in
    vc_inv c \<and> (\<forall>i\<ge>0x40000. vc_vram c i = 0) \<and> (\<forall>i\<ge>0x400. vc_cfg c i = 0) \<and>
    (\<forall>i\<ge>0x800000. map_option (\<lambda>m. m i) (vc_psram c) = map_option (\<lambda>m. m i) psram) \<and>
    (\<forall>a. vc_peek (c\<lparr>vc_vram := (\<lambda>i. if i < 0x40000 then vc_vram c i else x), vc_cfg := (\<lambda>i. if i < 0x400 then vc_cfg c i else x),
       vc_psram := map_option (\<lambda>m i. if i < 0x800000 then m i else x) (vc_psram c)\<rparr>) a = vc_peek c a)"
proof -
  have "clean psram (new_card font psram)"
    unfolding new_card_def by (rule clean_reset) (simp_all add: assms clean_def)
  then have "clean psram (fold (card_step font) es (new_card font psram))"
    using assms by (intro clean_steps) simp_all
  then show ?thesis
    by (simp add: Let_def peek_inside vc_inv_steps vc_inv_new) (simp add: clean_def outside_same_def blank_card_def)
qed

theorem vc_well_formed_witness:
  "vc_vram (fold (card_step (replicate 4096 0xFF)) [Write_Reg VC_DATA0 7, Begin_Line 480] (new_card (replicate 4096 0xFF) None)) 0x40000 = 0"
  using vc_well_formed [of "replicate 4096 0xFF" "[Write_Reg VC_DATA0 7, Begin_Line 480]" None 0] by (auto simp: Let_def)

lemma keyq_ok_blank: "keyq_ok (new_card font psram)"
  using vc_inv_new by (simp add: vc_inv_def vc_ok_def)

text \<open>On a new card, whose queue is empty.\<close>
theorem key_queue_refines_witness:
  "keys (vc_key 0x04 True (new_card [] None)) =
    keys (new_card [] None) @ [(0x04, key_char (vc_key 0x04 True (new_card [] None)) 0x04 OR 0)]"
proof -
  have "keys (new_card [] None) = []" by (simp add: new_card_def blank_card_def vc_reset_def keys_def)
  then show ?thesis using key_queue_refines [OF keyq_ok_blank [of "[]" None], of "0x04" True] by simp
qed

text \<open>A program that reads the key and the character registers gets every event in the order it happened,
  with the character it types, as long as no more than 32 wait: nothing is lost, doubled or reordered.\<close>
theorem keys_read_in_order:
  assumes "keyq_ok c" "length (keys c) + length evs \<le> 32"
  shows "let c' = fold (\<lambda>(usage, down). vc_key usage down) evs c
    in read_keys (length (keys c')) c' =
       keys c @ entries_made key_entry (\<lambda>(usage, down). vc_key usage down) evs c"
proof -
  let ?c = "fold (\<lambda>(usage, down). vc_key usage down) evs c"
  have "keyq_ok ?c" using key_queue.valid_puts [OF assms(1)] by simp
  then have "read_keys (length (keys ?c)) ?c = keys ?c" by (simp add: read_keys_take)
  also have "\<dots> = keys c @ entries_made key_entry (\<lambda>(usage, down). vc_key usage down) evs c"
    using key_queue.contents_puts [OF assms(1)] assms(2) by (simp add: VC_KEY_QUEUE_def)
  finally show ?thesis by (simp add: Let_def)
qed

text \<open>Shift held while A is typed: the shift key's event, then an A.\<close>
theorem keys_read_in_order_witness:
  "let c' = fold (\<lambda>(usage, down). vc_key usage down) [(0xE1, True), (0x04, True)] (new_card [] None)
   in read_keys (length (keys c')) c' = [(0xE1, 0), (0x04, 0x41)]"
proof -
  have empty: "keys (new_card [] None) = []" by (simp add: new_card_def blank_card_def vc_reset_def keys_def)
  have "entries_made key_entry (\<lambda>(usage, down). vc_key usage down) [(0xE1, True), (0x04, True)] (new_card [] None) =
      [(0xE1, 0), (0x04, 0x41)]"
    by (simp add: key_entry_def vc_key_def key_char_def new_card_def blank_card_def vc_reset_def VC_KEY_QUEUE_def Let_def
      k_shifted_def)
  then show ?thesis
    using keys_read_in_order [OF keyq_ok_blank [of "[]" None], of "[(0xE1, True), (0x04, True)]"] unfolding empty by simp
qed

section \<open>The command protocol\<close>

lemma vc_write_cmd: "vc_write font VC_CMD v c = command_byte v c"
  by (simp add: vc_write_def vc_reg_defs)

definition received :: "u8 list \<Rightarrow> vc_card \<Rightarrow> vc_card" where
  "received bs c = c\<lparr>vc_cmd := bs @ drop (length bs) (vc_cmd c), vc_cmd_len := length bs\<rparr>"

lemma received_next:
  assumes "length (vc_cmd c) = 16" "length bs < 16"
  shows "(received bs c)\<lparr>vc_cmd := (vc_cmd (received bs c))[vc_cmd_len (received bs c) := b],
    vc_cmd_len := vc_cmd_len (received bs c) + 1\<rparr> = received (bs @ [b]) c"
proof -
  have "drop (length bs) (vc_cmd c) = vc_cmd c ! length bs # drop (Suc (length bs)) (vc_cmd c)"
    using assms by (simp add: Cons_nth_drop_Suc)
  then show ?thesis by (simp add: received_def)
qed

lemma received_byte:
  assumes "length (vc_cmd c) = 16" "length bs < 16" "bs @ [b] = opc # ps"
  shows "vc_write font VC_CMD b (received bs c) =
    (let c' = received (opc # ps) c
     in if params_needed opc \<le> length ps
        then (run_command c')\<lparr>vc_cmd_len := 0, vc_isr := vc_isr (run_command c') OR VC_IRQ_CMDDONE\<rparr> else c')"
proof -
  have "vc_cmd (received (opc # ps) c) ! 0 = opc" "vc_cmd_len (received (opc # ps) c) = Suc (length ps)"
    by (simp_all add: received_def)
  then show ?thesis
    unfolding vc_write_cmd command_step received_next [OF assms(1,2)] assms(3) Let_def
    by (simp only: less_Suc_eq_le)
qed

lemma command_prefix:
  assumes "vc_inv c" "vc_cmd_len c = 0" "length ps \<le> params_needed opc" "k \<le> length ps"
  shows "fold (vc_write font VC_CMD) (take k (opc # ps)) c = received (take k (opc # ps)) c"
  using assms(4)
proof (induction k)
  case 0
  have "c'\<lparr>vc_cmd_len := vc_cmd_len c'\<rparr> = c'" for c' :: vc_card by simp
  from this [of c] have "c\<lparr>vc_cmd_len := 0\<rparr> = c" unfolding assms(2) .
  then show ?case by (simp add: received_def)
next
  case (Suc k)
  have len: "length (vc_cmd c) = 16" "params_needed opc \<le> 14"
    using assms(1) params_needed_le by (simp_all add: vc_inv_def vc_ok_def)
  have "take k (opc # ps) @ [(opc # ps) ! k] = take (Suc k) (opc # ps)"
    using Suc.prems by (intro take_Suc_conv_app_nth [symmetric]) simp
  then have t: "take k (opc # ps) @ [(opc # ps) ! k] = opc # take k ps" by simp
  have "vc_write font VC_CMD ((opc # ps) ! k) (received (take k (opc # ps)) c) = received (opc # take k ps) c"
    using Suc.prems assms(3) len received_byte [OF len(1) _ t, of font] by (simp add: Let_def)
  then have "fold (vc_write font VC_CMD) (take k (opc # ps) @ [(opc # ps) ! k]) c = received (opc # take k ps) c"
    using Suc by simp
  then show ?case unfolding t by simp
qed

text \<open>A command runs when its last parameter byte arrives and not before: while the card is receiving it the
  status register says busy, and the byte that completes it runs it, empties the buffer and raises the
  command-done interrupt flag, so the next byte starts the next command.\<close>
theorem command_runs_once_complete:
  assumes "vc_inv c" "vc_cmd_len c = 0" "length ps = params_needed opc"
  shows "(\<forall>k. 0 < k \<and> k \<le> length ps \<longrightarrow>
      fst (vc_read VC_STATUS (fold (vc_write font VC_CMD) (take k (opc # ps)) c)) AND VC_STATUS_BUSY \<noteq> 0) \<and>
    (let c' = run_command (received (opc # ps) c)
     in fold (vc_write font VC_CMD) (opc # ps) c =
        c'\<lparr>vc_cmd_len := 0, vc_isr := vc_isr c' OR VC_IRQ_CMDDONE\<rparr>)"
proof -
  have len: "length (vc_cmd c) = 16" "params_needed opc \<le> 14"
    using assms(1) params_needed_le by (simp_all add: vc_inv_def vc_ok_def)
  have busy: "fst (vc_read VC_STATUS c') AND VC_STATUS_BUSY \<noteq> 0" if "vc_cmd_len c' \<noteq> 0" for c'
    using that by (simp add: vc_read_def vc_reg_defs read_status_def VC_STATUS_VBLANK_def VC_STATUS_BUSY_def
      VC_STATUS_KEY_def bit.conj_disj_distrib2)
  have "vc_cmd_len (fold (vc_write font VC_CMD) (take k (opc # ps)) c) \<noteq> 0" if "0 < k" "k \<le> length ps" for k
    using command_prefix [OF assms(1,2) _ that(2), of opc font] assms(3) that by (simp add: received_def)
  moreover have "opc # ps = take (length ps) (opc # ps) @ [(opc # ps) ! length ps]"
    by (metis append_butlast_last_id last_conv_nth length_Cons diff_Suc_1 butlast_conv_take list.distinct(1))
  then have "fold (vc_write font VC_CMD) (opc # ps) c =
      vc_write font VC_CMD ((opc # ps) ! length ps) (fold (vc_write font VC_CMD) (take (length ps) (opc # ps)) c)"
    by (metis fold_append comp_apply fold_simps)
  then have "fold (vc_write font VC_CMD) (opc # ps) c =
      vc_write font VC_CMD ((opc # ps) ! length ps) (received (take (length ps) (opc # ps)) c)"
    using command_prefix [OF assms(1,2), of ps opc "length ps" font] assms(3) by simp
  ultimately show ?thesis
    using busy received_byte [OF len(1), of "take (length ps) (opc # ps)" "(opc # ps) ! length ps" opc ps font]
      \<open>opc # ps = _\<close> len assms(3) by (simp add: Let_def)
qed

text \<open>A \<^verbatim>\<open>COLOR\<close> command, opcode 2 with one parameter.\<close>
theorem command_runs_once_complete_witness:
  "vc_color (fold (vc_write [] VC_CMD) [VC_C_COLOR, 9] (new_card [] None)) = 9 \<and>
   vc_isr (fold (vc_write [] VC_CMD) [VC_C_COLOR, 9] (new_card [] None)) = VC_IRQ_CMDDONE"
proof -
  have "params_needed VC_C_COLOR = 1" by (simp add: params_needed_def k_params_def VC_C_COLOR_def)
  moreover have "vc_cmd_len (new_card [] None) = 0" "vc_isr (new_card [] None) = 0"
    by (simp_all add: new_card_def vc_reset_def)
  ultimately show ?thesis
    using command_runs_once_complete [OF vc_inv_new [of "[]" None], of "[9]" VC_C_COLOR "[]"]
    by (simp add: Let_def received_def run_command_def vc_opcodes)
qed

end
