(* ===== verification/Video_Render.thy ===== *)
theory Video_Render
  imports Video_State
begin

text \<open>
  The scanline renderer of \<^verbatim>\<open>vidcard/core/vc.c\<close>: three layers, each text, tiles or a bitmap, and the sprites
  between them, as palette indexes, and their colors. Where \<^verbatim>\<open>render_layer\<close> and \<^verbatim>\<open>render_sprites\<close> fill
  \<^verbatim>\<open>idx\<close> in loops over the pixels, the value of one pixel is a definition of its own (\<open>layer_pixel\<close>,
  \<open>sprite_pixel\<close>) and the loops are folds over lists of the same indexes in the same order.

  The lines are natural numbers, 0 to 479 in every call. The theorem \<open>render_line_planes\<close> compares the
  painter's loops with a reference that decides each pixel by itself.
\<close>

unbundle bit_operations_syntax

section \<open>Layers\<close>

definition VC_TEXT :: u8 where "VC_TEXT = 0"
definition VC_TILE :: u8 where "VC_TILE = 1"
definition VC_BITMAP :: u8 where "VC_BITMAP = 2"

text \<open>What \<^verbatim>\<open>render_layer\<close> reads of a layer's settings, \<open>l\<close> being their place among the display settings.\<close>

record layer_settings =
  ls_type :: u8
  ls_hires :: bool
  ls_big :: bool
  ls_bpp :: nat
  ls_mapbase :: u32
  ls_tilebase :: u32
  ls_hscroll :: int
  ls_vscroll :: int
  ls_mapw :: int
  ls_maph :: int
  ls_stride :: int
  ls_palofs :: u8

definition layer_settings :: "(nat \<Rightarrow> u8) \<Rightarrow> nat \<Rightarrow> layer_settings" where
  "layer_settings cfg l =
    (let mode = cfg (l + VC_L_MODE)
     in \<lparr>ls_type = mode AND 3, ls_hires = (drop_bit 2 mode AND 1 \<noteq> 0), ls_big = (drop_bit 5 mode AND 1 \<noteq> 0),
         ls_bpp = 2 ^ unat (drop_bit 3 mode AND 3),
         ls_mapbase = be24 cfg (l + VC_L_MAPBASE), ls_tilebase = be24 cfg (l + VC_L_TILEBASE),
         ls_hscroll = s16 cfg (l + VC_L_HSCROLL), ls_vscroll = s16 cfg (l + VC_L_VSCROLL),
         ls_mapw = 32 * 2 ^ unat (cfg (l + VC_L_MAP) AND 3), ls_maph = 32 * 2 ^ unat (drop_bit 2 (cfg (l + VC_L_MAP)) AND 3),
         ls_stride = uint (be16 cfg (l + VC_L_STRIDE)), ls_palofs = cfg (l + VC_L_PALOFS)\<rparr>)"

text \<open>A byte of video memory, at an address of which only the low 18 bits count.\<close>

definition vbyte :: "vc_card \<Rightarrow> u32 \<Rightarrow> u8" where
  "vbyte c a = vc_vram c (unat (a AND VRAM_MASK))"

text \<open>The pixel of \<open>bpp\<close> bits at bit \<open>ofs\<close> of a byte, counted from its high end; below 8 bits a pixel a color that
  is not transparent is offset into the palette.\<close>

definition packed_pixel :: "nat \<Rightarrow> u32 \<Rightarrow> u8 \<Rightarrow> u8 \<Rightarrow> u8" where
  "packed_pixel bpp ofs pal b =
    (if bpp = 8 then b
     else let v = drop_bit (8 - bpp - unat (ofs AND 7)) b AND (2 ^ bpp - 1)
          in if v \<noteq> 0 then pal * 16 + v else 0)"

definition text_pixel :: "vc_card \<Rightarrow> layer_settings \<Rightarrow> int \<Rightarrow> int \<Rightarrow> u8" where
  "text_pixel c l lx ly =
    (let fh = (if ls_big l then 16 else 8);
         px = (lx + ls_hscroll l) AND (ls_mapw l * 8 - 1);
         py = (ly + ls_vscroll l) AND (ls_maph l * fh - 1);
         cell = ls_mapbase l + 4 * of_int (py div fh * ls_mapw l + px div 8);
         ch = vbyte c cell;
         glyph = vbyte c (ls_tilebase l + ucast ch * of_int fh + of_int (py mod fh))
     in vbyte c (cell + (if drop_bit (nat (7 - (px AND 7))) glyph AND 1 \<noteq> 0 then 1 else 2)))"

text \<open>A map entry at the last byte of video memory takes its second byte from past the end of the array, where the
  model leaves it open what is there.\<close>

definition tile_pixel :: "vc_card \<Rightarrow> layer_settings \<Rightarrow> int \<Rightarrow> int \<Rightarrow> u8" where
  "tile_pixel c l lx ly =
    (let ts = (if ls_big l then 16 else 8);
         px = (lx + ls_hscroll l) AND (ls_mapw l * ts - 1);
         py = (ly + ls_vscroll l) AND (ls_maph l * ts - 1);
         e = be16 (vc_vram c) (unat ((ls_mapbase l + 2 * of_int (py div ts * ls_mapw l + px div ts)) AND VRAM_MASK));
         tx = px mod ts; ty = py mod ts; pal = ucast (drop_bit 12 e);
         tx = (if e AND 0x400 \<noteq> 0 then ts - 1 - tx else tx);
         ty = (if e AND 0x800 \<noteq> 0 then ts - 1 - ty else ty);
         ofs = of_int (ty * ts + tx) * of_nat (ls_bpp l);
         b = vbyte c (ls_tilebase l + (e AND 0x3FF) * of_int (ts * ts * int (ls_bpp l) div 8) + ofs div 8)
     in packed_pixel (ls_bpp l) ofs pal b)"

definition bitmap_pixel :: "vc_card \<Rightarrow> layer_settings \<Rightarrow> int \<Rightarrow> int \<Rightarrow> u8" where
  "bitmap_pixel c l lx ly =
    (let px = lx + ls_hscroll l; py = ly + ls_vscroll l
     in if 0 \<le> px \<and> 0 \<le> py \<and> px < ls_stride l * 8 div int (ls_bpp l)
        then let ofs = of_int px * of_nat (ls_bpp l);
                 b = vbyte c (ls_mapbase l + of_int py * of_int (ls_stride l) + ofs div 8)
             in packed_pixel (ls_bpp l) ofs (ls_palofs l) b
        else 0)"

definition layer_pixel :: "vc_card \<Rightarrow> layer_settings \<Rightarrow> int \<Rightarrow> int \<Rightarrow> u8" where
  "layer_pixel c l lx ly =
    (if ls_type l = VC_TEXT then text_pixel c l lx ly
     else if ls_type l = VC_TILE then tile_pixel c l lx ly
     else if ls_type l = VC_BITMAP then bitmap_pixel c l lx ly
     else 0)"

text \<open>A pixel put on the line, once or doubled; 0 is transparent.\<close>

definition put_pixel :: "nat \<Rightarrow> nat \<Rightarrow> u8 \<Rightarrow> u8 list \<Rightarrow> u8 list" where
  "put_pixel scale x v idx =
    (if v = 0 then idx else if scale = 1 then idx[x := v] else idx[2 * x := v, 2 * x + 1 := v])"

definition render_layer :: "vc_card \<Rightarrow> nat \<Rightarrow> nat \<Rightarrow> u8 list \<Rightarrow> u8 list" where
  "render_layer c lofs y idx =
    (let l = layer_settings (vc_cfg c) lofs;
         scale = (if ls_hires l then 1 else 2); width = VC_WIDTH div scale; ly = int (y div scale)
     in fold (\<lambda>lx. put_pixel scale lx (layer_pixel c l (int lx) ly)) [0..<width] idx)"

section \<open>Sprites\<close>

definition VC_MAX_LINE_SPRITES :: nat where "VC_MAX_LINE_SPRITES = 32"

text \<open>A sprite on the line: where its attributes are in video memory, and which of its rows the line shows.\<close>

record line_sprite =
  sp_attr :: nat
  sp_row :: int

definition sprite_hires :: "vc_card \<Rightarrow> bool" where
  "sprite_hires c \<longleftrightarrow> vc_cfg c VC_SPR_CTRL AND 1 \<noteq> 0"

definition sprite_prio :: "vc_card \<Rightarrow> line_sprite \<Rightarrow> nat" where
  "sprite_prio c s = unat (drop_bit 6 (vc_vram c (sp_attr s + 6)))"

definition sprite_width :: "vc_card \<Rightarrow> line_sprite \<Rightarrow> nat" where
  "sprite_width c s = 8 * 2 ^ unat (vc_vram c (sp_attr s + 6) AND 3)"

text \<open>Column \<open>i\<close> of the sprite on this line.\<close>

definition sprite_pixel :: "vc_card \<Rightarrow> line_sprite \<Rightarrow> nat \<Rightarrow> u8" where
  "sprite_pixel c s i =
    (let a = (\<lambda>k. vc_vram c (sp_attr s + k));
         w = int (sprite_width c s);
         bpp = (if a 7 AND 0x80 \<noteq> 0 then 8 else 4);
         img = be16 (vc_vram c) (sp_attr s) * 32;
         col = (if a 6 AND 0x10 \<noteq> 0 then w - 1 - int i else int i);
         ofs = of_int (sp_row s * w + col) * of_nat bpp
     in packed_pixel bpp ofs (a 7 AND 15) (vbyte c (img + ofs div 8)))"

definition render_sprite :: "vc_card \<Rightarrow> line_sprite \<Rightarrow> u8 list \<Rightarrow> u8 list" where
  "render_sprite c s idx =
    (let scale = (if sprite_hires c then 1 else 2); width = VC_WIDTH div scale;
         x = s16 (vc_vram c) (sp_attr s + 2)
     in fold (\<lambda>i idx. let sx = x + int i
                      in if sx < 0 \<or> int width \<le> sx then idx
                         else put_pixel scale (nat sx) (sprite_pixel c s i) idx)
          [0..<sprite_width c s] idx)"

text \<open>Backwards: the lowest-numbered sprite ends up in front.\<close>

definition render_sprites :: "vc_card \<Rightarrow> line_sprite list \<Rightarrow> nat \<Rightarrow> u8 list \<Rightarrow> u8 list" where
  "render_sprites c list prio idx =
    fold (\<lambda>s idx. if sprite_prio c s \<noteq> prio then idx else render_sprite c s idx) (rev list) idx"

text \<open>The sprites on a line, the first \<open>room\<close> of the entries \<open>is\<close> of the table.\<close>

primrec find_sprites :: "vc_card \<Rightarrow> u32 \<Rightarrow> int \<Rightarrow> nat \<Rightarrow> nat list \<Rightarrow> line_sprite list" where
  "find_sprites c base sy room [] = []"
| "find_sprites c base sy room (i # is) =
    (if room = 0 then []
     else let a = (base + 8 * of_nat i) AND VRAM_MASK;
              attr = (\<lambda>k. vc_vram c (unat a + k));
              top = s16 (vc_vram c) (unat a + 4);
              h = 8 * 2 ^ unat (drop_bit 2 (attr 6) AND 3)
          in if VC_VRAM_SIZE - 8 < a then []
             else if drop_bit 6 (attr 6) = 0 then find_sprites c base sy room is
             else if sy < top \<or> top + h \<le> sy then find_sprites c base sy room is
             else \<lparr>sp_attr = unat a, sp_row = (if attr 6 AND 0x20 \<noteq> 0 then h - 1 - (sy - top) else sy - top)\<rparr> #
                  find_sprites c base sy (room - 1) is)"

definition line_sprites :: "vc_card \<Rightarrow> nat \<Rightarrow> line_sprite list" where
  "line_sprites c y =
    (if vc_cfg c VC_DC_CTRL AND 0x08 \<noteq> 0
     then let count = (if 128 < vc_cfg c VC_SPR_COUNT then 128 else unat (vc_cfg c VC_SPR_COUNT));
              sy = int (if sprite_hires c then y else y div 2);
              base = be24 (vc_cfg c) VC_SPR_BASE
          in find_sprites c base sy VC_MAX_LINE_SPRITES [0..<count]
     else [])"

section \<open>The line\<close>

definition vc_color_of :: "vc_card \<Rightarrow> u8 \<Rightarrow> u16" where
  "vc_color_of c v =
    (let v = (if v \<noteq> 0 then v else vc_cfg c VC_DC_BACK)
     in push_bit 8 (ucast (vc_cfg c (PAL_OFFSET + 2 * unat v))) OR ucast (vc_cfg c (PAL_OFFSET + 2 * unat v + 1)))"

text \<open>The body of the loop over the layers: a layer, and the sprites in front of it.\<close>

definition render_plane :: "vc_card \<Rightarrow> line_sprite list \<Rightarrow> nat \<Rightarrow> nat \<Rightarrow> u8 list \<Rightarrow> u8 list" where
  "render_plane c list y layer idx =
    (let idx = (if vc_cfg c VC_DC_CTRL AND push_bit layer 1 \<noteq> 0
                then render_layer c (VC_LAYER0 + VC_LAYER_SIZE * layer) y idx else idx)
     in if list \<noteq> [] then render_sprites c list (layer + 1) idx else idx)"

definition vc_render_line :: "vc_card \<Rightarrow> nat \<Rightarrow> u16 list" where
  "vc_render_line c y =
    (let list = line_sprites c y;
         idx = fold (render_plane c list y) [0, 1, 2] (replicate VC_WIDTH 0)
     in map (vc_color_of c) idx)"

definition vc_rgb888 :: "u16 \<Rightarrow> u32" where
  "vc_rgb888 p =
    (let r = ucast (drop_bit 11 p) AND 31; g = ucast (drop_bit 5 p) AND 63; b = ucast p AND 31
     in push_bit 16 ((r * 255 + 15) div 31) OR push_bit 8 ((g * 255 + 31) div 63) OR ((b * 255 + 15) div 31))"

section \<open>The picture, pixel by pixel\<close>

text \<open>The reference: at each pixel, the planes from front to back, and the first that is not transparent shows.\<close>

definition first_opaque :: "u8 list \<Rightarrow> u8" where
  "first_opaque vs = (case find (\<lambda>v. v \<noteq> 0) vs of Some v \<Rightarrow> v | None \<Rightarrow> 0)"

definition layer_at :: "vc_card \<Rightarrow> nat \<Rightarrow> nat \<Rightarrow> nat \<Rightarrow> u8" where
  "layer_at c y layer x =
    (if vc_cfg c VC_DC_CTRL AND push_bit layer 1 = 0 then 0
     else let l = layer_settings (vc_cfg c) (VC_LAYER0 + VC_LAYER_SIZE * layer); scale = (if ls_hires l then 1 else 2)
          in layer_pixel c l (int (x div scale)) (int (y div scale)))"

definition sprite_at :: "vc_card \<Rightarrow> nat \<Rightarrow> line_sprite \<Rightarrow> u8" where
  "sprite_at c x s =
    (let i = int (x div (if sprite_hires c then 1 else 2)) - s16 (vc_vram c) (sp_attr s + 2)
     in if 0 \<le> i \<and> i < int (sprite_width c s) then sprite_pixel c s (nat i) else 0)"

definition planes :: "vc_card \<Rightarrow> nat \<Rightarrow> nat \<Rightarrow> u8 list" where
  "planes c y x = concat (map (\<lambda>layer.
     map (sprite_at c x) (filter (\<lambda>s. sprite_prio c s = layer + 1) (line_sprites c y)) @ [layer_at c y layer x]) [2, 1, 0])"

lemma first_opaque_simps [simp]:
  "first_opaque [] = 0"
  "first_opaque (v # vs) = (if v \<noteq> 0 then v else first_opaque vs)"
  by (simp_all add: first_opaque_def)

lemma first_opaque_append: "first_opaque (vs @ ws) = (if first_opaque vs \<noteq> 0 then first_opaque vs else first_opaque ws)"
  by (induction vs) simp_all

lemma length_put_pixel [simp]: "length (put_pixel scale x v idx) = length idx"
  by (simp add: put_pixel_def)

lemma length_fold: "(\<And>x idx. length (f x idx) = length idx) \<Longrightarrow> length (fold f xs idx) = length idx"
  by (induction xs arbitrary: idx) simp_all

lemma put_pixel_nth:
  assumes "length idx = VC_WIDTH" "X < VC_WIDTH" "x < VC_WIDTH div scale" "scale = 1 \<or> scale = 2"
  shows "put_pixel scale x v idx ! X = (if v \<noteq> 0 \<and> X div scale = x then v else idx ! X)"
  using assms by (auto simp: put_pixel_def VC_WIDTH_def nth_list_update)

lemma length_render_layer [simp]: "length (render_layer c l y idx) = length idx"
  by (simp add: render_layer_def Let_def length_fold)

lemma length_render_sprite [simp]: "length (render_sprite c s idx) = length idx"
  by (simp add: render_sprite_def Let_def length_fold)

lemma length_render_sprites [simp]: "length (render_sprites c list prio idx) = length idx"
  by (simp add: render_sprites_def length_fold)

lemma fold_put_pixel:
  assumes "length idx = VC_WIDTH" "X < VC_WIDTH" "scale = 1 \<or> scale = 2" "n \<le> VC_WIDTH div scale"
  shows "fold (\<lambda>x. put_pixel scale x (f x)) [0..<n] idx ! X =
    (if X div scale < n \<and> f (X div scale) \<noteq> 0 then f (X div scale) else idx ! X)"
  using assms(4)
proof (induction n)
  case 0
  then show ?case by simp
next
  case (Suc n)
  have "length (fold (\<lambda>x. put_pixel scale x (f x)) [0..<n] idx) = VC_WIDTH" using assms(1) by (simp add: length_fold)
  then show ?case
    using Suc put_pixel_nth [OF _ assms(2) _ assms(3), of _ n "f n"] by (auto simp: less_Suc_eq)
qed

lemma render_layer_nth:
  assumes "length idx = VC_WIDTH" "X < VC_WIDTH" "vc_cfg c VC_DC_CTRL AND push_bit layer 1 \<noteq> 0"
  shows "render_layer c (VC_LAYER0 + VC_LAYER_SIZE * layer) y idx ! X =
    (if layer_at c y layer X \<noteq> 0 then layer_at c y layer X else idx ! X)"
proof -
  let ?l = "layer_settings (vc_cfg c) (VC_LAYER0 + VC_LAYER_SIZE * layer)"
  define scale :: nat where "scale = (if ls_hires ?l then 1 else 2)"
  have s: "scale = 1 \<or> scale = 2" by (simp add: scale_def)
  then have "X div scale < VC_WIDTH div scale" using assms(2) by (auto simp: VC_WIDTH_def)
  then show ?thesis
    using fold_put_pixel [OF assms(1,2) s, of "VC_WIDTH div scale" "\<lambda>lx. layer_pixel c ?l (int lx) (int (y div scale))"] assms(3)
    unfolding render_layer_def layer_at_def Let_def scale_def [symmetric] by simp
qed

lemma render_sprite_nth:
  assumes "length idx = VC_WIDTH" "X < VC_WIDTH"
  shows "render_sprite c s idx ! X = (if sprite_at c X s \<noteq> 0 then sprite_at c X s else idx ! X)"
proof -
  define scale :: nat where "scale = (if sprite_hires c then 1 else 2)"
  define x where "x = s16 (vc_vram c) (sp_attr s + 2)"
  define f where "f = (\<lambda>i idx. let sx = x + int i in if sx < 0 \<or> int (VC_WIDTH div scale) \<le> sx then idx
    else put_pixel scale (nat sx) (sprite_pixel c s i) idx)"
  have s: "scale = 1 \<or> scale = 2" by (simp add: scale_def)
  then have X: "X div scale < VC_WIDTH div scale" using assms(2) by (auto simp: VC_WIDTH_def)
  have f: "f i idx ! X = (if int (X div scale) - x = int i \<and> sprite_pixel c s i \<noteq> 0 then sprite_pixel c s i else idx ! X)"
    if len: "length idx = VC_WIDTH" for i idx
  proof (cases "x + int i < 0 \<or> int (VC_WIDTH div scale) \<le> x + int i")
    case True
    then have "int (X div scale) - x \<noteq> int i" using X by linarith
    then show ?thesis using True by (simp add: f_def Let_def)
  next
    case False
    then have "nat (x + int i) < VC_WIDTH div scale" "X div scale = nat (x + int i) \<longleftrightarrow> int (X div scale) - x = int i"
      by linarith+
    then show ?thesis
      using False put_pixel_nth [OF len assms(2) _ s, of "nat (x + int i)" "sprite_pixel c s i"]
      by (simp only: f_def Let_def if_False) simp
  qed
  have len: "length (fold f xs idx) = VC_WIDTH" for xs
    using assms(1) by (subst length_fold) (simp_all add: f_def Let_def)
  have "fold f [0..<n] idx ! X =
    (if 0 \<le> int (X div scale) - x \<and> int (X div scale) - x < int n \<and> sprite_pixel c s (nat (int (X div scale) - x)) \<noteq> 0
     then sprite_pixel c s (nat (int (X div scale) - x)) else idx ! X)" for n
  proof (induction n)
    case 0
    show ?case by auto
  next
    case (Suc n)
    have "fold f [0..<Suc n] idx ! X = (if int (X div scale) - x = int n \<and> sprite_pixel c s n \<noteq> 0 then sprite_pixel c s n
      else fold f [0..<n] idx ! X)"
      using f [OF len] by simp
    moreover have "int (X div scale) - x < int (Suc n) \<longleftrightarrow> int (X div scale) - x < int n \<or> int (X div scale) - x = int n"
      by linarith
    ultimately show ?case unfolding Suc.IH by auto
  qed
  from this [of "sprite_width c s"] show ?thesis
    unfolding render_sprite_def sprite_at_def Let_def scale_def [symmetric] x_def [symmetric] f_def by auto
qed

lemma render_sprites_nth:
  assumes "length idx = VC_WIDTH" "X < VC_WIDTH"
  shows "render_sprites c list prio idx ! X =
    first_opaque (map (sprite_at c X) (filter (\<lambda>s. sprite_prio c s = prio) list) @ [idx ! X])"
proof (induction list)
  case Nil
  then show ?case by (simp add: render_sprites_def)
next
  case (Cons s list)
  have "render_sprites c (s # list) prio idx =
    (if sprite_prio c s \<noteq> prio then render_sprites c list prio idx
     else render_sprite c s (render_sprites c list prio idx))"
    by (simp add: render_sprites_def)
  then show ?case using Cons assms render_sprite_nth [of "render_sprites c list prio idx" X c s] by simp
qed

lemma length_render_plane [simp]: "length (render_plane c list y layer idx) = length idx"
  by (simp add: render_plane_def Let_def)

lemma render_plane_nth:
  assumes "length idx = VC_WIDTH" "X < VC_WIDTH"
  shows "render_plane c list y layer idx ! X =
    first_opaque (map (sprite_at c X) (filter (\<lambda>s. sprite_prio c s = layer + 1) list) @ [layer_at c y layer X] @ [idx ! X])"
proof -
  let ?idx = "if vc_cfg c VC_DC_CTRL AND push_bit layer 1 \<noteq> 0
        then render_layer c (VC_LAYER0 + VC_LAYER_SIZE * layer) y idx else idx"
  have "length ?idx = VC_WIDTH" "?idx ! X = first_opaque [layer_at c y layer X, idx ! X]"
    using assms render_layer_nth [OF assms, of c layer y] by (auto simp: layer_at_def)
  moreover have "render_plane c list y layer idx = render_sprites c list (layer + 1) ?idx"
    by (simp add: render_plane_def render_sprites_def Let_def)
  ultimately show ?thesis
    using render_sprites_nth [of ?idx X c list "layer + 1"] assms(2) by (simp only: first_opaque_append append.simps) simp
qed

text \<open>C5. The renderer draws the picture the priorities describe: each of a line's 640 pixels is the front-most
  color that is not transparent of, from the front, the sprites in front of layer 2, layer 2, the sprites in
  front of layer 1, layer 1, the sprites in front of layer 0 and layer 0, lower-numbered sprites in front; and
  the backdrop where all are transparent.\<close>
theorem render_line_planes:
  "vc_render_line c y = map (\<lambda>x. vc_color_of c (first_opaque (planes c y x))) [0..<VC_WIDTH]"
proof -
  define idx :: "u8 list" where "idx = replicate VC_WIDTH 0"
  let ?draw = "render_plane c (line_sprites c y) y"
  have "?draw 2 (?draw 1 (?draw 0 idx)) ! x = first_opaque (planes c y x)" if "x < VC_WIDTH" for x
    using that by (simp add: render_plane_nth idx_def planes_def first_opaque_append)
  moreover have "vc_render_line c y = map (vc_color_of c) (?draw 2 (?draw 1 (?draw 0 idx)))"
    by (simp add: vc_render_line_def Let_def idx_def)
  ultimately show ?thesis
    by (intro nth_equalityI) (simp_all add: idx_def)
qed

end
