(* ===== verification/Video_Device.thy ===== *)
theory Video_Device
  imports Complex_Main Device Video_Render
begin

text \<open>
  The video card on the bus, \<^verbatim>\<open>simulator/src/pugputer/video_device.cpp\<close>: the beam in step with the CPU's clock,
  the frames drawn for the sink. The clock, a \<^verbatim>\<open>double\<close>, is a rational, and the cycle counts, 64 bits wide, do
  not wrap; the sink, whose methods are elsewhere, is a parameter, a record of them.

  \<open>beam_follows_clock\<close>: every operation returns, with the beam where the clock says; \<open>ticks_compose\<close>: how
  cycles are divided into ticks makes no difference.
\<close>

unbundle bit_operations_syntax

section \<open>The sink\<close>

text \<open>What takes the frames, an object of code elsewhere: its methods, on its state.\<close>

record 's video_sink =
  wants_frame :: "'s \<Rightarrow> bool \<times> 's"
  sink_frame :: "(nat \<Rightarrow> u32) option \<Rightarrow> 's \<Rightarrow> 's"

section \<open>The device\<close>

record 's video_device =
  vd_card :: vc_card
  vd_pixels :: "nat \<Rightarrow> u32"
  vd_sink :: "'s option"
  vd_cpu_hz :: rat
  vd_cycles :: nat
  vd_lines :: nat
  vd_next_line_at :: nat
  vd_active :: bool
  vd_drawing :: bool
  vd_draw_all :: bool
  vd_frames_drawn :: nat

text \<open>When line \<open>n\<close> begins: \<open>n / (60 * 525)\<close> seconds after reset, in cycles of the CPU, rounded up.\<close>

definition line_start :: "rat \<Rightarrow> nat \<Rightarrow> nat" where
  "line_start hz n = nat \<lceil>of_nat n * hz / of_nat (VC_FPS * VC_LINES)\<rceil>"

definition put_row :: "nat \<Rightarrow> u16 list \<Rightarrow> (nat \<Rightarrow> u32) \<Rightarrow> (nat \<Rightarrow> u32)" where
  "put_row y px pixels = (\<lambda>i. if y * VC_WIDTH \<le> i \<and> i < y * VC_WIDTH + VC_WIDTH then vc_rgb888 (px ! (i - y * VC_WIDTH)) else pixels i)"

definition ask_sink :: "'s video_sink \<Rightarrow> 's video_device \<Rightarrow> bool \<times> 's video_device" where
  "ask_sink ops d =
    (case vd_sink d of
       None \<Rightarrow> (False, d)
     | Some s \<Rightarrow> (case wants_frame ops s of (w, s') \<Rightarrow> (w, d\<lparr>vd_sink := Some s'\<rparr>)))"

text \<open>The sink is asked only when nothing else has decided: \<^verbatim>\<open>&&\<close> and \<^verbatim>\<open>||\<close> stop early.\<close>

definition start_frame :: "'s video_sink \<Rightarrow> 's video_device \<Rightarrow> 's video_device" where
  "start_frame ops d =
    (if \<not> vd_active d then d\<lparr>vd_drawing := False\<rparr>
     else if vd_draw_all d then d\<lparr>vd_drawing := True\<rparr>
     else case ask_sink ops d of (w, d') \<Rightarrow> d'\<lparr>vd_drawing := w\<rparr>)"

definition send_frame :: "'s video_sink \<Rightarrow> 's video_device \<Rightarrow> 's video_device" where
  "send_frame ops d =
    (let d = (if vd_drawing d then d\<lparr>vd_frames_drawn := vd_frames_drawn d + 1\<rparr> else d)
     in d\<lparr>vd_sink := map_option (sink_frame ops (if vd_drawing d then Some (vd_pixels d) else None)) (vd_sink d)\<rparr>)"

definition scan_line :: "'s video_sink \<Rightarrow> u16 \<Rightarrow> 's video_device \<Rightarrow> 's video_device" where
  "scan_line ops beam d =
    (let d = d\<lparr>vd_card := vc_begin_line beam (vd_card d)\<rparr>;
         d = (if unat beam < VC_HEIGHT \<and> vd_drawing d
              then d\<lparr>vd_pixels := put_row (unat beam) (vc_render_line (vd_card d) (unat beam)) (vd_pixels d)\<rparr> else d)
     in if unat beam = VC_HEIGHT \<and> vd_active d then send_frame ops d else d)"

definition vd_begin_line :: "'s video_sink \<Rightarrow> u16 \<Rightarrow> 's video_device \<Rightarrow> 's video_device" where
  "vd_begin_line ops beam d = scan_line ops beam (if beam = 0 then start_frame ops d else d)"

text \<open>The body of the loop of \<^verbatim>\<open>tick\<close>.\<close>

definition next_line :: "'s video_sink \<Rightarrow> 's video_device \<Rightarrow> 's video_device" where
  "next_line ops d =
    (let d = vd_begin_line ops (of_nat (vd_lines d mod VC_LINES)) d;
         d = d\<lparr>vd_lines := vd_lines d + 1\<rparr>
     in d\<lparr>vd_next_line_at := line_start (vd_cpu_hz d) (vd_lines d)\<rparr>)"

partial_function (option) tick_loop :: "'s video_sink \<Rightarrow> 's video_device \<Rightarrow> 's video_device option" where
  "tick_loop ops d = (if vd_next_line_at d \<le> vd_cycles d then tick_loop ops (next_line ops d) else Some d)"

definition vd_tick :: "'s video_sink \<Rightarrow> nat \<Rightarrow> 's video_device \<Rightarrow> 's video_device option" where
  "vd_tick ops cpu_cycles d = tick_loop ops (d\<lparr>vd_cycles := vd_cycles d + cpu_cycles\<rparr>)"

definition vd_reset :: "'s video_sink \<Rightarrow> u8 list \<Rightarrow> 's video_device \<Rightarrow> 's video_device option" where
  "vd_reset ops font d =
    vd_tick ops 0 (d\<lparr>vd_card := (vc_reset font (vd_card d))\<lparr>vc_line := 0, vc_frame := 0\<rparr>,
      vd_cycles := 0, vd_lines := 0, vd_next_line_at := 0, vd_active := False, vd_drawing := False\<rparr>)"

definition new_video_device :: "'s video_sink \<Rightarrow> u8 list \<Rightarrow> rat \<Rightarrow> 's video_device option" where
  "new_video_device ops font cpu_clock_hz =
    vd_reset ops font \<lparr>vd_card = blank_card (Some (\<lambda>_. 0)), vd_pixels = (\<lambda>_. 0), vd_sink = None, vd_cpu_hz = cpu_clock_hz,
      vd_cycles = 0, vd_lines = 0, vd_next_line_at = 0, vd_active = False, vd_drawing = False, vd_draw_all = False,
      vd_frames_drawn = 0\<rparr>"

definition vd_set_sink :: "'s option \<Rightarrow> 's video_device \<Rightarrow> 's video_device" where
  "vd_set_sink sink d = d\<lparr>vd_sink := sink\<rparr>"

definition vd_set_draw_all :: "bool \<Rightarrow> 's video_device \<Rightarrow> 's video_device" where
  "vd_set_draw_all on d = d\<lparr>vd_draw_all := on\<rparr>"

definition vd_read :: "u16 \<Rightarrow> 's video_device \<Rightarrow> u8 \<times> 's video_device" where
  "vd_read offset d = (case vc_read (ucast offset) (vd_card d) of (v, c) \<Rightarrow> (v, d\<lparr>vd_card := c\<rparr>))"

definition vd_write :: "u8 list \<Rightarrow> u16 \<Rightarrow> u8 \<Rightarrow> 's video_device \<Rightarrow> 's video_device" where
  "vd_write font offset v d = d\<lparr>vd_active := True, vd_card := vc_write font (ucast offset) v (vd_card d)\<rparr>"

definition vd_irq_asserted :: "'s video_device \<Rightarrow> bool" where
  "vd_irq_asserted d = vc_irq (vd_card d)"

definition vd_mouse_to :: "int \<Rightarrow> int \<Rightarrow> u8 \<Rightarrow> 's video_device \<Rightarrow> 's video_device" where
  "vd_mouse_to x y buttons d = d\<lparr>vd_card := vc_mouse_to x y buttons (vd_card d)\<rparr>"

definition vd_mouse_wheel :: "int \<Rightarrow> 's video_device \<Rightarrow> 's video_device" where
  "vd_mouse_wheel clicks d = d\<lparr>vd_card := vc_mouse_wheel clicks (vd_card d)\<rparr>"

definition vd_key :: "u8 \<Rightarrow> bool \<Rightarrow> 's video_device \<Rightarrow> 's video_device" where
  "vd_key usage down d = d\<lparr>vd_card := vc_key usage down (vd_card d)\<rparr>"

definition vd_input_ctrl :: "'s video_device \<Rightarrow> u8" where
  "vd_input_ctrl d = vc_in_ctrl (vd_card d)"

definition vd_pixel :: "nat \<Rightarrow> nat \<Rightarrow> 's video_device \<Rightarrow> u32" where
  "vd_pixel x y d = vd_pixels d (y * VC_WIDTH + x)"

section \<open>The beam\<close>

lemma next_line_frame [simp]:
  "vd_lines (next_line ops d) = vd_lines d + 1" "vd_cpu_hz (next_line ops d) = vd_cpu_hz d"
  "vd_cycles (next_line ops d) = vd_cycles d" "vd_active (next_line ops d) = vd_active d"
  "vd_draw_all (next_line ops d) = vd_draw_all d"
  "vd_next_line_at (next_line ops d) = line_start (vd_cpu_hz d) (vd_lines d + 1)"
  by (simp_all add: next_line_def vd_begin_line_def scan_line_def start_frame_def ask_sink_def send_frame_def Let_def
      split: option.splits prod.splits)

lemma vc_line_begin [simp]: "vc_line (vc_begin_line beam c) = beam"
  by (simp add: vc_begin_line_def move_pointer_def Let_def)

lemma next_line_line: "vc_line (vd_card (next_line ops d)) = of_nat (vd_lines d mod VC_LINES)"
  by (simp add: next_line_def vd_begin_line_def scan_line_def send_frame_def Let_def)

lemma start_frame_cycles: "start_frame ops (d\<lparr>vd_cycles := n\<rparr>) = (start_frame ops d)\<lparr>vd_cycles := n\<rparr>"
  by (simp add: start_frame_def ask_sink_def split: option.split prod.split)

lemma scan_line_cycles: "scan_line ops beam (d\<lparr>vd_cycles := n\<rparr>) = (scan_line ops beam d)\<lparr>vd_cycles := n\<rparr>"
  by (simp add: scan_line_def send_frame_def Let_def)

lemma begin_line_cycles: "vd_begin_line ops beam (d\<lparr>vd_cycles := n\<rparr>) = (vd_begin_line ops beam d)\<lparr>vd_cycles := n\<rparr>"
  by (simp add: vd_begin_line_def start_frame_cycles scan_line_cycles)

lemma next_line_cycles: "next_line ops (d\<lparr>vd_cycles := n\<rparr>) = (next_line ops d)\<lparr>vd_cycles := n\<rparr>"
  by (simp add: next_line_def Let_def begin_line_cycles)

lemma line_start_0 [simp]: "line_start hz 0 = 0"
  by (simp add: line_start_def)

lemma line_start_mono: "0 < hz \<Longrightarrow> m \<le> n \<Longrightarrow> line_start hz m \<le> line_start hz n"
  unfolding line_start_def by (intro nat_mono ceiling_mono divide_right_mono mult_right_mono) simp_all

text \<open>Line \<open>n\<close> has begun by some cycle, and every cycle is before some line.\<close>

lemma line_start_unbounded:
  assumes "0 < hz"
  shows "\<exists>n. c < line_start hz n"
proof -
  obtain n :: nat where n: "of_nat (c + 1) * of_nat (VC_FPS * VC_LINES) / hz < of_nat n"
    using reals_Archimedean2 by blast
  then have "of_nat (c + 1) < of_nat n * hz / (of_nat (VC_FPS * VC_LINES) :: rat)"
    using assms by (simp add: VC_FPS_def VC_LINES_def field_simps)
  then have "int (c + 1) \<le> \<lceil>of_nat n * hz / (of_nat (VC_FPS * VC_LINES) :: rat)\<rceil>"
    by (simp add: le_ceiling_iff)
  then show ?thesis unfolding line_start_def by (intro exI [of _ n]) linarith
qed

text \<open>The loop begins the lines that are due and no other.\<close>

lemma tick_loop_run:
  assumes "0 < vd_cpu_hz d" "vd_next_line_at d = line_start (vd_cpu_hz d) (vd_lines d)"
  shows "\<exists>k. tick_loop ops d = Some ((next_line ops ^^ k) d) \<and>
    (\<forall>j<k. line_start (vd_cpu_hz d) (vd_lines d + j) \<le> vd_cycles d) \<and>
    vd_cycles d < line_start (vd_cpu_hz d) (vd_lines d + k)"
proof -
  obtain n where n: "vd_cycles d < line_start (vd_cpu_hz d) n"
    using line_start_unbounded [OF assms(1)] by blast
  show ?thesis
    using assms n
  proof (induction "n - vd_lines d" arbitrary: d)
    case 0
    then have "line_start (vd_cpu_hz d) n \<le> vd_next_line_at d" by (simp add: line_start_mono)
    then have "\<not> vd_next_line_at d \<le> vd_cycles d" using 0 by simp
    then show ?case using 0 by (subst tick_loop.simps) (auto intro: exI [of _ 0])
  next
    case (Suc m)
    show ?case
    proof (cases "vd_next_line_at d \<le> vd_cycles d")
      case False
      then show ?thesis using Suc.prems by (subst tick_loop.simps) (auto intro: exI [of _ 0])
    next
      case True
      have "\<exists>k. tick_loop ops (next_line ops d) = Some ((next_line ops ^^ k) (next_line ops d)) \<and>
          (\<forall>j<k. line_start (vd_cpu_hz d) (vd_lines d + 1 + j) \<le> vd_cycles d) \<and>
          vd_cycles d < line_start (vd_cpu_hz d) (vd_lines d + 1 + k)"
        using Suc.hyps(1) [of "next_line ops d"] Suc.hyps(2) Suc.prems by simp
      then obtain k where k: "tick_loop ops (next_line ops d) = Some ((next_line ops ^^ k) (next_line ops d))"
        "\<forall>j<k. line_start (vd_cpu_hz d) (vd_lines d + 1 + j) \<le> vd_cycles d"
        "vd_cycles d < line_start (vd_cpu_hz d) (vd_lines d + 1 + k)" by blast
      have "line_start (vd_cpu_hz d) (vd_lines d + j) \<le> vd_cycles d" if "j < Suc k" for j
        using that k(2) True Suc.prems(2) by (cases j) (simp_all add: add.assoc [symmetric])
      moreover have "tick_loop ops d = Some ((next_line ops ^^ Suc k) d)"
        using True k(1) by (subst tick_loop.simps) (simp add: funpow_swap1)
      ultimately show ?thesis using k(3) by (intro exI [of _ "Suc k"]) (simp add: add.assoc [symmetric])
    qed
  qed
qed

text \<open>The beam is on the line the clock says.\<close>

definition beam_synced :: "'s video_device \<Rightarrow> bool" where
  "beam_synced d \<longleftrightarrow> 0 < vd_cpu_hz d \<and> 0 < vd_lines d \<and>
     vd_next_line_at d = line_start (vd_cpu_hz d) (vd_lines d) \<and>
     line_start (vd_cpu_hz d) (vd_lines d - 1) \<le> vd_cycles d \<and> vd_cycles d < line_start (vd_cpu_hz d) (vd_lines d) \<and>
     vc_line (vd_card d) = of_nat ((vd_lines d - 1) mod VC_LINES)"

lemma next_lines [simp]:
  "vd_lines ((next_line ops ^^ k) d) = vd_lines d + k" "vd_cpu_hz ((next_line ops ^^ k) d) = vd_cpu_hz d"
  "vd_cycles ((next_line ops ^^ k) d) = vd_cycles d"
  by (induction k) simp_all

lemma next_lines_at: "0 < k \<Longrightarrow> vd_next_line_at ((next_line ops ^^ k) d) = line_start (vd_cpu_hz d) (vd_lines d + k)"
  by (cases k) simp_all

lemma next_lines_line: "0 < k \<Longrightarrow> vc_line (vd_card ((next_line ops ^^ k) d)) = of_nat ((vd_lines d + k - 1) mod VC_LINES)"
  by (cases k) (simp_all add: next_line_line)

lemma tick_synced:
  assumes "0 < vd_cpu_hz d" "vd_next_line_at d = line_start (vd_cpu_hz d) (vd_lines d)"
    "beam_synced d \<or> vd_lines d = 0"
  shows "\<exists>d'. vd_tick ops n d = Some d' \<and> beam_synced d' \<and> vd_cycles d' = vd_cycles d + n"
proof -
  let ?d = "d\<lparr>vd_cycles := vd_cycles d + n\<rparr>"
  obtain k where k: "tick_loop ops ?d = Some ((next_line ops ^^ k) ?d)"
    "\<forall>j<k. line_start (vd_cpu_hz d) (vd_lines d + j) \<le> vd_cycles d + n"
    "vd_cycles d + n < line_start (vd_cpu_hz d) (vd_lines d + k)"
    using tick_loop_run [of ?d ops] assms(1,2) by auto
  have "beam_synced ((next_line ops ^^ k) ?d)"
  proof (cases "k = 0")
    case True
    then show ?thesis using k assms by (auto simp: beam_synced_def)
  next
    case False
    then have "line_start (vd_cpu_hz d) (vd_lines d + (k - 1)) \<le> vd_cycles d + n" using k(2) by (meson diff_less less_one neq0_conv)
    then show ?thesis using k(3) False assms(1) by (simp add: beam_synced_def next_lines_at next_lines_line)
  qed
  then show ?thesis using k(1) by (intro exI [of _ "(next_line ops ^^ k) ?d"]) (simp add: vd_tick_def)
qed

lemma next_lines_cycles: "(next_line ops ^^ k) (d\<lparr>vd_cycles := n\<rparr>) = ((next_line ops ^^ k) d)\<lparr>vd_cycles := n\<rparr>"
  by (induction k) (simp_all add: next_line_cycles)

text \<open>C23. How the CPU's cycles are divided into ticks makes no difference to the card, its picture or its sink: a
  tick of \<open>a + b\<close> cycles is a tick of \<open>a\<close> and one of \<open>b\<close>.\<close>
theorem ticks_compose:
  assumes "0 < vd_cpu_hz d" "vd_next_line_at d = line_start (vd_cpu_hz d) (vd_lines d)"
  shows "vd_tick ops (a + b) d = Option.bind (vd_tick ops a d) (vd_tick ops b)"
proof -
  let ?at = "\<lambda>n. line_start (vd_cpu_hz d) (vd_lines d + n)" and ?c = "vd_cycles d"
  obtain k1 where k1: "tick_loop ops (d\<lparr>vd_cycles := ?c + a\<rparr>) = Some ((next_line ops ^^ k1) (d\<lparr>vd_cycles := ?c + a\<rparr>))"
    "\<forall>j<k1. ?at j \<le> ?c + a" "?c + a < ?at k1"
    using tick_loop_run [of "d\<lparr>vd_cycles := ?c + a\<rparr>" ops] assms by auto
  let ?d1 = "((next_line ops ^^ k1) d)\<lparr>vd_cycles := ?c + a + b\<rparr>"
  have "vd_next_line_at ?d1 = ?at k1" using assms(2) next_lines_at [of k1 ops d] by (cases k1) simp_all
  then obtain k2 where k2: "tick_loop ops ?d1 = Some ((next_line ops ^^ k2) ?d1)"
    "\<forall>j<k2. ?at (k1 + j) \<le> ?c + a + b" "?c + a + b < ?at (k1 + k2)"
    using tick_loop_run [of ?d1 ops] assms by (auto simp: add.assoc)
  obtain k where k: "tick_loop ops (d\<lparr>vd_cycles := ?c + a + b\<rparr>) = Some ((next_line ops ^^ k) (d\<lparr>vd_cycles := ?c + a + b\<rparr>))"
    "\<forall>j<k. ?at j \<le> ?c + a + b" "?c + a + b < ?at k"
    using tick_loop_run [of "d\<lparr>vd_cycles := ?c + a + b\<rparr>" ops] assms by auto
  have before: "?at j \<le> ?c + a + b" if "j < k1 + k2" for j
  proof (cases "j < k1")
    case True
    then show ?thesis using k1(2) by (meson le_add1 order_trans)
  next
    case False
    then show ?thesis using k2(2) that by (metis add_diff_inverse_nat nat_add_left_cancel_less)
  qed
  have "k = k1 + k2"
    using before [of k] k(2,3) k2(3) by (metis linorder_neqE_nat not_less)
  moreover have "(next_line ops ^^ (k1 + k2)) (d\<lparr>vd_cycles := ?c + a + b\<rparr>) = (next_line ops ^^ k2) ?d1"
    by (simp only: add.commute [of k1 k2] funpow_add comp_apply next_lines_cycles)
  ultimately have "vd_tick ops (a + b) d = Some ((next_line ops ^^ k2) ?d1)"
    using k(1) by (simp only: vd_tick_def add.assoc)
  moreover have "vd_tick ops a d = Some (((next_line ops ^^ k1) d)\<lparr>vd_cycles := ?c + a\<rparr>)"
    using k1(1) by (simp only: vd_tick_def next_lines_cycles)
  moreover have "vd_tick ops b (((next_line ops ^^ k1) d)\<lparr>vd_cycles := ?c + a\<rparr>) = Some ((next_line ops ^^ k2) ?d1)"
    using k2(1) by (simp add: vd_tick_def)
  ultimately show ?thesis by simp
qed

text \<open>A device that has counted no cycles, and a sink that counts frames.\<close>

definition counting_sink :: "nat video_sink" where
  "counting_sink = \<lparr>wants_frame = (\<lambda>n. (True, n)), sink_frame = (\<lambda>_. Suc)\<rparr>"

definition idle_device :: "nat video_device" where
  "idle_device = \<lparr>vd_card = new_card [] None, vd_pixels = (\<lambda>_. 0), vd_sink = Some 0, vd_cpu_hz = 3579545, vd_cycles = 0,
     vd_lines = 0, vd_next_line_at = 0, vd_active = True, vd_drawing = False, vd_draw_all = False, vd_frames_drawn = 0\<rparr>"

theorem ticks_compose_witness:
  "vd_tick counting_sink (100 + 14) idle_device = Option.bind (vd_tick counting_sink 100 idle_device) (vd_tick counting_sink 14)"
  by (rule ticks_compose) (simp_all add: idle_device_def)

section \<open>Everything that can happen to the device\<close>

datatype 's device_event =
  Tick nat
| Set_Sink "'s option"
| Set_Draw_All bool
| Bus_Read u16
| Bus_Write u16 u8
| Move_Mouse int int u8
| Turn_Wheel int
| Press u8 bool
| Reset_Device

primrec device_step :: "'s video_sink \<Rightarrow> u8 list \<Rightarrow> 's device_event \<Rightarrow> 's video_device \<Rightarrow> 's video_device option" where
  "device_step ops font (Tick n) d = vd_tick ops n d"
| "device_step ops font (Set_Sink sink) d = Some (vd_set_sink sink d)"
| "device_step ops font (Set_Draw_All on) d = Some (vd_set_draw_all on d)"
| "device_step ops font (Bus_Read offset) d = Some (snd (vd_read offset d))"
| "device_step ops font (Bus_Write offset v) d = Some (vd_write font offset v d)"
| "device_step ops font (Move_Mouse x y b) d = Some (vd_mouse_to x y b d)"
| "device_step ops font (Turn_Wheel k) d = Some (vd_mouse_wheel k d)"
| "device_step ops font (Press usage down) d = Some (vd_key usage down d)"
| "device_step ops font Reset_Device d = vd_reset ops font d"

primrec device_steps :: "'s video_sink \<Rightarrow> u8 list \<Rightarrow> 's device_event list \<Rightarrow> 's video_device \<Rightarrow> 's video_device option" where
  "device_steps ops font [] d = Some d"
| "device_steps ops font (e # es) d = Option.bind (device_step ops font e d) (device_steps ops font es)"

definition device_ok :: "'s video_device \<Rightarrow> bool" where
  "device_ok d \<longleftrightarrow> beam_synced d \<and> vc_inv (vd_card d)"

lemma line_mem_only: "mem_only c c' \<Longrightarrow> vc_line c' = vc_line c"
  unfolding mem_only_def by (drule conjunct1, drule arg_cong [of _ _ vc_line]) simp

lemma line_if: "vc_line c = x \<Longrightarrow> vc_line c' = x \<Longrightarrow> vc_line (if b then c else c') = x"
  by simp

lemma vc_line_set_target [simp]: "vc_line (set_target p c) = vc_line c"
  by (simp add: set_target_def Let_def)

lemma vc_line_run_command [simp]: "vc_line (run_command c) = vc_line c"
  unfolding run_command_def Let_def
  by (intro line_if; (simp; fail)?) (simp_all only: line_mem_only mem_only_line mem_only_pset mem_only_draw_rect mem_only_fill_rect
      mem_only_circle mem_only_clear_target mem_only_copy_bytes mem_only_fill_bytes mem_only_blit mem_only_triangle
      mem_only_draw_char)

lemma vc_line_read [simp]: "vc_line (snd (vc_read reg c)) = vc_line c"
proof -
  have line: "vc_line (snd (if b then x else y)) = l" if "vc_line (snd x) = l" "vc_line (snd y) = l" for b l and x y :: "u8 \<times> vc_card"
    using that by simp
  then show ?thesis
    unfolding vc_read_def Let_def read_key_def read_data_def step_port_def by (intro line) simp_all
qed

lemma vc_line_write [simp]: "vc_line (vc_write font reg v c) = vc_line c"
proof -
  have "vc_line (command_byte v c) = vc_line c" by (simp add: command_byte_def Let_def)
  moreover have "vc_line (vc_reset font c) = vc_line c" by (simp add: vc_reset_def)
  moreover have "vc_line (step_port p (vc_poke a v c)) = vc_line c" for p a
    using line_mem_only [OF mem_only_poke] by (simp add: step_port_def)
  ultimately show ?thesis
    unfolding vc_write_def Let_def by (intro line_if) simp_all
qed

lemma vc_line_input [simp]:
  "vc_line (vc_mouse_to x y b c) = vc_line c" "vc_line (vc_mouse_wheel k c) = vc_line c" "vc_line (vc_key u d c) = vc_line c"
  by (simp_all add: vc_mouse_to_def vc_mouse_wheel_def vc_key_def Let_def)

lemma inv_next_line: "vc_inv (vd_card d) \<Longrightarrow> vc_inv (vd_card (next_line ops d))"
  by (simp add: next_line_def vd_begin_line_def scan_line_def send_frame_def start_frame_def ask_sink_def Let_def vc_inv_begin_line
      split: option.split prod.split)

lemma inv_tick:
  assumes "vc_inv (vd_card d)" "vd_tick ops n d = Some d'" "0 < vd_cpu_hz d" "vd_next_line_at d = line_start (vd_cpu_hz d) (vd_lines d)"
  shows "vc_inv (vd_card d')"
proof -
  have "vc_inv (vd_card ((next_line ops ^^ k) (d\<lparr>vd_cycles := m\<rparr>)))" for k m
    by (induction k) (simp_all add: assms(1) inv_next_line)
  then show ?thesis
    using tick_loop_run [of "d\<lparr>vd_cycles := vd_cycles d + n\<rparr>" ops] assms(2-4) by (auto simp: vd_tick_def)
qed

lemma reset_ok:
  assumes "0 < vd_cpu_hz d" "vc_inv (vc_reset font (vd_card d))"
  shows "\<exists>d'. vd_reset ops font d = Some d' \<and> device_ok d'"
proof -
  let ?d = "d\<lparr>vd_card := (vc_reset font (vd_card d))\<lparr>vc_line := 0, vc_frame := 0\<rparr>,
      vd_cycles := 0, vd_lines := 0, vd_next_line_at := 0, vd_active := False, vd_drawing := False\<rparr>"
  obtain d' where d': "vd_tick ops 0 ?d = Some d'" "beam_synced d'"
    using tick_synced [of ?d ops 0] assms(1) by auto
  have "vc_inv (vd_card ?d)" using assms(2) by (simp add: vc_inv_def vc_ok_def keyq_ok_def)
  then have "vc_inv (vd_card d')" using inv_tick [OF _ d'(1)] assms(1) by simp
  then show ?thesis using d' by (simp add: vd_reset_def device_ok_def)
qed

lemma tick_ok: "device_ok d \<Longrightarrow> \<exists>d'. vd_tick ops n d = Some d' \<and> device_ok d'"
  using tick_synced [of d ops n] inv_tick [of d ops n] by (fastforce simp: device_ok_def beam_synced_def)

lemma card_change_ok:
  "device_ok d \<Longrightarrow> vc_line c = vc_line (vd_card d) \<Longrightarrow> vc_inv c \<Longrightarrow> device_ok (d\<lparr>vd_card := c\<rparr>)"
  "device_ok d \<Longrightarrow> device_ok (d\<lparr>vd_active := b\<rparr>)" "device_ok d \<Longrightarrow> device_ok (vd_set_sink s d)"
  "device_ok d \<Longrightarrow> device_ok (vd_set_draw_all b d)"
  by (simp_all add: device_ok_def beam_synced_def vd_set_sink_def vd_set_draw_all_def)

lemma device_step_ok: "device_ok d \<Longrightarrow> \<exists>d'. device_step ops font e d = Some d' \<and> device_ok d'"
proof (cases e)
  case Reset_Device
  assume "device_ok d"
  then have "0 < vd_cpu_hz d" "vc_inv (vc_reset font (vd_card d))"
    by (simp_all add: device_ok_def beam_synced_def vc_inv_reset)
  then show ?thesis using Reset_Device reset_ok by simp
qed (simp_all add: tick_ok vd_read_def vd_write_def vd_mouse_to_def vd_mouse_wheel_def vd_key_def split_beta card_change_ok,
    auto simp: device_ok_def beam_synced_def vc_inv_read vc_inv_write vc_inv_mouse_to vc_inv_mouse_wheel vc_inv_key)

text \<open>The card on the bus: the methods return and keep the device's invariant.\<close>

interpretation video: device_methods "\<lambda>d a. vd_read a d" "\<lambda>d a v. vd_write font a v d" "vd_reset ops font"
    "\<lambda>n. vd_tick ops (unat n)" device_ok for ops :: "'s video_sink" and font
proof
  fix d :: "'s video_device" and a :: u16 and v :: u8 and n :: u32
  assume d: "device_ok d"
  show "device_ok (snd (vd_read a d))" using device_step_ok [OF d, of ops font "Bus_Read a"] by simp
  show "device_ok (vd_write font a v d)" using device_step_ok [OF d, of ops font "Bus_Write a v"] by simp
  show "\<exists>d'. vd_reset ops font d = Some d' \<and> device_ok d'" using device_step_ok [OF d, of ops font Reset_Device] by simp
  show "\<exists>d'. vd_tick ops (unat n) d = Some d' \<and> device_ok d'" using device_step_ok [OF d, of ops font "Tick (unat n)"] by simp
qed

lemma new_video_device_ok: "0 < hz \<Longrightarrow> \<exists>d. new_video_device ops font hz = Some d \<and> device_ok d"
proof -
  let ?d = "\<lparr>vd_card = blank_card (Some (\<lambda>_. 0)), vd_pixels = (\<lambda>_. 0), vd_sink = None, vd_cpu_hz = hz,
      vd_cycles = 0, vd_lines = 0, vd_next_line_at = 0, vd_active = False, vd_drawing = False, vd_draw_all = False,
      vd_frames_drawn = 0\<rparr>"
  assume "0 < hz"
  moreover have "vc_inv (vc_reset font (vd_card ?d))" using vc_inv_new [of font "Some (\<lambda>_. 0)"] by (simp add: new_card_def)
  ultimately show ?thesis using reset_ok [of ?d font ops] by (auto simp: new_video_device_def)
qed

lemma device_steps_ok: "device_ok d \<Longrightarrow> \<exists>d'. device_steps ops font es d = Some d' \<and> device_ok d'"
proof (induction es arbitrary: d)
  case Nil
  then show ?case by simp
next
  case (Cons e es)
  then show ?case using device_step_ok [of d ops font e] by fastforce
qed



end
