(* ===== verification/System_Bus.thy ===== *)
theory System_Bus
  imports Timing Uart Sd_Card Opl3 Video_Device
begin

text \<open>
  The machine of \<^verbatim>\<open>simulator/src/pugputer/system_bus.cpp\<close>: the CPU, the banked RAM and the mapped
  devices. The C++ \<^verbatim>\<open>SystemBus\<close> owns the CPU and is its bus context; here the context is the record
  \<open>system_bus\<close> of the remaining members, and the machine is a CPU whose \<open>bus_ctx\<close> is that record. A
  device pointer is a number, and the objects pointed to are in \<open>sb_store\<close>, so that two mappings may
  share a device as they may in C++. The bank register device, which holds a reference into the bus, is
  a pointer of its own. An object is one of the five classes with what its methods need beside its state: the
  methods of the video card's sink and its font, the functions of the synthesizer.

  \<open>machine_invariant\<close>: every operation of the bus returns and keeps the machine well formed; \<open>banked_ram_access\<close>:
  what a read of RAM gives after any writes; \<open>map_device_priority\<close>: which mapping answers after any mapping and
  unmapping; \<open>sys_run_terminates\<close>, \<open>interrupt_wiring\<close>.
\<close>

unbundle bit_operations_syntax

section \<open>Virtual dispatch\<close>

datatype ('s, 'c) device =
  RomDev rom_device
| UartDev uart
| SdDev sdcard
| VideoDev "'s video_sink" "u8 list" "'s video_device"
| OplDev "'c synthesizer" "'c opl3_device"

fun dev_read :: "('s, 'c) device \<Rightarrow> u16 \<Rightarrow> u8 \<times> ('s, 'c) device" where
  "dev_read (RomDev d) a = map_prod id RomDev (rom_read d a)"
| "dev_read (UartDev d) a = map_prod id UartDev (uart_read d a)"
| "dev_read (SdDev d) a = map_prod id SdDev (sd_read d a)"
| "dev_read (VideoDev ops font d) a = map_prod id (VideoDev ops font) (vd_read a d)"
| "dev_read (OplDev S d) a = map_prod id (OplDev S) (opl3_read d a)"

fun dev_write :: "('s, 'c) device \<Rightarrow> u16 \<Rightarrow> u8 \<Rightarrow> ('s, 'c) device" where
  "dev_write (RomDev d) a v = RomDev (rom_write d a v)"
| "dev_write (UartDev d) a v = UartDev (uart_write d a v)"
| "dev_write (SdDev d) a v = SdDev (sd_write d a v)"
| "dev_write (VideoDev ops font d) a v = VideoDev ops font (vd_write font a v d)"
| "dev_write (OplDev S d) a v = OplDev S (opl3_write S d a v)"

text \<open>\<open>None\<close>: the loop of the video card's tick does not end (its clock is not positive).\<close>

fun dev_reset :: "('s, 'c) device \<Rightarrow> ('s, 'c) device option" where
  "dev_reset (RomDev d) = Some (RomDev (rom_reset d))"
| "dev_reset (UartDev d) = Some (UartDev (uart_reset d))"
| "dev_reset (SdDev d) = Some (SdDev (sd_reset d))"
| "dev_reset (VideoDev ops font d) = map_option (VideoDev ops font) (vd_reset ops font d)"
| "dev_reset (OplDev S d) = Some (OplDev S (opl3_reset S d))"

fun dev_tick :: "u32 \<Rightarrow> ('s, 'c) device \<Rightarrow> ('s, 'c) device option" where
  "dev_tick n (RomDev d) = Some (RomDev (default_tick n d))"
| "dev_tick n (UartDev d) = Some (UartDev (uart_tick n d))"
| "dev_tick n (SdDev d) = Some (SdDev (default_tick n d))"
| "dev_tick n (VideoDev ops font d) = map_option (VideoDev ops font) (vd_tick ops (unat n) d)"
| "dev_tick n (OplDev S d) = Some (OplDev S (opl3_tick S n d))"

fun dev_irq_asserted :: "('s, 'c) device \<Rightarrow> bool" where
  "dev_irq_asserted (RomDev d) = default_irq_asserted d"
| "dev_irq_asserted (UartDev d) = uart_irq_asserted d"
| "dev_irq_asserted (SdDev d) = default_irq_asserted d"
| "dev_irq_asserted (VideoDev ops font d) = vd_irq_asserted d"
| "dev_irq_asserted (OplDev S d) = default_irq_asserted d"

fun dev_inv :: "('s, 'c) device \<Rightarrow> bool" where
  "dev_inv (RomDev d) = True"
| "dev_inv (UartDev d) = uart_inv d"
| "dev_inv (SdDev d) = sd_inv d"
| "dev_inv (VideoDev ops font d) = device_ok d"
| "dev_inv (OplDev S d) = opl3_inv d"

interpretation dev: device_methods dev_read dev_write dev_reset dev_tick dev_inv
proof
  fix d :: "('s, 'c) device" and a :: u16 and v :: u8 and n :: u32
  assume d: "dev_inv d"
  note facts = uart.inv_read uart.inv_write uart.inv_reset uart.inv_tick sd.inv_read sd.inv_write sd.inv_reset sd.inv_tick
    opl3.inv_read opl3.inv_write opl3.inv_reset opl3.inv_tick video.inv_read video.inv_write
  show "dev_inv (snd (dev_read d a))" "dev_inv (dev_write d a v)"
    using d by (cases d; simp add: facts)+
  show "\<exists>d'. dev_reset d = Some d' \<and> dev_inv d'"
    using d video.reset_returns by (cases d) (fastforce simp: facts)+
  show "\<exists>d'. dev_tick n d = Some d' \<and> dev_inv d'"
    using d video.tick_returns by (cases d) (fastforce simp: facts)+
qed

section \<open>State\<close>

definition kPageSize :: nat where "kPageSize = 16384"
definition kAddressablePages :: nat where "kAddressablePages = 256"
definition kBankRegistersBase :: u16 where "kBankRegistersBase = 0xFFEC"

datatype device_ptr = BankRegisters | DevPtr nat

record device_mapping =
  m_name :: string
  m_base :: u16
  m_size :: u16
  m_device :: device_ptr
  m_irq_line :: IrqLine

record ('s, 'c) system_bus =
  sb_ram :: "nat \<Rightarrow> u8"
  sb_ram_pages :: nat
  sb_bank_regs :: "u8 list"
  sb_devices :: "device_mapping list"
  sb_nmi_prev :: bool
  sb_store :: "nat \<Rightarrow> ('s, 'c) device"

type_synonym ('s, 'c) machine = "('s, 'c) system_bus CPU"

section \<open>Address decoding\<close>

definition in_window :: "u16 \<Rightarrow> device_mapping \<Rightarrow> bool" where
  "in_window addr m \<longleftrightarrow> unat (m_base m) \<le> unat addr \<and> unat addr < unat (m_base m) + unat (m_size m)"

text \<open>The scan from back to front.\<close>

definition find_mapping :: "u16 \<Rightarrow> ('s, 'c) system_bus \<Rightarrow> device_mapping option" where
  "find_mapping addr b = find (in_window addr) (rev (sb_devices b))"

definition phys_byte :: "u16 \<Rightarrow> ('s, 'c) system_bus \<Rightarrow> nat option" where
  "phys_byte addr b =
    (let page = unat (sb_bank_regs b ! unat (drop_bit 14 addr))
     in if sb_ram_pages b \<le> page then None
        else Some (page * kPageSize + unat (addr AND 0x3FFF)))"

section \<open>Devices through pointers\<close>

definition ptr_read :: "device_ptr \<Rightarrow> u16 \<Rightarrow> ('s, 'c) system_bus \<Rightarrow> u8 \<times> ('s, 'c) system_bus" where
  "ptr_read p offset b =
    (case p of BankRegisters \<Rightarrow> (0xFF, b)
     | DevPtr i \<Rightarrow> (case dev_read (sb_store b i) offset of (v, d) \<Rightarrow> (v, b\<lparr>sb_store := (sb_store b)(i := d)\<rparr>)))"

definition ptr_write :: "device_ptr \<Rightarrow> u16 \<Rightarrow> u8 \<Rightarrow> ('s, 'c) system_bus \<Rightarrow> ('s, 'c) system_bus" where
  "ptr_write p offset v b =
    (case p of BankRegisters \<Rightarrow> b\<lparr>sb_bank_regs := (sb_bank_regs b)[unat (offset AND 3) := v]\<rparr>
     | DevPtr i \<Rightarrow> b\<lparr>sb_store := (sb_store b)(i := dev_write (sb_store b i) offset v)\<rparr>)"

definition ptr_reset :: "device_ptr \<Rightarrow> ('s, 'c) system_bus \<Rightarrow> ('s, 'c) system_bus option" where
  "ptr_reset p b =
    (case p of BankRegisters \<Rightarrow> Some b
     | DevPtr i \<Rightarrow> map_option (\<lambda>d. b\<lparr>sb_store := (sb_store b)(i := d)\<rparr>) (dev_reset (sb_store b i)))"

definition ptr_tick :: "u32 \<Rightarrow> device_ptr \<Rightarrow> ('s, 'c) system_bus \<Rightarrow> ('s, 'c) system_bus option" where
  "ptr_tick n p b =
    (case p of BankRegisters \<Rightarrow> Some b
     | DevPtr i \<Rightarrow> map_option (\<lambda>d. b\<lparr>sb_store := (sb_store b)(i := d)\<rparr>) (dev_tick n (sb_store b i)))"

definition ptr_irq_asserted :: "device_ptr \<Rightarrow> ('s, 'c) system_bus \<Rightarrow> bool" where
  "ptr_irq_asserted p b = (case p of BankRegisters \<Rightarrow> False | DevPtr i \<Rightarrow> dev_irq_asserted (sb_store b i))"

section \<open>Bus accesses\<close>

definition bus_read8 :: "('s, 'c) system_bus \<Rightarrow> u16 \<Rightarrow> u8 \<times> ('s, 'c) system_bus" where
  "bus_read8 b addr =
    (case find_mapping addr b of
       Some m \<Rightarrow> ptr_read (m_device m) (addr - m_base m) b
     | None \<Rightarrow> (case phys_byte addr b of Some p \<Rightarrow> (sb_ram b p, b) | None \<Rightarrow> (0xFF, b)))"

definition bus_write8 :: "('s, 'c) system_bus \<Rightarrow> u16 \<Rightarrow> u8 \<Rightarrow> ('s, 'c) system_bus" where
  "bus_write8 b addr v =
    (case find_mapping addr b of
       Some m \<Rightarrow> ptr_write (m_device m) (addr - m_base m) v b
     | None \<Rightarrow> (case phys_byte addr b of Some p \<Rightarrow> b\<lparr>sb_ram := (sb_ram b)(p := v)\<rparr> | None \<Rightarrow> b))"

section \<open>Configuration\<close>

definition unmap_device :: "string \<Rightarrow> ('s, 'c) system_bus \<Rightarrow> ('s, 'c) system_bus" where
  "unmap_device name b = b\<lparr>sb_devices := filter (\<lambda>m. m_name m \<noteq> name) (sb_devices b)\<rparr>"

definition map_device :: "string \<Rightarrow> u16 \<Rightarrow> u16 \<Rightarrow> device_ptr \<Rightarrow> IrqLine \<Rightarrow> ('s, 'c) system_bus \<Rightarrow> ('s, 'c) system_bus" where
  "map_device name base sz dev wire b =
    (let b = unmap_device name b
     in b\<lparr>sb_devices := sb_devices b @
          [\<lparr>m_name = name, m_base = base, m_size = sz, m_device = dev, m_irq_line = wire\<rparr>]\<rparr>)"

definition map_bank_registers :: "u16 \<Rightarrow> ('s, 'c) system_bus \<Rightarrow> ('s, 'c) system_bus" where
  "map_bank_registers base b = map_device ''bank_registers'' base 4 BankRegisters NoLine b"

datatype bus_config = Map_Device string u16 u16 device_ptr IrqLine | Map_Banks u16 | Unmap_Device string

fun configure :: "bus_config \<Rightarrow> ('s, 'c) system_bus \<Rightarrow> ('s, 'c) system_bus" where
  "configure (Map_Device name base sz dev wire) b = map_device name base sz dev wire b"
| "configure (Map_Banks base) b = map_bank_registers base b"
| "configure (Unmap_Device name) b = unmap_device name b"

definition bank_register :: "nat \<Rightarrow> ('s, 'c) system_bus \<Rightarrow> u8" where
  "bank_register bank b = sb_bank_regs b ! (bank mod 4)"

definition new_bus :: "nat \<Rightarrow> (nat \<Rightarrow> ('s, 'c) device) \<Rightarrow> ('s, 'c) system_bus" where
  "new_bus ram_pages store = \<lparr>sb_ram = (\<lambda>_. 0),
     sb_ram_pages = (if ram_pages < 4 then 4 else min ram_pages kAddressablePages),
     sb_bank_regs = [0, 1, 2, 3], sb_devices = [], sb_nmi_prev = False, sb_store = store\<rparr>"

definition new_machine :: "nat \<Rightarrow> (nat \<Rightarrow> ('s, 'c) device) \<Rightarrow> ('s, 'c) machine" where
  "new_machine ram_pages store = new_CPU bus_read8 bus_write8 (new_bus ram_pages store)"

section \<open>The machine\<close>

text \<open>The loops over the mapped devices.\<close>

fun reset_all :: "device_mapping list \<Rightarrow> ('s, 'c) system_bus \<Rightarrow> ('s, 'c) system_bus option" where
  "reset_all [] b = Some b"
| "reset_all (m # ms) b = Option.bind (ptr_reset (m_device m) b) (reset_all ms)"

fun tick_all :: "u32 \<Rightarrow> device_mapping list \<Rightarrow> ('s, 'c) system_bus \<Rightarrow> ('s, 'c) system_bus option" where
  "tick_all n [] b = Some b"
| "tick_all n (m # ms) b = Option.bind (ptr_tick n (m_device m) b) (tick_all n ms)"

definition sys_reset :: "('s, 'c) machine \<Rightarrow> ('s, 'c) machine option" where
  "sys_reset c =
    (let c = snd (run_state reset_cpu c);
         b = (bus_ctx c)\<lparr>sb_bank_regs := [0, 1, 2, 3]\<rparr>
     in map_option (\<lambda>b. c\<lparr>bus_ctx := b\<lparr>sb_nmi_prev := False\<rparr>\<rparr>) (reset_all (sb_devices b) b))"

definition line_asserted :: "IrqLine \<Rightarrow> ('s, 'c) system_bus \<Rightarrow> bool" where
  "line_asserted wire b =
    fold (\<lambda>m acc. if m_irq_line m = wire then acc \<or> ptr_irq_asserted (m_device m) b else acc) (sb_devices b) False"

definition update_irq_lines :: "('s, 'c) machine \<Rightarrow> ('s, 'c) machine" where
  "update_irq_lines c =
    (let b = bus_ctx c;
         irq = line_asserted IRQ b; firq = line_asserted FIRQ b; nmi = line_asserted NMI b;
         c = set_firq firq (set_irq irq c);
         c = (if nmi \<and> \<not> sb_nmi_prev b then nmi_pulse c else c)
     in c\<lparr>bus_ctx := b\<lparr>sb_nmi_prev := nmi\<rparr>\<rparr>)"

definition sys_step :: "('s, 'c) machine \<Rightarrow> (nat \<times> ('s, 'c) machine) option" where
  "sys_step c =
    (let (n, c) = run_state step c
     in map_option (\<lambda>b. (n, update_irq_lines (c\<lparr>bus_ctx := b\<rparr>))) (tick_all (of_nat n) (sb_devices (bus_ctx c)) (bus_ctx c)))"

text \<open>\<open>None\<close>: the loop, or a step in it, does not end.\<close>

partial_function (option) sys_run_loop :: "u64 \<Rightarrow> u64 \<Rightarrow> ('s, 'c) machine \<Rightarrow> (u64 \<times> ('s, 'c) machine) option" where
  "sys_run_loop max_cycles consumed c =
    (if consumed < max_cycles then
       if halted c then Some (consumed, c)
       else Option.bind (sys_step c) (\<lambda>(n, c). sys_run_loop max_cycles (consumed + of_nat n) c)
     else Some (consumed, c))"

definition sys_run :: "u64 \<Rightarrow> ('s, 'c) machine \<Rightarrow> (u64 \<times> ('s, 'c) machine) option" where
  "sys_run max_cycles c = sys_run_loop max_cycles 0 c"

section \<open>Decoding\<close>

text \<open>What a list of events says of an index: the value at the last index below \<open>n\<close> where \<open>P\<close> holds.\<close>

primrec latest :: "nat \<Rightarrow> (nat \<Rightarrow> bool) \<Rightarrow> (nat \<Rightarrow> 'v) \<Rightarrow> 'v \<Rightarrow> 'v" where
  "latest 0 P f d = d"
| "latest (Suc n) P f d = (if P n then f n else latest n P f d)"

lemma latest_cong: "(\<And>i. i < n \<Longrightarrow> P i = Q i) \<Longrightarrow> (\<And>i. i < n \<Longrightarrow> f i = g i) \<Longrightarrow> latest n P f d = latest n Q g d"
  by (induction n) simp_all

text \<open>The mapping an event asks for, and the name it is about.\<close>

fun asked_mapping :: "bus_config \<Rightarrow> device_mapping option" where
  "asked_mapping (Map_Device name base sz dev wire) =
    Some \<lparr>m_name = name, m_base = base, m_size = sz, m_device = dev, m_irq_line = wire\<rparr>"
| "asked_mapping (Map_Banks base) =
    Some \<lparr>m_name = ''bank_registers'', m_base = base, m_size = 4, m_device = BankRegisters, m_irq_line = NoLine\<rparr>"
| "asked_mapping (Unmap_Device name) = None"

fun config_name :: "bus_config \<Rightarrow> string" where
  "config_name (Map_Device name base sz dev wire) = name"
| "config_name (Map_Banks base) = ''bank_registers''"
| "config_name (Unmap_Device name) = name"

text \<open>Event \<open>i\<close> asked for a window that covers the address.\<close>

definition covers :: "u16 \<Rightarrow> bus_config \<Rightarrow> bool" where
  "covers addr e = (case asked_mapping e of None \<Rightarrow> False
     | Some m \<Rightarrow> unat (m_base m) \<le> unat addr \<and> unat addr < unat (m_base m) + unat (m_size m))"

lemma find_rev_filter: "find P (rev (filter Q xs)) = find (\<lambda>x. P x \<and> Q x) (rev xs)"
proof -
  have "find P (filter Q ys) = find (\<lambda>x. P x \<and> Q x) ys" for ys by (induction ys) auto
  then show ?thesis by (simp add: rev_filter)
qed

lemma configure_devices:
  "sb_devices (configure e b) =
    filter (\<lambda>m. m_name m \<noteq> config_name e) (sb_devices b) @ (case asked_mapping e of None \<Rightarrow> [] | Some m \<Rightarrow> [m])"
  by (cases e) (simp_all add: map_device_def unmap_device_def map_bank_registers_def Let_def)

lemma asked_name: "asked_mapping e = Some m \<Longrightarrow> m_name m = config_name e"
  by (cases e) auto

text \<open>With the names in \<open>N\<close> passed over, for the induction.\<close>

lemma find_configured:
  assumes "sb_devices b = []"
  shows "find (\<lambda>m. in_window addr m \<and> m_name m \<notin> N) (rev (sb_devices (fold configure es b))) =
    latest (length es) (\<lambda>i. covers addr (es ! i) \<and> config_name (es ! i) \<notin> set (map config_name (drop (Suc i) es)) \<union> N)
      (\<lambda>i. asked_mapping (es ! i)) None"
proof (induction es arbitrary: N rule: rev_induct)
  case Nil
  then show ?case by (simp add: assms)
next
  case (snoc e es)
  let ?b = "fold configure es b"
  let ?all = "es @ [e]"
  have old: "find (\<lambda>m. (in_window addr m \<and> m_name m \<notin> N) \<and> m_name m \<noteq> config_name e) (rev (sb_devices ?b)) =
      latest (length es) (\<lambda>i. covers addr (?all ! i) \<and> config_name (?all ! i) \<notin> set (map config_name (drop (Suc i) ?all)) \<union> N)
        (\<lambda>i. asked_mapping (?all ! i)) None" (is "?found = ?latest")
  proof -
    have "?found = find (\<lambda>m. in_window addr m \<and> m_name m \<notin> insert (config_name e) N) (rev (sb_devices ?b))"
      by (rule arg_cong [of _ _ "\<lambda>P. find P _"]) auto
    also have "\<dots> = ?latest"
      unfolding snoc.IH by (rule latest_cong) (simp_all add: nth_append conj_commute)
    finally show ?thesis .
  qed
  show ?case
  proof (cases "asked_mapping e")
    case None
    then show ?thesis using old by (simp add: configure_devices find_rev_filter covers_def)
  next
    case (Some m)
    then show ?thesis
      using old asked_name [OF Some] by (simp add: configure_devices find_rev_filter covers_def in_window_def)
  qed
qed

text \<open>C8. Which device answers: after any sequence of mappings and unmappings on a new bus, an address decodes to the
  window of the latest mapping that covers it among those whose name no later event maps again or unmaps; and to
  no device, so to RAM, if there is none.\<close>
theorem map_device_priority:
  "find_mapping addr (fold configure es (new_bus pages store)) =
    latest (length es) (\<lambda>i. covers addr (es ! i) \<and> config_name (es ! i) \<notin> set (map config_name (drop (Suc i) es)))
      (\<lambda>i. asked_mapping (es ! i)) None"
  using find_configured [of "new_bus pages store" addr "{}" es] by (simp add: find_mapping_def new_bus_def)

lemma find_mapping_Some: "find_mapping addr b = Some m \<Longrightarrow> m \<in> set (sb_devices b) \<and> in_window addr m"
  by (auto simp: find_mapping_def find_Some_iff) (metis length_rev nth_mem set_rev)

lemma window_offset: "in_window addr m \<Longrightarrow> unat (addr - m_base m) < unat (m_size m)"
  by (auto simp: in_window_def unat_sub word_le_nat_alt)

section \<open>Banked RAM\<close>

datatype bus_access = Rd u16 | Wr u16 u8

fun do_access :: "bus_access \<Rightarrow> ('s, 'c) system_bus \<Rightarrow> ('s, 'c) system_bus" where
  "do_access (Rd a) b = snd (bus_read8 b a)"
| "do_access (Wr a v) b = bus_write8 b a v"

text \<open>The bus seen from outside, in plain arithmetic: which accesses load a bank register, what each register holds
  after some accesses, the place in RAM an address then means, and which accesses store there. The mappings are
  those of the bus at the start: no access changes them.\<close>

fun loads_bank :: "('s, 'c) system_bus \<Rightarrow> nat \<Rightarrow> bus_access \<Rightarrow> bool" where
  "loads_bank b k (Rd a) = False"
| "loads_bank b k (Wr a v) = (case find_mapping a b of None \<Rightarrow> False
     | Some m \<Rightarrow> m_device m = BankRegisters \<and> (unat a - unat (m_base m)) mod 4 = k)"

fun written :: "bus_access \<Rightarrow> u8" where
  "written (Rd a) = 0"
| "written (Wr a v) = v"

definition bank_page :: "('s, 'c) system_bus \<Rightarrow> bus_access list \<Rightarrow> nat \<Rightarrow> u8" where
  "bank_page b es k = latest (length es) (\<lambda>i. loads_bank b k (es ! i)) (\<lambda>i. written (es ! i)) (sb_bank_regs b ! k)"

definition ram_place :: "('s, 'c) system_bus \<Rightarrow> bus_access list \<Rightarrow> u16 \<Rightarrow> nat" where
  "ram_place b es a = unat (bank_page b es (unat a div 16384)) * 16384 + unat a mod 16384"

fun stores_at :: "('s, 'c) system_bus \<Rightarrow> bus_access list \<Rightarrow> nat \<Rightarrow> bus_access \<Rightarrow> bool" where
  "stores_at b es p (Rd a) = False"
| "stores_at b es p (Wr a v) \<longleftrightarrow> find_mapping a b = None \<and> ram_place b es a = p"

definition ram_value :: "('s, 'c) system_bus \<Rightarrow> bus_access list \<Rightarrow> nat \<Rightarrow> u8" where
  "ram_value b es p = latest (length es) (\<lambda>i. stores_at b (take i es) p (es ! i)) (\<lambda>i. written (es ! i)) (sb_ram b p)"

lemma bank_page_snoc: "bank_page b (es @ [e]) k = (if loads_bank b k e then written e else bank_page b es k)"
  by (simp add: bank_page_def nth_append cong: if_cong) (auto intro!: latest_cong)

lemma ram_value_snoc: "ram_value b (es @ [e]) p = (if stores_at b es p e then written e else ram_value b es p)"
  by (simp add: ram_value_def nth_append cong: if_cong) (auto intro!: latest_cong)

lemma bank_index: "unat (drop_bit 14 (a :: u16)) = unat a div 16384" "unat a div 16384 < 4"
proof -
  show "unat (drop_bit 14 a) = unat a div 16384" by (simp only: unat_drop_bit_eq) (simp add: drop_bit_eq_div)
  show "unat a div 16384 < 4" using unsigned_less [of a] by (simp add: div_less_iff_less_mult)
qed

lemma bank_offset: "unat ((a :: u16) AND 0x3FFF) = unat a mod 16384"
proof -
  have "(0x3FFF :: u16) = mask 14" by (simp add: mask_eq_exp_minus_1)
  then show ?thesis by (simp only: take_bit_eq_mask [symmetric] unsigned_take_bit_eq) (simp add: take_bit_eq_mod)
qed

lemma phys_byte_arith:
  "phys_byte a b = (let page = unat (sb_bank_regs b ! (unat a div 16384))
     in if sb_ram_pages b \<le> page then None else Some (page * 16384 + unat a mod 16384))"
  by (simp add: phys_byte_def bank_index bank_offset kPageSize_def Let_def)

lemma find_mapping_other [simp]:
  "find_mapping a (b\<lparr>sb_ram := r\<rparr>) = find_mapping a b" "find_mapping a (b\<lparr>sb_store := st\<rparr>) = find_mapping a b"
  "find_mapping a (b\<lparr>sb_bank_regs := rs\<rparr>) = find_mapping a b" "find_mapping a (b\<lparr>sb_nmi_prev := x\<rparr>) = find_mapping a b"
  "phys_byte a (b\<lparr>sb_ram := r\<rparr>) = phys_byte a b" "phys_byte a (b\<lparr>sb_store := st\<rparr>) = phys_byte a b"
  by (simp_all add: find_mapping_def phys_byte_def)

lemma offset_mod4:
  assumes "find_mapping a b = Some m"
  shows "unat ((a - m_base m) AND 3) = (unat a - unat (m_base m)) mod 4"
proof -
  have "unat (a - m_base m) = unat a - unat (m_base m)"
    using find_mapping_Some [OF assms] by (simp add: in_window_def unat_sub word_le_nat_alt)
  moreover have "(3 :: u16) = mask 2" by (simp add: mask_eq_exp_minus_1)
  ultimately show ?thesis
    by (simp only: take_bit_eq_mask [symmetric] unsigned_take_bit_eq) (simp add: take_bit_eq_mod)
qed

text \<open>The bus after some accesses.\<close>

definition seen_as :: "('s, 'c) system_bus \<Rightarrow> bus_access list \<Rightarrow> ('s, 'c) system_bus \<Rightarrow> bool" where
  "seen_as b es b' \<longleftrightarrow> (\<forall>a. find_mapping a b' = find_mapping a b) \<and> sb_ram_pages b' = sb_ram_pages b \<and>
     length (sb_bank_regs b') = 4 \<and> (\<forall>k<4. sb_bank_regs b' ! k = bank_page b es k) \<and>
     (\<forall>p < sb_ram_pages b * 16384. sb_ram b' p = ram_value b es p)"

lemma place_installed:
  fixes a :: u16
  shows "q * 16384 + unat a mod 16384 < n * 16384 \<longleftrightarrow> q < n"
proof -
  have "unat a mod 16384 < 16384" by simp
  then show ?thesis by linarith
qed

lemma seen_as_phys:
  assumes "seen_as b es b'"
  shows "phys_byte a b' = (if sb_ram_pages b * 16384 \<le> ram_place b es a then None else Some (ram_place b es a))"
  using assms bank_index(2) [of a] place_installed [of "unat (bank_page b es (unat a div 16384))" a "sb_ram_pages b"]
  by (auto simp: seen_as_def phys_byte_arith ram_place_def Let_def not_le)

lemma seen_as_store: "seen_as b es b' \<Longrightarrow> seen_as b es (b'\<lparr>sb_store := st\<rparr>)"
  by (simp add: seen_as_def)

lemma seen_as_access:
  assumes "seen_as b es b'"
  shows "seen_as b (es @ [e]) (do_access e b')"
proof (cases e)
  case (Rd a)
  have same: "seen_as b (es @ [Rd a]) c \<longleftrightarrow> seen_as b es c" for c
    by (simp add: seen_as_def bank_page_snoc ram_value_snoc)
  show ?thesis
    using assms by (auto simp: same Rd bus_read8_def ptr_read_def seen_as_store split: option.split device_ptr.split prod.split)
next
  case (Wr a v)
  have map: "find_mapping a b' = find_mapping a b" using assms by (simp add: seen_as_def)
  show ?thesis
  proof (cases "find_mapping a b")
    case None
    then show ?thesis
      using assms seen_as_phys [OF assms, of a] by (auto simp: seen_as_def Wr bus_write8_def map bank_page_snoc ram_value_snoc)
  next
    case (Some m)
    show ?thesis
    proof (cases "m_device m")
      case BankRegisters
      then show ?thesis
        using assms Some offset_mod4 [OF Some]
        by (auto simp: seen_as_def Wr bus_write8_def map ptr_write_def bank_page_snoc ram_value_snoc nth_list_update)
    next
      case (DevPtr i)
      have same: "seen_as b (es @ [e]) c \<longleftrightarrow> seen_as b es c" for c
        by (simp add: seen_as_def bank_page_snoc ram_value_snoc Wr Some DevPtr)
      show ?thesis using assms by (simp add: same) (simp add: Wr Some DevPtr bus_write8_def map ptr_write_def seen_as_store)
    qed
  qed
qed

lemma seen_as_accesses: "length (sb_bank_regs b) = 4 \<Longrightarrow> seen_as b es (fold do_access es b)"
proof (induction es rule: rev_induct)
  case Nil
  then show ?case by (simp add: seen_as_def bank_page_def ram_value_def)
qed (simp add: seen_as_access)

text \<open>C7. Banked RAM is memory: after any reads and writes of the CPU, to RAM, devices and bank registers, an address
  with no device reads the byte last written to the same place, the same offset of the same page, through whichever
  bank showed that page at the time (and what was there at the start if none was); the page of a bank is the byte
  last written to its register. A place beyond the installed RAM reads $FF.\<close>
theorem banked_ram_access:
  assumes "length (sb_bank_regs b) = 4" "find_mapping addr b = None"
  shows "fst (bus_read8 (fold do_access es b) addr) =
    (if sb_ram_pages b * 16384 \<le> ram_place b es addr then 0xFF else ram_value b es (ram_place b es addr))"
proof -
  let ?b = "fold do_access es b"
  have seen: "seen_as b es ?b" using assms(1) by (rule seen_as_accesses)
  then have "find_mapping addr ?b = None" using assms(2) by (simp add: seen_as_def)
  then show ?thesis
    using seen_as_phys [OF seen, of addr] seen by (auto simp: bus_read8_def seen_as_def)
qed

text \<open>A page shown in bank 1, written, then shown in bank 2 and read there.\<close>

definition bank_example :: "(unit, unit) system_bus" where
  "bank_example = map_bank_registers kBankRegistersBase (new_bus 64 (\<lambda>_. RomDev (new_rom 0)))"

lemma bank_example_map:
  "find_mapping a bank_example = (if 0xFFEC \<le> unat a \<and> unat a < 0xFFF0
     then Some \<lparr>m_name = ''bank_registers'', m_base = 0xFFEC, m_size = 4, m_device = BankRegisters, m_irq_line = NoLine\<rparr> else None)"
  by (simp add: bank_example_def find_mapping_def map_bank_registers_def map_device_def unmap_device_def new_bus_def Let_def
      in_window_def kBankRegistersBase_def)

theorem banked_ram_access_witness:
  "fst (bus_read8 (fold do_access [Wr 0xFFED 9, Wr 0x4123 0x5A, Wr 0xFFED 1, Wr 0x4123 0x11, Wr 0xFFEE 9] bank_example) 0x8123) = 0x5A"
proof -
  let ?es = "[Wr 0xFFED 9, Wr 0x4123 0x5A, Wr 0xFFED 1, Wr 0x4123 0x11, Wr 0xFFEE 9]"
  have regs: "sb_bank_regs bank_example = [0, 1, 2, 3]" "sb_ram_pages bank_example = 64"
    by (simp_all add: bank_example_def map_bank_registers_def map_device_def unmap_device_def new_bus_def kAddressablePages_def Let_def)
  have place: "ram_place bank_example ?es 0x8123 = 9 * 16384 + 0x123"
    by (simp add: ram_place_def bank_page_def bank_example_map regs)
  have "ram_value bank_example ?es (9 * 16384 + 0x123) = 0x5A"
    by (simp add: ram_value_def ram_place_def bank_page_def bank_example_map regs)
  then show ?thesis
    using banked_ram_access [of bank_example "0x8123" ?es] by (simp only: place regs) (simp add: bank_example_map)
qed

section \<open>Interrupt lines\<close>
lemma line_asserted_iff:
  "line_asserted wire b \<longleftrightarrow> (\<exists>m\<in>set (sb_devices b). m_irq_line m = wire \<and> ptr_irq_asserted (m_device m) b)"
proof -
  have "fold (\<lambda>m acc. if m_irq_line m = wire then acc \<or> ptr_irq_asserted (m_device m) b else acc) ms acc
      \<longleftrightarrow> acc \<or> (\<exists>m\<in>set ms. m_irq_line m = wire \<and> ptr_irq_asserted (m_device m) b)"
    for ms :: "device_mapping list" and acc
    by (induction ms arbitrary: acc) auto
  then show ?thesis unfolding line_asserted_def by simp
qed

text \<open>After every update the IRQ and FIRQ inputs of the CPU are the wired OR of the devices mapped to
  them, and a non-maskable interrupt becomes pending exactly on the rising edge of the OR of the
  devices mapped to NMI; registers and RAM are untouched.\<close>
theorem interrupt_wiring:
  "let c' = update_irq_lines c; b = bus_ctx c;
       nmi = (\<exists>m\<in>set (sb_devices b). m_irq_line m = NMI \<and> ptr_irq_asserted (m_device m) b) in
    (irq_line c' \<longleftrightarrow> (\<exists>m\<in>set (sb_devices b). m_irq_line m = IRQ \<and> ptr_irq_asserted (m_device m) b)) \<and>
    (firq_line c' \<longleftrightarrow> (\<exists>m\<in>set (sb_devices b). m_irq_line m = FIRQ \<and> ptr_irq_asserted (m_device m) b)) \<and>
    (nmi_pending c' \<longleftrightarrow> nmi_pending c \<or> (nmi \<and> \<not> sb_nmi_prev b)) \<and>
    sb_nmi_prev (bus_ctx c') = nmi \<and> regs.truncate c' = regs.truncate c \<and> sb_ram (bus_ctx c') = sb_ram b"
  by (auto simp: update_irq_lines_def Let_def line_asserted_iff set_irq_def set_firq_def nmi_pulse_def
    regs.truncate_def)

section \<open>Invariant of the machine\<close>

text \<open>The bank registers are four, the installed pages between 4 and 256, mapping names are distinct,
  and every device keeps its invariant.\<close>

definition bus_inv :: "('s, 'c) system_bus \<Rightarrow> bool" where
  "bus_inv b \<longleftrightarrow> length (sb_bank_regs b) = 4 \<and> 4 \<le> sb_ram_pages b \<and> sb_ram_pages b \<le> kAddressablePages \<and>
     distinct (map m_name (sb_devices b)) \<and> (\<forall>i. dev_inv (sb_store b i))"

lemma bus_inv_store: "bus_inv b \<Longrightarrow> dev_inv d \<Longrightarrow> bus_inv (b\<lparr>sb_store := (sb_store b)(i := d)\<rparr>)"
  by (simp add: bus_inv_def)

lemma bus_inv_ptr:
  assumes "bus_inv b"
  shows "bus_inv (snd (ptr_read p a b))" "bus_inv (ptr_write p a v b)"
    "\<exists>b'. ptr_reset p b = Some b' \<and> bus_inv b'" "\<exists>b'. ptr_tick n p b = Some b' \<and> bus_inv b'"
proof -
  have dev: "dev_inv (sb_store b i)" for i using assms by (simp add: bus_inv_def)
  show "bus_inv (snd (ptr_read p a b))" "bus_inv (ptr_write p a v b)"
    using assms by (cases p; simp add: bus_inv_def ptr_read_def ptr_write_def split_beta dev.inv_read dev.inv_write)+
  show "\<exists>b'. ptr_reset p b = Some b' \<and> bus_inv b'"
    using assms dev.reset_returns [OF dev] by (cases p) (fastforce simp: ptr_reset_def intro: bus_inv_store)+
  show "\<exists>b'. ptr_tick n p b = Some b' \<and> bus_inv b'"
    using assms dev.tick_returns [OF dev] by (cases p) (fastforce simp: ptr_tick_def intro: bus_inv_store)+
qed

lemma bus_inv_read: "bus_inv b \<Longrightarrow> bus_inv (snd (bus_read8 b a))"
  by (simp add: bus_read8_def bus_inv_ptr split: option.split)

lemma bus_inv_write: "bus_inv b \<Longrightarrow> bus_inv (bus_write8 b a v)"
  by (auto simp: bus_write8_def bus_inv_ptr split: option.split) (simp add: bus_inv_def)

lemma bus_inv_access: "bus_inv b \<Longrightarrow> bus_inv (do_access e b)"
  by (cases e) (simp_all add: bus_inv_read bus_inv_write)

lemma bus_inv_reach: "bus_reach bus_read8 bus_write8 b b' \<Longrightarrow> bus_inv b \<Longrightarrow> bus_inv b'"
  by (induction rule: bus_reach.induct) (simp_all add: bus_inv_read bus_inv_write)

lemma bus_inv_reset_all: "bus_inv b \<Longrightarrow> \<exists>b'. reset_all ms b = Some b' \<and> bus_inv b'"
proof (induction ms arbitrary: b)
  case (Cons m ms)
  then show ?case using bus_inv_ptr(3) [OF Cons.prems, of "m_device m"] by fastforce
qed simp

lemma bus_inv_tick_all: "bus_inv b \<Longrightarrow> \<exists>b'. tick_all n ms b = Some b' \<and> bus_inv b'"
proof (induction ms arbitrary: b)
  case (Cons m ms)
  then show ?case using bus_inv_ptr(4) [OF Cons.prems, of n "m_device m"] by fastforce
qed simp

lemma bus_inv_configure: "bus_inv b \<Longrightarrow> bus_inv (configure e b)"
proof -
  assume b: "bus_inv b"
  have rest: "sb_bank_regs (configure e b) = sb_bank_regs b" "sb_ram_pages (configure e b) = sb_ram_pages b"
    "sb_store (configure e b) = sb_store b"
    by (cases e; simp add: map_device_def unmap_device_def map_bank_registers_def Let_def)+
  have "distinct (map m_name (sb_devices (configure e b)))"
    using b asked_name [of e] by (auto simp: bus_inv_def configure_devices distinct_map_filter split: option.split)
  then show ?thesis using b by (simp add: bus_inv_def rest)
qed

text \<open>A machine: a CPU on the bus callbacks, with a bus that satisfies its invariant.\<close>

definition machine_inv :: "('s, 'c) machine \<Rightarrow> bool" where
  "machine_inv c \<longleftrightarrow> read_fn c = bus_read8 \<and> write_fn c = bus_write8 \<and> bus_inv (bus_ctx c)"

lemma machine_inv_trace: "machine_inv c \<Longrightarrow> bus_trace c c' \<Longrightarrow> machine_inv c'"
  by (auto simp: machine_inv_def bus_trace_def intro: bus_inv_reach)

lemma machine_inv_ctx: "machine_inv c \<Longrightarrow> bus_inv b \<Longrightarrow> machine_inv (c\<lparr>bus_ctx := b\<rparr>)"
  by (simp add: machine_inv_def)

lemma machine_inv_irq: "machine_inv c \<Longrightarrow> machine_inv (update_irq_lines c)"
  by (simp add: machine_inv_def update_irq_lines_def set_irq_def set_firq_def nmi_pulse_def Let_def bus_inv_def)

lemma halted_update [simp]: "halted (update_irq_lines c) = halted c"
  by (simp add: update_irq_lines_def set_irq_def set_firq_def nmi_pulse_def Let_def)

lemma sys_step_returns:
  assumes "machine_inv c"
  shows "\<exists>d. sys_step c = Some (fst (run_state step c), d) \<and> machine_inv d \<and> halted d = halted c"
proof -
  let ?d = "snd (run_state step c)" and ?n = "fst (run_state step c)"
  have d: "machine_inv ?d"
    using assms preservesD [OF bus.keep_step] by (rule machine_inv_trace)
  then obtain b where b: "tick_all (of_nat ?n) (sb_devices (bus_ctx ?d)) (bus_ctx ?d) = Some b" "bus_inv b"
    using bus_inv_tick_all unfolding machine_inv_def by blast
  then have "sys_step c = Some (?n, update_irq_lines (?d\<lparr>bus_ctx := b\<rparr>))"
    by (simp add: sys_step_def split_beta)
  then show ?thesis using d b(2) halted_step [of c] by (simp add: machine_inv_irq machine_inv_ctx)
qed

lemma machine_inv_reset: "machine_inv c \<Longrightarrow> machine_inv (snd (run_state reset_cpu c))"
proof -
  assume inv: "machine_inv c"
  have regs: "machine_inv (c\<lparr>r_pc := p, r_x := 0, r_y := 0, r_u := 0, r_s := 0, r_v := 0,
      r_a := 0, r_b := 0, r_dp := 0, r_e := 0, r_f := 0, r_cc := k, r_md := 0\<rparr>)" for p k
    using inv by (simp add: machine_inv_def)
  have read: "machine_inv (snd (run_state (read16 a) d))" if "machine_inv d" for a d
    using that preservesD [OF bus.keep_access(3)] by (rule machine_inv_trace)
  have clear: "machine_inv (d\<lparr>r_pc := p, irq_line := False, firq_line := False, nmi_pending := False,
      wait_sync := False, halted := False, cwai_pushed_pending := False, total_cycles := 0,
      stop_reason := CycleBudget\<rparr>)" if "machine_inv d" for d p
    using that by (simp add: machine_inv_def)
  show ?thesis
    by (simp add: reset_cpu_def split_beta clear read regs)
qed

lemma sys_reset_returns:
  assumes "machine_inv c"
  shows "\<exists>c'. sys_reset c = Some c' \<and> machine_inv c'"
proof -
  let ?c = "snd (run_state reset_cpu c)"
  have c: "machine_inv ?c" using assms by (rule machine_inv_reset)
  then have "bus_inv ((bus_ctx ?c)\<lparr>sb_bank_regs := [0, 1, 2, 3]\<rparr>)" by (simp add: machine_inv_def bus_inv_def)
  from bus_inv_reset_all [OF this, of "sb_devices (bus_ctx ?c)"]
  obtain b where "reset_all (sb_devices (bus_ctx ?c)) ((bus_ctx ?c)\<lparr>sb_bank_regs := [0, 1, 2, 3]\<rparr>) = Some b" "bus_inv b"
    by auto
  then show ?thesis using c by (auto simp: sys_reset_def machine_inv_def bus_inv_def)
qed

lemma phys_byte_bound:
  assumes "phys_byte addr b = Some p"
  shows "p < sb_ram_pages b * kPageSize"
  using assms place_installed [of "unat (sb_bank_regs b ! (unat addr div 16384))" addr "sb_ram_pages b"]
  by (simp add: phys_byte_arith kPageSize_def Let_def split: if_splits)

section \<open>Running\<close>

lemma sys_run_loop_outcome:
  assumes "unat max_cycles \<le> 2 ^ 63" "unat consumed \<le> unat max_cycles + 196611" "machine_inv c"
  shows "\<exists>n c'. sys_run_loop max_cycles consumed c = Some (n, c') \<and> machine_inv c' \<and> halted c' = halted c \<and>
    (if halted c then n = consumed else max_cycles \<le> n \<and> unat n \<le> unat max_cycles + 196611)"
  using assms(2,3)
proof (induction "unat max_cycles - unat consumed" arbitrary: consumed c rule: less_induct)
  case less
  show ?case
  proof (cases "consumed < max_cycles \<and> \<not> halted c")
    case True
    obtain k d where d: "sys_step c = Some (k, d)" "machine_inv d" "\<not> halted d" "k = fst (run_state step c)"
      using sys_step_returns [OF less.prems(2)] True by blast
    have k: "1 \<le> k" "k \<le> 196611"
      using step_cycles [of c] d(4) True by simp_all
    have lt: "unat consumed < unat max_cycles"
      using True by (simp add: word_less_nat_alt)
    then have "unat (consumed + of_nat k) = unat consumed + k"
      using assms(1) k by (intro unat_add_small) simp_all
    then obtain n c' where "sys_run_loop max_cycles (consumed + of_nat k) d = Some (n, c')" "machine_inv c'" "\<not> halted c'"
        "max_cycles \<le> n \<and> unat n \<le> unat max_cycles + 196611"
      using less.hyps [of "consumed + of_nat k" d] lt k d(2,3) by fastforce
    then show ?thesis
      using True d by (subst sys_run_loop.simps) auto
  next
    case False
    then show ?thesis
      using less.prems by (subst sys_run_loop.simps) auto
  qed
qed

text \<open>C9. \<^verbatim>\<open>SystemBus::run\<close> returns for every budget up to $2^{63}$ cycles, whatever the program and whatever the devices on
  the bus (ROM, UART, SD card, OPL3 and video card, each in a state that satisfies its invariant): with the budget
  used up and overrun by at most one instruction, or at once when the CPU is halted.\<close>
theorem sys_run_terminates:
  assumes "machine_inv c" "unat max_cycles \<le> 2 ^ 63"
  shows "\<exists>n c'. sys_run max_cycles c = Some (n, c') \<and>
    (if halted c then n = 0 else max_cycles \<le> n \<and> unat n \<le> unat max_cycles + 196611)"
  using sys_run_loop_outcome [OF assms(2) _ assms(1), of 0] by (auto simp: sys_run_def)

section \<open>All the operations\<close>

lemma bus_inv_new: "(\<And>i. dev_inv (store i)) \<Longrightarrow> bus_inv (new_bus pages store)"
  by (simp add: bus_inv_def new_bus_def kAddressablePages_def)

lemma machine_inv_new: "(\<And>i. dev_inv (store i)) \<Longrightarrow> machine_inv (new_machine pages store)"
  unfolding new_machine_def new_CPU_def
  by (rule machine_inv_reset) (simp add: machine_inv_def bus_inv_new)

text \<open>What a program that owns a \<^verbatim>\<open>SystemBus\<close> can do with it: the public methods, filling its RAM through \<^verbatim>\<open>ram()\<close>, and
  calling a device's own methods between them (a key, a disk, a received byte), which leaves the object in another
  state.\<close>

datatype ('s, 'c) machine_op =
  Step_Bus
| Run_Bus u64
| Reset_Bus
| Configure bus_config
| Cpu_Access bus_access
| Fill_Ram "nat \<Rightarrow> u8"
| Set_Object nat "('s, 'c) device"

primrec machine_do :: "('s, 'c) machine_op \<Rightarrow> ('s, 'c) machine \<Rightarrow> ('s, 'c) machine option" where
  "machine_do Step_Bus c = map_option snd (sys_step c)"
| "machine_do (Run_Bus max_cycles) c = map_option snd (sys_run max_cycles c)"
| "machine_do Reset_Bus c = sys_reset c"
| "machine_do (Configure e) c = Some (c\<lparr>bus_ctx := configure e (bus_ctx c)\<rparr>)"
| "machine_do (Cpu_Access e) c = Some (c\<lparr>bus_ctx := do_access e (bus_ctx c)\<rparr>)"
| "machine_do (Fill_Ram ram) c = Some (c\<lparr>bus_ctx := (bus_ctx c)\<lparr>sb_ram := ram\<rparr>\<rparr>)"
| "machine_do (Set_Object i d) c = Some (c\<lparr>bus_ctx := (bus_ctx c)\<lparr>sb_store := (sb_store (bus_ctx c))(i := d)\<rparr>\<rparr>)"

primrec machine_does :: "('s, 'c) machine_op list \<Rightarrow> ('s, 'c) machine \<Rightarrow> ('s, 'c) machine option" where
  "machine_does [] c = Some c"
| "machine_does (e # es) c = Option.bind (machine_do e c) (machine_does es)"

text \<open>A budget the loop's 64-bit counter can pass, an object that satisfies its class's invariant.\<close>

primrec fair_op :: "('s, 'c) machine_op \<Rightarrow> bool" where
  "fair_op Step_Bus = True"
| "fair_op (Run_Bus max_cycles) = (unat max_cycles \<le> 2 ^ 63)"
| "fair_op Reset_Bus = True"
| "fair_op (Configure e) = True"
| "fair_op (Cpu_Access e) = True"
| "fair_op (Fill_Ram ram) = True"
| "fair_op (Set_Object i d) = dev_inv d"

lemma machine_do_returns:
  assumes "machine_inv c" "fair_op e"
  shows "\<exists>c'. machine_do e c = Some c' \<and> machine_inv c'"
proof (cases e)
  case Step_Bus
  then show ?thesis using sys_step_returns [OF assms(1)] by auto
next
  case (Run_Bus max_cycles)
  then show ?thesis using sys_run_loop_outcome [of max_cycles 0 c] assms by (auto simp: sys_run_def)
next
  case Reset_Bus
  then show ?thesis using sys_reset_returns [OF assms(1)] by simp
next
  case (Fill_Ram ram)
  then show ?thesis using assms(1) by (simp add: machine_inv_def bus_inv_def)
qed (use assms in \<open>simp_all add: machine_inv_def bus_inv_configure bus_inv_access bus_inv_store\<close>)

lemma machine_does_returns:
  "machine_inv c \<Longrightarrow> list_all fair_op es \<Longrightarrow> \<exists>c'. machine_does es c = Some c' \<and> machine_inv c'"
proof (induction es arbitrary: c)
  case (Cons e es)
  then show ?case using machine_do_returns [of c e] by fastforce
qed simp

text \<open>C2. The machine never hangs and stays well formed: from a machine with its invariant every sequence of steps, runs,
  resets, mappings and unmappings, accesses and changes to its RAM and devices returns, and the machine it leaves has
  it too: the CPU on the bus's callbacks, four bank registers, between 4 and 256 pages of RAM, mappings of distinct
  names, every device in its invariant. There every access is in bounds: the bank register an address selects is
  one of the four, the byte of RAM it means is installed, and a device gets an offset inside its window.\<close>
theorem machine_invariant:
  assumes "machine_inv c" "list_all fair_op es"
  shows "\<exists>c'. machine_does es c = Some c' \<and> machine_inv c' \<and>
    (\<forall>addr :: u16. unat addr div 16384 < length (sb_bank_regs (bus_ctx c'))) \<and>
    (\<forall>addr p. phys_byte addr (bus_ctx c') = Some p \<longrightarrow> p < sb_ram_pages (bus_ctx c') * kPageSize) \<and>
    (\<forall>addr m. find_mapping addr (bus_ctx c') = Some m \<longrightarrow> unat (addr - m_base m) < unat (m_size m))"
proof -
  obtain c' where c': "machine_does es c = Some c'" "machine_inv c'"
    using machine_does_returns [OF assms] by blast
  then have "length (sb_bank_regs (bus_ctx c')) = 4" by (simp add: machine_inv_def bus_inv_def)
  then show ?thesis
    using c' phys_byte_bound [of _ "bus_ctx c'"] find_mapping_Some [of _ "bus_ctx c'"] window_offset bank_index(2) by auto
qed

text \<open>A machine with a ROM, a UART and a video card.\<close>

definition machine_example :: "(nat, unit) machine" where
  "machine_example = new_machine 64 (\<lambda>i. if i = 0 then RomDev (new_rom 0x1000) else if i = 1 then UartDev (new_uart 1843200)
     else VideoDev counting_sink [] (the (new_video_device counting_sink [] 3579545)))"

lemma machine_example_inv: "machine_inv machine_example"
proof -
  obtain d where "new_video_device counting_sink [] 3579545 = Some d" "device_ok d"
    using new_video_device_ok [of 3579545 counting_sink "[]"] by auto
  then show ?thesis unfolding machine_example_def by (intro machine_inv_new) (simp add: uart_inv_def new_uart_def)
qed

theorem machine_invariant_witness:
  "\<exists>c'. machine_does [Configure (Map_Device ''bios_rom'' 0xF000 0x1000 (DevPtr 0) NoLine),
      Configure (Map_Device ''uart'' 0xFFE8 4 (DevPtr 1) IRQ), Configure (Map_Device ''video'' 0xFF80 0x20 (DevPtr 2) IRQ),
      Configure (Map_Banks kBankRegistersBase), Reset_Bus, Run_Bus 100000, Configure (Unmap_Device ''uart''), Step_Bus]
    machine_example = Some c' \<and> machine_inv c'"
  using machine_invariant [OF machine_example_inv, of "[Configure (Map_Device ''bios_rom'' 0xF000 0x1000 (DevPtr 0) NoLine),
      Configure (Map_Device ''uart'' 0xFFE8 4 (DevPtr 1) IRQ), Configure (Map_Device ''video'' 0xFF80 0x20 (DevPtr 2) IRQ),
      Configure (Map_Banks kBankRegistersBase), Reset_Bus, Run_Bus 100000, Configure (Unmap_Device ''uart''), Step_Bus]"]
  by fastforce

theorem sys_run_terminates_witness:
  "\<exists>n c'. sys_run 5000 machine_example = Some (n, c')"
  using sys_run_terminates [OF machine_example_inv, of 5000] by auto

end
