(* ===== verification/Stack.thy ===== *)
theory Stack
  imports System_Bus
begin

text \<open>
  The stack discipline: register lists (PSHS, PULS, PSHU, PULU) and interrupt frames (the entry sequence
  and RTI) on any memory that behaves as RAM where the stack is. \<open>memory_region\<close> is the contract of such
  a memory; the system bus provides it for the addresses \<open>bus_peek\<close> sees, the flat RAM of the C API for
  every address.
\<close>

unbundle bit_operations_syntax

section \<open>Memory regions\<close>

locale memory_region =
  fixes rd :: "'m \<Rightarrow> u16 \<Rightarrow> u8 \<times> 'm" and wr :: "'m \<Rightarrow> u16 \<Rightarrow> u8 \<Rightarrow> 'm"
    and ram :: "'m \<Rightarrow> u16 \<Rightarrow> bool" and val :: "'m \<Rightarrow> u16 \<Rightarrow> u8"
  assumes rd_val: "ram m a \<Longrightarrow> rd m a = (val m a, m)"
    and ram_wr: "ram m a \<Longrightarrow> ram (wr m a v) b = ram m b"
    and val_wr: "ram m a \<Longrightarrow> ram m b \<Longrightarrow> val (wr m a v) b = (if b = a then v else val m b)"
    and ram_rd: "ram (snd (rd m a)) b = ram m b"
    and val_rd: "ram m b \<Longrightarrow> val (snd (rd m a)) b = val m b"

text \<open>The bytes of a list stored upwards from an address, and room below it.\<close>

primrec bytes_at :: "('m \<Rightarrow> u16 \<Rightarrow> bool) \<Rightarrow> ('m \<Rightarrow> u16 \<Rightarrow> u8) \<Rightarrow> 'm \<Rightarrow> u16 \<Rightarrow> u8 list \<Rightarrow> bool" where
  "bytes_at ram val m a [] = True"
| "bytes_at ram val m a (b # bs) = (ram m a \<and> val m a = b \<and> bytes_at ram val m (a + 1) bs)"

definition room_below :: "('m \<Rightarrow> u16 \<Rightarrow> bool) \<Rightarrow> 'm \<Rightarrow> u16 \<Rightarrow> nat \<Rightarrow> bool" where
  "room_below ram m a n = list_all (\<lambda>i. ram m (a - of_nat i - 1)) [0..<n]"

lemma room_below_iff: "room_below ram m a n \<longleftrightarrow> (\<forall>i<n. ram m (a - of_nat i - 1))"
  by (auto simp: room_below_def list_all_iff)

lemma room_below_mono: "room_below ram m a n \<Longrightarrow> k \<le> n \<Longrightarrow> room_below ram m a k"
  by (simp add: room_below_iff)

definition on_bus :: "('m \<Rightarrow> u16 \<Rightarrow> u8 \<times> 'm) \<Rightarrow> ('m \<Rightarrow> u16 \<Rightarrow> u8 \<Rightarrow> 'm) \<Rightarrow> 'm CPU \<Rightarrow> bool" where
  "on_bus rd wr c \<longleftrightarrow> read_fn c = rd \<and> write_fn c = wr"

lemma on_bus_trace: "on_bus rd wr c \<Longrightarrow> bus_trace c c' \<Longrightarrow> on_bus rd wr c'"
  by (simp add: on_bus_def bus_trace_def)

context memory_region
begin

lemma bytes_at_wr:
  assumes "ram m (a - 1)" "length bs < 65536" "bytes_at ram val m (a + of_nat k) bs" "k + length bs < 65536"
  shows "bytes_at ram val (wr m (a - 1) v) (a + of_nat k) bs"
  using assms(2-)
proof (induction bs arbitrary: k)
  case (Cons b bs)
  have "a + of_nat k \<noteq> a - 1"
  proof
    assume "a + of_nat k = a - 1"
    then have "(of_nat (k + 1) :: u16) = 0" by (simp add: algebra_simps)
    then have "65536 dvd k + 1" by (simp only: word_of_nat_eq_0_iff) simp
    then show False using Cons.prems(3) by (auto dest: dvd_imp_le)
  qed
  then show ?case
    using Cons.IH [of "k + 1"] Cons.prems assms(1) by (simp add: ram_wr val_wr algebra_simps)
qed simp

lemma push8_run:
  assumes "on_bus rd wr c"
  shows "run_state (push8 sp v) c =
    ((), (set16 sp (get16 sp c - 1) c)\<lparr>bus_ctx := wr (bus_ctx c) (get16 sp c - 1) v\<rparr>)"
  using assms
  by (cases sp) (simp_all add: push8_def write8_def on_bus_def set_d_def set_w_def reg_d_def reg_w_def)

lemma pull8_run:
  assumes "on_bus rd wr c" "ram (bus_ctx c) (get16 sp c)"
  shows "run_state (pull8 sp) c = (val (bus_ctx c) (get16 sp c), set16 sp (get16 sp c + 1) c)"
  using assms by (simp add: pull8_def read8_def on_bus_def rd_val)

end

section \<open>Pushing\<close>

text \<open>\<open>c\<close> is \<open>c0\<close> after pushing bytes on the stack of \<open>sp\<close>: \<open>bs\<close> are the stored bytes, from the new stack
  pointer upwards.\<close>

definition pushed :: "('m \<Rightarrow> u16 \<Rightarrow> bool) \<Rightarrow> ('m \<Rightarrow> u16 \<Rightarrow> u8) \<Rightarrow> 'm CPU \<Rightarrow> reg16 \<Rightarrow> u8 list \<Rightarrow> 'm CPU \<Rightarrow> bool" where
  "pushed ram val c0 sp bs c \<longleftrightarrow>
     c = (set16 sp (get16 sp c0 - of_nat (length bs)) c0)\<lparr>bus_ctx := bus_ctx c\<rparr> \<and>
     bytes_at ram val (bus_ctx c) (get16 sp c0 - of_nat (length bs)) bs \<and>
     ram (bus_ctx c) = ram (bus_ctx c0)"

lemma get16_set16_ctx: "get16 r ((set16 r v c)\<lparr>bus_ctx := m\<rparr>) = v"
  by (cases r) (simp_all add: set_d_def set_w_def reg_d_def reg_w_def)

lemma set16_set16_ctx: "set16 r w ((set16 r v c)\<lparr>bus_ctx := m\<rparr>) = (set16 r w c)\<lparr>bus_ctx := m\<rparr>"
  by (cases r) (simp_all add: set_d_def set_w_def)

lemma set16_get16: "set16 r (get16 r c) c = c"
  by (cases r) simp_all

lemma on_bus_set16: "on_bus rd wr ((set16 r v c)\<lparr>bus_ctx := m\<rparr>) = on_bus rd wr c"
  by (cases r) (simp_all add: on_bus_def set_d_def set_w_def)

lemma pushed_refl: "pushed ram val c sp [] c"
  by (simp add: pushed_def set16_get16)

lemma pushed_if:
  assumes "pushed ram val c0 sp bs c"
    and "b \<Longrightarrow> pushed ram val c0 sp bs c \<Longrightarrow> pushed ram val c0 sp (vs @ bs) (snd (run_state m c))"
  shows "pushed ram val c0 sp ((if b then vs else []) @ bs) (snd (run_state (only_if b m) c))"
  using assms by (simp add: only_if_def)

context memory_region
begin

lemma pushed8:
  assumes "pushed ram val c0 sp bs c" "on_bus rd wr c0" "room_below ram (bus_ctx c0) (get16 sp c0) n"
    "length bs < n" "n \<le> 65535"
  shows "pushed ram val c0 sp (v # bs) (snd (run_state (push8 sp v) c))"
proof -
  let ?k = "length bs"
  let ?a = "get16 sp c0 - of_nat ?k"
  have c: "c = (set16 sp ?a c0)\<lparr>bus_ctx := bus_ctx c\<rparr>" and b: "bytes_at ram val (bus_ctx c) ?a bs"
    and r: "ram (bus_ctx c) = ram (bus_ctx c0)"
    using assms(1) by (simp_all add: pushed_def)
  have bus: "on_bus rd wr c" by (subst c) (simp add: on_bus_set16 assms(2))
  have sp: "get16 sp c = ?a" by (subst c) (rule get16_set16_ctx)
  have ram: "ram (bus_ctx c) (?a - 1)"
    using assms(3,4) by (simp add: r room_below_iff)
  have "run_state (push8 sp v) c = ((), (set16 sp (?a - 1) c)\<lparr>bus_ctx := wr (bus_ctx c) (?a - 1) v\<rparr>)"
    by (simp add: push8_run [OF bus] sp)
  also have "(set16 sp (?a - 1) c)\<lparr>bus_ctx := wr (bus_ctx c) (?a - 1) v\<rparr> =
      (set16 sp (?a - 1) c0)\<lparr>bus_ctx := wr (bus_ctx c) (?a - 1) v\<rparr>"
    by (subst (1) c) (simp add: set16_set16_ctx)
  finally have run: "snd (run_state (push8 sp v) c) = (set16 sp (?a - 1) c0)\<lparr>bus_ctx := wr (bus_ctx c) (?a - 1) v\<rparr>"
    by simp
  have "bytes_at ram val (wr (bus_ctx c) (?a - 1) v) ?a bs"
    using bytes_at_wr [of "bus_ctx c" ?a bs 0 v] ram b assms(4,5) by simp
  then show ?thesis
    using ram r unfolding pushed_def run by (simp add: ram_wr val_wr fun_eq_iff algebra_simps)
qed

lemma pushed16:
  assumes "pushed ram val c0 sp bs c" "on_bus rd wr c0" "room_below ram (bus_ctx c0) (get16 sp c0) n"
    "length bs + 1 < n" "n \<le> 65535"
  shows "pushed ram val c0 sp (hi8 v # lo8 v # bs) (snd (run_state (push16 sp v) c))"
  using pushed8 [OF pushed8 [OF assms(1-3) _ assms(5), of "lo8 v"] assms(2,3) _ assms(5), of "hi8 v"] assms(4)
  by (simp add: push16_def split_beta)

lemma pushed8_of:
  assumes "pushed ram val c0 sp bs c" "on_bus rd wr c0" "room_below ram (bus_ctx c0) (get16 sp c0) n"
    "length bs < n" "n \<le> 65535" "\<And>x m. f ((set16 sp x c0)\<lparr>bus_ctx := m\<rparr>) = f c0"
  shows "pushed ram val c0 sp (f c0 # bs) (snd (run_state (push8_of sp f) c))"
proof -
  have "f c = f c0" using assms(1,6) unfolding pushed_def by metis
  then show ?thesis using pushed8 [OF assms(1-5)] by (simp add: push8_of_def)
qed

lemma pushed16_of:
  assumes "pushed ram val c0 sp bs c" "on_bus rd wr c0" "room_below ram (bus_ctx c0) (get16 sp c0) n"
    "length bs + 1 < n" "n \<le> 65535" "\<And>x m. f ((set16 sp x c0)\<lparr>bus_ctx := m\<rparr>) = f c0"
  shows "pushed ram val c0 sp (hi8 (f c0) # lo8 (f c0) # bs) (snd (run_state (push16_of sp f) c))"
proof -
  have "f c = f c0" using assms(1,6) unfolding pushed_def by metis
  then show ?thesis using pushed16 [OF assms(1-5)] by (simp add: push16_of_def)
qed

end

section \<open>Pulling\<close>

text \<open>A change of registers that commutes with the use of a stack.\<close>

definition harmless :: "reg16 \<Rightarrow> ('m CPU \<Rightarrow> 'm CPU) \<Rightarrow> bool" where
  "harmless sp f \<longleftrightarrow> (\<forall>c. get16 sp (f c) = get16 sp c \<and> read_fn (f c) = read_fn c \<and> write_fn (f c) = write_fn c \<and>
     bus_ctx (f c) = bus_ctx c \<and> (\<forall>x. set16 sp x (f c) = f (set16 sp x c)))"

lemma harmless_comp: "harmless sp f \<Longrightarrow> harmless sp g \<Longrightarrow> harmless sp (g \<circ> f)"
  by (simp add: harmless_def)

lemma harmless_id: "harmless sp id"
  by (simp add: harmless_def)

lemma harmless_if: "harmless sp f \<Longrightarrow> harmless sp (if b then f else id)"
  by (simp add: harmless_id)

lemma harmless_regs:
  assumes "sp = RegS \<or> sp = RegU"
  shows "harmless sp (\<lambda>c. c\<lparr>r_cc := v\<rparr>)" "harmless sp (\<lambda>c. c\<lparr>r_a := v\<rparr>)" "harmless sp (\<lambda>c. c\<lparr>r_b := v\<rparr>)"
    "harmless sp (\<lambda>c. c\<lparr>r_dp := v\<rparr>)" "harmless sp (\<lambda>c. c\<lparr>r_e := v\<rparr>)" "harmless sp (\<lambda>c. c\<lparr>r_f := v\<rparr>)"
    "harmless sp (\<lambda>c. c\<lparr>r_x := w\<rparr>)" "harmless sp (\<lambda>c. c\<lparr>r_y := w\<rparr>)" "harmless sp (\<lambda>c. c\<lparr>r_pc := w\<rparr>)"
  using assms by (auto simp: harmless_def)

lemma harmless_other: "harmless RegS (\<lambda>c. c\<lparr>r_u := w\<rparr>)" "harmless RegU (\<lambda>c. c\<lparr>r_s := w\<rparr>)"
  by (simp_all add: harmless_def)

text \<open>\<open>c\<close> is \<open>c0\<close> after \<open>k\<close> bytes have been pulled and the registers changed by \<open>f\<close>; \<open>bs\<close> are still on the
  stack.\<close>

definition popped :: "('m \<Rightarrow> u16 \<Rightarrow> bool) \<Rightarrow> ('m \<Rightarrow> u16 \<Rightarrow> u8) \<Rightarrow> 'm CPU \<Rightarrow> reg16 \<Rightarrow> nat \<Rightarrow> u8 list
    \<Rightarrow> ('m CPU \<Rightarrow> 'm CPU) \<Rightarrow> 'm CPU \<Rightarrow> bool" where
  "popped ram val c0 sp k bs f c \<longleftrightarrow> harmless sp f \<and> c = f (set16 sp (get16 sp c0 + of_nat k) c0) \<and>
     bytes_at ram val (bus_ctx c0) (get16 sp c0 + of_nat k) bs"

lemma popped_refl: "bytes_at ram val (bus_ctx c) (get16 sp c) bs \<Longrightarrow> popped ram val c sp 0 bs id c"
  by (simp add: popped_def harmless_id set16_get16)

lemma popped_if:
  assumes "popped ram val c0 sp k ((if b then vs else []) @ bs) f c"
    and "b \<Longrightarrow> popped ram val c0 sp k (vs @ bs) f c \<Longrightarrow> popped ram val c0 sp (k + length vs) bs (g \<circ> f) (snd (run_state m c))"
  shows "popped ram val c0 sp (k + length (if b then vs else [])) bs ((if b then g else id) \<circ> f) (snd (run_state (only_if b m) c))"
  using assms by (cases b) (simp_all add: only_if_def)

lemma get16_set16_same: "get16 r (set16 r v c) = v"
  by (simp add: get16_set16)

lemma set16_set16_same: "set16 r w (set16 r v c) = set16 r w c"
  by (cases r) (simp_all add: set_d_def set_w_def)

lemma set16_bus:
  "bus_ctx (set16 r v c) = bus_ctx c" "read_fn (set16 r v c) = read_fn c" "write_fn (set16 r v c) = write_fn c"
  by (cases r; simp add: set_d_def set_w_def)+

context memory_region
begin

lemma popped_pull8:
  assumes "popped ram val c0 sp k (v # bs) f c" "on_bus rd wr c0"
  shows "run_state (pull8 sp) c = (v, f (set16 sp (get16 sp c0 + of_nat (Suc k)) c0))"
proof -
  have c: "c = f (set16 sp (get16 sp c0 + of_nat k) c0)" and f: "harmless sp f"
    and v: "ram (bus_ctx c0) (get16 sp c0 + of_nat k)" "val (bus_ctx c0) (get16 sp c0 + of_nat k) = v"
    using assms(1) by (simp_all add: popped_def)
  have sp: "get16 sp c = get16 sp c0 + of_nat k" and ctx: "bus_ctx c = bus_ctx c0" and bus: "on_bus rd wr c"
    using f assms(2) by (simp_all add: c harmless_def get16_set16_same set16_bus on_bus_def)
  have "set16 sp (get16 sp c + 1) c = f (set16 sp (get16 sp c0 + of_nat k + 1) (set16 sp (get16 sp c0 + of_nat k) c0))"
    using f by (simp add: sp) (simp add: c harmless_def)
  then show ?thesis
    using v by (simp add: pull8_run [OF bus] sp ctx set16_set16_same algebra_simps)
qed

lemma popped8:
  assumes "popped ram val c0 sp k (v # bs) f c" "on_bus rd wr c0" "harmless sp (g v)"
  shows "popped ram val c0 sp (k + 1) bs (g v \<circ> f) (snd (run_state (pull8_to sp g) c))"
  using popped_pull8 [OF assms(1,2)] assms(1,3)
  by (simp add: pull8_to_def popped_def harmless_comp algebra_simps)

lemma popped16:
  assumes "popped ram val c0 sp k (hi8 w # lo8 w # bs) f c" "on_bus rd wr c0" "harmless sp (g w)"
  shows "popped ram val c0 sp (k + 2) bs (g w \<circ> f) (snd (run_state (pull16_to sp g) c))"
proof -
  have 1: "run_state (pull8 sp) c = (hi8 w, f (set16 sp (get16 sp c0 + of_nat (Suc k)) c0))"
    by (rule popped_pull8 [OF assms(1,2)])
  have "popped ram val c0 sp (Suc k) (lo8 w # bs) f (f (set16 sp (get16 sp c0 + of_nat (Suc k)) c0))"
    using assms(1) by (simp add: popped_def algebra_simps)
  note 2 = popped_pull8 [OF this assms(2)]
  have run: "run_state (pull16_to sp g) c = ((), g w (f (set16 sp (get16 sp c0 + of_nat (Suc (Suc k))) c0)))"
    unfolding pull16_to_def pull16_def by (simp add: 1 2 del: of_nat_Suc)
  show ?thesis
    using assms(1,3) unfolding run by (simp add: popped_def harmless_comp algebra_simps)
qed

end


section \<open>PSHS, PSHU, PULS and PULU\<close>

text \<open>The bytes a register list leaves on the stack, from the new stack pointer upwards.\<close>

definition word_bytes :: "u16 \<Rightarrow> u8 list" where
  "word_bytes v = [hi8 v, lo8 v]"

lemma word_bytes_simps [simp]: "length (word_bytes v) = 2" "word_bytes v @ bs = hi8 v # lo8 v # bs"
  by (simp_all add: word_bytes_def)

definition list_image :: "reg16 \<Rightarrow> u8 \<Rightarrow> 'z regs_scheme \<Rightarrow> u8 list" where
  "list_image other pb c =
    (if pb AND 0x01 \<noteq> 0 then [r_cc c] else []) @ (if pb AND 0x02 \<noteq> 0 then [r_a c] else []) @
    (if pb AND 0x04 \<noteq> 0 then [r_b c] else []) @ (if pb AND 0x08 \<noteq> 0 then [r_dp c] else []) @
    (if pb AND 0x10 \<noteq> 0 then word_bytes (r_x c) else []) @ (if pb AND 0x20 \<noteq> 0 then word_bytes (r_y c) else []) @
    (if pb AND 0x40 \<noteq> 0 then word_bytes (get16 other c) else []) @ (if pb AND 0x80 \<noteq> 0 then word_bytes (r_pc c) else []) @ []"

definition stack_pair :: "reg16 \<Rightarrow> reg16 \<Rightarrow> bool" where
  "stack_pair sp other \<longleftrightarrow> (sp = RegS \<and> other = RegU) \<or> (sp = RegU \<and> other = RegS)"

text \<open>\<open>pushed\<close> with a bound on the number of bytes.\<close>

definition pushed_upto :: "('m \<Rightarrow> u16 \<Rightarrow> bool) \<Rightarrow> ('m \<Rightarrow> u16 \<Rightarrow> u8) \<Rightarrow> 'm CPU \<Rightarrow> reg16 \<Rightarrow> nat \<Rightarrow> u8 list
    \<Rightarrow> 'm CPU \<Rightarrow> bool" where
  "pushed_upto ram val c0 sp k bs c \<longleftrightarrow> pushed ram val c0 sp bs c \<and> length bs \<le> k"

lemma run_seq: "run_state (State_Monad.bind m (\<lambda>_. m')) c = run_state m' (snd (run_state m c))"
  by (simp add: split_beta)

context memory_region
begin

lemma pushed8_if:
  assumes "pushed_upto ram val c0 sp k bs c" "on_bus rd wr c0" "room_below ram (bus_ctx c0) (get16 sp c0) n"
    "k < n" "n \<le> 65535" "\<And>x m. f ((set16 sp x c0)\<lparr>bus_ctx := m\<rparr>) = f c0"
  shows "pushed_upto ram val c0 sp (k + 1) ((if b then [f c0] else []) @ bs) (snd (run_state (only_if b (push8_of sp f)) c))"
  using assms unfolding pushed_upto_def
  by (cases b) (auto simp: only_if_def intro!: pushed8_of [where n = n])

lemma pushed16_if:
  assumes "pushed_upto ram val c0 sp k bs c" "on_bus rd wr c0" "room_below ram (bus_ctx c0) (get16 sp c0) n"
    "k + 1 < n" "n \<le> 65535" "\<And>x m. f ((set16 sp x c0)\<lparr>bus_ctx := m\<rparr>) = f c0"
  shows "pushed_upto ram val c0 sp (k + 2) ((if b then word_bytes (f c0) else []) @ bs)
    (snd (run_state (only_if b (push16_of sp f)) c))"
  using assms unfolding pushed_upto_def
  by (cases b) (auto simp: only_if_def intro!: pushed16_of [where n = n])

lemma pushed_list:
  assumes "on_bus rd wr c" "room_below ram (bus_ctx c) (get16 sp c) 12" "stack_pair sp other"
  shows "pushed ram val c sp (list_image other pb c) (snd (run_state (push_list sp other pb) c))"
proof -
  have indep: "get16 other ((set16 sp x c)\<lparr>bus_ctx := m\<rparr>) = get16 other c"
      "r_pc ((set16 sp x c)\<lparr>bus_ctx := m\<rparr>) = r_pc c" "r_y ((set16 sp x c)\<lparr>bus_ctx := m\<rparr>) = r_y c"
      "r_x ((set16 sp x c)\<lparr>bus_ctx := m\<rparr>) = r_x c" "r_dp ((set16 sp x c)\<lparr>bus_ctx := m\<rparr>) = r_dp c"
      "r_b ((set16 sp x c)\<lparr>bus_ctx := m\<rparr>) = r_b c" "r_a ((set16 sp x c)\<lparr>bus_ctx := m\<rparr>) = r_a c"
      "r_cc ((set16 sp x c)\<lparr>bus_ctx := m\<rparr>) = r_cc c" for x m
    using assms(3) by (auto simp: stack_pair_def)
  have 0: "pushed_upto ram val c sp 0 [] c" by (simp add: pushed_upto_def pushed_refl)
  note push16 = pushed16_if [OF _ assms(1,2)] and push8 = pushed8_if [OF _ assms(1,2)]
  note 1 = push16 [OF 0 _ _ indep(2), of "pb AND 0x80 \<noteq> 0"]
  note 2 = push16 [OF 1 _ _ indep(1), of "pb AND 0x40 \<noteq> 0"]
  note 3 = push16 [OF 2 _ _ indep(3), of "pb AND 0x20 \<noteq> 0"]
  note 4 = push16 [OF 3 _ _ indep(4), of "pb AND 0x10 \<noteq> 0"]
  note 5 = push8 [OF 4 _ _ indep(5), of "pb AND 0x08 \<noteq> 0"]
  note 6 = push8 [OF 5 _ _ indep(6), of "pb AND 0x04 \<noteq> 0"]
  note 7 = push8 [OF 6 _ _ indep(7), of "pb AND 0x02 \<noteq> 0"]
  note 8 = push8 [OF 7 _ _ indep(8), of "pb AND 0x01 \<noteq> 0"]
  show ?thesis
    unfolding push_list_def run_seq list_image_def by (rule 8 [unfolded pushed_upto_def, THEN conjunct1]) simp_all
qed

lemma popped8_if:
  assumes "popped ram val c0 sp k ((if b then [v] else []) @ bs) f c" "on_bus rd wr c0" "harmless sp (g v)"
  shows "popped ram val c0 sp (k + length (if b then [v] else [])) bs ((if b then g v else id) \<circ> f)
    (snd (run_state (only_if b (pull8_to sp g)) c))"
  by (rule popped_if [OF assms(1)]) (simp only: length_Cons list.size popped8 [where g = g and v = v, OF _ assms(2,3)] append_Cons append_Nil add_0 One_nat_def [symmetric])

lemma popped16_if:
  assumes "popped ram val c0 sp k ((if b then word_bytes v else []) @ bs) f c" "on_bus rd wr c0" "harmless sp (g v)"
  shows "popped ram val c0 sp (k + length (if b then word_bytes v else [])) bs ((if b then g v else id) \<circ> f)
    (snd (run_state (only_if b (pull16_to sp g)) c))"
  by (rule popped_if [OF assms(1)]) (simp only: word_bytes_simps popped16 [where g = g and w = v, OF _ assms(2,3)])

end

text \<open>The registers of a list taken from another state.\<close>

definition restore_list :: "reg16 \<Rightarrow> u8 \<Rightarrow> 'z regs_scheme \<Rightarrow> 'z regs_scheme \<Rightarrow> 'z regs_scheme" where
  "restore_list other pb src =
     (if pb AND 0x80 \<noteq> 0 then (\<lambda>c. c\<lparr>r_pc := r_pc src\<rparr>) else id) \<circ>
    ((if pb AND 0x40 \<noteq> 0 then set16 other (get16 other src) else id) \<circ>
    ((if pb AND 0x20 \<noteq> 0 then (\<lambda>c. c\<lparr>r_y := r_y src\<rparr>) else id) \<circ>
    ((if pb AND 0x10 \<noteq> 0 then (\<lambda>c. c\<lparr>r_x := r_x src\<rparr>) else id) \<circ>
    ((if pb AND 0x08 \<noteq> 0 then (\<lambda>c. c\<lparr>r_dp := r_dp src\<rparr>) else id) \<circ>
    ((if pb AND 0x04 \<noteq> 0 then (\<lambda>c. c\<lparr>r_b := r_b src\<rparr>) else id) \<circ>
    ((if pb AND 0x02 \<noteq> 0 then (\<lambda>c. c\<lparr>r_a := r_a src\<rparr>) else id) \<circ>
    ((if pb AND 0x01 \<noteq> 0 then (\<lambda>c. c\<lparr>r_cc := r_cc src\<rparr>) else id) \<circ> id)))))))"

context memory_region
begin

lemma popped_list:
  assumes "on_bus rd wr c" "bytes_at ram val (bus_ctx c) (get16 sp c) (list_image other pb src)" "stack_pair sp other"
  shows "snd (run_state (pull_list sp other pb) c) =
    restore_list other pb src (set16 sp (get16 sp c + of_nat (length (list_image other pb src))) c)"
proof -
  have sp: "sp = RegS \<or> sp = RegU" and oth: "harmless sp (set16 other w)" for w
    using assms(3) by (auto simp: stack_pair_def harmless_def)
  note 0 = popped_refl [OF assms(2), unfolded list_image_def]
  note 1 = popped8_if [OF 0 assms(1), where g = "\<lambda>v c. c\<lparr>r_cc := v\<rparr>", OF harmless_regs(1) [OF sp]]
  note 2 = popped8_if [OF 1 assms(1), where g = "\<lambda>v c. c\<lparr>r_a := v\<rparr>", OF harmless_regs(2) [OF sp]]
  note 3 = popped8_if [OF 2 assms(1), where g = "\<lambda>v c. c\<lparr>r_b := v\<rparr>", OF harmless_regs(3) [OF sp]]
  note 4 = popped8_if [OF 3 assms(1), where g = "\<lambda>v c. c\<lparr>r_dp := v\<rparr>", OF harmless_regs(4) [OF sp]]
  note 5 = popped16_if [OF 4 assms(1), where g = "\<lambda>v c. c\<lparr>r_x := v\<rparr>", OF harmless_regs(7) [OF sp]]
  note 6 = popped16_if [OF 5 assms(1), where g = "\<lambda>v c. c\<lparr>r_y := v\<rparr>", OF harmless_regs(8) [OF sp]]
  note 7 = popped16_if [OF 6 assms(1), where g = "set16 other", OF oth]
  note 8 = popped16_if [OF 7 assms(1), where g = "\<lambda>v c. c\<lparr>r_pc := v\<rparr>", OF harmless_regs(9) [OF sp]]
  show ?thesis
    using 8 [unfolded popped_def, THEN conjunct2, THEN conjunct1]
    unfolding pull_list_def run_seq restore_list_def list_image_def by (simp only: length_append add.assoc add_0 add_0_right list.size)
qed

end


section \<open>Interrupt frames\<close>

definition full_frame :: "'z regs_scheme \<Rightarrow> u8 list" where
  "full_frame c = r_cc c # r_a c # r_b c # (if native c then [r_e c, r_f c] else []) @
     r_dp c # word_bytes (r_x c) @ word_bytes (r_y c) @ word_bytes (r_u c) @ word_bytes (r_pc c) @ []"

definition partial_frame :: "'z regs_scheme \<Rightarrow> u8 list" where
  "partial_frame c = r_cc c # word_bytes (r_pc c) @ []"

lemma frame_length: "length (full_frame c) \<le> 14" "length (partial_frame c) = 3"
  by (simp_all add: full_frame_def partial_frame_def)

lemma pushed_upto_native:
  assumes "pushed_upto ram val c0 RegS k bs c"
  shows "native c = native c0"
proof -
  have "c = (set16 RegS (get16 RegS c0 - of_nat (length bs)) c0)\<lparr>bus_ctx := bus_ctx c\<rparr>"
    using assms by (simp add: pushed_upto_def pushed_def)
  then have "native c = native ((set16 RegS (get16 RegS c0 - of_nat (length bs)) c0)\<lparr>bus_ctx := bus_ctx c\<rparr>)"
    by (rule arg_cong)
  then show ?thesis by (simp add: native_def)
qed

context memory_region
begin

lemma pushed8_upto:
  assumes "pushed_upto ram val c0 sp k bs c" "on_bus rd wr c0" "room_below ram (bus_ctx c0) (get16 sp c0) n"
    "k < n" "n \<le> 65535" "\<And>x m. f ((set16 sp x c0)\<lparr>bus_ctx := m\<rparr>) = f c0"
  shows "pushed_upto ram val c0 sp (k + 1) (f c0 # bs) (snd (run_state (push8_of sp f) c))"
  using pushed8_if [OF assms, of True] by (simp add: only_if_def)

lemma pushed16_upto:
  assumes "pushed_upto ram val c0 sp k bs c" "on_bus rd wr c0" "room_below ram (bus_ctx c0) (get16 sp c0) n"
    "k + 1 < n" "n \<le> 65535" "\<And>x m. f ((set16 sp x c0)\<lparr>bus_ctx := m\<rparr>) = f c0"
  shows "pushed_upto ram val c0 sp (k + 2) (word_bytes (f c0) @ bs) (snd (run_state (push16_of sp f) c))"
  using pushed16_if [OF assms, of True] by (simp add: only_if_def)

lemma pushed_ef:
  assumes "pushed_upto ram val c0 RegS k bs c" "on_bus rd wr c0" "room_below ram (bus_ctx c0) (get16 RegS c0) n"
    "k + 1 < n" "n \<le> 65535"
  shows "pushed_upto ram val c0 RegS (k + 2) ((if b then [r_e c0, r_f c0] else []) @ bs)
    (snd (run_state (only_if b (do { push8_of RegS r_f; push8_of RegS r_e })) c))"
proof (cases b)
  case True
  have f: "pushed_upto ram val c0 RegS (k + 1) (r_f c0 # bs) (snd (run_state (push8_of RegS r_f) c))"
    by (rule pushed8_upto [OF assms(1-3) _ assms(5)]) (use assms(4) in simp_all)
  show ?thesis
    using pushed8_upto [OF f assms(2,3) _ assms(5), of r_e] assms(4) True by (simp add: only_if_def split_beta)
next
  case False
  then show ?thesis using assms(1) by (simp add: only_if_def pushed_upto_def)
qed

lemma pushed_full_set:
  assumes "on_bus rd wr c" "room_below ram (bus_ctx c) (r_s c) 14"
  shows "pushed ram val (set_flag CC_E True c) RegS (full_frame (set_flag CC_E True c)) (snd (run_state push_full_set c))"
proof -
  let ?c = "set_flag CC_E True c"
  have bus: "on_bus rd wr ?c" and room: "room_below ram (bus_ctx ?c) (get16 RegS ?c) 14"
    using assms by (simp_all add: on_bus_def set_flag_def)
  have 0: "pushed_upto ram val ?c RegS 0 [] ?c" by (simp add: pushed_upto_def pushed_refl)
  note push16 = pushed16_upto [OF _ bus room] and push8 = pushed8_upto [OF _ bus room]
  note 1 = push16 [OF 0, of r_pc]
  note 2 = push16 [OF 1, of r_u]
  note 3 = push16 [OF 2, of r_y]
  note 4 = push16 [OF 3, of r_x]
  note 5 = push8 [OF 4, of r_dp]
  note 6 = pushed_ef [OF 5 bus room, of "native ?c"]
  note 7 = push8 [OF 6, of r_b]
  note 8 = push8 [OF 7, of r_a]
  note 9 = push8 [OF 8, of r_cc]
  have nm: "run_state (State_Monad.bind (gets native) (\<lambda>nm. F nm))
      (snd (run_state (push8_of RegS r_dp) (snd (run_state (push16_of RegS r_x) (snd (run_state (push16_of RegS r_y)
        (snd (run_state (push16_of RegS r_u) (snd (run_state (push16_of RegS r_pc) ?c)))))))))) =
    run_state (F (native ?c))
      (snd (run_state (push8_of RegS r_dp) (snd (run_state (push16_of RegS r_x) (snd (run_state (push16_of RegS r_y)
        (snd (run_state (push16_of RegS r_u) (snd (run_state (push16_of RegS r_pc) ?c))))))))))" for F :: "bool \<Rightarrow> ('m CPU, unit) state"
    by (simp add: pushed_upto_native [OF 5])
  have set: "snd (run_state (modify (set_flag CC_E True)) c) = ?c"
    by simp
  show ?thesis
    unfolding push_full_set_def run_seq set nm full_frame_def
    by (rule 9 [unfolded pushed_upto_def, THEN conjunct1]) simp_all
qed

lemma pushed_partial_set:
  assumes "on_bus rd wr c" "room_below ram (bus_ctx c) (r_s c) 14"
  shows "pushed ram val (set_flag CC_E False c) RegS (partial_frame (set_flag CC_E False c)) (snd (run_state push_partial_set c))"
proof -
  let ?c = "set_flag CC_E False c"
  have bus: "on_bus rd wr ?c" and room: "room_below ram (bus_ctx ?c) (get16 RegS ?c) 14"
    using assms by (simp_all add: on_bus_def set_flag_def)
  have 0: "pushed_upto ram val ?c RegS 0 [] ?c" by (simp add: pushed_upto_def pushed_refl)
  note 1 = pushed16_upto [OF 0 bus room, of r_pc]
  note 2 = pushed8_upto [OF 1 bus room, of r_cc]
  have set: "snd (run_state (modify (set_flag CC_E False)) c) = ?c"
    by simp
  show ?thesis
    unfolding push_partial_set_def run_seq set partial_frame_def
    by (rule 2 [unfolded pushed_upto_def, THEN conjunct1]) simp_all
qed

lemma bytes_at_rd: "bytes_at ram val m b bs \<Longrightarrow> bytes_at ram val (snd (rd m a)) b bs"
  by (induction bs arbitrary: b) (simp_all add: ram_rd val_rd)

end


section \<open>Entry and return\<close>

context memory_region
begin

lemma read16_run:
  assumes "on_bus rd wr c"
  shows "\<exists>v. run_state (read16 a) c = (v, c\<lparr>bus_ctx := snd (rd (snd (rd (bus_ctx c) a)) (a + 1))\<rparr>)"
  using assms by (simp add: read16_def read8_def on_bus_def split_beta)

lemma pushed_on_bus: "pushed ram val c0 sp bs c \<Longrightarrow> on_bus rd wr c0 \<Longrightarrow> on_bus rd wr c"
  unfolding pushed_def by (metis on_bus_set16)

lemma pushed_fields:
  assumes "pushed ram val c0 RegS bs c"
  shows "r_s c = r_s c0 - of_nat (length bs)" "r_cc c = r_cc c0" "r_md c = r_md c0"
proof -
  have "\<exists>m. c = (set16 RegS (get16 RegS c0 - of_nat (length bs)) c0)\<lparr>bus_ctx := m\<rparr>"
    using assms unfolding pushed_def by blast
  then show "r_s c = r_s c0 - of_nat (length bs)" "r_cc c = r_cc c0" "r_md c = r_md c0" by auto
qed

lemma interrupt_entry_run:
  assumes "\<not> cwai_pushed_pending c"
    and "run_state (if full then push_full_set else push_partial_set) (c\<lparr>wait_sync := False, cwai_pushed_pending := False\<rparr>) = (u, p)"
    and "run_state (read16 vec) (p\<lparr>r_cc := r_cc p OR msk\<rparr>) = (v, q)"
  shows "snd (run_state (interrupt_entry vec msk full em nm) c) =
    q\<lparr>r_pc := v, cycles := cycles q + (if native q then nm else em)\<rparr>"
  using assms
  by (cases full) (simp_all add: interrupt_entry_def enter_interrupt_def only_if_def tick_mode_def tick_def native_def)

lemma interrupt_entry_frame:
  fixes full :: bool
  assumes "on_bus rd wr c" "room_below ram (bus_ctx c) (r_s c) 14" "\<not> cwai_pushed_pending c"
    and frame: "frame = (if full then full_frame (set_flag CC_E True c) else partial_frame (set_flag CC_E False c))"
    and c1_def: "c1 = snd (run_state (interrupt_entry vec msk full em nm) c)"
  shows "bytes_at ram val (bus_ctx c1) (r_s c1) frame \<and> r_s c1 = r_s c - of_nat (length frame) \<and>
    r_cc c1 = r_cc (set_flag CC_E full c) OR msk \<and> on_bus rd wr c1 \<and> r_md c1 = r_md c"
proof -
  let ?c = "c\<lparr>wait_sync := False, cwai_pushed_pending := False\<rparr>"
  let ?p = "snd (run_state (if full then push_full_set else push_partial_set) ?c)"
  let ?q = "?p\<lparr>r_cc := r_cc ?p OR msk\<rparr>"
  have bus: "on_bus rd wr ?c" and room: "room_below ram (bus_ctx ?c) (r_s ?c) 14"
    using assms(1,2) by (simp_all add: on_bus_def)
  have fr: "full_frame (set_flag CC_E True ?c) = full_frame (set_flag CC_E True c)"
      "partial_frame (set_flag CC_E False ?c) = partial_frame (set_flag CC_E False c)"
    by (cases "native c"; simp add: full_frame_def partial_frame_def native_def set_flag_def)+
  have p: "pushed ram val (set_flag CC_E full ?c) RegS frame ?p"
    using pushed_full_set [OF bus room] pushed_partial_set [OF bus room]
    by (cases full) (simp_all add: frame fr)
  have q: "on_bus rd wr ?q"
    using pushed_on_bus [OF p] bus by (simp add: on_bus_def set_flag_def)
  then obtain v where v: "run_state (read16 vec) ?q = (v, ?q\<lparr>bus_ctx := snd (rd (snd (rd (bus_ctx ?q) vec)) (vec + 1))\<rparr>)"
    using read16_run by blast
  have c1: "\<exists>n. c1 = ?q\<lparr>bus_ctx := snd (rd (snd (rd (bus_ctx ?q) vec)) (vec + 1)), r_pc := v, cycles := n\<rparr>"
    unfolding c1_def
    by (rule exI, subst interrupt_entry_run [OF assms(3) _ v, where u = "()"]) (simp_all add: prod_eq_iff)
  have "r_s ?p = r_s c - of_nat (length frame)" "r_cc ?p = r_cc (set_flag CC_E full c)" "r_md ?p = r_md c"
    using pushed_fields [OF p] by (simp_all add: set_flag_def)
  moreover have "on_bus rd wr c1"
    using c1 q by (auto simp: on_bus_def)
  ultimately show ?thesis
    using c1 p by (auto simp: pushed_def bytes_at_rd set_flag_def)
qed

lemma pull_ef:
  assumes "popped ram val c0 RegS k ((if b then [e, f] else []) @ bs) g c" "on_bus rd wr c0"
  shows "popped ram val c0 RegS (k + (if b then 2 else 0)) bs ((if b then (\<lambda>c. c\<lparr>r_e := e, r_f := f\<rparr>) else id) \<circ> g)
    (snd (run_state (only_if b (do { pull8_to RegS (\<lambda>v c. c\<lparr>r_e := v\<rparr>); pull8_to RegS (\<lambda>v c. c\<lparr>r_f := v\<rparr>) })) c))"
proof (cases b)
  case True
  have sp: "RegS = RegS \<or> RegS = RegU" by simp
  have 0: "popped ram val c0 RegS k (e # f # bs) g c" using assms(1) True by simp
  note 1 = popped8 [OF 0 assms(2), where g = "\<lambda>v c. c\<lparr>r_e := v\<rparr>", OF harmless_regs(5) [OF sp]]
  note 2 = popped8 [OF 1 assms(2), where g = "\<lambda>v c. c\<lparr>r_f := v\<rparr>", OF harmless_regs(6) [OF sp]]
  show ?thesis
    using 2 True by (simp add: only_if_def split_beta comp_def)
qed (use assms in \<open>simp add: only_if_def\<close>)


lemma rti_full:
  assumes "on_bus rd wr d" "bytes_at ram val (bus_ctx d) (r_s d) (full_frame src)" "native d = native src"
    "r_cc src AND CC_E \<noteq> 0"
  shows "\<exists>n. snd (run_state op_rti d) = d\<lparr>r_s := r_s d + of_nat (length (full_frame src)), r_cc := r_cc src, r_a := r_a src, r_b := r_b src,
     r_e := (if native src then r_e src else r_e d), r_f := (if native src then r_f src else r_f d),
     r_dp := r_dp src, r_x := r_x src, r_y := r_y src, r_u := r_u src, r_pc := r_pc src, cycles := n\<rparr>"
proof -
  let ?cc = "r_cc src"
  let ?d1 = "snd (run_state (pull8_to RegS (\<lambda>v c. c\<lparr>r_cc := v\<rparr>)) d)"
  have sp: "RegS = RegS \<or> RegS = RegU" by simp
  have 0: "popped ram val d RegS 0 (full_frame src) id d" by (rule popped_refl) (use assms(2) in simp)
  note 1 = popped8 [OF 0 [unfolded full_frame_def] assms(1), where g = "\<lambda>v c. c\<lparr>r_cc := v\<rparr>", OF harmless_regs(1) [OF sp]]
  note 2 = popped8 [OF 1 assms(1), where g = "\<lambda>v c. c\<lparr>r_a := v\<rparr>", OF harmless_regs(2) [OF sp]]
  note 3 = popped8 [OF 2 assms(1), where g = "\<lambda>v c. c\<lparr>r_b := v\<rparr>", OF harmless_regs(3) [OF sp]]
  note 4 = pull_ef [OF 3 assms(1)]
  note 5 = popped8 [OF 4 assms(1), where g = "\<lambda>v c. c\<lparr>r_dp := v\<rparr>", OF harmless_regs(4) [OF sp]]
  note 6 = popped16 [OF 5 [unfolded word_bytes_simps] assms(1), where g = "\<lambda>v c. c\<lparr>r_x := v\<rparr>", OF harmless_regs(7) [OF sp]]
  note 7 = popped16 [OF 6 assms(1), where g = "\<lambda>v c. c\<lparr>r_y := v\<rparr>", OF harmless_regs(8) [OF sp]]
  note 8 = popped16 [OF 7 assms(1), where g = "\<lambda>v c. c\<lparr>r_u := v\<rparr>", OF harmless_other(1)]
  note 9 = popped16 [OF 8 assms(1), where g = "\<lambda>v c. c\<lparr>r_pc := v\<rparr>", OF harmless_regs(9) [OF sp]]
  have cc: "run_state (pull8 RegS) d = (?cc, id (set16 RegS (get16 RegS d + of_nat (Suc 0)) d))"
    by (rule popped_pull8 [OF 0 [unfolded full_frame_def] assms(1)])
  have d1: "run_state op_rti d = run_state (do {
       pull8_to RegS (\<lambda>v c. c\<lparr>r_a := v\<rparr>);
       pull8_to RegS (\<lambda>v c. c\<lparr>r_b := v\<rparr>);
       nm \<leftarrow> gets native;
       only_if nm (do { pull8_to RegS (\<lambda>v c. c\<lparr>r_e := v\<rparr>); pull8_to RegS (\<lambda>v c. c\<lparr>r_f := v\<rparr>) });
       pull8_to RegS (\<lambda>v c. c\<lparr>r_dp := v\<rparr>);
       pull16_to RegS (\<lambda>v c. c\<lparr>r_x := v\<rparr>);
       pull16_to RegS (\<lambda>v c. c\<lparr>r_y := v\<rparr>);
       pull16_to RegS (\<lambda>v c. c\<lparr>r_u := v\<rparr>);
       pull16_to RegS (\<lambda>v c. c\<lparr>r_pc := v\<rparr>);
       tick_mode 15 17 }) ?d1"
    unfolding op_rti_def using assms(4) by (simp add: cc pull8_to_def)
  have nat: "run_state (State_Monad.bind (gets native) F) (snd (run_state (pull8_to RegS (\<lambda>v c. c\<lparr>r_b := v\<rparr>))
      (snd (run_state (pull8_to RegS (\<lambda>v c. c\<lparr>r_a := v\<rparr>)) ?d1)))) =
    run_state (F (native src)) (snd (run_state (pull8_to RegS (\<lambda>v c. c\<lparr>r_b := v\<rparr>))
      (snd (run_state (pull8_to RegS (\<lambda>v c. c\<lparr>r_a := v\<rparr>)) ?d1))))" for F :: "bool \<Rightarrow> ('m CPU, unit) state"
    using 3 assms(3) by (simp add: popped_def native_def)
  have tick: "snd (run_state (tick_mode 15 17) c) = c\<lparr>cycles := cycles c + (if native c then 17 else 15)\<rparr>" for c :: "'m CPU"
    by (simp add: tick_mode_def tick_def)
  have eq: "\<exists>n. snd (run_state op_rti d) = c\<lparr>cycles := n\<rparr>" if "popped ram val d RegS k bs f
      (snd (run_state (pull16_to RegS (\<lambda>v c. c\<lparr>r_pc := v\<rparr>)) (snd (run_state (pull16_to RegS (\<lambda>v c. c\<lparr>r_u := v\<rparr>))
      (snd (run_state (pull16_to RegS (\<lambda>v c. c\<lparr>r_y := v\<rparr>)) (snd (run_state (pull16_to RegS (\<lambda>v c. c\<lparr>r_x := v\<rparr>))
      (snd (run_state (pull8_to RegS (\<lambda>v c. c\<lparr>r_dp := v\<rparr>)) (snd (run_state (only_if (native src)
        (do { pull8_to RegS (\<lambda>v c. c\<lparr>r_e := v\<rparr>); pull8_to RegS (\<lambda>v c. c\<lparr>r_f := v\<rparr>) }))
      (snd (run_state (pull8_to RegS (\<lambda>v c. c\<lparr>r_b := v\<rparr>)) (snd (run_state (pull8_to RegS (\<lambda>v c. c\<lparr>r_a := v\<rparr>))
      ?d1))))))))))))))))" and c: "c = f (set16 RegS (get16 RegS d + of_nat k) d)" for k bs f c
    unfolding d1 run_seq nat tick using that(1) unfolding popped_def c by metis
  show ?thesis
    using eq [OF 9 refl] by (auto simp: full_frame_def add.assoc)
qed

lemma rti_partial:
  assumes "on_bus rd wr d" "bytes_at ram val (bus_ctx d) (r_s d) (partial_frame src)" "r_cc src AND CC_E = 0"
  shows "\<exists>n. snd (run_state op_rti d) = d\<lparr>r_s := r_s d + 3, r_cc := r_cc src, r_pc := r_pc src, cycles := n\<rparr>"
proof -
  let ?d1 = "snd (run_state (pull8_to RegS (\<lambda>v c. c\<lparr>r_cc := v\<rparr>)) d)"
  have sp: "RegS = RegS \<or> RegS = RegU" by simp
  have 0: "popped ram val d RegS 0 (r_cc src # hi8 (r_pc src) # lo8 (r_pc src) # []) id d"
    by (rule popped_refl) (use assms(2) in \<open>simp add: partial_frame_def word_bytes_def\<close>)
  note 1 = popped8 [OF 0 assms(1), where g = "\<lambda>v c. c\<lparr>r_cc := v\<rparr>", OF harmless_regs(1) [OF sp]]
  note 2 = popped16 [OF 1 assms(1), where g = "\<lambda>v c. c\<lparr>r_pc := v\<rparr>", OF harmless_regs(9) [OF sp]]
  have cc: "run_state (pull8 RegS) d = (r_cc src, id (set16 RegS (get16 RegS d + of_nat (Suc 0)) d))"
    by (rule popped_pull8 [OF 0 assms(1)])
  have d1: "run_state op_rti d = run_state (do { pull16_to RegS (\<lambda>v c. c\<lparr>r_pc := v\<rparr>); tick 6 }) ?d1"
    unfolding op_rti_def using assms(3) by (simp add: cc pull8_to_def)
  have tick: "snd (run_state (tick 6) c) = c\<lparr>cycles := cycles c + 6\<rparr>" for c :: "'m CPU"
    by (simp add: tick_def)
  show ?thesis
    unfolding d1 run_seq tick using 2 by (auto simp: popped_def)
qed

end


section \<open>RAM of the system bus\<close>

text \<open>The byte of plain RAM at an address: no device there, its page installed, and no page visible through
  two banks.\<close>

definition bus_peek :: "('s, 'c) system_bus \<Rightarrow> u16 \<Rightarrow> u8 option" where
  "bus_peek b a =
    (if length (sb_bank_regs b) = 4 \<and> distinct (sb_bank_regs b) \<and> find_mapping a b = None
     then map_option (sb_ram b) (phys_byte a b) else None)"

lemma phys_byte_inj:
  assumes "phys_byte a b = Some p" "phys_byte a' b = Some p" "length (sb_bank_regs b) = 4" "distinct (sb_bank_regs b)"
  shows "a = a'"
proof -
  let ?page = "\<lambda>a :: u16. unat (sb_bank_regs b ! (unat a div 16384))"
  have eq: "?page a * 16384 + unat a mod 16384 = ?page a' * 16384 + unat a' mod 16384"
    using assms(1,2) by (simp add: phys_byte_arith Let_def split: if_splits)
  have low: "unat a mod 16384 = unat a' mod 16384" using arg_cong [OF eq, of "\<lambda>n. n mod 16384"] by simp
  then have "?page a = ?page a'" using eq by simp
  then have "unat a div 16384 = unat a' div 16384"
    using nth_eq_iff_index_eq [OF assms(4), of "unat a div 16384" "unat a' div 16384"] assms(3)
      bank_index(2) [of a] bank_index(2) [of a'] by (simp add: word_unat_eq_iff)
  then show ?thesis using low by (metis div_mult_mod_eq word_unat_eq_iff)
qed

lemma bus_peek_read: "bus_peek (snd (bus_read8 b a)) x = bus_peek b x"
  by (auto simp: bus_read8_def ptr_read_def bus_peek_def split: option.split device_ptr.split prod.split)

lemma bus_write_peeked:
  assumes "bus_peek b a \<noteq> None"
  shows "\<exists>p. phys_byte a b = Some p \<and> bus_write8 b a v = b\<lparr>sb_ram := (sb_ram b)(p := v)\<rparr>"
  using assms by (auto simp: bus_peek_def bus_write8_def split: if_splits)

lemma bus_peek_write:
  assumes "bus_peek b a \<noteq> None"
  shows "bus_peek (bus_write8 b a v) x = (if x = a then Some v else bus_peek b x)"
proof -
  obtain p where p: "phys_byte a b = Some p" "bus_write8 b a v = b\<lparr>sb_ram := (sb_ram b)(p := v)\<rparr>"
    using bus_write_peeked [OF assms] by blast
  have banks: "length (sb_bank_regs b) = 4" "distinct (sb_bank_regs b)" "find_mapping a b = None"
    using assms by (auto simp: bus_peek_def split: if_splits)
  have at: "phys_byte x b = Some p \<longleftrightarrow> x = a"
    using phys_byte_inj [OF p(1) _ banks(1,2), of x] p(1) by blast
  show ?thesis
  proof (cases "phys_byte x b")
    case None
    then show ?thesis using at by (auto simp: p(2) bus_peek_def)
  next
    case (Some q)
    then show ?thesis using at banks by (cases "x = a") (simp_all add: p(2) bus_peek_def)
  qed
qed

interpretation ram: memory_region bus_read8 bus_write8 "\<lambda>b a. bus_peek b a \<noteq> None" "\<lambda>b a. the (bus_peek b a)"
proof
  fix m :: "('s, 'c) system_bus" and a b :: u16 and v :: u8
  show "bus_peek m a \<noteq> None \<Longrightarrow> bus_read8 m a = (the (bus_peek m a), m)"
    by (auto simp: bus_peek_def bus_read8_def split: if_splits)
  show "(bus_peek (snd (bus_read8 m a)) b \<noteq> None) = (bus_peek m b \<noteq> None)"
    by (simp add: bus_peek_read)
  show "bus_peek m b \<noteq> None \<Longrightarrow> the (bus_peek (snd (bus_read8 m a)) b) = the (bus_peek m b)"
    by (simp add: bus_peek_read)
  assume a: "bus_peek m a \<noteq> None"
  then show "(bus_peek (bus_write8 m a v) b \<noteq> None) = (bus_peek m b \<noteq> None)"
    by (simp add: bus_peek_write)
  show "the (bus_peek (bus_write8 m a v) b) = (if b = a then v else the (bus_peek m b))"
    using a by (simp add: bus_peek_write)
qed

interpretation flat: memory_region ram_bus_read ram_bus_write "\<lambda>_ _. True" "\<lambda>m a. m a"
  by unfold_locales (simp_all add: ram_bus_read_def ram_bus_write_def)

lemma bytes_at_nth:
  "bytes_at ram val m a bs \<longleftrightarrow> (\<forall>i<length bs. ram m (a + of_nat i) \<and> val m (a + of_nat i) = bs ! i)"
proof (induction bs arbitrary: a)
  case (Cons b bs)
  show ?case by (auto simp: Cons.IH All_less_Suc2 algebra_simps)
qed simp

text \<open>Bytes of RAM read the same in another state of the bus.\<close>

lemma bytes_at_peek:
  assumes "bytes_at (\<lambda>b a. bus_peek b a \<noteq> None) (\<lambda>b a. the (bus_peek b a)) m a bs"
    and "\<forall>i<n. bus_peek m' (a + of_nat i) = bus_peek m (a + of_nat i)" "length bs \<le> n"
  shows "bytes_at (\<lambda>b a. bus_peek b a \<noteq> None) (\<lambda>b a. the (bus_peek b a)) m' a bs"
  using assms by (simp add: bytes_at_nth)

abbreviation stack_room :: "('s, 'c) machine \<Rightarrow> reg16 \<Rightarrow> nat \<Rightarrow> bool" where
  "stack_room c sp n \<equiv> room_below (\<lambda>b a. bus_peek b a \<noteq> None) (bus_ctx c) (get16 sp c) n"

abbreviation on_system_bus :: "('s, 'c) machine \<Rightarrow> bool" where
  "on_system_bus \<equiv> on_bus bus_read8 bus_write8"

lemma list_image_length: "length (list_image other pb c) \<le> 12"
  by (simp add: list_image_def)

text \<open>C3. PSHS and PULS (PSHU and PULU) are inverse: after a register list has been pushed, from any later
  state of the machine whose stack pointer is back at the same place and whose 12 bytes there are still
  the ones pushed, pulling with the same postbyte gives every register of the list the value it had
  when it was pushed, moves the stack pointer to where it was, and changes nothing else.\<close>
theorem push_pull_roundtrip:
  fixes c d :: "('s, 'c) machine"
  assumes "on_system_bus c" "stack_pair sp other" "stack_room c sp 12"
    and "on_system_bus d" "get16 sp d = get16 sp (snd (run_state (push_list sp other pb) c))"
    and "\<forall>i<12. bus_peek (bus_ctx d) (get16 sp d + of_nat i) =
      bus_peek (bus_ctx (snd (run_state (push_list sp other pb) c))) (get16 sp d + of_nat i)"
  shows "snd (run_state (pull_list sp other pb) d) = restore_list other pb c (set16 sp (get16 sp c) d)"
proof -
  let ?c1 = "snd (run_state (push_list sp other pb) c)" and ?bs = "list_image other pb c"
  note pushed = ram.pushed_list [OF assms(1,3,2), of pb]
  have sp: "get16 sp ?c1 = get16 sp c - of_nat (length ?bs)"
    using pushed unfolding pushed_def by (metis get16_set16_ctx)
  have "bytes_at (\<lambda>b a. bus_peek b a \<noteq> None) (\<lambda>b a. the (bus_peek b a)) (bus_ctx ?c1) (get16 sp d) ?bs"
    using pushed sp assms(5) unfolding pushed_def by simp
  from ram.popped_list [OF assms(4) bytes_at_peek [OF this assms(6) list_image_length] assms(2)]
  show ?thesis by (simp add: assms(5) sp)
qed

lemma nmi_pending_clear: "\<not> nmi_pending c \<Longrightarrow> c\<lparr>nmi_pending := False\<rparr> = c"
  by simp

lemma service_interrupts_entry:
  assumes "interrupt_due c"
  shows "\<exists>vec msk em nm. snd (run_state service_interrupts c) = snd (run_state (interrupt_entry vec msk
    (nmi_pending c \<or> r_md c AND MD_FIRQ_NATIVE \<noteq> 0 \<or> \<not> (firq_line c \<and> \<not> get_flag CC_F c)) em nm) (c\<lparr>nmi_pending := False\<rparr>))"
proof -
  let ?c = "c\<lparr>nmi_pending := False\<rparr>" and ?f = "firq_line c \<and> \<not> get_flag CC_F c"
  note c = nmi_pending_clear [of c]
  consider (nmi) "nmi_pending c"
    | (full) "\<not> nmi_pending c" "?f" "r_md c AND MD_FIRQ_NATIVE \<noteq> 0"
    | (fast) "\<not> nmi_pending c" "?f" "r_md c AND MD_FIRQ_NATIVE = 0"
    | (irq) "\<not> nmi_pending c" "\<not> ?f" "irq_line c" "\<not> get_flag CC_I c"
    using assms unfolding interrupt_due_def by blast
  then show ?thesis
  proof cases
    case nmi
    then have "snd (run_state service_interrupts c) = snd (run_state (interrupt_entry VEC_NMI (CC_I OR CC_F) True 19 21) ?c)"
      by (simp add: service_interrupts_cases)
    with nmi show ?thesis by (auto intro!: exI)
  next
    case full
    then have "snd (run_state service_interrupts c) = snd (run_state (interrupt_entry VEC_FIRQ (CC_I OR CC_F) True 19 21) ?c)"
      by (simp add: service_interrupts_cases c)
    with full show ?thesis by (auto intro!: exI)
  next
    case fast
    then have "snd (run_state service_interrupts c) = snd (run_state (interrupt_entry VEC_FIRQ (CC_I OR CC_F) False 10 8) ?c)"
      by (simp add: service_interrupts_cases c)
    with fast show ?thesis by (auto intro!: exI)
  next
    case irq
    then have "snd (run_state service_interrupts c) = snd (run_state (interrupt_entry VEC_IRQ CC_I True 19 21) ?c)"
      by (auto simp: service_interrupts_cases c)
    with irq show ?thesis by (auto intro!: exI)
  qed
qed

text \<open>C1. An interrupt is transparent: when the CPU takes one (whichever line, whichever frame the mode asks
  for, whatever bus and vector), and the handler later executes RTI with the stack pointer back at the
  frame, the frame's bytes intact and the same execution mode, then execution continues at the
  interrupted instruction with the interrupted stack pointer and condition codes (E says which frame it
  was), and after a full frame with all of A, B, DP, X, Y, U and in native mode E and F as they were,
  and after the fast frame of FIRQ with every other register as the handler left it.\<close>
theorem interrupt_return:
  fixes c d :: "('s, 'c) machine"
  defines "c1 \<equiv> snd (run_state service_interrupts c)"
    and "e \<equiv> snd (run_state op_rti d)"
    and "full \<equiv> nmi_pending c \<or> r_md c AND MD_FIRQ_NATIVE \<noteq> 0 \<or> \<not> (firq_line c \<and> \<not> get_flag CC_F c)"
  assumes "interrupt_due c" "on_system_bus c" "stack_room c RegS 14" "\<not> cwai_pushed_pending c"
    and "on_system_bus d" "native d = native c" "r_s d = r_s c1"
    and "\<forall>i<14. bus_peek (bus_ctx d) (r_s d + of_nat i) = bus_peek (bus_ctx c1) (r_s d + of_nat i)"
  shows "r_pc e = r_pc c \<and> r_s e = r_s c \<and> r_cc e = r_cc (set_flag CC_E full c) \<and>
    (if full
     then r_a e = r_a c \<and> r_b e = r_b c \<and> r_dp e = r_dp c \<and> r_x e = r_x c \<and> r_y e = r_y c \<and> r_u e = r_u c \<and>
       (if native c then r_e e = r_e c \<and> r_f e = r_f c else r_e e = r_e d \<and> r_f e = r_f d)
     else r_a e = r_a d \<and> r_b e = r_b d \<and> r_dp e = r_dp d \<and> r_x e = r_x d \<and> r_y e = r_y d \<and> r_u e = r_u d \<and>
       r_e e = r_e d \<and> r_f e = r_f d)"
proof -
  let ?frame = "if full then full_frame (set_flag CC_E True c) else partial_frame (set_flag CC_E False c)"
  let ?at = "bytes_at (\<lambda>b a. bus_peek b a \<noteq> None) (\<lambda>b a. the (bus_peek b a))"
  define c' where "c' = c\<lparr>nmi_pending := False\<rparr>"
  obtain vec msk em nm where c1: "c1 = snd (run_state (interrupt_entry vec msk full em nm) c')"
    using service_interrupts_entry [OF assms(4)] unfolding c1_def full_def c'_def by blast
  have "on_system_bus c'" "stack_room c' RegS 14" "\<not> cwai_pushed_pending c'"
    using assms(5-7) by (auto simp: c'_def on_bus_def)
  moreover have "?frame = (if full then full_frame (set_flag CC_E True c') else partial_frame (set_flag CC_E False c'))"
    by (cases "native c") (auto simp: c'_def full_frame_def partial_frame_def native_def set_flag_def)
  ultimately have c1_at: "?at (bus_ctx c1) (r_s c1) ?frame" and s: "r_s c1 = r_s c' - of_nat (length ?frame)"
    using ram.interrupt_entry_frame [OF _ _ _ _ c1] by auto
  have "length ?frame \<le> 14" by (simp add: frame_length)
  then have at: "?at (bus_ctx d) (r_s d) ?frame"
    using bytes_at_peek [OF c1_at [folded assms(10)] assms(11)] by blast
  have s: "r_s d + of_nat (length ?frame) = r_s c"
    using s by (simp add: c'_def assms(10))
  have s3: "r_s d + 3 = r_s c" if "\<not> full"
    using s that by (simp add: frame_length(2))
  have E: "r_cc (set_flag CC_E True c) AND CC_E \<noteq> 0" "r_cc (set_flag CC_E False c) AND CC_E = 0"
    by (simp_all add: set_flag_def CC_E_def bit.conj_disj_distrib2 and.assoc)
  have nat: "native d = native (set_flag CC_E True c)"
    using assms(9) by (simp add: native_def set_flag_def)
  show ?thesis
  proof (cases full)
    case True
    then show ?thesis
      using ram.rti_full [OF assms(8) _ nat E(1)] at s by (auto simp: e_def set_flag_def native_def)
  next
    case False
    then show ?thesis
      using ram.rti_partial [OF assms(8) _ E(2)] at s3 by (auto simp: e_def set_flag_def)
  qed
qed


text \<open>A machine with 64 KB of RAM and no devices, for the examples.\<close>

definition stack_example :: "(unit, unit) machine" where
  "stack_example = (new_machine 4 (\<lambda>_. RomDev (new_rom 0)))\<lparr>r_s := 0x1000, r_x := 0x1234, r_a := 7, r_pc := 0x400, r_cc := 0\<rparr>"

lemma new_bus_peek: "bus_peek (new_bus n st) a \<noteq> None"
proof -
  have "unat a div 16384 \<in> {0, 1, 2, 3}" using bank_index(2) [of a] by auto
  then have "unat ([0, 1, 2, 3 :: u8] ! (unat a div 16384)) < 4" by auto
  then show ?thesis
    by (auto simp: bus_peek_def new_bus_def find_mapping_def phys_byte_arith Let_def kAddressablePages_def min_def)
qed

lemma new_bus_read: "bus_read8 (new_bus n st) a = (the (bus_peek (new_bus n st) a), new_bus n st)"
  by (rule ram.rd_val [OF new_bus_peek])

lemma stack_example_simps:
  "bus_ctx stack_example = new_bus 4 (\<lambda>_. RomDev (new_rom 0))" "on_system_bus stack_example" "\<not> cwai_pushed_pending stack_example"
  "r_s stack_example = 0x1000" "r_x stack_example = 0x1234" "r_pc stack_example = 0x400" "r_a stack_example = 7"
  "stack_room stack_example RegS n" "r_cc stack_example = 0" "\<not> nmi_pending stack_example" "\<not> firq_line stack_example"
  by (simp_all add: stack_example_def new_machine_def new_CPU_def on_bus_def room_below_iff new_bus_peek [simplified]
    new_bus_read reset_cpu_def read16_def read8_def)

theorem push_pull_roundtrip_witness:
  "snd (run_state (pull_list RegS RegU 0x12) ((snd (run_state (push_list RegS RegU 0x12) stack_example))\<lparr>r_x := 0, r_a := 0\<rparr>)) =
    (snd (run_state (push_list RegS RegU 0x12) stack_example))\<lparr>r_s := 0x1000, r_x := 0x1234, r_a := 7\<rparr>"
proof -
  let ?c1 = "snd (run_state (push_list RegS RegU 0x12) stack_example)"
  have pair: "stack_pair RegS RegU" by (simp add: stack_pair_def)
  have "on_system_bus ?c1"
    by (rule ram.pushed_on_bus [OF ram.pushed_list [OF stack_example_simps(2,8) pair] stack_example_simps(2)])
  then have "on_system_bus (?c1\<lparr>r_x := 0, r_a := 0\<rparr>)" by (simp add: on_bus_def)
  from push_pull_roundtrip [OF stack_example_simps(2) pair stack_example_simps(8) this, of "0x12"]
  show ?thesis
    by (simp add: restore_list_def stack_example_simps)
qed

theorem interrupt_return_witness:
  "r_x (snd (run_state op_rti ((snd (run_state service_interrupts (stack_example\<lparr>irq_line := True\<rparr>)))\<lparr>r_x := 0, r_pc := 0x800\<rparr>))) = 0x1234"
proof -
  let ?c = "stack_example\<lparr>irq_line := True\<rparr>"
  let ?c1 = "snd (run_state service_interrupts ?c)"
  have due: "interrupt_due ?c"
    by (simp add: interrupt_due_def get_flag_def stack_example_simps)
  have c: "on_system_bus ?c" "stack_room ?c RegS 14" "\<not> cwai_pushed_pending ?c"
    using stack_example_simps(2,3) stack_example_simps(8) [of "14"] by (simp_all add: on_bus_def)
  have nmi: "\<not> nmi_pending ?c" by (simp add: stack_example_simps)
  obtain vec msk full em nm where c1: "?c1 = snd (run_state (interrupt_entry vec msk full em nm) ?c)"
    using service_interrupts_entry [OF due] unfolding nmi_pending_clear [OF nmi] by blast
  have d: "on_system_bus (?c1\<lparr>r_x := 0, r_pc := 0x800\<rparr>)" "native (?c1\<lparr>r_x := 0, r_pc := 0x800\<rparr>) = native ?c"
    using ram.interrupt_entry_frame [OF c(1) c(2) [unfolded get16.simps] c(3) refl c1] by (simp_all add: on_bus_def native_def)
  from interrupt_return [OF due c d]
  show ?thesis
    by (simp add: stack_example_simps)
qed

end
