(* ===== verification/Srec.thy ===== *)
theory Srec
  imports Prelude
begin

text \<open>
  The Motorola S-record loader of \<^verbatim>\<open>simulator/src/pugputer/srec_loader.cpp\<close>. The file is its contents as
  a string (or nothing when it cannot be opened), the caller's buffer a list of bytes, and the result
  the fields of \<^verbatim>\<open>SrecLoadResult\<close>, with the error message as a datatype. Every field that is a
  \<^verbatim>\<open>uint32_t\<close> or an \<^verbatim>\<open>unsigned\<close> is a 32-bit word, so that the address arithmetic wraps as it does in
  the code.
\<close>

unbundle bit_operations_syntax

section \<open>Characters and lines\<close>

definition hex_nibble :: "char \<Rightarrow> u32 option" where
  "hex_nibble c =
    (let n = (of_char c :: nat)
     in if 48 \<le> n \<and> n \<le> 57 then Some (of_nat (n - 48))
        else if 65 \<le> n \<and> n \<le> 70 then Some (of_nat (n - 65 + 10))
        else if 97 \<le> n \<and> n \<le> 102 then Some (of_nat (n - 97 + 10))
        else None)"

definition hex_byte :: "string \<Rightarrow> nat \<Rightarrow> u8 option" where
  "hex_byte s pos =
    (if length s \<le> pos + 1 then None
     else case (hex_nibble (s ! pos), hex_nibble (s ! (pos + 1))) of
       (Some hi, Some lo) \<Rightarrow> Some (ucast (push_bit 4 hi OR lo))
     | _ \<Rightarrow> None)"

definition is_trailing :: "char \<Rightarrow> bool" where
  "is_trailing c \<longleftrightarrow> c = CHR 0x0D \<or> c = CHR 0x0A \<or> c = CHR '' '' \<or> c = CHR 0x09"

definition rstrip :: "string \<Rightarrow> string" where
  "rstrip s = rev (dropWhile is_trailing (rev s))"

text \<open>\<^verbatim>\<open>std::getline\<close>: the pieces between newlines; a newline at the end of the file opens no further line.\<close>

definition newline :: char where "newline = CHR 0x0A"

function getlines :: "string \<Rightarrow> string list" where
  "getlines s = (if s = [] then []
     else takeWhile (\<lambda>c. c \<noteq> newline) s # getlines (tl (dropWhile (\<lambda>c. c \<noteq> newline) s)))"
  by auto
termination
proof (relation "measure length")
  fix s :: string assume "s \<noteq> []"
  moreover have "length (dropWhile (\<lambda>c. c \<noteq> newline) s) \<le> length s" by (rule length_dropWhile_le)
  moreover have "0 < length s" using \<open>s \<noteq> []\<close> by simp
  ultimately show "(tl (dropWhile (\<lambda>c. c \<noteq> newline) s), s) \<in> measure length"
    unfolding in_measure length_tl by linarith
qed simp

declare getlines.simps [simp del]

section \<open>The memory and the result\<close>

text \<open>The messages of \<^verbatim>\<open>SrecLoadResult::error\<close>; the first has no line number.\<close>

datatype srec_error =
    CouldNotOpen
  | ExpectedS
  | RecordTooShort
  | MalformedCount
  | UnknownType char
  | ShorterThanCount
  | CountTooSmall
  | MalformedAddress
  | MalformedData
  | MalformedChecksum
  | ChecksumMismatch u8 u8
  | PastEnd u32 nat

text \<open>The caller's buffer and the fields of the result. \<open>sr_oob\<close> records a store outside
  \<^verbatim>\<open>mem[0..mem_size)\<close>, which is undefined behaviour in C++; such a store changes nothing here.\<close>

record srec_state =
  sr_mem :: "u8 list"
  sr_any_data :: bool
  sr_min_addr :: u32
  sr_max_addr :: u32
  sr_oob :: bool

record srec_result =
  res_ok :: bool
  res_error :: "(nat \<times> srec_error) option"
  res_state :: srec_state

definition new_state :: "u8 list \<Rightarrow> srec_state" where
  "new_state mem = \<lparr>sr_mem = mem, sr_any_data = False, sr_min_addr = 0, sr_max_addr = 0, sr_oob = False\<rparr>"

section \<open>One record\<close>

text \<open>The type switch: the number of address bytes and whether the record carries data.\<close>

definition record_type :: "char \<Rightarrow> (nat \<times> bool) option" where
  "record_type t =
    (if t = CHR ''0'' then Some (2, False)
     else if t = CHR ''1'' then Some (2, True)
     else if t = CHR ''2'' then Some (3, True)
     else if t = CHR ''3'' then Some (4, True)
     else if t = CHR ''5'' then Some (2, False)
     else if t = CHR ''6'' then Some (3, False)
     else if t = CHR ''7'' then Some (4, False)
     else if t = CHR ''8'' then Some (3, False)
     else if t = CHR ''9'' then Some (2, False)
     else None)"

primrec address_loop :: "nat \<Rightarrow> string \<Rightarrow> nat \<Rightarrow> u32 \<Rightarrow> u32 \<Rightarrow> (u32 \<times> u32 \<times> nat) option" where
  "address_loop 0 line pos address acc = Some (address, acc, pos)"
| "address_loop (Suc i) line pos address acc =
    (case hex_byte line pos of None \<Rightarrow> None
     | Some b \<Rightarrow> address_loop i line (pos + 2) (push_bit 8 address OR ucast b) (acc + ucast b))"

primrec data_loop :: "nat \<Rightarrow> string \<Rightarrow> nat \<Rightarrow> u32 \<Rightarrow> (u8 list \<times> u32 \<times> nat) option" where
  "data_loop 0 line pos acc = Some ([], acc, pos)"
| "data_loop (Suc i) line pos acc =
    (case hex_byte line pos of None \<Rightarrow> None
     | Some b \<Rightarrow> map_option (\<lambda>(bs, r). (b # bs, r)) (data_loop i line (pos + 2) (acc + ucast b)))"

definition store_byte :: "u32 \<Rightarrow> u8 \<Rightarrow> srec_state \<Rightarrow> srec_state" where
  "store_byte a b st =
    (if unat a < length (sr_mem st) then st\<lparr>sr_mem := (sr_mem st)[unat a := b]\<rparr> else st\<lparr>sr_oob := True\<rparr>)"

primrec store_bytes :: "u32 \<Rightarrow> u8 list \<Rightarrow> srec_state \<Rightarrow> srec_state" where
  "store_bytes a [] st = st"
| "store_bytes a (b # bs) st = store_bytes (a + 1) bs (store_byte a b st)"

definition apply_data :: "u32 \<Rightarrow> u8 list \<Rightarrow> srec_state \<Rightarrow> srec_error + srec_state" where
  "apply_data address data st =
    (let data_len = (of_nat (length data) :: u32)
     in if length (sr_mem st) < unat (address + data_len) then Inl (PastEnd address (length (sr_mem st)))
        else let st = store_bytes address data st;
                 e = address + data_len - 1
             in Inr (if \<not> sr_any_data st then st\<lparr>sr_any_data := True, sr_min_addr := address, sr_max_addr := e\<rparr>
                else let st = (if address < sr_min_addr st then st\<lparr>sr_min_addr := address\<rparr> else st)
                     in if sr_max_addr st < e then st\<lparr>sr_max_addr := e\<rparr> else st))"

definition load_line :: "string \<Rightarrow> srec_state \<Rightarrow> srec_error + srec_state" where
  "load_line line st =
    (let line = rstrip line in
     if line = [] then Inr st
     else if line ! 0 \<noteq> CHR ''S'' \<and> line ! 0 \<noteq> CHR ''s'' then Inl ExpectedS
     else if length line < 4 then Inl RecordTooShort
     else (case hex_byte line 2 of None \<Rightarrow> Inl MalformedCount
     | Some byte_count \<Rightarrow> (case record_type (line ! 1) of None \<Rightarrow> Inl (UnknownType (line ! 1))
     | Some (addr_bytes, is_data) \<Rightarrow>
       if length line < 4 + unat byte_count * 2 then Inl ShorterThanCount
       else if unat byte_count < addr_bytes + 1 then Inl CountTooSmall
       else (case address_loop addr_bytes line 4 0 (ucast byte_count) of None \<Rightarrow> Inl MalformedAddress
       | Some (address, acc, pos) \<Rightarrow>
         (case data_loop (unat byte_count - addr_bytes - 1) line pos acc of None \<Rightarrow> Inl MalformedData
         | Some (data, acc, pos) \<Rightarrow>
           (case hex_byte line pos of None \<Rightarrow> Inl MalformedChecksum
           | Some checksum \<Rightarrow>
             let expected = ucast (NOT acc AND 0xFF)
             in if checksum \<noteq> expected then Inl (ChecksumMismatch checksum expected)
                else if is_data \<and> data \<noteq> [] then apply_data address data st
                else Inr st))))))"

section \<open>The file\<close>

primrec load_lines :: "string list \<Rightarrow> nat \<Rightarrow> srec_state \<Rightarrow> srec_result" where
  "load_lines [] n st = \<lparr>res_ok = True, res_error = None, res_state = st\<rparr>"
| "load_lines (l # ls) n st =
    (case load_line l st of
       Inl e \<Rightarrow> \<lparr>res_ok = False, res_error = Some (n + 1, e), res_state = st\<rparr>
     | Inr st' \<Rightarrow> load_lines ls (n + 1) st')"

definition load_srec_file :: "string option \<Rightarrow> u8 list \<Rightarrow> srec_result" where
  "load_srec_file contents mem =
    (case contents of
       None \<Rightarrow> \<lparr>res_ok = False, res_error = Some (0, CouldNotOpen), res_state = new_state mem\<rparr>
     | Some s \<Rightarrow> load_lines (getlines s) 0 (new_state mem))"




section \<open>Writing S-records\<close>

text \<open>The format the loader reads, as a writer: hexadecimal fields, the address in \<open>k\<close> bytes, the
  one's-complement checksum.\<close>

definition hexdigit :: "u8 \<Rightarrow> char" where
  "hexdigit v = ''0123456789ABCDEF'' ! unat v"

definition hex :: "u8 \<Rightarrow> string" where
  "hex b = [hexdigit (drop_bit 4 b), hexdigit (b AND 15)]"

definition hexs :: "u8 list \<Rightarrow> string" where
  "hexs bs = concat (map hex bs)"

definition address_field :: "nat \<Rightarrow> u32 \<Rightarrow> u8 list" where
  "address_field k a = map (\<lambda>i. ucast (drop_bit (8 * i) a)) (rev [0..<k])"

definition type_char :: "nat \<Rightarrow> char" where
  "type_char k = (if k = 2 then CHR ''1'' else if k = 3 then CHR ''2'' else CHR ''3'')"

definition record_bytes :: "nat \<Rightarrow> u32 \<Rightarrow> u8 list \<Rightarrow> u8 list" where
  "record_bytes k a data = of_nat (k + length data + 1) # address_field k a @ data"

definition checksum_of :: "u8 list \<Rightarrow> u8" where
  "checksum_of bs = ucast (NOT (fold (\<lambda>b acc. acc + ucast b) bs (0 :: u32)) AND 0xFF)"

definition srec_record :: "nat \<Rightarrow> u32 \<Rightarrow> u8 list \<Rightarrow> string" where
  "srec_record k a data = [CHR ''S'', type_char k] @ hexs (record_bytes k a data @ [checksum_of (record_bytes k a data)])"

section \<open>Reading what was written\<close>

lemma and_15_less: "unat (b AND 15 :: u8) < 16"
  using word_and_le1 [of b 15] by (simp add: word_le_nat_alt)

lemma drop_4_less: "unat (drop_bit 4 (b :: u8)) < 16"
  by (simp only: unat_drop_bit_eq) (simp only: drop_bit_eq_div, use unat8_less [of b] in \<open>simp add: div_less_iff_less_mult del: unat8_less\<close>)

lemma digit_cases:
  assumes "unat (v :: u8) < 16"
  shows "v \<in> {0, 1, 2, 3, 4, 5, 6, 7, 8, 9, 10, 11, 12, 13, 14, 15}"
  using assms by (simp add: word_unat_eq_iff) presburger

lemma hex_nibble_hexdigit: "unat v < 16 \<Longrightarrow> hex_nibble (hexdigit v) = Some (ucast v)"
  by (drule digit_cases) (auto simp: hexdigit_def hex_nibble_def)

lemma hexdigit_plain: "unat v < 16 \<Longrightarrow> \<not> is_trailing (hexdigit v) \<and> hexdigit v \<noteq> newline"
  by (drule digit_cases) (auto simp: hexdigit_def is_trailing_def newline_def)

lemma hex_join: "ucast (push_bit 4 (ucast (drop_bit 4 b) :: u32) OR ucast (b AND 15)) = (b :: u8)"
proof (rule bit_eqI)
  fix n
  have 15: "(15 :: u8) = mask 4" by (simp add: mask_eq_exp_minus_1)
  show "bit (ucast (push_bit 4 (ucast (drop_bit 4 b) :: u32) OR ucast (b AND 15)) :: u8) n = bit b n"
    by (auto simp: 15 bit_simps dest: bit_imp_le_length)
qed

lemma hex_byte_at: "hex_byte (pre @ hex b @ post) (length pre) = Some b"
  by (simp add: hex_byte_def hex_def nth_append hex_nibble_hexdigit drop_4_less and_15_less hex_join)

lemma hexs_Cons [simp]: "hexs (b # bs) = hex b @ hexs bs" "hexs [] = []"
  by (simp_all add: hexs_def)

lemma hexs_append [simp]: "hexs (bs @ cs) = hexs bs @ hexs cs"
  by (simp add: hexs_def)

lemma length_hexs [simp]: "length (hexs bs) = 2 * length bs" "length (hex b) = 2"
  by (induction bs) (simp_all add: hex_def)

lemma address_loop_hexs:
  "address_loop (length bs) (pre @ hexs bs @ post) (length pre) a acc =
    Some (fold (\<lambda>b a. push_bit 8 a OR ucast b) bs a, fold (\<lambda>b acc. acc + ucast b) bs acc, length pre + 2 * length bs)"
proof (induction bs arbitrary: pre a acc)
  case (Cons b bs)
  have "hex_byte (pre @ hexs (b # bs) @ post) (length pre) = Some b"
    using hex_byte_at [of pre b "hexs bs @ post"] by simp
  then show ?case
    using Cons.IH [of "pre @ hex b"] by simp
qed simp

lemma data_loop_hexs:
  "data_loop (length bs) (pre @ hexs bs @ post) (length pre) acc =
    Some (bs, fold (\<lambda>b acc. acc + ucast b) bs acc, length pre + 2 * length bs)"
proof (induction bs arbitrary: pre acc)
  case (Cons b bs)
  have "hex_byte (pre @ hexs (b # bs) @ post) (length pre) = Some b"
    using hex_byte_at [of pre b "hexs bs @ post"] by simp
  then show ?case
    using Cons.IH [of "pre @ hex b"] by simp
qed simp

lemma address_field_fold:
  "fold (\<lambda>b a. push_bit 8 a OR ucast b) (address_field k a) x = push_bit (8 * k) x OR take_bit (8 * k) (a :: u32)"
proof (induction k arbitrary: x)
  case (Suc k)
  have "push_bit (8 * k) (push_bit 8 x OR ucast (ucast (drop_bit (8 * k) a) :: u8)) OR take_bit (8 * k) a =
      push_bit (8 * Suc k) x OR take_bit (8 * Suc k) a"
    by (rule bit_eqI) (auto simp: bit_simps ac_simps dest: bit_imp_le_length)
  then show ?case using Suc.IH by (simp add: address_field_def)
qed (simp add: address_field_def)

lemma address_field_value:
  assumes "k \<in> {2, 3, 4}" "unat a < 256 ^ k"
  shows "fold (\<lambda>b a. push_bit 8 a OR ucast b) (address_field k a) 0 = a"
proof -
  have "256 ^ k = (2 :: nat) ^ (8 * k)" using assms(1) by auto
  then have "take_bit (8 * k) a = a"
    using assms(2) by (simp add: word_unat_eq_iff unsigned_take_bit_eq take_bit_nat_eq_self)
  then show ?thesis by (simp add: address_field_fold)
qed

lemma rstrip_plain:
  assumes "s \<noteq> []" "\<not> is_trailing (last s)" "list_all is_trailing t"
  shows "rstrip (s @ t) = s"
proof -
  have "dropWhile is_trailing (rev t @ rev s) = dropWhile is_trailing (rev s)"
    using assms(3) by (intro dropWhile_append2) (auto simp: list_all_iff)
  also have "\<dots> = rev s"
    using assms(1,2) by (cases s rule: rev_cases) auto
  finally show ?thesis by (simp add: rstrip_def)
qed

lemma record_type_char: "k \<in> {2, 3, 4} \<Longrightarrow> record_type (type_char k) = Some (k, True)"
  by (auto simp: type_char_def record_type_def)

lemma hexs_plain: "c \<in> set (hexs bs) \<Longrightarrow> \<not> is_trailing c \<and> c \<noteq> newline"
  by (auto simp: hexs_def hex_def hexdigit_plain and_15_less drop_4_less)

text \<open>A record that may be written: its count fits a byte, its address the field.\<close>

definition well_sized :: "nat \<Rightarrow> u32 \<Rightarrow> u8 list \<Rightarrow> bool" where
  "well_sized k a data \<longleftrightarrow> k \<in> {2, 3, 4} \<and> unat a < 256 ^ k \<and> data \<noteq> [] \<and> k + length data + 1 \<le> 255"

lemma length_address_field [simp]: "length (address_field k a) = k"
  by (simp add: address_field_def)

lemma load_line_record:
  assumes "well_sized k a data" "list_all is_trailing t"
  shows "load_line (srec_record k a data @ t) st = apply_data a data st"
proof -
  define n where "n = (of_nat (k + length data + 1) :: u8)"
  let ?bs = "record_bytes k a data"
  let ?add = "fold (\<lambda>b acc. acc + ucast b) :: u8 list \<Rightarrow> u32 \<Rightarrow> u32"
  let ?line = "srec_record k a data"
  have small: "unat (of_nat m :: u8) = m" if "m < 256" for m
    using that by (simp add: unsigned_of_nat take_bit_nat_eq_self)
  have k: "k \<in> {2, 3, 4}" and nz: "data \<noteq> []"
    using assms(1) by (simp_all add: well_sized_def)
  have n: "unat n = k + length data + 1"
    unfolding n_def using assms(1) by (intro small) (simp add: well_sized_def)
  have line: "?line = [CHR ''S'', type_char k] @ hex n @ hexs (address_field k a) @ hexs data @ hex (checksum_of ?bs) @ []"
    by (simp add: srec_record_def record_bytes_def n_def)
  have len: "length ?line = 4 + unat n * 2"
    unfolding n by (simp add: line)
  have "last ?line \<in> set (hexs (?bs @ [checksum_of ?bs]))"
    by (simp add: srec_record_def hex_def)
  then have "\<not> is_trailing (last ?line)" using hexs_plain by blast
  then have strip: "rstrip (?line @ t) = ?line"
    using assms(2) by (intro rstrip_plain) (auto simp: line)
  have count: "hex_byte ?line 2 = Some n"
    unfolding line using hex_byte_at [of "[CHR ''S'', type_char k]" n] by (simp add: numeral_2_eq_2)
  have addr: "address_loop k ?line 4 0 (ucast n) = Some (a, ?add (address_field k a) (ucast n), 4 + 2 * k)"
    using address_loop_hexs [of "address_field k a" "[CHR ''S'', type_char k] @ hex n" "hexs data @ hex (checksum_of ?bs)" 0 "ucast n"]
      address_field_value [OF k] assms(1) by (simp add: line well_sized_def)
  have suc4: "Suc (Suc (Suc (Suc m))) = 4 + m" for m by simp
  have data: "data_loop (length data) ?line (4 + 2 * k) acc = Some (data, ?add data acc, 4 + 2 * k + 2 * length data)" for acc
    using data_loop_hexs [of data "[CHR ''S'', type_char k] @ hex n @ hexs (address_field k a)" "hex (checksum_of ?bs)" acc]
    by (simp add: line suc4)
  have check: "hex_byte ?line (4 + 2 * k + 2 * length data) = Some (checksum_of ?bs)"
    using hex_byte_at [of "[CHR ''S'', type_char k] @ hex n @ hexs (address_field k a) @ hexs data" "checksum_of ?bs" "[]"]
    by (simp add: line suc4 add.assoc)
  have total: "?add ?bs 0 = ?add data (?add (address_field k a) (ucast n))"
    by (simp add: record_bytes_def n_def)
  have first: "?line \<noteq> []" "?line ! 0 = CHR ''S''" "?line ! 1 = type_char k"
    by (simp_all add: line)
  have len4: "\<not> length ?line < 4" and counts: "\<not> length ?line < 4 + unat n * 2" "\<not> unat n < k + 1" "unat n - (k + 1) = length data"
    using len n by simp_all
  show ?thesis
    unfolding load_line_def strip Let_def
    by (simp add: first len4 count record_type_char [OF k] counts addr data check checksum_of_def total nz del: One_nat_def)
qed

section \<open>Storing a record\<close>

definition overlay :: "nat \<Rightarrow> u8 list \<Rightarrow> u8 list \<Rightarrow> u8 list" where
  "overlay a bs mem = take a mem @ bs @ drop (a + length bs) mem"

lemma length_overlay [simp]: "a + length bs \<le> length mem \<Longrightarrow> length (overlay a bs mem) = length mem"
  by (simp add: overlay_def)

lemma overlay_other: "a + length bs \<le> length mem \<Longrightarrow> i < a \<or> a + length bs \<le> i \<Longrightarrow> overlay a bs mem ! i = mem ! i"
  by (auto simp: overlay_def nth_append)

lemma overlay_Cons:
  assumes "a + Suc (length bs) \<le> length mem"
  shows "overlay (Suc a) bs (mem[a := b]) = overlay a (b # bs) mem"
  using assms by (simp add: overlay_def take_Suc_conv_app_nth take_update_cancel)

lemma unat_succ: "unat (a :: u32) + 1 < 2 ^ 32 \<Longrightarrow> unat (a + 1) = unat a + 1"
  by (simp add: unat_word_ariths)

lemma store_bytes_in_range:
  assumes "unat a + length bs \<le> length (sr_mem st)" "length (sr_mem st) \<le> 2 ^ 32"
  shows "store_bytes a bs st = st\<lparr>sr_mem := overlay (unat a) bs (sr_mem st)\<rparr>"
  using assms
proof (induction bs arbitrary: a st)
  case (Cons b bs)
  have a: "unat a < length (sr_mem st)" using Cons.prems(1) by simp
  show ?case
  proof (cases "bs = []")
    case True
    then show ?thesis using a by (simp add: store_byte_def overlay_def upd_conv_take_nth_drop)
  next
    case False
    then obtain m where "length bs = Suc m" by (cases bs) auto
    then have next_a: "unat (a + 1) = unat a + 1"
      using Cons.prems \<open>length bs = Suc m\<close> by (intro unat_succ) simp
    show ?thesis
      using Cons.IH [of "a + 1" "store_byte a b st"] Cons.prems next_a a
      by (simp add: store_byte_def overlay_Cons)
  qed
qed (simp add: overlay_def)

lemma store_bytes_oob: "sr_oob st \<Longrightarrow> sr_oob (store_bytes a bs st)"
  by (induction bs arbitrary: a st) (simp_all add: store_byte_def)

lemma store_byte_length [simp]: "length (sr_mem (store_byte a b st)) = length (sr_mem st)"
  by (simp add: store_byte_def)

lemma store_bytes_length [simp]: "length (sr_mem (store_bytes a bs st)) = length (sr_mem st)"
  by (induction bs arbitrary: a st) simp_all

lemma store_bytes_no_oob:
  assumes "\<not> sr_oob (store_bytes a bs st)" "bs \<noteq> []" "length (sr_mem st) < 2 ^ 32"
  shows "\<not> sr_oob st \<and> unat a + length bs \<le> length (sr_mem st)"
  using assms
proof (induction bs arbitrary: a st)
  case (Cons b bs)
  have a: "unat a < length (sr_mem st)" and st: "\<not> sr_oob st"
    using Cons.prems(1) store_bytes_oob [of "store_byte a b st" "a + 1" bs]
    by (auto simp: store_byte_def split: if_splits)
  show ?case
  proof (cases "bs = []")
    case False
    have "unat (a + 1) = unat a + 1"
      using a Cons.prems(3) by (intro unat_succ) simp
    then show ?thesis
      using Cons.IH [of "a + 1" "store_byte a b st"] Cons.prems False st by simp
  qed (use a st in simp)
qed simp

lemma store_bytes_result [simp]:
  "sr_any_data (store_bytes a bs st) = sr_any_data st" "sr_min_addr (store_bytes a bs st) = sr_min_addr st"
  "sr_max_addr (store_bytes a bs st) = sr_max_addr st"
  by (induction bs arbitrary: a st) (simp_all add: store_byte_def)

lemma apply_data_in_range:
  assumes "unat a + length bs \<le> length (sr_mem st)" "length (sr_mem st) \<le> 2 ^ 32"
  shows "\<exists>st'. apply_data a bs st = Inr st' \<and> sr_mem st' = overlay (unat a) bs (sr_mem st) \<and> sr_oob st' = sr_oob st"
proof -
  have "unat (a + of_nat (length bs)) \<le> unat a + length bs"
    by (simp add: unat_word_ariths unsigned_of_nat take_bit_nat_def)
  then have "\<not> length (sr_mem st) < unat (a + of_nat (length bs))" using assms(1) by simp
  then show ?thesis
    by (auto simp: apply_data_def Let_def store_bytes_in_range [OF assms])
qed

section \<open>Loading files\<close>

lemma getlines_Nil [simp]: "getlines [] = []"
  by (simp add: getlines.simps)

lemma getlines_single: "l \<noteq> [] \<Longrightarrow> newline \<notin> set l \<Longrightarrow> getlines l = [l]"
proof -
  assume l: "l \<noteq> []" "newline \<notin> set l"
  then have "takeWhile (\<lambda>c. c \<noteq> newline) l = l" "dropWhile (\<lambda>c. c \<noteq> newline) l = []"
    by (auto simp: takeWhile_eq_all_conv dropWhile_eq_Nil_conv)
  then show ?thesis using l(1) by (subst getlines.simps) (simp only: list.sel getlines_Nil if_False)
qed

lemma srec_record_newline: "newline \<notin> set (srec_record k a data)" "srec_record k a data \<noteq> []"
  using hexs_plain [of newline] by (auto simp: srec_record_def type_char_def newline_def simp del: hexs_append hexs_Cons)

lemma getlines_line: "newline \<notin> set l \<Longrightarrow> getlines (l @ newline # s) = l # getlines s"
  by (subst getlines.simps) (auto simp: takeWhile_append dropWhile_append)

definition srec_text :: "string \<Rightarrow> (nat \<times> u32 \<times> u8 list) list \<Rightarrow> string" where
  "srec_text eol recs = concat (map (\<lambda>(k, a, data). srec_record k a data @ eol @ [newline]) recs)"

lemma getlines_text:
  assumes "newline \<notin> set eol"
  shows "getlines (srec_text eol recs) = map (\<lambda>(k, a, data). srec_record k a data @ eol) recs"
proof (induction recs)
  case (Cons r recs)
  obtain k a data where r: "r = (k, a, data)" by (cases r)
  have "newline \<notin> set (srec_record k a data @ eol)"
    using assms srec_record_newline(1) by simp
  from getlines_line [OF this] show ?case
    using Cons.IH by (simp add: srec_text_def r)
qed (simp add: srec_text_def)

lemma load_records:
  assumes "list_all (\<lambda>(k, a, data). well_sized k a data \<and> unat a + length data \<le> length (sr_mem st)) recs"
    "list_all is_trailing eol" "length (sr_mem st) \<le> 2 ^ 32"
  shows "let r = load_lines (map (\<lambda>(k, a, data). srec_record k a data @ eol) recs) n st in
    res_ok r \<and> sr_oob (res_state r) = sr_oob st \<and>
    sr_mem (res_state r) = fold (\<lambda>(k, a, data). overlay (unat a) data) recs (sr_mem st)"
  using assms
proof (induction recs arbitrary: n st)
  case (Cons rec recs)
  obtain k a data where r: "rec = (k, a, data)" by (cases rec)
  have fits: "unat a + length data \<le> length (sr_mem st)" and wf: "well_sized k a data"
    using Cons.prems(1) by (simp_all add: r)
  obtain st' where st': "apply_data a data st = Inr st'" "sr_mem st' = overlay (unat a) data (sr_mem st)" "sr_oob st' = sr_oob st"
    using apply_data_in_range [OF fits Cons.prems(3)] by blast
  have len: "length (sr_mem st') = length (sr_mem st)"
    using st'(2) fits by simp
  have "load_lines (map (\<lambda>(k, a, data). srec_record k a data @ eol) (rec # recs)) n st =
      load_lines (map (\<lambda>(k, a, data). srec_record k a data @ eol) recs) (n + 1) st'"
    by (simp add: r load_line_record [OF wf Cons.prems(2)] st'(1))
  then show ?case
    using Cons.IH [of st' "n + 1"] Cons.prems st' len by (simp add: r Let_def)
qed simp

text \<open>C14. Loading is the inverse of writing: a file of S1, S2 and S3 records that fit the memory, with
  either line ending, loads without error, puts every record's bytes at its address in the order of
  the file, and leaves the rest of the memory alone.\<close>
theorem srec_roundtrip:
  assumes "list_all (\<lambda>(k, a, data). well_sized k a data \<and> unat a + length data \<le> length mem) recs"
    "eol = [] \<or> eol = [CHR 0x0D]" "length mem \<le> 2 ^ 32"
  shows "let r = load_srec_file (Some (srec_text eol recs)) mem in
    res_ok r \<and> \<not> sr_oob (res_state r) \<and>
    sr_mem (res_state r) = fold (\<lambda>(k, a, data). overlay (unat a) data) recs mem"
proof -
  have eol: "newline \<notin> set eol" "list_all is_trailing eol"
    using assms(2) by (auto simp: newline_def is_trailing_def)
  show ?thesis
    using load_records [of "new_state mem" recs eol 0] assms(1,3) eol
    by (simp add: load_srec_file_def getlines_text new_state_def Let_def)
qed

theorem srec_roundtrip_witness:
  "sr_mem (res_state (load_srec_file (Some (srec_text [CHR 0x0D] [(2, 1, [0xAA, 0xBB])])) [1, 2, 3, 4])) = [1, 0xAA, 0xBB, 4]"
  using srec_roundtrip [of "[1, 2, 3, 4]" "[(2, 1, [0xAA, 0xBB])]" "[CHR 0x0D]"]
  by (simp add: well_sized_def overlay_def Let_def)

section \<open>Any file\<close>

text \<open>What every accepted record keeps: the bytes that differ from the original lie between the addresses
  the result reports.\<close>

definition within_report :: "u8 list \<Rightarrow> srec_state \<Rightarrow> bool" where
  "within_report mem st \<longleftrightarrow> length (sr_mem st) = length mem \<and>
     (\<not> sr_oob st \<longrightarrow>
       (\<forall>i<length mem. sr_mem st ! i \<noteq> mem ! i \<longrightarrow>
          sr_any_data st \<and> unat (sr_min_addr st) \<le> i \<and> i \<le> unat (sr_max_addr st)) \<and>
       (sr_any_data st \<longrightarrow> sr_min_addr st \<le> sr_max_addr st \<and> unat (sr_max_addr st) < length mem))"

lemma apply_data_cases:
  assumes "apply_data a bs st = Inr st'"
  shows "sr_mem st' = sr_mem (store_bytes a bs st) \<and> sr_oob st' = sr_oob (store_bytes a bs st) \<and> sr_any_data st' \<and>
    (if sr_any_data st
     then sr_min_addr st' = min a (sr_min_addr st) \<and> sr_max_addr st' = max (a + of_nat (length bs) - 1) (sr_max_addr st)
     else sr_min_addr st' = a \<and> sr_max_addr st' = a + of_nat (length bs) - 1)"
  using assms by (auto simp: apply_data_def Let_def min_def max_def split: if_splits)

lemma last_address:
  assumes "unat (a :: u32) + n \<le> m" "0 < n" "m < 2 ^ 32"
  shows "unat (a + of_nat n - 1) = unat a + n - 1"
proof -
  have "a + of_nat n - 1 = of_nat (unat a + n - 1)"
    using assms(2) by (cases n) simp_all
  moreover have "unat a + n - 1 < 2 ^ 32" using assms by linarith
  ultimately show ?thesis by (simp add: unsigned_of_nat take_bit_nat_eq_self)
qed

lemma within_report_apply:
  assumes "within_report mem st" "apply_data a bs st = Inr st'" "bs \<noteq> []" "length mem < 2 ^ 32"
  shows "within_report mem st'"
proof (cases "sr_oob st'")
  case True
  then show ?thesis using assms(1) apply_data_cases [OF assms(2)] by (simp add: within_report_def)
next
  case False
  note st' = apply_data_cases [OF assms(2)]
  have len: "length (sr_mem st) = length mem" using assms(1) by (simp add: within_report_def)
  have oob: "\<not> sr_oob st" and fits: "unat a + length bs \<le> length mem"
    using store_bytes_no_oob [of a bs st] False st' assms(3,4) len by simp_all
  have pos: "0 < length bs" using assms(3) by simp
  have last: "unat (a + of_nat (length bs) - 1) = unat a + length bs - 1"
    by (rule last_address [OF fits pos assms(4)])
  have hi: "unat a \<le> unat a + length bs - 1" "unat a + length bs - 1 < length mem"
    using pos fits by linarith+
  have mem: "sr_mem st' = overlay (unat a) bs (sr_mem st)"
    using st' store_bytes_in_range [of a bs st] fits len assms(4) by simp
  have changed: "sr_mem st' ! i = sr_mem st ! i" if "i < unat a \<or> unat a + length bs \<le> i" for i
    using that fits len unfolding mem by (intro overlay_other) simp_all
  have "sr_any_data st' \<and> unat (sr_min_addr st') \<le> i \<and> i \<le> unat (sr_max_addr st')"
    if i: "i < length mem" "sr_mem st' ! i \<noteq> mem ! i" for i
  proof (cases "i < unat a \<or> unat a + length bs \<le> i")
    case True
    then have "sr_mem st ! i \<noteq> mem ! i" using changed i(2) by simp
    then have "sr_any_data st" "unat (sr_min_addr st) \<le> i" "i \<le> unat (sr_max_addr st)"
      using assms(1) i(1) oob by (auto simp: within_report_def)
    then show ?thesis using st' by (auto simp: min_def max_def word_le_nat_alt)
  next
    case False
    then have "unat a \<le> i" "i \<le> unat a + length bs - 1" by linarith+
    then show ?thesis using st' last by (auto simp: min_def max_def word_le_nat_alt split: if_splits)
  qed
  moreover have "sr_min_addr st' \<le> sr_max_addr st' \<and> unat (sr_max_addr st') < length mem"
    using st' last assms(1) oob hi
    by (auto simp: within_report_def min_def max_def word_le_nat_alt split: if_splits)
  ultimately show ?thesis using st' len by (simp add: within_report_def)
qed

text \<open>A line is rejected, ignored, or applied.\<close>

lemma load_line_cases:
  assumes "load_line line st = Inr st'"
  shows "st' = st \<or> (\<exists>a bs. bs \<noteq> [] \<and> apply_data a bs st = Inr st')"
  using assms unfolding load_line_def Let_def
  by (auto split: if_splits option.splits prod.splits)

lemma load_lines_induct:
  assumes "P st" "\<And>l st st'. P st \<Longrightarrow> load_line l st = Inr st' \<Longrightarrow> P st'"
  shows "P (res_state (load_lines ls n st))"
  using assms(1)
proof (induction ls arbitrary: n st)
  case (Cons l ls)
  show ?case
    using Cons.IH assms(2) Cons.prems by (cases "load_line l st") auto
qed simp

text \<open>What a line does: it is rejected, or ignored, or applied, and which of these only the line decides.\<close>

definition line_effect :: "(srec_state \<Rightarrow> srec_error + srec_state) \<Rightarrow> bool" where
  "line_effect f \<longleftrightarrow> (\<exists>e. f = (\<lambda>_. Inl e)) \<or> f = Inr \<or> (\<exists>a bs. bs \<noteq> [] \<and> f = apply_data a bs)"

lemma line_effect_basic: "line_effect (\<lambda>_. Inl e)" "line_effect Inr" "bs \<noteq> [] \<Longrightarrow> line_effect (apply_data a bs)"
  by (auto simp: line_effect_def)

lemma line_effect_cases:
  "line_effect f \<Longrightarrow> line_effect g \<Longrightarrow> line_effect (\<lambda>st. if b then f st else g st)"
  "(b \<Longrightarrow> bs \<noteq> []) \<Longrightarrow> line_effect (\<lambda>st. if b then apply_data a bs st else Inr st)"
  "line_effect f \<Longrightarrow> (\<And>x. line_effect (h x)) \<Longrightarrow> line_effect (\<lambda>st. case opt of None \<Rightarrow> f st | Some x \<Rightarrow> h x st)"
  "(\<And>x y. line_effect (k x y)) \<Longrightarrow> line_effect (\<lambda>st. case pr of (x, y) \<Rightarrow> k x y st)"
  using line_effect_basic(2) by (cases b; cases opt; cases pr; simp add: line_effect_basic)+

lemma load_line_effect: "line_effect (load_line l)"
proof -
  have "line_effect (\<lambda>st. load_line l st)"
    unfolding load_line_def Let_def by (intro line_effect_cases line_effect_basic(1,2)) auto
  then show ?thesis by simp
qed

text \<open>A store outside the memory comes only from a record whose data reach the end of the 32-bit address space.\<close>

lemma apply_data_oob:
  assumes "apply_data a bs st = Inr st'" "sr_oob st'" "\<not> sr_oob st" "length (sr_mem st) < 2 ^ 32"
  shows "2 ^ 32 \<le> unat a + length bs"
proof (rule ccontr)
  assume "\<not> 2 ^ 32 \<le> unat a + length bs"
  then have "unat (a + of_nat (length bs)) = unat a + length bs"
    by (simp add: unat_word_ariths unsigned_of_nat take_bit_nat_eq_self)
  then have "unat a + length bs \<le> length (sr_mem st)"
    using assms(1) by (simp add: apply_data_def Let_def split: if_splits)
  then show False
    using apply_data_in_range [of a bs st] assms by simp
qed

lemma load_lines_oob:
  assumes "sr_oob (res_state (load_lines ls n st))" "\<not> sr_oob st" "length (sr_mem st) < 2 ^ 32"
  shows "\<exists>l\<in>set ls. \<exists>a bs. load_line l = apply_data a bs \<and> 2 ^ 32 \<le> unat a + length bs"
  using assms
proof (induction ls arbitrary: n st)
  case (Cons l ls)
  then obtain st' where st': "load_line l st = Inr st'" by (cases "load_line l st") auto
  show ?case
  proof (cases "sr_oob st'")
    case True
    then obtain a bs where "load_line l = apply_data a bs"
      using load_line_effect [of l] Cons.prems(2) st' unfolding line_effect_def by auto
    then show ?thesis using apply_data_oob [of a bs st st'] st' True Cons.prems(2,3) by auto
  next
    case False
    have "length (sr_mem st') = length (sr_mem st)"
      using load_line_cases [OF st'] apply_data_cases [of _ _ st st'] by auto
    then show ?thesis using Cons.IH [of "n + 1" st'] Cons.prems st' False by auto
  qed
qed simp

text \<open>C12. Whatever the file holds, good or bad: if it has no record whose data reach the end of the 32-bit address
  space, the load changes no byte outside the range it reports, that range lies inside the memory, nothing is stored
  outside the memory, and the memory keeps its size.\<close>
theorem srec_changes_reported:
  assumes "length mem < 2 ^ 32"
    and "\<not> (\<exists>l\<in>set (getlines (case contents of None \<Rightarrow> [] | Some s \<Rightarrow> s)). \<exists>a bs. load_line l = apply_data a bs \<and> 2 ^ 32 \<le> unat a + length bs)"
  shows "let st = res_state (load_srec_file contents mem) in
    \<not> sr_oob st \<and> length (sr_mem st) = length mem \<and>
    (\<forall>i. i < length mem \<and> sr_mem st ! i \<noteq> mem ! i \<longrightarrow>
       sr_any_data st \<and> unat (sr_min_addr st) \<le> i \<and> i \<le> unat (sr_max_addr st)) \<and>
    (sr_any_data st \<longrightarrow> sr_min_addr st \<le> sr_max_addr st \<and> unat (sr_max_addr st) < length mem)"
proof -
  have start: "within_report mem (new_state mem)"
    by (simp add: within_report_def new_state_def)
  moreover have "within_report mem st'" if "within_report mem st" "load_line l st = Inr st'" for l st st'
    using load_line_cases [OF that(2)] that(1) within_report_apply [OF _ _ _ assms(1)] by blast
  ultimately have "within_report mem (res_state (load_lines ls 0 (new_state mem)))" for ls
    by (rule load_lines_induct [where P = "within_report mem"])
  then have "within_report mem (res_state (load_srec_file contents mem))"
    by (simp add: load_srec_file_def start split: option.split)
  moreover have "\<not> sr_oob (res_state (load_srec_file contents mem))"
    using assms load_lines_oob [of "getlines (case contents of None \<Rightarrow> [] | Some s \<Rightarrow> s)" 0 "new_state mem"]
    by (auto simp: load_srec_file_def new_state_def split: option.split)
  ultimately show ?thesis by (auto simp: within_report_def Let_def)
qed

lemma load_lines_error:
  "\<not> res_ok (load_lines ls n st) \<Longrightarrow>
    \<exists>good l bad e. ls = good @ l # bad \<and> res_error (load_lines ls n st) = Some (n + length good + 1, e) \<and>
      res_ok (load_lines good n st) \<and> res_state (load_lines ls n st) = res_state (load_lines good n st) \<and>
      load_line l (res_state (load_lines good n st)) = Inl e"
proof (induction ls arbitrary: n st)
  case (Cons l ls)
  show ?case
  proof (cases "load_line l st")
    case (Inl e)
    then show ?thesis by (intro exI [of _ "[]"] exI [of _ l] exI [of _ ls] exI [of _ e]) simp
  next
    case (Inr st')
    then obtain good k bad e where "ls = good @ k # bad" "res_error (load_lines ls (n + 1) st') = Some (n + 1 + length good + 1, e)"
      "res_ok (load_lines good (n + 1) st')" "res_state (load_lines ls (n + 1) st') = res_state (load_lines good (n + 1) st')"
      "load_line k (res_state (load_lines good (n + 1) st')) = Inl e"
      using Cons.IH [of "n + 1" st'] Cons.prems by auto
    then show ?thesis
      using Inr by (intro exI [of _ "l # good"] exI [of _ k] exI [of _ bad] exI [of _ e]) simp
  qed
qed simp

text \<open>A failed load reports the first bad line, by number and kind, and leaves behind exactly the effect of
  the lines before it: what it applied is what the good prefix of the file alone would have applied.\<close>
theorem srec_first_error:
  assumes "\<not> res_ok (load_srec_file (Some s) mem)"
  shows "\<exists>good l bad e. getlines s = good @ l # bad \<and>
    res_error (load_srec_file (Some s) mem) = Some (length good + 1, e) \<and>
    res_ok (load_lines good 0 (new_state mem)) \<and>
    res_state (load_srec_file (Some s) mem) = res_state (load_lines good 0 (new_state mem)) \<and>
    load_line l (res_state (load_srec_file (Some s) mem)) = Inl e"
  using load_lines_error [of "getlines s" 0 "new_state mem"] assms by (simp add: load_srec_file_def) metis

theorem srec_first_error_witness:
  "\<exists>good l bad e. getlines ''S1'' = good @ l # bad \<and> res_error (load_srec_file (Some ''S1'') [1, 2]) = Some (length good + 1, e)"
proof -
  have "\<not> res_ok (load_srec_file (Some ''S1'') [1, 2])"
    by (simp add: load_srec_file_def getlines.simps newline_def load_line_def rstrip_def is_trailing_def)
  from srec_first_error [OF this] show ?thesis by blast
qed

theorem srec_changes_reported_witness:
  "let st = res_state (load_srec_file (Some (srec_record 2 1 [0xAA])) [1, 2]) in sr_mem st = [1, 0xAA] \<and> \<not> sr_oob st"
proof -
  let ?s = "srec_record 2 1 [0xAA]"
  have wf: "well_sized 2 1 [0xAA]" by (simp add: well_sized_def)
  have lines: "getlines ?s = [?s]"
    by (simp add: getlines_single srec_record_newline)
  have load: "load_line ?s st = apply_data 1 [0xAA] st" for st
    using load_line_record [OF wf, of "[]" st] by simp
  obtain st where st: "apply_data 1 [0xAA] (new_state [1, 2]) = Inr st" "sr_mem st = [1, 0xAA]" "\<not> sr_oob st"
    using apply_data_in_range [of 1 "[0xAA]" "new_state [1, 2]"] by (auto simp: new_state_def overlay_def)
  have "\<not> 2 ^ 32 \<le> unat a + length bs" if "load_line ?s = apply_data a bs" for a bs
  proof
    assume wraps: "2 ^ 32 \<le> unat a + length bs"
    have "apply_data a bs (new_state [1, 2]) = Inr st" using that load st(1) by metis
    from apply_data_cases [OF this] have "\<not> sr_oob (store_bytes a bs (new_state [1, 2]))" using st(3) by simp
    moreover have "bs \<noteq> []"
    proof
      assume "bs = []"
      then show False using wraps unat32_less [of a] by (simp del: unat32_less)
    qed
    ultimately show False using store_bytes_no_oob [of a bs "new_state [1, 2]"] wraps by (simp add: new_state_def)
  qed
  then have "\<not> sr_oob (res_state (load_srec_file (Some ?s) [1, 2]))"
    using srec_changes_reported [of "[1, 2]" "Some ?s"] by (simp add: lines Let_def)
  then show ?thesis using st load by (simp add: load_srec_file_def lines Let_def)
qed

section \<open>The address wrap\<close>

text \<open>C40. The test for the end of the memory adds the length to the address in 32 bits. A record whose data reach the
  end of the address space, so that the sum wraps, is accepted whatever the size of the memory, as long as it is not
  smaller than the wrapped sum and ends below the record's address, and stores outside it.\<close>
theorem srec_wrap_accepted:
  assumes "well_sized 4 a data" "2 ^ 32 \<le> unat a + length data" "unat a + length data - 2 ^ 32 \<le> length mem"
    "length mem \<le> unat a"
  shows "let r = load_srec_file (Some (srec_record 4 a data)) mem in res_ok r \<and> sr_oob (res_state r)"
proof -
  let ?s = "srec_record 4 a data"
  obtain b bs where data: "data = b # bs" using assms(1) by (cases data) (auto simp: well_sized_def)
  have sum: "unat (a + of_nat (length data)) \<le> length mem"
    using assms unat32_less [of a]
    by (simp add: unat_word_ariths unsigned_of_nat take_bit_nat_eq_self well_sized_def le_mod_geq del: unat32_less)
  have "sr_oob (store_byte a b (new_state mem))"
    using assms(4) by (simp add: store_byte_def new_state_def)
  then have "sr_oob (store_bytes a data (new_state mem))" by (simp add: data store_bytes_oob)
  then obtain st where st: "apply_data a data (new_state mem) = Inr st" "sr_oob st"
    using sum by (auto simp: apply_data_def Let_def new_state_def)
  have "getlines ?s = [?s]" by (simp add: getlines_single srec_record_newline)
  moreover have "load_line ?s (new_state mem) = Inr st"
    using load_line_record [OF assms(1), of "[]"] st(1) by simp
  ultimately show ?thesis using st(2) by (simp add: load_srec_file_def Let_def)
qed

theorem srec_wrap_accepted_witness:
  "sr_oob (res_state (load_srec_file (Some (srec_record 4 0xFFFFFFFF [7, 8])) (replicate 65536 0)))"
  using srec_wrap_accepted [of "0xFFFFFFFF" "[7, 8]" "replicate 65536 0"] by (simp add: well_sized_def Let_def)

end
