(* ===== verification/Fat16.thy ===== *)
theory Fat16
  imports Prelude "HOL-Library.Monad_Syntax"
begin

text \<open>
  The FAT16 disk image builder of \<^verbatim>\<open>simulator/src/pugputer/fat16_image.cpp\<close>. The image, the FAT and the
  directories are lists of bytes; a write outside one of them is undefined behaviour in the code and makes
  the whole function return \<open>None\<close> here, as does a division by zero. Sector numbers, cluster numbers and
  sizes have the widths the code gives them (\<^verbatim>\<open>uint32_t\<close>, \<^verbatim>\<open>uint16_t\<close>); a \<^verbatim>\<open>size_t\<close> is a natural number.
\<close>

unbundle bit_operations_syntax

section \<open>Bytes in a buffer\<close>

definition kSectorSize :: nat where "kSectorSize = 512"

text \<open>A write outside a vector is undefined behaviour: \<open>None\<close>.\<close>

definition put8 :: "nat \<Rightarrow> u8 \<Rightarrow> u8 list \<Rightarrow> u8 list option" where
  "put8 off v buf = (if off < length buf then Some (buf[off := v]) else None)"

primrec ofold :: "('a \<Rightarrow> 's \<Rightarrow> 's option) \<Rightarrow> 'a list \<Rightarrow> 's \<Rightarrow> 's option" where
  "ofold f [] s = Some s"
| "ofold f (x # xs) s = Option.bind (f x s) (ofold f xs)"

text \<open>The loops that store a range of bytes one after another.\<close>

definition put_bytes :: "nat \<Rightarrow> u8 list \<Rightarrow> u8 list \<Rightarrow> u8 list option" where
  "put_bytes off bs = ofold (\<lambda>i. put8 (off + i) (bs ! i)) [0..<length bs]"

definition put_le16 :: "nat \<Rightarrow> u16 \<Rightarrow> u8 list \<Rightarrow> u8 list option" where
  "put_le16 off v buf = do {
     buf \<leftarrow> put8 off (ucast (v AND 0xFF)) buf;
     put8 (off + 1) (ucast (drop_bit 8 v)) buf
   }"

definition put_le32 :: "nat \<Rightarrow> u32 \<Rightarrow> u8 list \<Rightarrow> u8 list option" where
  "put_le32 off v buf = do {
     buf \<leftarrow> put8 off (ucast (v AND 0xFF)) buf;
     buf \<leftarrow> put8 (off + 1) (ucast (drop_bit 8 v AND 0xFF)) buf;
     buf \<leftarrow> put8 (off + 2) (ucast (drop_bit 16 v AND 0xFF)) buf;
     put8 (off + 3) (ucast (drop_bit 24 v AND 0xFF)) buf
   }"

definition put_text :: "nat \<Rightarrow> string \<Rightarrow> u8 list \<Rightarrow> u8 list option" where
  "put_text off s = put_bytes off (map of_char s)"

text \<open>\<^verbatim>\<open>std::toupper\<close> in the C locale.\<close>

definition toupper :: "char \<Rightarrow> char" where
  "toupper c = (let n = of_char c :: nat in if 97 \<le> n \<and> n \<le> 122 then char_of (n - 32) else c)"

definition upper :: "string \<Rightarrow> string" where
  "upper = map toupper"

definition base_name :: "string \<Rightarrow> string" where
  "base_name name = takeWhile (\<lambda>c. c \<noteq> CHR ''.'') name"

definition extension :: "string \<Rightarrow> string" where
  "extension name = tl (dropWhile (\<lambda>c. c \<noteq> CHR ''.'') name)"

definition put_short_name :: "nat \<Rightarrow> string \<Rightarrow> u8 list \<Rightarrow> u8 list option" where
  "put_short_name off name buf = do {
     buf \<leftarrow> ofold (\<lambda>i. put8 (off + i) 0x20) [0..<11] buf;
     buf \<leftarrow> ofold (\<lambda>i. put8 (off + i) (of_char (toupper (base_name name ! i)))) [0..<min (length (base_name name)) 8] buf;
     ofold (\<lambda>i. put8 (off + 8 + i) (of_char (toupper (extension name ! i)))) [0..<min (length (extension name)) 3] buf
   }"

definition set_fat16_entry :: "u16 \<Rightarrow> u16 \<Rightarrow> u8 list \<Rightarrow> u8 list option" where
  "set_fat16_entry cluster v = put_le16 (unat cluster * 2) v"

section \<open>The volume's geometry\<close>

datatype fat16_error =
    ClusterCount u32
  | TooManyRootEntries nat u16
  | DoesNotFit
  | OpenFailed
  | WriteFailed

record fat16_file =
  ff_name :: string
  ff_data :: "u8 list"

record fat_layout =
  fg_reserved_sectors :: u16
  fg_root_dir_sectors :: u32
  fg_sectors_per_fat :: u32
  fg_fat_lba :: u32
  fg_root_lba :: u32
  fg_data_lba :: u32
  fg_total_clusters :: u32

text \<open>\<open>None\<close>: a division by zero. The payload's size is the only 64-bit quantity.\<close>

definition fat_geometry :: "nat \<Rightarrow> u32 \<Rightarrow> u8 \<Rightarrow> u16 \<Rightarrow> u8 \<Rightarrow> fat_layout option" where
  "fat_geometry payload_size total_sectors sectors_per_cluster root_entry_count num_fats =
    (let reserved_sectors = of_nat (1 + (payload_size + kSectorSize - 1) div kSectorSize) :: u16;
         root_dir_sectors = of_nat ((unat root_entry_count * 32 + kSectorSize - 1) div kSectorSize) :: u32;
         tmp1 = total_sectors - (ucast reserved_sectors + root_dir_sectors);
         tmp2 = 256 * ucast sectors_per_cluster + ucast num_fats;
         sectors_per_fat = (tmp1 + tmp2 - 1) div tmp2;
         fat_lba = ucast reserved_sectors;
         root_lba = fat_lba + ucast num_fats * sectors_per_fat;
         data_lba = root_lba + root_dir_sectors;
         data_sectors = total_sectors - data_lba
     in if tmp2 = 0 \<or> sectors_per_cluster = 0 then None
        else Some \<lparr>fg_reserved_sectors = reserved_sectors, fg_root_dir_sectors = root_dir_sectors,
          fg_sectors_per_fat = sectors_per_fat, fg_fat_lba = fat_lba, fg_root_lba = root_lba, fg_data_lba = data_lba,
          fg_total_clusters = data_sectors div ucast sectors_per_cluster\<rparr>)"

definition boot_sector :: "fat_layout \<Rightarrow> u32 \<Rightarrow> u8 \<Rightarrow> u16 \<Rightarrow> u8 \<Rightarrow> u8 list \<Rightarrow> u8 list option" where
  "boot_sector g total_sectors sectors_per_cluster root_entry_count num_fats img = do {
     img \<leftarrow> put8 0 0xEB img;
     img \<leftarrow> put8 1 0x3C img;
     img \<leftarrow> put8 2 0x90 img;
     img \<leftarrow> put_text 3 ''PUGPUTR '' img;
     img \<leftarrow> put_le16 0x0B (of_nat kSectorSize) img;
     img \<leftarrow> put8 0x0D sectors_per_cluster img;
     img \<leftarrow> put_le16 0x0E (fg_reserved_sectors g) img;
     img \<leftarrow> put8 0x10 num_fats img;
     img \<leftarrow> put_le16 0x11 root_entry_count img;
     img \<leftarrow> put_le16 0x13 (if total_sectors \<le> 0xFFFF then ucast total_sectors else 0) img;
     img \<leftarrow> put8 0x15 0xF8 img;
     img \<leftarrow> put_le16 0x16 (ucast (fg_sectors_per_fat g)) img;
     img \<leftarrow> put_le16 0x18 0 img;
     img \<leftarrow> put_le16 0x1A 0 img;
     img \<leftarrow> put_le32 0x1C 0 img;
     img \<leftarrow> put_le32 0x20 (if 0xFFFF < total_sectors then total_sectors else 0) img;
     img \<leftarrow> put8 0x24 0x80 img;
     img \<leftarrow> put8 0x25 0 img;
     img \<leftarrow> put8 0x26 0x29 img;
     img \<leftarrow> put_le32 0x27 0 img;
     img \<leftarrow> put_text 0x2B ''PUGPUTER   '' img;
     img \<leftarrow> put_text 0x36 ''FAT16   '' img;
     img \<leftarrow> put8 0x1FE 0x55 img;
     put8 0x1FF 0xAA img
   }"

section \<open>Directories\<close>

record fat_dir =
  fd_entries :: "u8 list"
  fd_cluster :: u16
  fd_subdirs :: "(string \<times> nat) list"

definition new_dir :: fat_dir where
  "new_dir = \<lparr>fd_entries = [], fd_cluster = 0, fd_subdirs = []\<rparr>"

definition add_entry :: "string \<Rightarrow> u8 \<Rightarrow> u16 \<Rightarrow> u32 \<Rightarrow> fat_dir \<Rightarrow> fat_dir option" where
  "add_entry name attr cluster sz d = do {
     let off = length (fd_entries d);
     let es = fd_entries d @ replicate 32 0;
     es \<leftarrow> put_short_name off name es;
     es \<leftarrow> (if name = ''.'' \<or> name = ''..''
           then do {
             es \<leftarrow> ofold (\<lambda>i. put8 (off + i) 0x20) [0..<11] es;
             es \<leftarrow> put8 off 0x2E es;
             if name = ''..'' then put8 (off + 1) 0x2E es else Some es
           }
           else Some es);
     es \<leftarrow> put8 (off + 11) attr es;
     es \<leftarrow> put_le16 (off + 26) cluster es;
     es \<leftarrow> put_le32 (off + 28) sz es;
     Some (d\<lparr>fd_entries := es\<rparr>)
   }"

text \<open>The last subdirectory of that name, 0 if there is none.\<close>

definition find_child :: "string \<Rightarrow> fat_dir \<Rightarrow> nat" where
  "find_child part d = fold (\<lambda>(n, i) child. if n = part then i else child) (fd_subdirs d) 0"

text \<open>The path of a file: the directory it goes in, made on first mention, and what is left of its name.\<close>

function place_file :: "nat \<Rightarrow> string \<Rightarrow> fat_dir list \<Rightarrow> (nat \<times> string) \<times> fat_dir list" where
  "place_file dir rest dirs =
    (if CHR ''/'' \<notin> set rest then ((dir, rest), dirs)
     else let part = upper (takeWhile (\<lambda>c. c \<noteq> CHR ''/'') rest);
              rest' = tl (dropWhile (\<lambda>c. c \<noteq> CHR ''/'') rest)
          in if part = [] then place_file dir rest' dirs
             else let child = find_child part (dirs ! dir)
                  in if child = 0
                     then place_file (length dirs) rest'
                       (dirs[dir := (dirs ! dir)\<lparr>fd_subdirs := fd_subdirs (dirs ! dir) @ [(part, length dirs)]\<rparr>] @ [new_dir])
                     else place_file child rest' dirs)"
  by pat_completeness auto
termination
proof -
  have "length (tl (dropWhile P xs)) < length xs" if "xs \<noteq> []" for P and xs :: string
    using that length_dropWhile_le [of P xs] by (cases xs) (auto simp del: dropWhile.simps dropWhile_eq_Nil_conv)
  then have "length (tl (dropWhile P xs)) < length xs" if "x \<in> set xs" for P x and xs :: string
    using that by (metis length_pos_if_in_set length_greater_0_conv)
  then show ?thesis
    by (relation "measure (\<lambda>(_, rest, _). length rest)") (auto simp del: length_tl)
qed

declare place_file.simps [simp del]

section \<open>Building the volume\<close>

text \<open>What the allocation and the directory passes change: the FAT, the next free cluster, the directories, the
  directories that have been linked into their parents, and the image.\<close>

record fat_builder =
  fb_fat :: "u8 list"
  fb_next :: u16
  fb_dirs :: "fat_dir list"
  fb_linked :: "bool list"
  fb_image :: "u8 list"

definition bytes_per_cluster :: "u8 \<Rightarrow> nat" where
  "bytes_per_cluster sectors_per_cluster = unat sectors_per_cluster * kSectorSize"

definition clusters_for :: "u8 \<Rightarrow> nat \<Rightarrow> nat" where
  "clusters_for sectors_per_cluster bytes =
    (bytes + bytes_per_cluster sectors_per_cluster - 1) div bytes_per_cluster sectors_per_cluster"

definition allocate :: "nat \<Rightarrow> fat_builder \<Rightarrow> (u16 \<times> fat_builder) option" where
  "allocate n st =
    (if n = 0 then Some (0, st)
     else do {
       let first = fb_next st;
       fat \<leftarrow> ofold (\<lambda>c. let cluster = first + of_nat c
                          in set_fat16_entry cluster (if c + 1 < n then cluster + 1 else 0xFFFF)) [0..<n] (fb_fat st);
       Some (first, st\<lparr>fb_fat := fat, fb_next := fb_next st + of_nat n\<rparr>)
     })"

definition update_dir :: "nat \<Rightarrow> (fat_dir \<Rightarrow> fat_dir option) \<Rightarrow> fat_builder \<Rightarrow> fat_builder option" where
  "update_dir d f st = do {
     dir \<leftarrow> f (fb_dirs st ! d);
     Some (st\<lparr>fb_dirs := (fb_dirs st)[d := dir]\<rparr>)
   }"

text \<open>First pass: the tree, and where each file goes.\<close>

definition place_files :: "fat16_file list \<Rightarrow> (nat \<times> string) list \<times> fat_dir list" where
  "place_files files =
    fold (\<lambda>f (placed, dirs). case place_file 0 (ff_name f) dirs of (p, dirs) \<Rightarrow> (placed @ [p], dirs)) files ([], [new_dir])"

definition entry_counts :: "(nat \<times> string) list \<Rightarrow> fat_dir list \<Rightarrow> nat list" where
  "entry_counts placed dirs =
    fold (\<lambda>(d, _) counts. counts[d := counts ! d + 1]) placed
      (map (\<lambda>d. length (fd_subdirs (dirs ! d)) + (if d = 0 then 0 else 2)) [0..<length dirs])"

definition parents :: "fat_dir list \<Rightarrow> nat list" where
  "parents dirs =
    fold (\<lambda>d ps. fold (\<lambda>(_, child) ps. ps[child := d]) (fd_subdirs (dirs ! d)) ps) [0..<length dirs] (replicate (length dirs) 0)"

definition clusters_needed :: "u8 \<Rightarrow> nat list \<Rightarrow> fat16_file list \<Rightarrow> nat" where
  "clusters_needed sectors_per_cluster counts files =
    sum_list (map (\<lambda>d. clusters_for sectors_per_cluster (counts ! d * 32)) [1..<length counts]) +
    sum_list (map (\<lambda>f. clusters_for sectors_per_cluster (length (ff_data f))) files)"

definition allocate_dir :: "u8 \<Rightarrow> nat list \<Rightarrow> nat \<Rightarrow> fat_builder \<Rightarrow> fat_builder option" where
  "allocate_dir sectors_per_cluster counts d st = do {
     (c, st) \<leftarrow> allocate (clusters_for sectors_per_cluster (counts ! d * 32)) st;
     Some (st\<lparr>fb_dirs := (fb_dirs st)[d := (fb_dirs st ! d)\<lparr>fd_cluster := c\<rparr>]\<rparr>)
   }"

definition dot_entries :: "nat list \<Rightarrow> nat \<Rightarrow> fat_builder \<Rightarrow> fat_builder option" where
  "dot_entries parent d st = do {
     st \<leftarrow> update_dir d (add_entry ''.'' 0x10 (fd_cluster (fb_dirs st ! d)) 0) st;
     update_dir d (add_entry ''..'' 0x10 (fd_cluster (fb_dirs st ! (parent ! d))) 0) st
   }"

text \<open>Second pass. The directories on a file's path that are not yet linked into their parents, innermost first.\<close>

partial_function (option) unlinked_chain :: "nat list \<Rightarrow> bool list \<Rightarrow> nat \<Rightarrow> nat list option" where
  "unlinked_chain parent linked x =
    (if x \<noteq> 0 \<and> \<not> linked ! x
     then Option.bind (unlinked_chain parent linked (parent ! x)) (\<lambda>xs. Some (x # xs)) else Some [])"

definition link_dir :: "nat list \<Rightarrow> nat \<Rightarrow> fat_builder \<Rightarrow> fat_builder option" where
  "link_dir parent x st = do {
     st \<leftarrow> ofold (\<lambda>(name, child) st.
            if child = x then update_dir (parent ! x) (add_entry name 0x10 (fd_cluster (fb_dirs st ! x)) 0) st else Some st)
          (fd_subdirs (fb_dirs st ! (parent ! x))) st;
     Some (st\<lparr>fb_linked := (fb_linked st)[x := True]\<rparr>)
   }"

text \<open>The data of a file, cluster by cluster.\<close>

definition write_cluster :: "fat_layout \<Rightarrow> u8 \<Rightarrow> u8 list \<Rightarrow> u16 \<Rightarrow> nat \<Rightarrow> u8 list \<Rightarrow> u8 list option" where
  "write_cluster g sectors_per_cluster bytes start c img =
    (let cluster_lba = unat (fg_data_lba g) + (unat start + c - 2) * unat sectors_per_cluster;
         src_off = c * bytes_per_cluster sectors_per_cluster;
         len = min (bytes_per_cluster sectors_per_cluster) (length bytes - src_off)
     in put_bytes (cluster_lba * kSectorSize) (take len (drop src_off bytes)) img)"

definition add_file :: "fat_layout \<Rightarrow> u8 \<Rightarrow> nat list \<Rightarrow> fat16_file \<times> nat \<times> string \<Rightarrow> fat_builder \<Rightarrow> fat_builder option" where
  "add_file g sectors_per_cluster parent fp st = (case fp of (f, d, leaf) \<Rightarrow> do {
     chain \<leftarrow> unlinked_chain parent (fb_linked st) d;
     st \<leftarrow> ofold (link_dir parent) (rev chain) st;
     let n = (if ff_data f = [] then 0 else clusters_for sectors_per_cluster (length (ff_data f)));
     (start, st) \<leftarrow> allocate n st;
     st \<leftarrow> update_dir d (add_entry leaf 0x20 start (of_nat (length (ff_data f)))) st;
     img \<leftarrow> ofold (write_cluster g sectors_per_cluster (ff_data f) start) [0..<n] (fb_image st);
     Some (st\<lparr>fb_image := img\<rparr>)
   })"

text \<open>At the end the subdirectories, the copies of the FAT and the root directory go into the image.\<close>

definition write_dir :: "fat_layout \<Rightarrow> u8 \<Rightarrow> fat_dir list \<Rightarrow> nat \<Rightarrow> u8 list \<Rightarrow> u8 list option" where
  "write_dir g sectors_per_cluster dirs d img =
    (let lba = unat (fg_data_lba g) + (unat (fd_cluster (dirs ! d)) - 2) * unat sectors_per_cluster
     in put_bytes (lba * kSectorSize) (fd_entries (dirs ! d)) img)"

definition write_fat :: "fat_layout \<Rightarrow> u8 list \<Rightarrow> nat \<Rightarrow> u8 list \<Rightarrow> u8 list option" where
  "write_fat g fat copy = put_bytes (unat (fg_fat_lba g + of_nat copy * fg_sectors_per_fat g) * kSectorSize) fat"

text \<open>Everything after the checks.\<close>

definition fill_image ::
    "fat_layout \<Rightarrow> u8 \<Rightarrow> u8 \<Rightarrow> fat16_file list \<Rightarrow> (nat \<times> string) list \<Rightarrow> fat_dir list \<Rightarrow> nat list \<Rightarrow> u8 list \<Rightarrow> u8 list \<Rightarrow>
     u8 list option" where
  "fill_image g sectors_per_cluster num_fats files placed dirs counts fat img = do {
     let st = \<lparr>fb_fat = fat, fb_next = 2, fb_dirs = dirs, fb_linked = replicate (length dirs) False, fb_image = img\<rparr>;
     st \<leftarrow> ofold (allocate_dir sectors_per_cluster counts) [1..<length dirs] st;
     let parent = parents dirs;
     st \<leftarrow> ofold (dot_entries parent) [1..<length dirs] st;
     st \<leftarrow> ofold (add_file g sectors_per_cluster parent) (zip files placed) st;
     root_dir \<leftarrow> put_bytes 0 (fd_entries (fb_dirs st ! 0)) (replicate (unat (fg_root_dir_sectors g) * kSectorSize) 0);
     img \<leftarrow> ofold (write_dir g sectors_per_cluster (fb_dirs st)) [1..<length (fb_dirs st)] (fb_image st);
     img \<leftarrow> ofold (write_fat g (fb_fat st)) [0..<unat num_fats] img;
     put_bytes (unat (fg_root_lba g) * kSectorSize) root_dir img
   }"

text \<open>\<open>opens\<close> and \<open>writes\<close> tell whether the output file can be opened and written; the image is its contents.\<close>

definition build_fat16_image ::
    "bool \<Rightarrow> bool \<Rightarrow> u8 list \<Rightarrow> fat16_file list \<Rightarrow> u32 \<Rightarrow> u8 \<Rightarrow> u16 \<Rightarrow> u8 \<Rightarrow> (fat16_error + u8 list) option" where
  "build_fat16_image opens writes dos_payload files total_sectors sectors_per_cluster root_entry_count num_fats = do {
     g \<leftarrow> fat_geometry (length dos_payload) total_sectors sectors_per_cluster root_entry_count num_fats;
     if fg_total_clusters g < 4085 \<or> 65524 < fg_total_clusters g then Some (Inl (ClusterCount (fg_total_clusters g)))
     else do {
       img \<leftarrow> boot_sector g total_sectors sectors_per_cluster root_entry_count num_fats
               (replicate (unat total_sectors * kSectorSize) 0);
       img \<leftarrow> put_bytes kSectorSize dos_payload img;
       fat \<leftarrow> set_fat16_entry 0 (0xFF00 OR ucast (img ! 0x15)) (replicate (unat (fg_sectors_per_fat g) * kSectorSize) 0);
       fat \<leftarrow> set_fat16_entry 1 0xFFFF fat;
       let (placed, dirs) = place_files files;
       let counts = entry_counts placed dirs;
       if unat root_entry_count < counts ! 0 then Some (Inl (TooManyRootEntries (counts ! 0) root_entry_count))
       else if unat (fg_total_clusters g) < clusters_needed sectors_per_cluster counts files then Some (Inl DoesNotFit)
       else do {
         img \<leftarrow> fill_image g sectors_per_cluster num_fats files placed dirs counts fat img;
         Some (if \<not> opens then Inl OpenFailed else if \<not> writes then Inl WriteFailed else Inr img)
       }
     }
   }"

end
