(* ===== verification/Fat16_Store.thy ===== *)
theory Fat16_Store
  imports Fat16
begin

text \<open>
  What the stores of \<^theory_text>\<open>Fat16\<close> leave behind: a run of stores is one list of bytes put over another
  (\<open>overwrite\<close>), and a range of bytes is read back with \<open>slice\<close>, \<open>rd16\<close> and \<open>rd32\<close>. The boot sector, a
  directory entry, a chain of clusters and the data of a file are each brought to that form.
\<close>

unbundle bit_operations_syntax

section \<open>Stores as overwrites\<close>

definition overwrite :: "nat \<Rightarrow> 'a list \<Rightarrow> 'a list \<Rightarrow> 'a list" where
  "overwrite off bs buf = take off buf @ bs @ drop (off + length bs) buf"

definition slice :: "nat \<Rightarrow> nat \<Rightarrow> 'a list \<Rightarrow> 'a list" where
  "slice off n buf = take n (drop off buf)"

lemma length_overwrite [simp]: "off + length bs \<le> length buf \<Longrightarrow> length (overwrite off bs buf) = length buf"
  by (simp add: overwrite_def)

lemma nth_overwrite:
  "off + length bs \<le> length buf \<Longrightarrow> i < length buf \<Longrightarrow>
   overwrite off bs buf ! i = (if off \<le> i \<and> i < off + length bs then bs ! (i - off) else buf ! i)"
  by (auto simp: overwrite_def nth_append)

lemma length_slice [simp]: "off + n \<le> length buf \<Longrightarrow> length (slice off n buf) = n"
  by (simp add: slice_def)

lemma nth_slice: "off + n \<le> length buf \<Longrightarrow> i < n \<Longrightarrow> slice off n buf ! i = buf ! (off + i)"
  by (simp add: slice_def)

lemma slice_eqI: "off + n \<le> length buf \<Longrightarrow> length bs = n \<Longrightarrow> (\<And>i. i < n \<Longrightarrow> buf ! (off + i) = bs ! i) \<Longrightarrow> slice off n buf = bs"
  by (rule nth_equalityI) (simp_all add: nth_slice)

lemma slice_overwrite_same:
  "off + length bs \<le> length buf \<Longrightarrow> slice off (length bs) (overwrite off bs buf) = bs"
  by (rule slice_eqI) (simp_all add: nth_overwrite)

lemma slice_overwrite_other:
  "off + length bs \<le> length buf \<Longrightarrow> a + n \<le> length buf \<Longrightarrow> a + n \<le> off \<or> off + length bs \<le> a \<Longrightarrow>
   slice a n (overwrite off bs buf) = slice a n buf"
  by (rule slice_eqI) (auto simp: nth_overwrite nth_slice)

lemma overwrite_append:
  "off + length bs + length cs \<le> length buf \<Longrightarrow> overwrite (off + length bs) cs (overwrite off bs buf) = overwrite off (bs @ cs) buf"
  by (rule nth_equalityI) (auto simp: nth_overwrite nth_append)

lemma put8_ok: "off < length buf \<Longrightarrow> put8 off v buf = Some (overwrite off [v] buf)"
  by (simp add: put8_def overwrite_def upd_conv_take_nth_drop)

lemma ofold_append: "ofold f (xs @ ys) s = Option.bind (ofold f xs s) (ofold f ys)"
  by (induction xs arbitrary: s) (auto split: bind_splits)

lemma ofold_cong: "(\<And>i s. i \<in> set is \<Longrightarrow> f i s = g i s) \<Longrightarrow> ofold f is s = ofold g is s"
  by (induction "is" arbitrary: s) (auto split: bind_splits)

lemma stores_ok:
  "off + length bs \<le> length buf \<Longrightarrow>
   ofold (\<lambda>i. put8 (off + i) (bs ! i)) [0..<length bs] buf = Some (overwrite off bs buf)"
proof (induction bs rule: rev_induct)
  case Nil
  then show ?case by (simp add: overwrite_def)
next
  case (snoc b bs)
  have "ofold (\<lambda>i. put8 (off + i) ((bs @ [b]) ! i)) [0..<length bs] s = ofold (\<lambda>i. put8 (off + i) (bs ! i)) [0..<length bs] s" for s
    by (rule ofold_cong) (simp add: nth_append)
  then show ?case using snoc by (simp add: ofold_append put8_ok overwrite_append [of off bs "[b]"])
qed

lemma put_bytes_ok: "off + length bs \<le> length buf \<Longrightarrow> put_bytes off bs buf = Some (overwrite off bs buf)"
  unfolding put_bytes_def by (rule stores_ok)

definition le16 :: "u16 \<Rightarrow> u8 list" where
  "le16 v = [ucast (v AND 0xFF), ucast (drop_bit 8 v)]"

definition le32 :: "u32 \<Rightarrow> u8 list" where
  "le32 v = [ucast (v AND 0xFF), ucast (drop_bit 8 v AND 0xFF), ucast (drop_bit 16 v AND 0xFF), ucast (drop_bit 24 v AND 0xFF)]"

lemma length_le [simp]: "length (le16 v) = 2" "length (le32 w) = 4"
  by (simp_all add: le16_def le32_def)

lemma put_le16_ok: "off + 2 \<le> length buf \<Longrightarrow> put_le16 off v buf = Some (overwrite off (le16 v) buf)"
  using overwrite_append [of off "[ucast (v AND 0xFF)]" "[ucast (drop_bit 8 v)]" buf]
  by (simp add: put_le16_def put8_ok le16_def)

lemma put_le32_ok:
  assumes "off + 4 \<le> length buf"
  shows "put_le32 off v buf = Some (overwrite off (le32 v) buf)"
proof -
  let ?b = "\<lambda>i. ucast (drop_bit (8 * i) v AND 0xFF) :: u8"
  have "overwrite (off + 1) [?b 1] (overwrite off [?b 0] buf) = overwrite off [?b 0, ?b 1] buf"
    using assms overwrite_append [of off "[?b 0]" "[?b 1]" buf] by simp
  moreover have "overwrite (off + 2) [?b 2] (overwrite off [?b 0, ?b 1] buf) = overwrite off [?b 0, ?b 1, ?b 2] buf"
    using assms overwrite_append [of off "[?b 0, ?b 1]" "[?b 2]" buf] by simp
  moreover have "overwrite (off + 3) [?b 3] (overwrite off [?b 0, ?b 1, ?b 2] buf) = overwrite off [?b 0, ?b 1, ?b 2, ?b 3] buf"
    using assms overwrite_append [of off "[?b 0, ?b 1, ?b 2]" "[?b 3]" buf] by (simp add: eval_nat_numeral)
  ultimately show ?thesis using assms by (simp add: put_le32_def put8_ok le32_def)
qed

text \<open>The reading side.\<close>

definition rd16 :: "u8 list \<Rightarrow> nat \<Rightarrow> nat" where
  "rd16 buf off = unat (buf ! off) + 256 * unat (buf ! (off + 1))"

definition rd32 :: "u8 list \<Rightarrow> nat \<Rightarrow> nat" where
  "rd32 buf off = unat (buf ! off) + 256 * unat (buf ! (off + 1)) +
     65536 * (unat (buf ! (off + 2)) + 256 * unat (buf ! (off + 3)))"

lemma ucast_and_byte: "ucast (v AND 0xFF) = (ucast v :: u8)" for v :: "'a::len word"
  by (rule bit_eqI) (auto simp: FF_eq_mask bit_simps dest: bit_imp_le_length)

lemma unat_byte: "unat (ucast v :: u8) = unat v mod 256" for v :: "'a::len word"
  by (simp add: unsigned_ucast_eq take_bit_eq_mod)

lemma unat_drop: "unat (drop_bit k v) = unat v div 2 ^ k" for v :: "'a::len word"
  by (simp only: unat_drop_bit_eq) (simp only: drop_bit_eq_div)

lemma bytes16:
  fixes n :: nat
  assumes "n < 65536"
  shows "n mod 256 + 256 * (n div 256 mod 256) = n"
proof -
  have "n div 256 < 256" using assms by (simp add: div_less_iff_less_mult)
  then show ?thesis using mult_div_mod_eq [of 256 n] by simp
qed

lemma bytes32:
  fixes n :: nat
  assumes "n < 4294967296"
  shows "n mod 256 + 256 * (n div 256 mod 256) + 65536 * (n div 65536 mod 256 + 256 * (n div 16777216)) = n"
proof -
  have "n div 65536 < 65536" using assms by (simp add: div_less_iff_less_mult)
  then have "n div 65536 mod 256 + 256 * (n div 65536 div 256) = n div 65536"
    using mult_div_mod_eq [of 256 "n div 65536"] by simp
  moreover have "n mod (256 * 256) = 256 * (n div 256 mod 256) + n mod 256" by (rule mod_mult2_eq)
  moreover have "n div 65536 div 256 = n div 16777216" by (simp add: div_mult2_eq [symmetric])
  ultimately show ?thesis using mult_div_mod_eq [of 65536 n] by simp
qed

lemma rd16_le16: "rd16 (le16 v) 0 = unat v"
  using bytes16 [OF unat16_less [of v]] by (simp add: rd16_def le16_def ucast_and_byte unat_byte unat_drop)

lemma rd32_le32: "rd32 (le32 v) 0 = unat v"
  using bytes32 [OF unat32_less [of v]]
  by (simp add: rd32_def le32_def ucast_and_byte unat_byte unat_drop div_less_iff_less_mult)

lemma rd16_slice:
  assumes "off + 2 \<le> length buf" "slice off 2 buf = bs"
  shows "rd16 buf off = rd16 bs 0"
  using nth_slice [OF assms(1), of 0] nth_slice [OF assms(1), of 1] unfolding assms(2) by (simp add: rd16_def)

lemma rd32_slice:
  assumes "off + 4 \<le> length buf" "slice off 4 buf = bs"
  shows "rd32 buf off = rd32 bs 0"
  using nth_slice [OF assms(1), of 0] nth_slice [OF assms(1), of 1] nth_slice [OF assms(1), of 2] nth_slice [OF assms(1), of 3]
  unfolding assms(2) by (simp add: rd32_def numeral_2_eq_2)

section \<open>The pieces of the image\<close>

lemma put_steps:
  "length buf = n \<Longrightarrow> off < n \<Longrightarrow> (length (overwrite off [v] buf) = n \<Longrightarrow> f (overwrite off [v] buf) = r) \<Longrightarrow>
   Option.bind (put8 off v buf) f = r"
  "length buf = n \<Longrightarrow> off + 2 \<le> n \<Longrightarrow> (length (overwrite off (le16 w) buf) = n \<Longrightarrow> f (overwrite off (le16 w) buf) = r) \<Longrightarrow>
   Option.bind (put_le16 off w buf) f = r"
  "length buf = n \<Longrightarrow> off + 4 \<le> n \<Longrightarrow> (length (overwrite off (le32 x) buf) = n \<Longrightarrow> f (overwrite off (le32 x) buf) = r) \<Longrightarrow>
   Option.bind (put_le32 off x buf) f = r"
  "length buf = n \<Longrightarrow> off + length s \<le> n \<Longrightarrow>
   (length (overwrite off (map of_char s) buf) = n \<Longrightarrow> f (overwrite off (map of_char s) buf) = r) \<Longrightarrow>
   Option.bind (put_text off s buf) f = r"
  by (simp_all add: put8_ok put_le16_ok put_le32_ok put_text_def put_bytes_ok)

lemma put8_last: "length buf = n \<Longrightarrow> off < n \<Longrightarrow> put8 off v buf = Some (overwrite off [v] buf)"
  by (simp add: put8_ok)

lemma rd16_nth: "buf ! off = le16 v ! 0 \<Longrightarrow> buf ! (off + 1) = le16 v ! 1 \<Longrightarrow> rd16 buf off = unat v"
  using rd16_le16 [of v] by (simp add: rd16_def)

text \<open>The fields of the boot sector.\<close>

definition boot_fields :: "fat_layout \<Rightarrow> u32 \<Rightarrow> u8 \<Rightarrow> u16 \<Rightarrow> u8 \<Rightarrow> (nat \<times> u8 list) list" where
  "boot_fields g sectors spc roots nfats =
    [(0, [0xEB]), (1, [0x3C]), (2, [0x90]), (3, map of_char ''PUGPUTR ''), (0x0B, le16 (of_nat kSectorSize)), (0x0D, [spc]),
     (0x0E, le16 (fg_reserved_sectors g)), (0x10, [nfats]), (0x11, le16 roots),
     (0x13, le16 (if sectors \<le> 0xFFFF then ucast sectors else 0)), (0x15, [0xF8]), (0x16, le16 (ucast (fg_sectors_per_fat g))),
     (0x18, le16 0), (0x1A, le16 0), (0x1C, le32 0), (0x20, le32 (if 0xFFFF < sectors then sectors else 0)),
     (0x24, [0x80]), (0x25, [0]), (0x26, [0x29]), (0x27, le32 0), (0x2B, map of_char ''PUGPUTER   ''),
     (0x36, map of_char ''FAT16   ''), (0x1FE, [0x55]), (0x1FF, [0xAA])]"

definition overwrites :: "(nat \<times> 'a list) list \<Rightarrow> 'a list \<Rightarrow> 'a list" where
  "overwrites fs buf = fold (\<lambda>(off, bs). overwrite off bs) fs buf"

definition inside :: "nat \<Rightarrow> (nat \<times> 'a list) list \<Rightarrow> bool" where
  "inside n fs \<longleftrightarrow> (\<forall>(off, bs)\<in>set fs. off + length bs \<le> n)"

lemma length_overwrites: "inside (length buf) fs \<Longrightarrow> length (overwrites fs buf) = length buf"
  by (induction fs arbitrary: buf) (auto simp: overwrites_def inside_def)

lemma overwrites_nth_other:
  "inside (length buf) fs \<Longrightarrow> i < length buf \<Longrightarrow> (\<forall>(off, bs)\<in>set fs. i < off \<or> off + length bs \<le> i) \<Longrightarrow> overwrites fs buf ! i = buf ! i"
proof (induction fs arbitrary: buf)
  case Nil
  then show ?case by (simp add: overwrites_def)
next
  case (Cons f fs)
  obtain off bs where f: "f = (off, bs)" by force
  have l: "off + length bs \<le> length buf" using Cons.prems by (simp add: inside_def f)
  have "overwrites fs (overwrite off bs buf) ! i = overwrite off bs buf ! i"
    using Cons.prems l by (intro Cons.IH) (auto simp: inside_def f)
  moreover have "overwrite off bs buf ! i = buf ! i" using Cons.prems(2,3) l by (auto simp: nth_overwrite f)
  ultimately show ?case by (simp add: overwrites_def f)
qed

lemma boot_sector_eq:
  assumes "512 \<le> length img"
  shows "boot_sector g sectors spc roots nfats img = Some (overwrites (boot_fields g sectors spc roots nfats) img)"
proof -
  define n where "n = length img"
  have n: "512 \<le> n" "length img = n" using assms by (simp_all add: n_def)
  show ?thesis
    unfolding boot_sector_def boot_fields_def overwrites_def fold_simps prod.case id_apply comp_def
    using n(2)
    by - ((rule put_steps, assumption, (rule less_le_trans [OF _ n(1)] | rule order_trans [OF _ n(1)]), simp (no_asm))+,
      rule put8_last, assumption, rule less_le_trans [OF _ n(1)], simp (no_asm))
qed

lemma boot_inside: "512 \<le> n \<Longrightarrow> inside n (boot_fields g sectors spc roots nfats)"
  by (simp add: inside_def boot_fields_def)

text \<open>A field stands as long as no later one overlaps it.\<close>

lemma overwrites_field:
  assumes "fs = fs1 @ (off, bs) # fs2" "inside (length buf) fs" "\<forall>(o', bs')\<in>set fs2. off + length bs \<le> o' \<or> o' + length bs' \<le> off"
  shows "slice off (length bs) (overwrites fs buf) = bs"
proof -
  let ?b = "overwrite off bs (overwrites fs1 buf)"
  have "inside (length buf) fs1" "inside (length buf) fs2" "off + length bs \<le> length buf"
    using assms(1,2) by (auto simp: inside_def)
  moreover then have len: "length (overwrites fs1 buf) = length buf" "length ?b = length buf" by (simp_all add: length_overwrites)
  moreover have "overwrites fs buf = overwrites fs2 ?b" unfolding assms(1) by (simp add: overwrites_def)
  ultimately show ?thesis
  proof (intro slice_eqI)
    fix i assume i: "i < length bs"
    have "\<forall>(o', bs')\<in>set fs2. off + i < o' \<or> o' + length bs' \<le> off + i" using assms(3) i by fastforce
    then have "overwrites fs2 ?b ! (off + i) = ?b ! (off + i)"
      using len \<open>inside (length buf) fs2\<close> i \<open>off + length bs \<le> length buf\<close> by (intro overwrites_nth_other) simp_all
    then show "overwrites fs buf ! (off + i) = bs ! i"
      using \<open>overwrites fs buf = _\<close> len i \<open>off + length bs \<le> length buf\<close> by (simp add: nth_overwrite)
  qed (use len assms(2) \<open>off + length bs \<le> length buf\<close> in \<open>simp_all add: length_overwrites\<close>)
qed

lemma boot_spaced: "sorted_wrt (\<lambda>(p, b) (q, b'). p + length b \<le> q) (boot_fields g sectors spc roots nfats)"
  by (simp add: boot_fields_def)

lemma boot_field:
  assumes "512 \<le> length img" "boot_sector g sectors spc roots nfats img = Some img'"
    and "(off, bs) \<in> set (boot_fields g sectors spc roots nfats)"
  shows "slice off (length bs) img' = bs"
proof -
  let ?fs = "boot_fields g sectors spc roots nfats"
  obtain fs1 fs2 where fs: "?fs = fs1 @ (off, bs) # fs2" using assms(3) by (meson split_list)
  have img': "img' = overwrites ?fs img" using boot_sector_eq [OF assms(1)] assms(2) by simp
  have "\<forall>(o', bs')\<in>set fs2. off + length bs \<le> o'"
    using boot_spaced [of g sectors spc roots nfats] unfolding fs by (auto simp: sorted_wrt_append)
  then show ?thesis unfolding img' by (intro overwrites_field [OF fs boot_inside [OF assms(1)]]) auto
qed

lemma boot_length: "512 \<le> length img \<Longrightarrow> boot_sector g sectors spc roots nfats img = Some img' \<Longrightarrow> length img' = length img"
  using length_overwrites [OF boot_inside] by (auto simp: boot_sector_eq)

lemma boot_ok:
  assumes "512 \<le> length img"
  shows "\<exists>img'. boot_sector g sectors spc roots nfats img = Some img' \<and> length img' = length img \<and>
    img' ! 0x0D = spc \<and> rd16 img' 0x0E = unat (fg_reserved_sectors g) \<and> img' ! 0x10 = nfats \<and> rd16 img' 0x11 = unat roots \<and>
    img' ! 0x15 = 0xF8 \<and> rd16 img' 0x16 = unat (ucast (fg_sectors_per_fat g) :: u16)"
proof -
  let ?img = "overwrites (boot_fields g sectors spc roots nfats) img"
  have img: "boot_sector g sectors spc roots nfats img = Some ?img" by (rule boot_sector_eq [OF assms])
  note field = boot_field [OF assms img]
  have byte: "buf ! off = v" if "slice off 1 buf = [v]" "off + 1 \<le> length buf" for off v and buf :: "u8 list"
    using nth_slice [OF that(2), of 0] that(1) by simp
  have "slice 0x0D 1 ?img = [spc]" "slice 0x10 1 ?img = [nfats]" "slice 0x15 1 ?img = [0xF8]"
    "slice 0x0E 2 ?img = le16 (fg_reserved_sectors g)" "slice 0x11 2 ?img = le16 roots"
    "slice 0x16 2 ?img = le16 (ucast (fg_sectors_per_fat g))"
    using field [of 13 "[spc]"] field [of 16 "[nfats]"] field [of 21 "[0xF8]"] field [of 14 "le16 (fg_reserved_sectors g)"]
      field [of 17 "le16 roots"] field [of 22 "le16 (ucast (fg_sectors_per_fat g))"]
    by (simp_all add: boot_fields_def)
  then show ?thesis using boot_length [OF assms img] assms img by (simp add: byte rd16_slice rd16_le16)
qed

text \<open>Directory entries.\<close>

definition pad :: "nat \<Rightarrow> string \<Rightarrow> u8 list" where
  "pad n s = map (\<lambda>c. of_char (toupper c)) (take n s) @ replicate (n - length s) 0x20"

definition short_name :: "string \<Rightarrow> u8 list" where
  "short_name name =
    (if name = ''.'' then 0x2E # replicate 10 0x20 else if name = ''..'' then 0x2E # 0x2E # replicate 9 0x20
     else pad 8 (base_name name) @ pad 3 (extension name))"

definition entry_bytes :: "string \<Rightarrow> u8 \<Rightarrow> u16 \<Rightarrow> u32 \<Rightarrow> u8 list" where
  "entry_bytes name attr cluster sz = short_name name @ [attr] @ replicate 14 0 @ le16 cluster @ le32 sz"

lemma length_pad [simp]: "length (pad n s) = n"
  by (simp add: pad_def)

lemma length_short_name [simp]: "length (short_name name) = 11"
  by (simp add: short_name_def)

lemma length_entry_bytes [simp]: "length (entry_bytes name attr cluster sz) = 32"
  by (simp add: entry_bytes_def)

lemma stores_eq:
  assumes "off + n \<le> length buf" "length bs = n" "\<And>i. i < n \<Longrightarrow> f i = bs ! i"
  shows "ofold (\<lambda>i. put8 (off + i) (f i)) [0..<n] buf = Some (overwrite off bs buf)"
proof -
  have "ofold (\<lambda>i. put8 (off + i) (f i)) [0..<n] buf = ofold (\<lambda>i. put8 (off + i) (bs ! i)) [0..<n] buf"
    by (rule ofold_cong) (simp add: assms(3))
  then show ?thesis using stores_ok [of off bs buf] assms(1,2) by simp
qed

lemma blanks_ok: "off + n \<le> length buf \<Longrightarrow> ofold (\<lambda>i. put8 (off + i) v) [0..<n] buf = Some (overwrite off (replicate n v) buf)"
  by (rule stores_eq) simp_all

lemma part_ok:
  "off + n \<le> length buf \<Longrightarrow> ofold (\<lambda>i. put8 (off + i) (of_char (toupper (s ! i)))) [0..<min (length s) n] buf =
    Some (overwrite off (map (\<lambda>c. of_char (toupper c)) (take n s)) buf)"
  by (rule stores_eq) (simp_all add: min.commute)

lemma overwrite_0: "overwrite 0 bs buf = bs @ drop (length bs) buf"
  by (simp add: overwrite_def)

lemma overwrite_shift: "overwrite (length E + k) bs (E @ R) = E @ overwrite k bs R"
  by (simp add: overwrite_def add.assoc)

lemma overwrite_prefix: "length cs \<le> length bs \<Longrightarrow> overwrite k cs (overwrite k bs buf) = overwrite k (cs @ drop (length cs) bs) buf"
  if "k + length bs \<le> length buf"
  using that by (intro nth_equalityI) (auto simp: nth_overwrite nth_append)

lemma put_short_name_ok:
  assumes "off + 11 \<le> length buf"
  shows "put_short_name off name buf = Some (overwrite off (pad 8 (base_name name) @ pad 3 (extension name)) buf)"
proof -
  let ?b = "map (\<lambda>c. of_char (toupper c) :: u8) (take 8 (base_name name))" and ?e = "map (\<lambda>c. of_char (toupper c) :: u8) (take 3 (extension name))"
  have "?b @ drop (length ?b) (replicate 11 0x20) = pad 8 (base_name name) @ replicate 3 0x20"
    by (intro nth_equalityI) (auto simp: pad_def nth_append)
  then have "overwrite off ?b (overwrite off (replicate 11 0x20) buf) = overwrite off (pad 8 (base_name name) @ replicate 3 0x20) buf"
    using assms overwrite_prefix [of off "replicate 11 0x20" buf ?b] by (simp del: drop_replicate)
  moreover have "overwrite (off + 8) ?e (overwrite off (pad 8 (base_name name) @ replicate 3 0x20) buf) =
      overwrite off (pad 8 (base_name name) @ pad 3 (extension name)) buf"
  proof -
    have e: "?e @ drop (length ?e) (replicate 3 0x20) = pad 3 (extension name)"
      by (intro nth_equalityI) (auto simp: pad_def nth_append)
    have "overwrite off (pad 8 (base_name name) @ q) buf = overwrite (off + 8) q (overwrite off (pad 8 (base_name name)) buf)"
      if "length q = 3" for q
      using overwrite_append [of off "pad 8 (base_name name)" q buf] assms that by simp
    then show ?thesis
      using overwrite_prefix [of "off + 8" "replicate 3 0x20" "overwrite off (pad 8 (base_name name)) buf" ?e] assms e
      by (simp del: drop_replicate)
  qed
  ultimately show ?thesis
    using assms by (simp add: put_short_name_def blanks_ok part_ok)
qed

lemma add_entry_ok:
  "add_entry name attr cluster sz d = Some (d\<lparr>fd_entries := fd_entries d @ entry_bytes name attr cluster sz\<rparr>)"
proof -
  let ?E = "fd_entries d" and ?R = "replicate 32 (0 :: u8)" and ?sn = "pad 8 (base_name name) @ pad 3 (extension name)"
  note shift = overwrite_shift [of ?E] overwrite_shift [of ?E 0, simplified]
  have named: "(if name = ''.'' \<or> name = ''..''
      then Option.bind (ofold (\<lambda>i. put8 (length ?E + i) 0x20) [0..<11] (?E @ overwrite 0 ?sn ?R))
        (\<lambda>es. Option.bind (put8 (length ?E) 0x2E es) (\<lambda>es. if name = ''..'' then put8 (length ?E + 1) 0x2E es else Some es))
      else Some (?E @ overwrite 0 ?sn ?R)) = Some (?E @ short_name name @ replicate 21 0)"
  proof (cases "name = ''.'' \<or> name = ''..''")
    case True
    then show ?thesis by (auto simp: blanks_ok put8_ok shift overwrite_def short_name_def)
  next
    case False
    then show ?thesis by (simp add: overwrite_def short_name_def)
  qed
  have "put_short_name (length ?E) name (?E @ ?R) = Some (?E @ overwrite 0 ?sn ?R)"
    by (simp add: put_short_name_ok shift)
  moreover have "overwrite 28 (le32 sz) (overwrite 26 (le16 cluster) (overwrite 11 [attr] (short_name name @ replicate 21 0))) =
      entry_bytes name attr cluster sz"
    by (simp add: overwrite_def entry_bytes_def)
  ultimately show ?thesis
    by (simp add: add_entry_def named put8_ok put_le16_ok put_le32_ok shift)
qed

text \<open>Chains of clusters.\<close>

lemma rd16_entry:
  assumes "2 * k + 2 \<le> length buf" "2 * j + 2 \<le> length buf"
  shows "rd16 (overwrite (2 * j) (le16 v) buf) (2 * k) = (if k = j then unat v else rd16 buf (2 * k))"
proof (cases "k = j")
  case True
  then show ?thesis
    using assms rd16_slice [of "2 * j" "overwrite (2 * j) (le16 v) buf" "le16 v"] slice_overwrite_same [of "2 * j" "le16 v" buf]
    by (simp add: rd16_le16)
next
  case False
  then show ?thesis using assms by (auto simp: rd16_def nth_overwrite)
qed

lemma unat_add16_small: "unat a + n < 65536 \<Longrightarrow> unat (a + of_nat n) = unat a + n" for a :: u16
  by (simp add: unat_word_ariths unat_of_nat)

lemma allocate_ok:
  assumes "0 < n" "unat (fb_next st) + n < 65536" "2 * (unat (fb_next st) + n) \<le> length (fb_fat st)"
  shows "\<exists>fat. allocate n st = Some (fb_next st, st\<lparr>fb_fat := fat, fb_next := fb_next st + of_nat n\<rparr>) \<and> length fat = length (fb_fat st) \<and>
    (\<forall>k. 2 * k + 2 \<le> length fat \<longrightarrow> rd16 fat (2 * k) =
      (if unat (fb_next st) \<le> k \<and> k < unat (fb_next st) + n
       then if k + 1 < unat (fb_next st) + n then k + 1 else 0xFFFF else rd16 (fb_fat st) (2 * k)))"
proof -
  let ?a = "unat (fb_next st)"
  let ?f = "\<lambda>c. let cluster = fb_next st + of_nat c in set_fat16_entry cluster (if c + 1 < n then cluster + 1 else 0xFFFF)"
  have "\<exists>fat. ofold ?f [0..<m] (fb_fat st) = Some fat \<and> length fat = length (fb_fat st) \<and>
    (\<forall>k. 2 * k + 2 \<le> length fat \<longrightarrow> rd16 fat (2 * k) =
      (if ?a \<le> k \<and> k < ?a + m then if k + 1 < ?a + n then k + 1 else 0xFFFF else rd16 (fb_fat st) (2 * k)))"
    if "m \<le> n" for m
    using that
  proof (induction m)
    case 0
    then show ?case by simp
  next
    case (Suc m)
    then obtain fat where fat: "ofold ?f [0..<m] (fb_fat st) = Some fat" "length fat = length (fb_fat st)"
      "\<forall>k. 2 * k + 2 \<le> length fat \<longrightarrow> rd16 fat (2 * k) =
      (if ?a \<le> k \<and> k < ?a + m then if k + 1 < ?a + n then k + 1 else 0xFFFF else rd16 (fb_fat st) (2 * k))"
      by auto
    let ?v = "if m + 1 < n then fb_next st + of_nat m + 1 else 0xFFFF"
    have c: "unat (fb_next st + of_nat m) = ?a + m" using assms Suc.prems by (intro unat_add16_small) simp
    have v: "unat ?v = (if ?a + m + 1 < ?a + n then ?a + m + 1 else 0xFFFF)"
      using unat_add16_small [of "fb_next st" "m + 1"] assms(2) by (simp add: add.assoc add.commute [of 1])
    have len: "2 * (?a + m) + 2 \<le> length fat" using fat(2) assms(3) Suc.prems by simp
    then have "?f m fat = Some (overwrite (2 * (?a + m)) (le16 ?v) fat)"
      by (simp only: Let_def set_fat16_entry_def c mult.commute [of _ 2] put_le16_ok)
    then have "ofold ?f [0..<Suc m] (fb_fat st) = Some (overwrite (2 * (?a + m)) (le16 ?v) fat)"
      using fat(1) by (simp only: upt_Suc_append le0 ofold_append) simp
    moreover have "rd16 (overwrite (2 * (?a + m)) (le16 ?v) fat) (2 * k) =
      (if ?a \<le> k \<and> k < ?a + Suc m then if k + 1 < ?a + n then k + 1 else 0xFFFF else rd16 (fb_fat st) (2 * k))"
      if "2 * k + 2 \<le> length fat" for k
      using rd16_entry [OF that len, of ?v] fat(3) that unfolding v by (auto simp: less_Suc_eq)
    ultimately show ?case using fat(2) len by (intro exI [of _ "overwrite (2 * (?a + m)) (le16 ?v) fat"]) simp
  qed
  from this [OF order_refl] obtain fat where fat: "ofold ?f [0..<n] (fb_fat st) = Some fat" "length fat = length (fb_fat st)"
    "\<forall>k. 2 * k + 2 \<le> length fat \<longrightarrow> rd16 fat (2 * k) =
      (if ?a \<le> k \<and> k < ?a + n then if k + 1 < ?a + n then k + 1 else 0xFFFF else rd16 (fb_fat st) (2 * k))"
    by blast
  have "allocate n st = Some (fb_next st, st\<lparr>fb_fat := fat, fb_next := fb_next st + of_nat n\<rparr>)"
    using assms(1) fat(1) by (simp add: allocate_def Let_def)
  then show ?thesis using fat(2,3) by blast
qed

lemma clusters_for_bounds:
  assumes "0 < spc"
  shows "bytes \<le> clusters_for spc bytes * bytes_per_cluster spc"
    "m < clusters_for spc bytes \<Longrightarrow> m * bytes_per_cluster spc < bytes"
    "clusters_for spc 0 = 0"
proof -
  have b: "0 < bytes_per_cluster spc" using assms by (simp add: bytes_per_cluster_def kSectorSize_def unat_gt_0)
  let ?b = "bytes_per_cluster spc"
  have "bytes + ?b - 1 < (bytes + ?b - 1) div ?b * ?b + ?b" using mod_less_divisor [OF b, of "bytes + ?b - 1"] div_mult_mod_eq [of "bytes + ?b - 1" ?b] by linarith
  then show "bytes \<le> clusters_for spc bytes * ?b" by (simp add: clusters_for_def)
  show "m * ?b < bytes" if "m < clusters_for spc bytes"
  proof -
    have "(m + 1) * ?b \<le> bytes + ?b - 1"
      using that b unfolding clusters_for_def by (metis Suc_eq_plus1 Suc_leI less_eq_div_iff_mult_less_eq)
    then show ?thesis using b by simp
  qed
  show "clusters_for spc 0 = 0" using b by (simp add: clusters_for_def)
qed

definition cluster_offset :: "fat_layout \<Rightarrow> u8 \<Rightarrow> nat \<Rightarrow> nat" where
  "cluster_offset g spc c = (unat (fg_data_lba g) + (c - 2) * unat spc) * kSectorSize"

lemma cluster_offset_add:
  "2 \<le> c \<Longrightarrow> cluster_offset g spc (c + k) = cluster_offset g spc c + k * bytes_per_cluster spc"
proof -
  assume "2 \<le> c"
  then have "c + k - 2 = c - 2 + k" by simp
  then show ?thesis by (simp add: cluster_offset_def bytes_per_cluster_def add_mult_distrib add_mult_distrib2 ac_simps)
qed

lemma write_clusters_ok:
  assumes "0 < spc" "2 \<le> unat start" "cluster_offset g spc (unat start) + length bytes \<le> length img"
  shows "ofold (write_cluster g spc bytes start) [0..<clusters_for spc (length bytes)] img =
    Some (overwrite (cluster_offset g spc (unat start)) bytes img)"
proof -
  let ?b = "bytes_per_cluster spc" and ?o = "cluster_offset g spc (unat start)"
  have "ofold (write_cluster g spc bytes start) [0..<m] img = Some (overwrite ?o (take (m * ?b) bytes) img)"
    if "m \<le> clusters_for spc (length bytes)" for m
    using that
  proof (induction m)
    case 0
    then show ?case by (simp add: overwrite_def)
  next
    case (Suc m)
    let ?p = "take (m * ?b) bytes" and ?q = "take ?b (drop (m * ?b) bytes)"
    have m: "m * ?b < length bytes" using clusters_for_bounds(2) [OF assms(1)] Suc.prems by simp
    have "length ?p + length ?q \<le> length bytes" by simp
    then have fits: "?o + length ?p + length ?q \<le> length img" using assms(3) by linarith
    have "write_cluster g spc bytes start m (overwrite ?o ?p img) = put_bytes (?o + m * ?b) ?q (overwrite ?o ?p img)"
      using cluster_offset_add [OF assms(2), of g spc m] by (simp add: write_cluster_def Let_def cluster_offset_def min_def)
    also have "\<dots> = Some (overwrite ?o (?p @ ?q) img)"
      using put_bytes_ok [of "?o + m * ?b" ?q "overwrite ?o ?p img"] overwrite_append [of ?o ?p ?q img] fits m by simp
    also have "?p @ ?q = take (Suc m * ?b) bytes" by (simp only: mult_Suc take_add [symmetric] add.commute)
    finally show ?case using Suc by (simp only: upt_Suc_append le0 ofold_append Suc_leD) simp
  qed
  from this [OF order_refl] show ?thesis
    using clusters_for_bounds(1) [OF assms(1), of "length bytes"] by simp
qed

end
