(* ===== verification/Fat16_Volume.thy ===== *)
theory Fat16_Volume
  imports Fat16_Store
begin

text \<open>
  A reader that follows the rules of FAT16 on the image alone, and what it finds on a volume built from files
  in the root directory: every name and every byte. The last section is about the size of the FAT.
\<close>

unbundle bit_operations_syntax

section \<open>A reader\<close>

text \<open>The volume read by the rules of FAT16, from the image alone: the geometry from the boot sector, entry \<open>k\<close> of the
  root directory, its chain of clusters, their bytes up to the file's size.\<close>

primrec follow :: "u8 list \<Rightarrow> nat \<Rightarrow> nat \<Rightarrow> nat \<Rightarrow> nat list option" where
  "follow img fat 0 c = Some []"
| "follow img fat (Suc n) c =
    (let next = rd16 img (fat + 2 * c)
     in if n = 0 then if next = 0xFFFF then Some [c] else None
        else map_option (\<lambda>cs. c # cs) (follow img fat n next))"

definition read_root_file :: "u8 list \<Rightarrow> nat \<Rightarrow> (u8 list \<times> u8 list) option" where
  "read_root_file img k =
    (let cluster_sectors = unat (img ! 0x0D); reserved = rd16 img 0x0E; fats = unat (img ! 0x10);
         roots = rd16 img 0x11; fat_sectors = rd16 img 0x16;
         root = reserved + fats * fat_sectors; data = root + (roots * 32 + 511) div 512;
         e = root * 512 + 32 * k; start = rd16 img (e + 26); sz = rd32 img (e + 28);
         cluster_bytes = cluster_sectors * 512; n = (sz + cluster_bytes - 1) div cluster_bytes
     in case follow img (reserved * 512) n start of
          None \<Rightarrow> None
        | Some cs \<Rightarrow> Some (slice e 11 img,
            take sz (concat (map (\<lambda>c. slice ((data + (c - 2) * cluster_sectors) * 512) cluster_bytes img) cs))))"

lemma follow_chain:
  "\<forall>i<n. rd16 img (fat + 2 * (c + i)) = (if i + 1 < n then c + i + 1 else 0xFFFF) \<Longrightarrow> follow img fat n c = Some [c..<c + n]"
proof (induction n arbitrary: c)
  case 0
  then show ?case by simp
next
  case (Suc n)
  show ?case
  proof (cases n)
    case 0
    then show ?thesis using Suc.prems by simp
  next
    case (Suc m)
    have "\<forall>i<n. rd16 img (fat + 2 * (Suc c + i)) = (if i + 1 < n then Suc c + i + 1 else 0xFFFF)"
    proof (intro allI impI)
      fix i assume "i < n"
      then show "rd16 img (fat + 2 * (Suc c + i)) = (if i + 1 < n then Suc c + i + 1 else 0xFFFF)"
        using Suc.prems [rule_format, of "Suc i"] by simp
    qed
    then have "follow img fat n (Suc c) = Some [Suc c..<Suc c + n]" by (rule Suc.IH)
    moreover have "rd16 img (fat + 2 * c) = Suc c" using Suc.prems Suc by auto
    ultimately show ?thesis using Suc by (simp add: upt_conv_Cons)
  qed
qed

text \<open>Consecutive slices.\<close>

lemma slices_concat:
  "a + n * b \<le> length img \<Longrightarrow> concat (map (\<lambda>i. slice (a + i * b) b img) [0..<n]) = slice a (n * b) img"
proof (induction n)
  case 0
  then show ?case by (simp add: slice_def)
next
  case (Suc n)
  have "take (n * b) (drop a img) @ take b (drop (a + n * b) img) = take (b + n * b) (drop a img)"
    by (simp only: take_add add.commute [of b] drop_drop add.commute [of _ a])
  then show ?case using Suc by (simp add: slice_def)
qed

section \<open>Files in the root directory\<close>

definition need :: "u8 \<Rightarrow> fat16_file \<Rightarrow> nat" where
  "need spc f = clusters_for spc (length (ff_data f))"

definition cluster_at :: "u8 \<Rightarrow> fat16_file list \<Rightarrow> nat \<Rightarrow> nat" where
  "cluster_at spc files k = 2 + sum_list (map (need spc) (take k files))"

definition file_entry :: "u8 \<Rightarrow> fat16_file list \<Rightarrow> nat \<Rightarrow> u8 list" where
  "file_entry spc files k = entry_bytes (ff_name (files ! k)) 0x20
     (if need spc (files ! k) = 0 then 0 else of_nat (cluster_at spc files k)) (of_nat (length (ff_data (files ! k))))"

definition flat :: "fat16_file list \<Rightarrow> bool" where
  "flat files \<longleftrightarrow> (\<forall>f\<in>set files. CHR ''/'' \<notin> set (ff_name f))"

lemma cluster_at_Suc: "k < length files \<Longrightarrow> cluster_at spc files (Suc k) = cluster_at spc files k + need spc (files ! k)"
  by (simp add: cluster_at_def take_Suc_conv_app_nth)

lemma cluster_at_le: "cluster_at spc files k \<le> 2 + sum_list (map (need spc) files)"
proof -
  have "sum_list (map (need spc) files) = sum_list (map (need spc) (take k files)) + sum_list (map (need spc) (drop k files))"
    by (metis append_take_drop_id map_append sum_list_append)
  then show ?thesis by (simp add: cluster_at_def)
qed

lemma cluster_at_mono: "j \<le> k \<Longrightarrow> cluster_at spc files j \<le> cluster_at spc files k"
  using cluster_at_le [of spc "take k files" j] by (simp add: cluster_at_def min_def)

lemma place_flat: "flat files \<Longrightarrow> place_files files = (map (\<lambda>f. (0, ff_name f)) files, [new_dir])"
proof (induction files rule: rev_induct)
  case Nil
  then show ?case by (simp add: place_files_def)
next
  case (snoc f files)
  then show ?case by (simp add: place_files_def flat_def place_file.simps)
qed

lemma counts_flat: "entry_counts (map (\<lambda>f. (0, ff_name f)) files) [new_dir] = [length files]"
proof -
  have "fold (\<lambda>(d, _) counts. counts[d := counts ! d + 1]) (map (\<lambda>f. (0, ff_name f)) files) [n] = [n + length files]" for n
    by (induction files arbitrary: n) simp_all
  then show ?thesis by (simp add: entry_counts_def new_dir_def)
qed

text \<open>What holds after \<open>k\<close> files.\<close>

definition flat_state :: "fat_layout \<Rightarrow> u8 \<Rightarrow> fat16_file list \<Rightarrow> u8 list \<Rightarrow> u8 list \<Rightarrow> nat \<Rightarrow> fat_builder \<Rightarrow> bool" where
  "flat_state g spc files fat0 img0 k st \<longleftrightarrow>
     fb_dirs st = [new_dir\<lparr>fd_entries := concat (map (file_entry spc files) [0..<k])\<rparr>] \<and>
     unat (fb_next st) = cluster_at spc files k \<and>
     length (fb_fat st) = length fat0 \<and> length (fb_image st) = length img0 \<and>
     (\<forall>j<k. \<forall>i<need spc (files ! j). rd16 (fb_fat st) (2 * (cluster_at spc files j + i)) =
        (if i + 1 < need spc (files ! j) then cluster_at spc files j + i + 1 else 0xFFFF)) \<and>
     (\<forall>i<cluster_offset g spc 2. i < length img0 \<longrightarrow> fb_image st ! i = img0 ! i) \<and>
     (\<forall>j<k. need spc (files ! j) \<noteq> 0 \<longrightarrow>
        slice (cluster_offset g spc (cluster_at spc files j)) (length (ff_data (files ! j))) (fb_image st) = ff_data (files ! j))"

lemma need_0: "0 < spc \<Longrightarrow> need spc f = 0 \<longleftrightarrow> ff_data f = []"
  using clusters_for_bounds(1) [of spc "length (ff_data f)"] by (auto simp: need_def clusters_for_bounds(3))

lemma cluster_offset_mono: "c \<le> d \<Longrightarrow> cluster_offset g spc c \<le> cluster_offset g spc d"
  unfolding cluster_offset_def by (intro mult_le_mono1 add_left_mono diff_le_mono)

lemma flat_step:
  assumes inv: "flat_state g spc files fat0 img0 k st" and k: "k < length files" and spc: "0 < spc"
    and fat: "2 + sum_list (map (need spc) files) < 65536" "2 * (2 + sum_list (map (need spc) files)) \<le> length fat0"
    and img: "cluster_offset g spc (2 + sum_list (map (need spc) files)) \<le> length img0"
  shows "\<exists>st'. add_file g spc parent (files ! k, 0, ff_name (files ! k)) st = Some st' \<and>
    flat_state g spc files fat0 img0 (Suc k) st'"
proof -
  let ?f = "files ! k" and ?c = "cluster_at spc files k" and ?n = "need spc (files ! k)"
  let ?start = "if ?n = 0 then 0 else of_nat ?c :: u16"
  have chain: "unlinked_chain parent (fb_linked st) 0 = Some []" by (subst unlinked_chain.simps) simp
  have dirs: "fb_dirs st = [new_dir\<lparr>fd_entries := concat (map (file_entry spc files) [0..<k])\<rparr>]"
    using inv by (simp add: flat_state_def)
  have entry: "update_dir 0 (add_entry (ff_name ?f) 0x20 ?start (of_nat (length (ff_data ?f)))) st1 =
      Some (st1\<lparr>fb_dirs := [new_dir\<lparr>fd_entries := concat (map (file_entry spc files) [0..<Suc k])\<rparr>]\<rparr>)"
    if "fb_dirs st1 = fb_dirs st" for st1
    using that by (simp add: update_dir_def add_entry_ok dirs file_entry_def)
  have n: "(if ff_data ?f = [] then 0 else clusters_for spc (length (ff_data ?f))) = ?n"
    using need_0 [OF spc, of ?f] by (auto simp: need_def)
  show ?thesis
  proof (cases "?n = 0")
    case True
    let ?st = "st\<lparr>fb_dirs := [new_dir\<lparr>fd_entries := concat (map (file_entry spc files) [0..<Suc k])\<rparr>]\<rparr>"
    have "add_file g spc parent (?f, 0, ff_name ?f) st = Some ?st"
      using entry [of st] True unfolding add_file_def prod.case Let_def n chain by (simp add: allocate_def)
    moreover have "flat_state g spc files fat0 img0 (Suc k) ?st"
      using inv True unfolding flat_state_def cluster_at_Suc [OF k] by (auto simp: less_Suc_eq)
    ultimately show ?thesis by blast
  next
    case False
    have last: "?c + ?n \<le> 2 + sum_list (map (need spc) files)"
      using cluster_at_le [of spc files "Suc k"] unfolding cluster_at_Suc [OF k] .
    have nxt: "unat (fb_next st) = ?c" "length (fb_fat st) = length fat0" "length (fb_image st) = length img0"
      using inv by (simp_all add: flat_state_def)
    obtain fat where fat': "allocate ?n st = Some (fb_next st, st\<lparr>fb_fat := fat, fb_next := fb_next st + of_nat ?n\<rparr>)"
      "length fat = length fat0"
      "\<forall>j. 2 * j + 2 \<le> length fat0 \<longrightarrow> rd16 fat (2 * j) =
        (if ?c \<le> j \<and> j < ?c + ?n then if j + 1 < ?c + ?n then j + 1 else 0xFFFF else rd16 (fb_fat st) (2 * j))"
      using allocate_ok [of ?n st] False last assms(4,5) nxt by auto
    have start: "fb_next st = ?start" using False by (simp add: nxt(1) [symmetric])
    have c2: "2 \<le> ?c" by (simp add: cluster_at_def)
    have room: "cluster_offset g spc ?c + ?n * bytes_per_cluster spc \<le> length img0"
      using img cluster_offset_add [OF c2, of g spc ?n] cluster_offset_mono [OF last, of g spc] by linarith
    have data: "length (ff_data ?f) \<le> ?n * bytes_per_cluster spc"
      using clusters_for_bounds(1) [OF spc] by (simp add: need_def)
    let ?img = "overwrite (cluster_offset g spc ?c) (ff_data ?f) (fb_image st)"
    have written: "ofold (write_cluster g spc (ff_data ?f) (fb_next st)) [0..<?n] (fb_image st) = Some ?img"
      using write_clusters_ok [OF spc, of "fb_next st" g "ff_data ?f" "fb_image st"] nxt c2 room data
      by (simp add: need_def)
    let ?st = "st\<lparr>fb_fat := fat, fb_next := fb_next st + of_nat ?n,
      fb_dirs := [new_dir\<lparr>fd_entries := concat (map (file_entry spc files) [0..<Suc k])\<rparr>], fb_image := ?img\<rparr>"
    have "add_file g spc parent (?f, 0, ff_name ?f) st = Some ?st"
      using entry [of "st\<lparr>fb_fat := fat, fb_next := fb_next st + of_nat ?n\<rparr>"] written start
      unfolding add_file_def prod.case Let_def n chain by (simp add: fat'(1))
    moreover have "flat_state g spc files fat0 img0 (Suc k) ?st"
    proof -
      have before: "cluster_at spc files j + need spc (files ! j) \<le> ?c" if "j < k" for j
        using cluster_at_mono [of "Suc j" k spc files] cluster_at_Suc [of j files spc] that k by simp
      have data_before: "cluster_offset g spc (cluster_at spc files j) + length (ff_data (files ! j)) \<le> cluster_offset g spc ?c"
        if "j < k" for j
      proof -
        have "length (ff_data (files ! j)) \<le> need spc (files ! j) * bytes_per_cluster spc"
          using clusters_for_bounds(1) [OF spc] by (simp add: need_def)
        moreover have "2 \<le> cluster_at spc files j" by (simp add: cluster_at_def)
        then have "cluster_offset g spc (cluster_at spc files j) + need spc (files ! j) * bytes_per_cluster spc =
            cluster_offset g spc (cluster_at spc files j + need spc (files ! j))"
          by (rule cluster_offset_add [symmetric])
        moreover have "\<dots> \<le> cluster_offset g spc ?c" by (rule cluster_offset_mono [OF before [OF that]])
        ultimately show ?thesis by linarith
      qed
      have fits: "cluster_offset g spc ?c + length (ff_data ?f) \<le> length (fb_image st)"
        using room data nxt(3) by linarith
      have "unat (fb_next st + of_nat ?n) = cluster_at spc files (Suc k)"
        using unat_add16_small [of "fb_next st" ?n] nxt(1) last fat(1) unfolding cluster_at_Suc [OF k] by simp
      moreover have "rd16 fat (2 * (cluster_at spc files j + i)) =
          (if i + 1 < need spc (files ! j) then cluster_at spc files j + i + 1 else 0xFFFF)"
        if "j < Suc k" "i < need spc (files ! j)" for i j
      proof (cases "j = k")
        case True
        then have "2 * (?c + i) + 2 \<le> length fat0" using that last fat(2) by simp
        then have "rd16 fat (2 * (?c + i)) = (if i + 1 < ?n then ?c + i + 1 else 0xFFFF)"
          using fat'(3) [rule_format, of "?c + i"] that True by (simp del: mult_Suc_right add_mult_distrib2)
        then show ?thesis using True by simp
      next
        case False
        then have j: "j < k" using that by simp
        then have "2 * (cluster_at spc files j + i) + 2 \<le> length fat0" "cluster_at spc files j + i < ?c"
          using before [OF j] that last fat(2) by simp_all
        then have "rd16 fat (2 * (cluster_at spc files j + i)) = rd16 (fb_fat st) (2 * (cluster_at spc files j + i))"
          using fat'(3) [rule_format, of "cluster_at spc files j + i"] by (simp del: mult_Suc_right add_mult_distrib2)
        then show ?thesis using inv j that(2) by (simp del: mult_Suc_right add_mult_distrib2 add: flat_state_def)
      qed
      moreover have "?img ! i = img0 ! i" if "i < cluster_offset g spc 2" "i < length img0" for i
      proof -
        have "i < cluster_offset g spc ?c" using that(1) cluster_offset_mono [OF c2, of g spc] by linarith
        then show ?thesis using inv that nxt(3) fits by (auto simp: nth_overwrite flat_state_def)
      qed
      moreover have "slice (cluster_offset g spc (cluster_at spc files j)) (length (ff_data (files ! j))) ?img = ff_data (files ! j)"
        if "j < Suc k" "need spc (files ! j) \<noteq> 0" for j
      proof (cases "j = k")
        case True
        then show ?thesis using fits by (simp add: slice_overwrite_same)
      next
        case False
        then have j: "j < k" using that by simp
        then show ?thesis
          using slice_overwrite_other [OF fits, of "cluster_offset g spc (cluster_at spc files j)" "length (ff_data (files ! j))"]
            data_before [OF j] fits that(2) inv by (simp add: flat_state_def)
      qed
      ultimately show ?thesis
        using nxt fat'(2) fits unfolding flat_state_def by (simp del: upt_Suc)
    qed
    ultimately show ?thesis by blast
  qed
qed

lemma flat_files:
  assumes spc: "0 < spc" and fat: "2 + sum_list (map (need spc) files) < 65536" "2 * (2 + sum_list (map (need spc) files)) \<le> length fat0"
    and img: "cluster_offset g spc (2 + sum_list (map (need spc) files)) \<le> length img0"
    and init: "flat_state g spc files fat0 img0 0 st0"
  shows "k \<le> length files \<Longrightarrow> \<exists>st. ofold (add_file g spc parent) (map (\<lambda>k. (files ! k, 0, ff_name (files ! k))) [0..<k]) st0 = Some st \<and>
    flat_state g spc files fat0 img0 k st"
proof (induction k)
  case 0
  then show ?case using init by simp
next
  case (Suc k)
  then obtain st where st: "ofold (add_file g spc parent) (map (\<lambda>k. (files ! k, 0, ff_name (files ! k))) [0..<k]) st0 = Some st"
    "flat_state g spc files fat0 img0 k st" by auto
  obtain st' where "add_file g spc parent (files ! k, 0, ff_name (files ! k)) st = Some st'"
    "flat_state g spc files fat0 img0 (Suc k) st'"
    using flat_step [OF st(2) _ spc fat img, of parent] Suc.prems by auto
  then show ?case using st by (simp add: ofold_append)
qed

lemma zip_flat: "zip files (map (\<lambda>f. (0, ff_name f)) files) = map (\<lambda>k. (files ! k, 0, ff_name (files ! k))) [0..<length files]"
  by (rule nth_equalityI) simp_all

section \<open>The layout of the volume\<close>

lemma geometry_layout:
  assumes "fat_geometry payload_size sectors spc roots nfats = Some g"
    and "1 + (payload_size + 511) div 512 < 65536"
    and "unat (fg_reserved_sectors g) + unat nfats * unat (fg_sectors_per_fat g) + unat (fg_root_dir_sectors g) \<le> unat sectors"
  shows "0 < spc" "unat (fg_reserved_sectors g) = 1 + (payload_size + 511) div 512"
    "unat (fg_root_dir_sectors g) = (unat roots * 32 + 511) div 512"
    "unat (fg_fat_lba g) = unat (fg_reserved_sectors g)"
    "unat (fg_root_lba g) = unat (fg_reserved_sectors g) + unat nfats * unat (fg_sectors_per_fat g)"
    "unat (fg_data_lba g) = unat (fg_root_lba g) + unat (fg_root_dir_sectors g)"
    "unat (fg_data_lba g) + unat (fg_total_clusters g) * unat spc \<le> unat sectors"
proof -
  have g: "fg_reserved_sectors g = of_nat (1 + (payload_size + 511) div 512)"
    "fg_root_dir_sectors g = of_nat ((unat roots * 32 + 511) div 512)"
    "fg_fat_lba g = ucast (fg_reserved_sectors g)"
    "fg_root_lba g = fg_fat_lba g + ucast nfats * fg_sectors_per_fat g"
    "fg_data_lba g = fg_root_lba g + fg_root_dir_sectors g"
    "fg_total_clusters g = (sectors - fg_data_lba g) div ucast spc" "spc \<noteq> 0"
    using assms(1) by (auto simp: fat_geometry_def Let_def kSectorSize_def add.commute [of 511] split: if_splits)
  show "0 < spc" using g(7) by (simp add: word_gt_0)
  show res: "unat (fg_reserved_sectors g) = 1 + (payload_size + 511) div 512"
    using assms(2) unfolding g(1) by (subst unat_of_nat) simp
  have "(unat roots * 32 + 511) div 512 < 4294967296"
    using unat16_less [of roots] by linarith
  then show root: "unat (fg_root_dir_sectors g) = (unat roots * 32 + 511) div 512"
    unfolding g(2) by (subst unat_of_nat) simp
  show lba: "unat (fg_fat_lba g) = unat (fg_reserved_sectors g)" unfolding g(3) by (simp add: unsigned_ucast_eq take_bit_nat_eq_self_iff)
  have s: "unat (fg_reserved_sectors g) + unat nfats * unat (fg_sectors_per_fat g) + unat (fg_root_dir_sectors g) < 4294967296"
    using assms(3) unat32_less [of sectors] by (rule le_less_trans)
  show rl: "unat (fg_root_lba g) = unat (fg_reserved_sectors g) + unat nfats * unat (fg_sectors_per_fat g)"
    using s lba unfolding g(4) by (simp add: unat_word_ariths unsigned_ucast_eq take_bit_eq_mod)
  show dl: "unat (fg_data_lba g) = unat (fg_root_lba g) + unat (fg_root_dir_sectors g)"
    using s rl unfolding g(5) by (simp add: unat_word_ariths)
  have "unat (sectors - fg_data_lba g) = unat sectors - unat (fg_data_lba g)"
    using assms(3) dl rl by (subst unat_sub) (simp_all add: word_le_nat_alt)
  then have "unat (fg_total_clusters g) = (unat sectors - unat (fg_data_lba g)) div unat spc"
    unfolding g(6) by (simp add: unat_div unsigned_ucast_eq take_bit_nat_eq_self_iff)
  then have "unat (fg_total_clusters g) * unat spc \<le> unat sectors - unat (fg_data_lba g)" by simp
  then show "unat (fg_data_lba g) + unat (fg_total_clusters g) * unat spc \<le> unat sectors"
    using assms(3) dl rl by linarith
qed

lemma write_fats_ok:
  assumes "length fat = unat (fg_sectors_per_fat g) * 512"
    and "unat (fg_fat_lba g) + n * unat (fg_sectors_per_fat g) < 4294967296"
    and "(unat (fg_fat_lba g) + n * unat (fg_sectors_per_fat g)) * 512 \<le> length img"
  shows "m \<le> n \<Longrightarrow> \<exists>img'. ofold (write_fat g fat) [0..<m] img = Some img' \<and> length img' = length img \<and>
    (\<forall>i<length img. i < unat (fg_fat_lba g) * 512 \<or> (unat (fg_fat_lba g) + m * unat (fg_sectors_per_fat g)) * 512 \<le> i \<longrightarrow> img' ! i = img ! i) \<and>
    (0 < m \<longrightarrow> slice (unat (fg_fat_lba g) * 512) (length fat) img' = fat)"
proof (induction m)
  case 0
  then show ?case by simp
next
  case (Suc m)
  let ?l = "unat (fg_fat_lba g)" and ?s = "unat (fg_sectors_per_fat g)"
  obtain img' where img': "ofold (write_fat g fat) [0..<m] img = Some img'" "length img' = length img"
    "\<And>i. i < length img \<Longrightarrow> i < ?l * 512 \<or> (?l + m * ?s) * 512 \<le> i \<Longrightarrow> img' ! i = img ! i"
    "0 < m \<Longrightarrow> slice (?l * 512) (length fat) img' = fat"
    using Suc by auto
  have "Suc m * ?s \<le> n * ?s" using Suc.prems by (rule mult_le_mono1)
  then have fits: "(?l + m * ?s) * 512 + length fat \<le> length img" "?l + m * ?s < 4294967296" "m * ?s < 4294967296"
    using assms by simp_all
  have "?l + m * ?s = unat (fg_fat_lba g + of_nat m * fg_sectors_per_fat g)"
    using fits(2,3) by (simp add: unat_word_ariths unat_of_nat mod_mult_left_eq)
  then have step: "write_fat g fat m img' = Some (overwrite ((?l + m * ?s) * 512) fat img')"
    using put_bytes_ok [of "(?l + m * ?s) * 512" fat img'] fits(1) img'(2) by (simp add: write_fat_def kSectorSize_def)
  have "slice (?l * 512) (length fat) (overwrite ((?l + m * ?s) * 512) fat img') = fat"
  proof (cases "m = 0")
    case True
    then show ?thesis using slice_overwrite_same [of "?l * 512" fat img'] fits(1) img'(2) by simp
  next
    case False
    then have "?s \<le> m * ?s" by simp
    then have "?l * 512 + length fat \<le> (?l + m * ?s) * 512" using assms(1) by simp
    then show ?thesis
      using slice_overwrite_other [of "(?l + m * ?s) * 512" fat img' "?l * 512" "length fat"] fits(1) img'(2,4) False by simp
  qed
  moreover have "overwrite ((?l + m * ?s) * 512) fat img' ! i = img ! i"
    if "i < length img" "i < ?l * 512 \<or> (?l + Suc m * ?s) * 512 \<le> i" for i
    using that fits(1) img'(2,3) assms(1) by (subst nth_overwrite) auto
  ultimately show ?case using img'(1,2) step fits(1) by (auto simp: ofold_append)
qed

lemma slice_slice: "a + n \<le> m \<Longrightarrow> slice a n (slice b m buf) = slice (b + a) n buf"
  by (simp add: slice_def drop_take add.commute [of b] min_def)

lemma slice_same: "a + n \<le> length buf \<Longrightarrow> length buf' = length buf \<Longrightarrow> (\<And>i. a \<le> i \<Longrightarrow> i < a + n \<Longrightarrow> buf' ! i = buf ! i) \<Longrightarrow>
  slice a n buf' = slice a n buf"
  by (rule slice_eqI) (simp_all add: nth_slice)

lemma slice_append: "a + n \<le> length xs \<Longrightarrow> slice a n (xs @ ys) = slice a n xs"
  by (simp add: slice_def)

lemma slice_blocks:
  assumes "\<And>k. length (f k) = w" "k < n"
  shows "slice (w * k) w (concat (map f [0..<n])) = f k"
proof -
  have len: "length (concat (map f [0..<m])) = w * m" for m
    by (induction m) (simp_all add: assms(1))
  have "[0..<n] = [0..<k] @ k # [Suc k..<n]" using assms(2) upt_add_eq_append [of 0 k "n - k"] by (simp add: upt_conv_Cons)
  then have "concat (map f [0..<n]) = concat (map f [0..<k]) @ f k @ concat (map f [Suc k..<n])" by simp
  then show ?thesis using len [of k] assms(1) [of k] by (simp add: slice_def)
qed

lemma file_entry_length [simp]: "length (file_entry spc files k) = 32"
  by (simp add: file_entry_def)

lemma entries_length: "length (concat (map (file_entry spc files) [0..<n])) = 32 * n"
  by (induction n) simp_all

text \<open>The image once it is filled: the data area is that of the last file, and the FAT and the root directory are in
  their places.\<close>

lemma fill_flat:
  assumes flat: "flat files" and spc: "0 < spc" and nfats: "0 < nfats"
    and lay: "unat (fg_root_lba g) = unat (fg_fat_lba g) + unat nfats * unat (fg_sectors_per_fat g)"
      "unat (fg_data_lba g) = unat (fg_root_lba g) + unat (fg_root_dir_sectors g)"
      "unat (fg_data_lba g) + unat (fg_total_clusters g) * unat spc \<le> unat (sectors :: u32)"
    and len: "length fat = unat (fg_sectors_per_fat g) * 512" "length img = unat sectors * 512"
    and room: "sum_list (map (need spc) files) \<le> unat (fg_total_clusters g)" "fg_total_clusters g \<le> 65524"
      "unat (fg_total_clusters g) + 2 \<le> 256 * unat (fg_sectors_per_fat g)" "32 * length files \<le> unat (fg_root_dir_sectors g) * 512"
  shows "\<exists>img' st. fill_image g spc nfats files (map (\<lambda>f. (0, ff_name f)) files) [new_dir] [length files] fat img = Some img' \<and>
    flat_state g spc files fat img (length files) st \<and> length img' = length img \<and>
    (\<forall>i<unat (fg_fat_lba g) * 512. img' ! i = img ! i) \<and>
    slice (unat (fg_fat_lba g) * 512) (length fat) img' = fb_fat st \<and>
    slice (unat (fg_root_lba g) * 512) (32 * length files) img' = concat (map (file_entry spc files) [0..<length files]) \<and>
    (\<forall>i<length img. unat (fg_data_lba g) * 512 \<le> i \<longrightarrow> img' ! i = fb_image st ! i)"
proof -
  let ?n = "length files" and ?sum = "sum_list (map (need spc) files)" and ?es = "concat (map (file_entry spc files) [0..<length files])"
  let ?st0 = "\<lparr>fb_fat = fat, fb_next = 2, fb_dirs = [new_dir], fb_linked = [False], fb_image = img\<rparr>"
  let ?fl = "unat (fg_fat_lba g)" and ?rl = "unat (fg_root_lba g)" and ?dl = "unat (fg_data_lba g)"
  have clusters: "unat (fg_total_clusters g) \<le> 65524" using room(2) by (simp add: word_le_nat_alt)
  have "cluster_offset g spc (2 + ?sum) = (?dl + ?sum * unat spc) * 512" by (simp add: cluster_offset_def kSectorSize_def)
  moreover have "?sum * unat spc \<le> unat (fg_total_clusters g) * unat spc" using room(1) by (rule mult_le_mono1)
  then have "?dl + ?sum * unat spc \<le> unat sectors" using lay(3) by (meson add_left_mono le_trans)
  ultimately have img: "cluster_offset g spc (2 + ?sum) \<le> length img" using len(2) by (simp only: mult_le_mono1)
  have fat: "2 + ?sum < 65536" "2 * (2 + ?sum) \<le> length fat" using clusters room(1,3) len(1) by simp_all
  have "flat_state g spc files fat img 0 ?st0" by (simp add: flat_state_def new_dir_def cluster_at_def)
  from flat_files [OF spc fat img this order_refl]
  obtain st where st: "ofold (add_file g spc (parents [new_dir])) (zip files (map (\<lambda>f. (0, ff_name f)) files)) ?st0 = Some st"
    "flat_state g spc files fat img ?n st" unfolding zip_flat by blast
  have dirs: "fb_dirs st = [new_dir\<lparr>fd_entries := ?es\<rparr>]" "length (fb_fat st) = length fat" "length (fb_image st) = length img"
    "\<And>i. i < ?dl * 512 \<Longrightarrow> i < length img \<Longrightarrow> fb_image st ! i = img ! i"
    using st(2) by (simp_all add: flat_state_def cluster_offset_def kSectorSize_def)
  let ?root = "overwrite 0 ?es (replicate (unat (fg_root_dir_sectors g) * 512) 0)"
  have root: "put_bytes 0 (fd_entries (fb_dirs st ! 0)) (replicate (unat (fg_root_dir_sectors g) * kSectorSize) 0) = Some ?root"
    using put_bytes_ok [of 0 ?es "replicate (unat (fg_root_dir_sectors g) * 512) 0"] room(4)
    by (simp add: dirs(1) kSectorSize_def entries_length)
  have root_len: "length ?root = unat (fg_root_dir_sectors g) * 512" using room(4) by (simp add: entries_length)
  have ends: "?dl \<le> unat sectors" "?rl * 512 \<le> length img" "?dl * 512 \<le> length img" using lay(2,3) len(2) by simp_all
  obtain img1 where img1: "ofold (write_fat g (fb_fat st)) [0..<unat nfats] (fb_image st) = Some img1" "length img1 = length img"
    "\<And>i. i < length img \<Longrightarrow> i < ?fl * 512 \<or> ?rl * 512 \<le> i \<Longrightarrow> img1 ! i = fb_image st ! i"
    "slice (?fl * 512) (length fat) img1 = fb_fat st"
    using write_fats_ok [of "fb_fat st" g "unat nfats" "fb_image st" "unat nfats"] dirs(2,3) len lay ends unat32_less [of "fg_root_lba g"] nfats
    by (auto simp: unat_gt_0)
  have fits: "?rl * 512 + length ?root \<le> length img1" using root_len lay(2) ends(3) img1(2) by simp
  let ?img = "overwrite (?rl * 512) ?root img1"
  have "fill_image g spc nfats files (map (\<lambda>f. (0, ff_name f)) files) [new_dir] [?n] fat img = Some ?img"
    using st(1) root img1(1) put_bytes_ok [OF fits]
    by (simp add: fill_image_def dirs(1) kSectorSize_def)
  moreover have "?img ! i = img ! i" if "i < ?fl * 512" for i
    using that fits img1(2) img1(3) [of i] dirs(4) [of i] lay ends by (subst nth_overwrite) auto
  moreover have "slice (?fl * 512) (length fat) ?img = fb_fat st"
  proof -
    have "unat (fg_sectors_per_fat g) \<le> unat nfats * unat (fg_sectors_per_fat g)"
      using nfats by (auto simp add: Suc_le_eq unat_gt_0)
    then have "?fl * 512 + length fat \<le> ?rl * 512" using lay(1) len(1) by simp
    then show ?thesis using slice_overwrite_other [OF fits, of "?fl * 512" "length fat"] fits img1(4) by simp
  qed
  moreover have "slice (?rl * 512) (32 * ?n) ?img = ?es"
  proof -
    have "slice (?rl * 512) (32 * ?n) ?img = slice 0 (32 * ?n) (slice (?rl * 512) (length ?root) ?img)"
      using room(4) root_len by (subst slice_slice) simp_all
    also have "\<dots> = slice 0 (32 * ?n) ?root" by (simp only: slice_overwrite_same [OF fits])
    also have "\<dots> = ?es" by (simp add: slice_def overwrite_def entries_length)
    finally show ?thesis .
  qed
  moreover have "?img ! i = fb_image st ! i" if "i < length img" "?dl * 512 \<le> i" for i
    using that fits root_len lay(2) img1(2) img1(3) [of i] by (subst nth_overwrite) auto
  ultimately show ?thesis using st(2) fits img1(2) by (intro exI [of _ ?img] exI [of _ st]) simp
qed

lemma rd16_in_slice: "slice a n img = fat \<Longrightarrow> a + n \<le> length img \<Longrightarrow> j + 2 \<le> n \<Longrightarrow> rd16 img (a + j) = rd16 fat j"
  using nth_slice [of a n img j] nth_slice [of a n img "j + 1"] by (auto simp: rd16_def add.assoc)

lemma entry_fields:
  assumes "slice e 32 img = entry_bytes name attr c sz" "e + 32 \<le> length img"
  shows "slice e 11 img = short_name name" "rd16 img (e + 26) = unat c" "rd32 img (e + 28) = unat sz"
proof -
  let ?b = "entry_bytes name attr c sz"
  have at: "slice (e + a) n img = slice a n ?b" if "a + n \<le> 32" for a n
    using slice_slice [of a n 32 e img] that unfolding assms(1) by simp
  show "slice e 11 img = short_name name" using at [of 0 11] by (simp add: entry_bytes_def slice_def)
  have "slice (e + 26) 2 img = le16 c" "slice (e + 28) 4 img = le32 sz"
    using at [of 26 2] at [of 28 4] by (simp_all add: entry_bytes_def slice_def)
  then show "rd16 img (e + 26) = unat c" "rd32 img (e + 28) = unat sz"
    using assms(2) by (simp_all add: rd16_slice rd32_slice rd16_le16 rd32_le32)
qed

lemma read_flat:
  assumes spc: "0 < spc" and k: "k < length files" and st: "flat_state g spc files fat0 img0 (length files) st"
    and boot: "img ! 0x0D = spc" "rd16 img 0x0E = unat (fg_fat_lba g)" "img ! 0x10 = nfats" "rd16 img 0x11 = unat roots"
      "rd16 img 0x16 = unat (fg_sectors_per_fat g)"
    and lay: "unat (fg_root_lba g) = unat (fg_fat_lba g) + unat nfats * unat (fg_sectors_per_fat g)"
      "unat (fg_data_lba g) = unat (fg_root_lba g) + (unat roots * 32 + 511) div 512"
    and parts: "slice (unat (fg_fat_lba g) * 512) (length fat0) img = fb_fat st"
      "slice (unat (fg_root_lba g) * 512) (32 * length files) img = concat (map (file_entry spc files) [0..<length files])"
      "\<forall>i<length img0. unat (fg_data_lba g) * 512 \<le> i \<longrightarrow> img ! i = fb_image st ! i"
    and sizes: "length img = length img0" "unat (fg_fat_lba g) * 512 + length fat0 \<le> length img0"
      "unat (fg_root_lba g) * 512 + 32 * length files \<le> length img0"
      "cluster_offset g spc (2 + sum_list (map (need spc) files)) \<le> length img0"
      "2 + sum_list (map (need spc) files) < 65536" "2 * (2 + sum_list (map (need spc) files)) \<le> length fat0"
      "length (ff_data (files ! k)) < 4294967296"
  shows "read_root_file img k = Some (short_name (ff_name (files ! k)), ff_data (files ! k))"
proof -
  let ?f = "files ! k" and ?c = "cluster_at spc files k" and ?n = "need spc (files ! k)" and ?len = "length (ff_data (files ! k))"
  let ?e = "unat (fg_root_lba g) * 512 + 32 * k" and ?fl = "unat (fg_fat_lba g) * 512"
  have last: "?c + ?n \<le> 2 + sum_list (map (need spc) files)"
    using cluster_at_le [of spc files "Suc k"] unfolding cluster_at_Suc [OF k] .
  have c2: "2 \<le> ?c" by (simp add: cluster_at_def)
  have "slice ?e 32 img = slice (32 * k) 32 (concat (map (file_entry spc files) [0..<length files]))"
    using slice_slice [of "32 * k" 32 "32 * length files" "unat (fg_root_lba g) * 512" img] k unfolding parts(2) by simp
  also have "\<dots> = file_entry spc files k" using k by (simp add: slice_blocks)
  finally have "slice ?e 32 img = entry_bytes (ff_name ?f) 0x20 (if ?n = 0 then 0 else of_nat ?c) (of_nat ?len)"
    by (simp add: file_entry_def)
  moreover have "?e + 32 \<le> length img" using sizes(1,3) k by simp
  ultimately have entry: "slice ?e 11 img = short_name (ff_name ?f)" "rd16 img (?e + 26) = unat (if ?n = 0 then 0 else of_nat ?c :: u16)"
    "rd32 img (?e + 28) = ?len"
    using entry_fields [of ?e img] sizes(7) by (simp_all add: unat_of_nat)
  have start: "rd16 img (?e + 26) = ?c" if "?n \<noteq> 0" using entry(2) that last sizes(5) by (simp add: unat_of_nat)
  have chain: "follow img ?fl ?n (rd16 img (?e + 26)) = Some [?c..<?c + ?n]"
  proof (cases "?n = 0")
    case False
    have "rd16 img (?fl + 2 * (?c + i)) = (if i + 1 < ?n then ?c + i + 1 else 0xFFFF)" if "i < ?n" for i
    proof -
      have "2 * (?c + i) + 2 \<le> length fat0" using that last sizes(6) by simp
      then have "rd16 img (?fl + 2 * (?c + i)) = rd16 (fb_fat st) (2 * (?c + i))"
        using sizes(1,2) by (intro rd16_in_slice [OF parts(1)]) simp_all
      then show ?thesis using st that k by (simp add: flat_state_def del: mult_Suc_right add_mult_distrib2)
    qed
    then show ?thesis unfolding start [OF False] by (intro follow_chain) simp
  qed simp
  have content: "take ?len (concat (map (\<lambda>c. slice ((unat (fg_data_lba g) + (c - 2) * unat spc) * 512) (unat spc * 512) img) [?c..<?c + ?n])) =
    ff_data ?f"
  proof (cases "?n = 0")
    case True
    then show ?thesis using need_0 [OF spc] by simp
  next
    case False
    let ?o = "cluster_offset g spc ?c" and ?b = "bytes_per_cluster spc"
    have len: "?len \<le> ?n * ?b" using clusters_for_bounds(1) [OF spc] by (simp add: need_def)
    have room: "?o + ?n * ?b \<le> length img"
      using cluster_offset_add [OF c2, of g spc ?n] cluster_offset_mono [OF last, of g spc] sizes(1,4) by linarith
    have "map (\<lambda>c. slice ((unat (fg_data_lba g) + (c - 2) * unat spc) * 512) (unat spc * 512) img) [?c..<?c + ?n] =
        map (\<lambda>i. slice (?o + i * ?b) ?b img) [0..<?n]"
      using cluster_offset_add [OF c2, of g spc]
      by - (rule nth_equalityI, simp_all add: cluster_offset_def bytes_per_cluster_def kSectorSize_def add.assoc)
    then have "concat (map (\<lambda>c. slice ((unat (fg_data_lba g) + (c - 2) * unat spc) * 512) (unat spc * 512) img) [?c..<?c + ?n]) =
        slice ?o (?n * ?b) img"
      using slices_concat [OF room] by simp
    moreover have "take ?len (slice ?o (?n * ?b) img) = slice ?o ?len img" using len by (simp add: slice_def min_def)
    moreover have "slice ?o ?len img = slice ?o ?len (fb_image st)"
    proof (rule slice_same)
      have "unat (fg_data_lba g) * 512 \<le> ?o" by (simp add: cluster_offset_def kSectorSize_def)
      then show "img ! i = fb_image st ! i" if "?o \<le> i" "i < ?o + ?len" for i
        using parts(3) that len room sizes(1) by simp
    qed (use len room sizes(1) st in \<open>simp_all add: flat_state_def\<close>)
    ultimately show ?thesis using st k False by (simp add: flat_state_def)
  qed
  have n: "(?len + unat spc * 512 - 1) div (unat spc * 512) = ?n"
    by (simp add: need_def clusters_for_def bytes_per_cluster_def kSectorSize_def)
  show ?thesis
    unfolding read_root_file_def Let_def boot lay(1) [symmetric] lay(2) [symmetric] entry(1,3) n chain
    by (simp only: option.case content)
qed

lemma ofold_snoc: "ofold f (xs @ [x]) s = Option.bind (ofold f xs s) (f x)"
  by (induction xs arbitrary: s) (auto split: bind_splits)

text \<open>A stored entry must have its place in the FAT.\<close>

lemma set_fat16_entry_length: "set_fat16_entry c v fat = Some fat' \<Longrightarrow> length fat' = length fat"
  by (auto simp: set_fat16_entry_def put_le16_def put8_def split: if_splits bind_splits)

lemma allocate_overrun:
  assumes "0 < n" "unat (fb_next st) + n \<le> 65536" "length (fb_fat st) < 2 * (unat (fb_next st) + n)"
  shows "allocate n st = None"
proof -
  let ?f = "\<lambda>c. let cluster = fb_next st + of_nat c in set_fat16_entry cluster (if c + 1 < n then cluster + 1 else 0xFFFF)"
  have len: "length fat' = length fat" if "ofold ?f cs fat = Some fat'" for cs fat fat'
    using that by (induction cs arbitrary: fat) (auto simp: Let_def dest!: set_fat16_entry_length split: bind_splits)
  have "[0..<n] = [0..<n - 1] @ [n - 1]" using assms(1) by (cases n) simp_all
  then have split: "ofold ?f [0..<n] (fb_fat st) = Option.bind (ofold ?f [0..<n - 1] (fb_fat st)) (?f (n - 1))"
    by (simp only: ofold_snoc)
  have at: "unat (fb_next st + of_nat (n - 1)) = unat (fb_next st) + (n - 1)" using assms(1,2) by (intro unat_add16_small) simp
  have "?f (n - 1) fat = None" if "length fat = length (fb_fat st)" for fat
    using assms(1,3) that at unfolding Let_def set_fat16_entry_def put_le16_def put8_def by (auto split: bind_splits)
  then have "ofold ?f [0..<n] (fb_fat st) = None" unfolding split using len by (auto split: bind_splits)
  then show ?thesis using assms(1) by (simp add: allocate_def Let_def)
qed

text \<open>A volume whose sectors are exactly those that \<open>q\<close> sectors of FAT describe, in the formula's count.\<close>

definition exact_volume :: "nat \<Rightarrow> u32 \<Rightarrow> u8 \<Rightarrow> u16 \<Rightarrow> u8 \<Rightarrow> nat \<Rightarrow> bool" where
  "exact_volume payload_size sectors spc roots nfats q \<longleftrightarrow> unat sectors =
     1 + (payload_size + 511) div 512 + (unat roots * 32 + 511) div 512 + (256 * unat spc + unat nfats) * q"

lemma exact_geometry:
  assumes "exact_volume payload_size sectors spc roots nfats q" "0 < spc" "16 \<le> q" "q \<le> 255" "1 + (payload_size + 511) div 512 < 65536"
  shows "\<exists>g. fat_geometry payload_size sectors spc roots nfats = Some g \<and> unat (fg_sectors_per_fat g) = q \<and>
    unat (fg_total_clusters g) = 256 * q \<and> unat (fg_reserved_sectors g) = 1 + (payload_size + 511) div 512 \<and>
    unat (fg_root_dir_sectors g) = (unat roots * 32 + 511) div 512"
proof -
  let ?res = "1 + (payload_size + 511) div 512" and ?root = "(unat roots * 32 + 511) div 512"
  let ?t = "256 * unat spc + unat nfats"
  have t: "0 < unat spc" "?t < 65536" "?t * q \<le> 65535 * 255"
  proof -
    show "0 < unat spc" using assms(2) by (simp add: word_gt_0 unat_gt_0)
    show small: "?t < 65536" using unat8_less [of spc] unat8_less [of nfats] by linarith
    show "?t * q \<le> 65535 * 255" using small assms(4) by (intro mult_le_mono) simp_all
  qed
  have root: "?root < 65536" using unat16_less [of roots] by linarith
  define r :: u16 where "r = of_nat ?res"
  define d :: u32 where "d = of_nat ?root"
  have r: "unat r = ?res" using assms(5) unfolding r_def by (subst unat_of_nat) simp
  have d: "unat d = ?root" using root unfolding d_def by (subst unat_of_nat) simp
  have sectors: "sectors = of_nat (?res + ?root + ?t * q)"
    using arg_cong [OF assms(1) [unfolded exact_volume_def], of "of_nat :: nat \<Rightarrow> u32"] by (simp only: of_nat_unat ucast_id)
  have r32: "ucast r = (of_nat ?res :: u32)" by (simp only: r [symmetric] of_nat_unat)
  have d32: "d = of_nat ?root" by (simp add: d_def)
  have spc32: "ucast spc = (of_nat (unat spc) :: u32)" "ucast nfats = (of_nat (unat nfats) :: u32)" by (simp_all only: of_nat_unat)
  have tmp1: "sectors - (ucast r + d) = of_nat (?t * q)" unfolding sectors r32 d32 by (simp only: of_nat_add) simp
  have tmp2: "256 * ucast spc + ucast nfats = (of_nat ?t :: u32)" unfolding spc32 by simp
  have num: "(of_nat (?t * q) :: u32) + of_nat ?t - 1 = of_nat (?t * q + (?t - 1))" using t(1) by (simp add: of_nat_diff)
  have "x + (y - 1) < 2 ^ 32" "y < 2 ^ 32" if "x \<le> 65535 * 255" "y < 65536" for x y :: nat using that by simp_all
  note small = this [OF t(3,2)]
  have wrap: "unat (of_nat n :: u32) = n" if "n < 2 ^ 32" for n using that by (simp add: unat_of_nat)
  have spf: "((of_nat (?t * q) :: u32) + of_nat ?t - 1) div of_nat ?t = of_nat q"
  proof -
    have "unat (of_nat (?t * q + (?t - 1)) :: u32) = ?t * q + (?t - 1)" "unat (of_nat ?t :: u32) = ?t"
      using wrap [OF small(1)] wrap [OF small(2)] .
    moreover have "(?t * q + (?t - 1)) div ?t = q" using t(1) by (intro div_nat_eqI) simp_all
    ultimately have "unat (of_nat (?t * q + (?t - 1)) div of_nat ?t :: u32) = q" by (simp only: unat_div)
    then show ?thesis unfolding num by (metis of_nat_unat ucast_id)
  qed
  have data: "sectors - (ucast r + ucast nfats * of_nat q + d) = of_nat (256 * unat spc * q)"
    unfolding sectors r32 d32 spc32 by (simp add: algebra_simps)
  have "256 * unat spc * q \<le> ?t * q" by (intro mult_right_mono) simp_all
  from le_less_trans [OF order_trans [OF this t(3)], of "2 ^ 32"] have "256 * unat spc * q < 2 ^ 32" by simp
  note sizes = wrap [OF this] wrap [of "unat spc"]
  have clusters: "unat ((of_nat (256 * unat spc * q) :: u32) div of_nat (unat spc)) = 256 * q"
    using t(1,2) by (simp only: unat_div sizes) simp
  have nz: "(of_nat ?t :: u32) \<noteq> 0" "spc \<noteq> 0"
  proof -
    have "unat (of_nat ?t :: u32) = ?t" using t(2) by (subst unat_of_nat) simp
    then show "(of_nat ?t :: u32) \<noteq> 0" using t(1) by (metis add_is_0 mult_is_0 neq0_conv unat_0 zero_neq_numeral)
    show "spc \<noteq> 0" using assms(2) by auto
  qed
  have q: "unat (of_nat q :: u32) = q" using assms(4) by (subst unat_of_nat) simp
  have f: "of_nat (1 + (payload_size + 512 - 1) div 512) = r" "of_nat ((unat roots * 32 + 512 - 1) div 512) = d"
    by (simp_all add: r_def d_def add.commute [of 511])
  show ?thesis
    unfolding fat_geometry_def Let_def kSectorSize_def f tmp1 tmp2 spf data
    unfolding spc32 using nz by (simp only: simp_thms if_False option.inject ex_simps fat_layout.simps q r d clusters)
qed

text \<open>Up to the FAT: the boot sector, the payload and the first two entries, for a FAT of any size but none.\<close>

lemma build_head:
  assumes g: "fat_geometry (length payload) sectors spc roots nfats = Some g" and spf: "1 \<le> unat (fg_sectors_per_fat g)"
    and room: "1 + (length payload + 511) div 512 < 65536"
      "unat (fg_reserved_sectors g) + unat nfats * unat (fg_sectors_per_fat g) + unat (fg_root_dir_sectors g) \<le> unat sectors"
  shows "\<exists>img0 img1 fat0 fat1. boot_sector g sectors spc roots nfats (replicate (unat sectors * kSectorSize) 0) = Some img0 \<and>
    put_bytes kSectorSize payload img0 = Some img1 \<and>
    set_fat16_entry 0 (0xFF00 OR ucast (img1 ! 0x15)) (replicate (unat (fg_sectors_per_fat g) * kSectorSize) 0) = Some fat0 \<and>
    set_fat16_entry 1 0xFFFF fat0 = Some fat1 \<and> length fat1 = unat (fg_sectors_per_fat g) * 512"
proof -
  note lay = geometry_layout [OF g room]
  let ?zeros = "replicate (unat sectors * 512) (0 :: u8)" and ?spf = "unat (fg_sectors_per_fat g)"
  let ?img0 = "overwrites (boot_fields g sectors spc roots nfats) ?zeros"
  have reserved: "512 + length payload \<le> unat (fg_fat_lba g) * 512" unfolding lay(4,2) by simp
  moreover have "unat (fg_fat_lba g) * 512 \<le> unat sectors * 512" using lay(4,5,6,7) by simp
  ultimately have big: "512 \<le> unat sectors * 512" "512 + length payload \<le> unat sectors * 512" by linarith+
  have boot: "boot_sector g sectors spc roots nfats ?zeros = Some ?img0" using big(1) by (intro boot_sector_eq) simp
  have len0: "length ?img0 = unat sectors * 512" using boot_length [OF _ boot] big(1) by simp
  let ?img1 = "overwrite 512 payload ?img0" and ?fat = "replicate (?spf * kSectorSize) (0 :: u8)"
  have payload: "put_bytes kSectorSize payload ?img0 = Some ?img1"
    using put_bytes_ok [of 512 payload ?img0] big(2) len0 by (simp add: kSectorSize_def)
  let ?head = "overwrite 0 (le16 (0xFF00 OR ucast (?img1 ! 0x15))) ?fat"
  have entry: "set_fat16_entry c v fat = Some (overwrite (unat c * 2) (le16 v) fat)" if "unat c * 2 + 2 \<le> length fat" for c v and fat :: "u8 list"
    using that by (simp add: set_fat16_entry_def put_le16_ok)
  have "set_fat16_entry 0 (0xFF00 OR ucast (?img1 ! 0x15)) ?fat = Some ?head"
    using entry [of 0 ?fat] spf by (simp add: kSectorSize_def)
  moreover have "set_fat16_entry 1 0xFFFF ?head = Some (overwrite 2 (le16 0xFFFF) ?head)"
    using entry [of 1 ?head] spf by (simp add: kSectorSize_def)
  moreover have "length (overwrite 2 (le16 0xFFFF) ?head) = ?spf * 512" using spf by (simp add: kSectorSize_def)
  ultimately show ?thesis using boot payload unfolding kSectorSize_def by blast
qed

text \<open>The links of a chain of clusters from 2 on, all but the last.\<close>

definition write_links :: "nat \<Rightarrow> u8 list \<Rightarrow> u8 list option" where
  "write_links n = ofold (\<lambda>c. set_fat16_entry (2 + of_nat c) (3 + of_nat c)) [0..<n]"

lemma write_links_fit: "2 * n + 4 \<le> length fat \<Longrightarrow> n \<le> 65530 \<Longrightarrow> \<exists>fat'. write_links n fat = Some fat' \<and> length fat' = length fat"
proof (induction n)
  case (Suc n)
  then obtain fat' where fat': "write_links n fat = Some fat'" "length fat' = length fat" by auto
  have "unat (2 + of_nat n :: u16) = 2 + n" using unat_add16_small [of 2 n] Suc.prems(2) by simp
  then show ?case
    using Suc.prems(1) fat' by (simp add: write_links_def ofold_snoc set_fat16_entry_def put_le16_ok)
qed (simp add: write_links_def)

lemma filled_build:
  assumes "fat_geometry (length payload) sectors spc roots nfats = Some g"
    and "4085 \<le> fg_total_clusters g" "fg_total_clusters g \<le> 65524"
    and "256 * unat (fg_sectors_per_fat g) < unat (fg_total_clusters g) + 2"
    and "flat [f]" "1 \<le> roots" "need spc f = unat (fg_total_clusters g)"
  shows "build_fat16_image opens writes payload [f] sectors spc roots nfats = None"
proof -
  let ?n = "need spc f"
  have n: "0 < ?n" "2 + ?n \<le> 65536" using assms(2,3) unfolding assms(7) by (simp_all add: word_le_nat_alt)
  have spc: "ff_data f \<noteq> []"
  proof
    assume "ff_data f = []"
    moreover have "0 < spc" using assms(1) by (auto simp: fat_geometry_def Let_def word_gt_0 split: if_splits)
    ultimately show False using need_0 [of spc f] n(1) by simp
  qed
  have "fill_image g spc nfats [f] [(0, ff_name f)] [new_dir] [1] fat img = None"
    if "length fat = unat (fg_sectors_per_fat g) * 512" for fat img
  proof -
    let ?st = "\<lparr>fb_fat = fat, fb_next = 2, fb_dirs = [new_dir], fb_linked = [False], fb_image = img\<rparr>"
    have "allocate ?n ?st = None" using n assms(4,7) that by (intro allocate_overrun) simp_all
    moreover have "unlinked_chain parent ls 0 = Some []" for parent ls by (subst unlinked_chain.simps) simp
    ultimately have "add_file g spc parent (f, 0, ff_name f) ?st = None" for parent
      using spc by (simp add: add_file_def need_def Let_def)
    then show ?thesis by (simp add: fill_image_def)
  qed
  then show ?thesis
    using assms(2,3,6,7) place_flat [OF assms(5)] counts_flat [of "[f]"]
    by (auto simp: build_fat16_image_def assms(1) clusters_needed_def need_def kSectorSize_def leD word_le_nat_alt
        dest!: set_fat16_entry_length split: bind_splits)
qed

text \<open>C33. The FAT can be too small. The size formula makes room for one entry per cluster, but clusters are numbered from 2:
  where the count comes out exact, \<open>q\<close> sectors of FAT for 256 \<open>q\<close> clusters, the last two clusters have no entry. One file that
  fills such a volume passes every check; the boot sector, the payload and the links of its chain are written up to
  the one that stands at the end of the FAT's vector, and the next store is past that end: undefined behaviour.\<close>
theorem fat_overrun:
  assumes "exact_volume (length payload) sectors spc roots nfats q" "0 < spc" "16 \<le> q" "q \<le> 255"
    and "1 + (length payload + 511) div 512 < 65536" "flat [f]" "1 \<le> roots" "need spc f = 256 * q"
  shows "\<exists>g img0 img1 fat0 fat1 fat2.
    fat_geometry (length payload) sectors spc roots nfats = Some g \<and> unat (fg_total_clusters g) = 256 * q \<and>
    boot_sector g sectors spc roots nfats (replicate (unat sectors * kSectorSize) 0) = Some img0 \<and>
    put_bytes kSectorSize payload img0 = Some img1 \<and>
    set_fat16_entry 0 (0xFF00 OR ucast (img1 ! 0x15)) (replicate (unat (fg_sectors_per_fat g) * kSectorSize) 0) = Some fat0 \<and>
    set_fat16_entry 1 0xFFFF fat0 = Some fat1 \<and> write_links (256 * q - 2) fat1 = Some fat2 \<and>
    length fat2 = 512 * q \<and> unat (2 + of_nat (256 * q - 2) :: u16) * 2 = length fat2 \<and>
    (\<forall>v. set_fat16_entry (2 + of_nat (256 * q - 2)) v fat2 = None) \<and>
    build_fat16_image opens writes payload [f] sectors spc roots nfats = None"
proof -
  obtain g where g: "fat_geometry (length payload) sectors spc roots nfats = Some g" "unat (fg_sectors_per_fat g) = q"
    "unat (fg_total_clusters g) = 256 * q" "unat (fg_reserved_sectors g) = 1 + (length payload + 511) div 512"
    "unat (fg_root_dir_sectors g) = (unat roots * 32 + 511) div 512"
    using exact_geometry [OF assms(1-5)] by blast
  have "unat nfats * q \<le> (256 * unat spc + unat nfats) * q" by (intro mult_right_mono) simp_all
  then have room: "unat (fg_reserved_sectors g) + unat nfats * unat (fg_sectors_per_fat g) + unat (fg_root_dir_sectors g) \<le> unat sectors"
    using assms(1) unfolding exact_volume_def g by linarith
  obtain img0 img1 fat0 fat1 where head: "boot_sector g sectors spc roots nfats (replicate (unat sectors * kSectorSize) 0) = Some img0"
    "put_bytes kSectorSize payload img0 = Some img1"
    "set_fat16_entry 0 (0xFF00 OR ucast (img1 ! 0x15)) (replicate (unat (fg_sectors_per_fat g) * kSectorSize) 0) = Some fat0"
    "set_fat16_entry 1 0xFFFF fat0 = Some fat1" "length fat1 = 512 * q"
    using build_head [OF g(1) _ assms(5) room] assms(3) g(2) by auto
  obtain fat2 where links: "write_links (256 * q - 2) fat1 = Some fat2" "length fat2 = 512 * q"
  proof -
    have "2 * (256 * q - 2) + 4 \<le> length fat1" "256 * q - 2 \<le> 65530" using head(5) assms(3,4) by linarith+
    from write_links_fit [OF this] show ?thesis using that head(5) by auto
  qed
  have last: "unat (2 + of_nat (256 * q - 2) :: u16) = 256 * q"
    using unat_add16_small [of 2 "256 * q - 2"] assms(3,4) by simp
  then have next_link: "set_fat16_entry (2 + of_nat (256 * q - 2)) v fat2 = None" for v
    using links(2) by (simp add: set_fat16_entry_def put_le16_def put8_def)
  have "4085 \<le> fg_total_clusters g" "fg_total_clusters g \<le> 65524" "256 * unat (fg_sectors_per_fat g) < unat (fg_total_clusters g) + 2"
    "need spc f = unat (fg_total_clusters g)"
    using g(2,3) assms(3,4,8) by (simp_all add: word_le_nat_alt)
  from filled_build [OF g(1) this(1-3) assms(6,7) this(4)]
  have "build_fat16_image opens writes payload [f] sectors spc roots nfats = None" .
  then show ?thesis using g(1,3) head links last next_link by (intro exI conjI allI) (assumption | simp)+
qed

theorem fat_overrun_witness:
  "exact_volume 0 4145 1 512 1 16 \<and>
   build_fat16_image True True [] [\<lparr>ff_name = ''FULL.BIN'', ff_data = replicate 2097152 0\<rparr>] 4145 1 512 1 = None"
proof -
  have "exact_volume 0 4145 1 512 1 16" by (simp add: exact_volume_def)
  then show ?thesis
    using fat_overrun [of "[]" 4145 1 512 1 16 "\<lparr>ff_name = ''FULL.BIN'', ff_data = replicate 2097152 0\<rparr>" True True]
    by (auto simp: flat_def need_def clusters_for_def bytes_per_cluster_def kSectorSize_def)
qed

text \<open>Up to the filling: the boot sector, the payload and the head of the FAT.\<close>

lemma build_start:
  assumes g: "fat_geometry (length payload) sectors spc roots nfats = Some g"
    and clusters: "4085 \<le> fg_total_clusters g" "fg_total_clusters g \<le> 65524" "unat (fg_total_clusters g) + 2 \<le> 256 * unat (fg_sectors_per_fat g)"
    and room: "1 + (length payload + 511) div 512 < 65536"
      "unat (fg_reserved_sectors g) + unat nfats * unat (fg_sectors_per_fat g) + unat (fg_root_dir_sectors g) \<le> unat sectors"
    and files: "place_files files = (placed, dirs)"
  shows "\<exists>img0 img1 fat. boot_sector g sectors spc roots nfats (replicate (unat sectors * 512) 0) = Some img0 \<and>
    512 \<le> unat sectors * 512 \<and> length img1 = unat sectors * 512 \<and> length img0 = length img1 \<and> (\<forall>i<512. img1 ! i = img0 ! i) \<and>
    slice 512 (length payload) img1 = payload \<and> 512 + length payload \<le> unat (fg_fat_lba g) * 512 \<and>
    (\<forall>i<length img1. unat (fg_fat_lba g) * 512 \<le> i \<longrightarrow> img1 ! i = 0) \<and> length fat = unat (fg_sectors_per_fat g) * 512 \<and>
    build_fat16_image True True payload files sectors spc roots nfats =
      (if unat roots < entry_counts placed dirs ! 0 then Some (Inl (TooManyRootEntries (entry_counts placed dirs ! 0) roots))
       else if unat (fg_total_clusters g) < clusters_needed spc (entry_counts placed dirs) files then Some (Inl DoesNotFit)
       else map_option Inr (fill_image g spc nfats files placed dirs (entry_counts placed dirs) fat img1))"
proof -
  note lay = geometry_layout [OF g room]
  let ?zeros = "replicate (unat sectors * 512) (0 :: u8)" and ?spf = "unat (fg_sectors_per_fat g)"
  let ?img0 = "overwrites (boot_fields g sectors spc roots nfats) ?zeros"
  have reserved: "512 + length payload \<le> unat (fg_fat_lba g) * 512" unfolding lay(4,2) by simp
  moreover have fits: "unat (fg_fat_lba g) * 512 \<le> unat sectors * 512" using lay(4,5,6,7) by simp
  ultimately have big: "512 \<le> unat sectors * 512" "512 + length payload \<le> unat sectors * 512" by linarith+
  have boot: "boot_sector g sectors spc roots nfats ?zeros = Some ?img0" using big(1) by (intro boot_sector_eq) simp
  have len0: "length ?img0 = unat sectors * 512" using boot_length [OF _ boot] big(1) by simp
  have zero0: "?img0 ! i = 0" if "512 \<le> i" "i < unat sectors * 512" for i
  proof -
    have "\<forall>(off, bs)\<in>set (boot_fields g sectors spc roots nfats). i < off \<or> off + length bs \<le> i"
      using that(1) boot_inside [of 512 g sectors spc roots nfats] by (fastforce simp: inside_def)
    then have "?img0 ! i = ?zeros ! i" using that big(1) by (intro overwrites_nth_other boot_inside) simp_all
    then show ?thesis using that(2) by simp
  qed
  let ?img1 = "overwrite 512 payload ?img0"
  have payload: "put_bytes kSectorSize payload ?img0 = Some ?img1" "length ?img1 = unat sectors * 512"
    using put_bytes_ok [of 512 payload ?img0] big(2) len0 by (simp_all add: kSectorSize_def)
  have zero1: "?img1 ! i = 0" if "i < unat sectors * 512" "unat (fg_fat_lba g) * 512 \<le> i" for i
    using that big len0 reserved zero0 [of i] by (simp add: nth_overwrite)
  have low: "?img1 ! i = ?img0 ! i" if "i < 512" for i using that big len0 by (simp add: nth_overwrite)
  let ?fat = "replicate (?spf * kSectorSize) (0 :: u8)"
  let ?fat1 = "overwrite 2 (le16 0xFFFF) (overwrite 0 (le16 (0xFF00 OR ucast (?img1 ! 0x15))) ?fat)"
  have spf: "1 \<le> ?spf" using clusters(3) by simp
  have fat: "set_fat16_entry 0 (0xFF00 OR ucast (?img1 ! 0x15)) ?fat = Some (overwrite 0 (le16 (0xFF00 OR ucast (?img1 ! 0x15))) ?fat)"
    "set_fat16_entry 1 0xFFFF (overwrite 0 (le16 (0xFF00 OR ucast (?img1 ! 0x15))) ?fat) = Some ?fat1" "length ?fat1 = ?spf * 512"
    using spf by (simp_all add: set_fat16_entry_def put_le16_ok kSectorSize_def)
  have "build_fat16_image True True payload files sectors spc roots nfats =
      (if unat roots < entry_counts placed dirs ! 0 then Some (Inl (TooManyRootEntries (entry_counts placed dirs ! 0) roots))
       else if unat (fg_total_clusters g) < clusters_needed spc (entry_counts placed dirs) files then Some (Inl DoesNotFit)
       else map_option Inr (fill_image g spc nfats files placed dirs (entry_counts placed dirs) ?fat1 ?img1))"
    using clusters(1,2) boot payload(1) fat(1,2)
    by (simp add: build_fat16_image_def g files kSectorSize_def leD Let_def map_conv_bind_option comp_def)
  then show ?thesis
    using boot big(1) payload(2) len0 low slice_overwrite_same [of 512 payload ?img0] big(2) reserved zero1 fat(3)
    by (intro exI [of _ ?img0] exI [of _ ?img1] exI [of _ ?fat1]) (simp del: length_overwrite)
qed

text \<open>The image is a FAT16 volume that holds the files: with a valid geometry, room for the entries and the
  clusters, and a FAT with an entry for every cluster, the build succeeds; a reader that follows the rules of FAT16
  finds every file of the root directory under its 8.3 name with exactly its bytes, and the DOS payload stands from
  sector 1 on.\<close>
theorem fat_roundtrip:
  assumes "fat_geometry (length payload) sectors spc roots nfats = Some g"
    and "4085 \<le> fg_total_clusters g" "fg_total_clusters g \<le> 65524"
    and "1 + (length payload + 511) div 512 < 65536" "fg_sectors_per_fat g < 65536" "0 < nfats"
    and "unat (fg_reserved_sectors g) + unat nfats * unat (fg_sectors_per_fat g) + unat (fg_root_dir_sectors g) \<le> unat sectors"
    and "unat (fg_total_clusters g) + 2 \<le> 256 * unat (fg_sectors_per_fat g)"
    and "flat files" "length files \<le> unat roots" "\<forall>f\<in>set files. length (ff_data f) < 4294967296"
    and "sum_list (map (need spc) files) \<le> unat (fg_total_clusters g)"
  shows "\<exists>img. build_fat16_image True True payload files sectors spc roots nfats = Some (Inr img) \<and>
    length img = unat sectors * 512 \<and> slice 512 (length payload) img = payload \<and>
    (\<forall>k<length files. read_root_file img k = Some (short_name (ff_name (files ! k)), ff_data (files ! k)))"
proof -
  note g = assms(1) and lay = geometry_layout [OF assms(1,4,7)]
  let ?n = "length files" and ?spf = "unat (fg_sectors_per_fat g)" and ?sum = "sum_list (map (need spc) files)"
  have clusters: "4085 \<le> unat (fg_total_clusters g)" "unat (fg_total_clusters g) \<le> 65524"
    using assms(2,3) by (simp_all add: word_le_nat_alt)
  have needed: "clusters_needed spc [?n] files = ?sum" by (simp add: clusters_needed_def need_def [abs_def])
  obtain img0 img1 fat where start: "boot_sector g sectors spc roots nfats (replicate (unat sectors * 512) 0) = Some img0"
    "512 \<le> unat sectors * 512" "length img1 = unat sectors * 512" "length img0 = length img1" "\<And>i. i < 512 \<Longrightarrow> img1 ! i = img0 ! i"
    "slice 512 (length payload) img1 = payload" "512 + length payload \<le> unat (fg_fat_lba g) * 512" "length fat = ?spf * 512"
    "build_fat16_image True True payload files sectors spc roots nfats =
      map_option Inr (fill_image g spc nfats files (map (\<lambda>f. (0, ff_name f)) files) [new_dir] [?n] fat img1)"
    using build_start [OF g assms(2,3,8,4,7) place_flat [OF assms(9)]] assms(10,12) unfolding counts_flat needed by (auto simp: not_less [symmetric])
  have boot: "img0 ! 0x0D = spc" "rd16 img0 0x0E = unat (fg_reserved_sectors g)" "img0 ! 0x10 = nfats" "rd16 img0 0x11 = unat roots"
    "rd16 img0 0x16 = unat (ucast (fg_sectors_per_fat g) :: u16)"
    using boot_ok [of "replicate (unat sectors * 512) 0" g sectors spc roots nfats] start(1,2) by auto
  have ends: "unat (fg_root_lba g) + unat (fg_root_dir_sectors g) = unat (fg_data_lba g)" "unat (fg_data_lba g) \<le> unat sectors"
    using lay(6,7) by simp_all
  have root_room: "32 * ?n \<le> unat (fg_root_dir_sectors g) * 512" using assms(10) unfolding lay(3) by linarith
  obtain img st where img: "fill_image g spc nfats files (map (\<lambda>f. (0, ff_name f)) files) [new_dir] [?n] fat img1 = Some img"
    "flat_state g spc files fat img1 ?n st" "length img = length img1" "\<And>i. i < unat (fg_fat_lba g) * 512 \<Longrightarrow> img ! i = img1 ! i"
    "slice (unat (fg_fat_lba g) * 512) (length fat) img = fb_fat st"
    "slice (unat (fg_root_lba g) * 512) (32 * ?n) img = concat (map (file_entry spc files) [0..<?n])"
    "\<forall>i<length img1. unat (fg_data_lba g) * 512 \<le> i \<longrightarrow> img ! i = fb_image st ! i"
    using fill_flat [OF assms(9) lay(1) assms(6) _ lay(6,7) start(8,3) assms(12,3,8) root_room] lay(4,5) by auto
  have low: "img ! i = img0 ! i" if "i < 512" for i using img(4) [of i] start(5,7) that by simp
  have "slice 512 (length payload) img = payload"
    using slice_same [of 512 "length payload" img1 img] img(3,4) start(3,6,7) ends lay(4,5) by simp
  moreover have "read_root_file img k = Some (short_name (ff_name (files ! k)), ff_data (files ! k))" if k: "k < ?n" for k
  proof (rule read_flat [OF lay(1) k img(2) _ _ _ _ _ _ _ img(5,6,7,3)])
    have spf: "?spf < 65536" using assms(5) by (simp add: word_less_nat_alt)
    show "img ! 0x0D = spc" "rd16 img 0x0E = unat (fg_fat_lba g)" "img ! 0x10 = nfats" "rd16 img 0x11 = unat roots"
      "rd16 img 0x16 = unat (fg_sectors_per_fat g)"
      using boot spf lay(4) by (simp_all add: low rd16_def unsigned_ucast_eq take_bit_nat_eq_self_iff)
    show "unat (fg_root_lba g) = unat (fg_fat_lba g) + unat nfats * ?spf" using lay(4,5) by simp
    show "unat (fg_data_lba g) = unat (fg_root_lba g) + (unat roots * 32 + 511) div 512" using lay(3,6) by simp
    show "2 + ?sum < 65536" using assms(12) clusters by simp
    show "2 * (2 + ?sum) \<le> length fat" using assms(8,12) unfolding start(8) by simp
    have "?sum * unat spc \<le> unat (fg_total_clusters g) * unat spc" using assms(12) by (rule mult_le_mono1)
    then have "unat (fg_data_lba g) + ?sum * unat spc \<le> unat sectors" using lay(7) by (meson add_left_mono le_trans)
    then show "cluster_offset g spc (2 + ?sum) \<le> length img1"
      unfolding start(3) cluster_offset_def kSectorSize_def by (intro mult_le_mono1) (simp only: add_diff_cancel_left')
    have "1 * ?spf \<le> unat nfats * ?spf" using assms(6) by (intro mult_le_mono1) (auto simp: Suc_le_eq unat_gt_0)
    then have "unat (fg_fat_lba g) + ?spf \<le> unat (fg_root_lba g)" using lay(4,5) by simp
    then show "unat (fg_fat_lba g) * 512 + length fat \<le> length img1" using ends unfolding start(3,8) by linarith
    show "unat (fg_root_lba g) * 512 + 32 * ?n \<le> length img1" using root_room ends unfolding start(3) by linarith
    show "length (ff_data (files ! k)) < 4294967296" using assms(11) k by simp
  qed
  ultimately show ?thesis using start(3,9) img(1,3) by (intro exI [of _ img]) simp
qed

theorem fat_roundtrip_witness:
  "\<exists>img. build_fat16_image True True [1, 2, 3]
      [\<lparr>ff_name = ''Hello.txt'', ff_data = [0x48, 0x69]\<rparr>, \<lparr>ff_name = ''EMPTY'', ff_data = []\<rparr>] 16384 2 512 2 = Some (Inr img) \<and>
    read_root_file img 0 = Some (map of_char ''HELLO   TXT'', [0x48, 0x69]) \<and>
    read_root_file img 1 = Some (map of_char ''EMPTY      '', [])"
proof -
  let ?files = "[\<lparr>ff_name = ''Hello.txt'', ff_data = [0x48, 0x69]\<rparr>, \<lparr>ff_name = ''EMPTY'', ff_data = []\<rparr>]"
  let ?g = "\<lparr>fg_reserved_sectors = 2, fg_root_dir_sectors = 32, fg_sectors_per_fat = 32,
      fg_fat_lba = 2, fg_root_lba = 66, fg_data_lba = 98, fg_total_clusters = 8143\<rparr>"
  have "\<exists>img. build_fat16_image True True [1, 2, 3] ?files 16384 2 512 2 = Some (Inr img) \<and>
      length img = unat (16384 :: u32) * 512 \<and> slice 512 (length [1, 2, 3 :: u8]) img = [1, 2, 3] \<and>
      (\<forall>k<length ?files. read_root_file img k = Some (short_name (ff_name (?files ! k)), ff_data (?files ! k)))"
    by (rule fat_roundtrip [where g = ?g])
      (simp_all add: fat_geometry_def kSectorSize_def flat_def need_def clusters_for_def bytes_per_cluster_def)
  then obtain img where img: "build_fat16_image True True [1, 2, 3] ?files 16384 2 512 2 = Some (Inr img)"
    "\<forall>k<length ?files. read_root_file img k = Some (short_name (ff_name (?files ! k)), ff_data (?files ! k))" by blast
  have "short_name ''Hello.txt'' = map of_char ''HELLO   TXT''" "short_name ''EMPTY'' = map of_char ''EMPTY      ''"
    by code_simp+
  then show ?thesis using img img(2) [rule_format, of 0] img(2) [rule_format, of 1] by auto
qed

end
