(* ===== verification/Fat16_Reader.thy ===== *)
theory Fat16_Reader
  imports Fat16_Volume
begin

text \<open>
  The FAT16 reader of \<^verbatim>\<open>simulator/tests/fat16_reader.hpp\<close>, which \<^verbatim>\<open>pugrun\<close> and the tests use: the fields of the
  boot sector, chains of clusters, the entries of a directory, paths and the bytes of a file. A byte outside
  the image is undefined behaviour, which makes the whole reading \<open>None\<close>. Below, what the reader finds when
  the image holds what \<^theory_text>\<open>Fat16_Store\<close> writes.
\<close>

unbundle bit_operations_syntax

section \<open>The reader\<close>

record fat_entry =
  fe_name :: string
  fe_attr :: u8
  fe_cluster :: u16
  fe_size :: u32

definition is_dir :: "fat_entry \<Rightarrow> bool" where
  "is_dir e \<longleftrightarrow> fe_attr e AND 0x10 \<noteq> 0"

record fat_volume =
  fv_img :: "u8 list"
  fv_sec_per_clus :: u32
  fv_reserved :: u32
  fv_nfats :: u32
  fv_sec_per_fat :: u32
  fv_root_entries :: u32
  fv_total_sectors :: u32
  fv_fat_lba :: u32
  fv_root_lba :: u32
  fv_data_lba :: u32
  fv_clusters :: u32

definition byte_at :: "u8 list \<Rightarrow> nat \<Rightarrow> u8 option" where
  "byte_at img off = (if off < length img then Some (img ! off) else None)"

definition u16_at :: "u8 list \<Rightarrow> nat \<Rightarrow> u16 option" where
  "u16_at img off = do {
     lo \<leftarrow> byte_at img off;
     hi \<leftarrow> byte_at img (off + 1);
     Some (ucast lo OR push_bit 8 (ucast hi))
   }"

definition u32_at :: "u8 list \<Rightarrow> nat \<Rightarrow> u32 option" where
  "u32_at img off = do {
     lo \<leftarrow> u16_at img off;
     hi \<leftarrow> u16_at img (off + 2);
     Some (ucast lo OR push_bit 16 (ucast hi))
   }"

text \<open>The inner \<open>None\<close>: the image is refused. A division by zero is undefined.\<close>

definition parse_volume :: "u8 list \<Rightarrow> fat_volume option option" where
  "parse_volume img =
    (if length img < 512 \<or> img ! 510 \<noteq> 0x55 \<or> img ! 511 \<noteq> 0xAA then Some None
     else do {
       sector \<leftarrow> u16_at img 11;
       if sector \<noteq> 512 then Some None
       else do {
         spc \<leftarrow> byte_at img 13;
         reserved \<leftarrow> u16_at img 14;
         nfats \<leftarrow> byte_at img 16;
         roots \<leftarrow> u16_at img 17;
         small \<leftarrow> u16_at img 19;
         large \<leftarrow> u32_at img 32;
         spf \<leftarrow> u16_at img 22;
         let sectors = (if small \<noteq> 0 then ucast small else large);
         let root_lba = ucast reserved + ucast nfats * ucast spf;
         let data_lba = root_lba + ucast roots div 16;
         if spc = 0 then None
         else Some (Some \<lparr>fv_img = img, fv_sec_per_clus = ucast spc, fv_reserved = ucast reserved, fv_nfats = ucast nfats,
           fv_sec_per_fat = ucast spf, fv_root_entries = ucast roots, fv_total_sectors = sectors, fv_fat_lba = ucast reserved,
           fv_root_lba = root_lba, fv_data_lba = data_lba, fv_clusters = (sectors - data_lba) div ucast spc\<rparr>)
       }
     })"

definition fat_link :: "fat_volume \<Rightarrow> u16 \<Rightarrow> u16 option" where
  "fat_link v c = u16_at (fv_img v) (unat (fv_fat_lba v) * 512 + unat c * 2)"

definition cluster_lba :: "fat_volume \<Rightarrow> u16 \<Rightarrow> u32" where
  "cluster_lba v c = fv_data_lba v + (ucast c - 2) * fv_sec_per_clus v"

text \<open>The first argument is how many clusters the chain may still have: the code stops when it has one more than the
  volume.\<close>

primrec chain_from :: "nat \<Rightarrow> fat_volume \<Rightarrow> u16 \<Rightarrow> u16 list option" where
  "chain_from 0 v c = Some []"
| "chain_from (Suc n) v c =
    (if 2 \<le> c \<and> c < 0xFFF8
     then do { link \<leftarrow> fat_link v c; cs \<leftarrow> chain_from n v link; Some (c # cs) }
     else Some [])"

definition chain :: "fat_volume \<Rightarrow> u16 \<Rightarrow> u16 list option" where
  "chain v c = chain_from (unat (fv_clusters v) + 1) v c"

definition trim :: "string \<Rightarrow> string" where
  "trim s = rev (dropWhile (\<lambda>c. c = CHR 0x20) (rev s))"

definition dotted :: "u8 list \<Rightarrow> string" where
  "dotted e =
    (let base = trim (map (\<lambda>b. char_of (unat b)) (take 8 e)); ext = trim (map (\<lambda>b. char_of (unat b)) (take 3 (drop 8 e)))
     in if ext = [] then base else base @ CHR ''.'' # ext)"

definition bytes_at :: "u8 list \<Rightarrow> nat \<Rightarrow> nat \<Rightarrow> u8 list option" where
  "bytes_at img off n = (if off + n \<le> length img then Some (slice off n img) else None)"

definition decode_entry :: "u8 list \<Rightarrow> fat_entry" where
  "decode_entry e = \<lparr>fe_name = dotted e, fe_attr = e ! 11, fe_cluster = ucast (e ! 26) OR push_bit 8 (ucast (e ! 27)),
     fe_size = ucast (e ! 28) OR push_bit 8 (ucast (e ! 29)) OR push_bit 16 (ucast (e ! 30)) OR push_bit 24 (ucast (e ! 31))\<rparr>"

text \<open>The slots at these offsets, up to the first that was never used.\<close>

primrec read_slots :: "u8 list \<Rightarrow> nat list \<Rightarrow> fat_entry list option" where
  "read_slots img [] = Some []"
| "read_slots img (off # offs) = do {
     b \<leftarrow> byte_at img off;
     if b = 0 then Some []
     else if b = 0xE5 then read_slots img offs
     else do {
       attr \<leftarrow> byte_at img (off + 11);
       if attr AND 0x08 \<noteq> 0 then read_slots img offs
       else do { e \<leftarrow> bytes_at img off 32; es \<leftarrow> read_slots img offs; Some (decode_entry e # es) }
     }
   }"

definition dir_sectors :: "fat_volume \<Rightarrow> u16 \<Rightarrow> u32 list option" where
  "dir_sectors v dir =
    (if dir = 0 then Some (map (\<lambda>i. fv_root_lba v + of_nat i) [0..<unat (fv_root_entries v div 16)])
     else map_option (\<lambda>cs. concat (map (\<lambda>c. map (\<lambda>i. cluster_lba v c + of_nat i) [0..<unat (fv_sec_per_clus v)]) cs)) (chain v dir))"

definition dir_entries :: "fat_volume \<Rightarrow> u16 \<Rightarrow> fat_entry list option" where
  "dir_entries v dir = do {
     lbas \<leftarrow> dir_sectors v dir;
     read_slots (fv_img v) (concat (map (\<lambda>lba. map (\<lambda>i. unat lba * 512 + i * 32) [0..<16]) lbas))
   }"

text \<open>The parts of a path, which are not empty.\<close>

function path_parts :: "string \<Rightarrow> string list" where
  "path_parts path =
    (let p = dropWhile (\<lambda>c. c = CHR ''/'') path
     in if p = [] then [] else takeWhile (\<lambda>c. c \<noteq> CHR ''/'') p # path_parts (dropWhile (\<lambda>c. c \<noteq> CHR ''/'') p))"
  by pat_completeness auto
termination
proof (relation "measure length")
  fix path p :: string
  assume p: "p = dropWhile (\<lambda>c. c = CHR ''/'') path" "p \<noteq> []"
  then have "hd p \<noteq> CHR ''/''" using hd_dropWhile [of "\<lambda>c. c = CHR ''/''" path] by simp
  then have "dropWhile (\<lambda>c. c \<noteq> CHR ''/'') p = dropWhile (\<lambda>c. c \<noteq> CHR ''/'') (tl p)"
    using p(2) by (cases p) (simp_all del: dropWhile_eq_Nil_conv)
  moreover have "length (dropWhile (\<lambda>c. c \<noteq> CHR ''/'') (tl p)) \<le> length (tl p)" by (rule length_dropWhile_le)
  moreover have "length p \<le> length path" unfolding p(1) by (rule length_dropWhile_le)
  moreover have "length (tl p) < length p" using p(2) by (cases p) simp_all
  ultimately show "(dropWhile (\<lambda>c. c \<noteq> CHR ''/'') p, path) \<in> measure length" by simp
qed simp

declare path_parts.simps [simp del]

primrec find_parts :: "fat_volume \<Rightarrow> string list \<Rightarrow> u16 \<Rightarrow> fat_entry \<Rightarrow> fat_entry option option" where
  "find_parts v [] dir out = Some (Some out)"
| "find_parts v (part # parts) dir out = do {
     es \<leftarrow> dir_entries v dir;
     case find (\<lambda>e. fe_name e = part) es of
       None \<Rightarrow> Some None
     | Some e \<Rightarrow> find_parts v parts (fe_cluster e) e
   }"

definition find_path :: "fat_volume \<Rightarrow> string \<Rightarrow> fat_entry option option" where
  "find_path v path = find_parts v (path_parts path) 0 \<lparr>fe_name = ''/'', fe_attr = 0x10, fe_cluster = 0, fe_size = 0\<rparr>"

definition read_entry :: "fat_volume \<Rightarrow> fat_entry \<Rightarrow> u8 list option" where
  "read_entry v e = do {
     cs \<leftarrow> chain v (fe_cluster e);
     parts \<leftarrow> those (map (\<lambda>(c, s). bytes_at (fv_img v) ((unat (cluster_lba v c) + s) * 512) 512)
       (List.product cs [0..<unat (fv_sec_per_clus v)]));
     Some (take (unat (fe_size e)) (concat parts))
   }"

section \<open>Words and entries read back\<close>

lemma u16_at_rd16:
  assumes "off + 2 \<le> length img" "rd16 img off = unat w"
  shows "u16_at img off = Some w"
proof -
  have "mk16 (img ! (off + 1)) (img ! off) = w" using assms(2) by (simp add: word_unat_eq_iff unat_mk16 rd16_def)
  then show ?thesis using assms(1) by (simp add: u16_at_def byte_at_def mk16_def or.commute)
qed

lemma u32_at_rd32:
  assumes "off + 4 \<le> length img" "rd32 img off = unat w"
  shows "u32_at img off = Some w"
proof -
  let ?lo = "mk16 (img ! (off + 1)) (img ! off)" and ?hi = "mk16 (img ! (off + 3)) (img ! (off + 2))"
  have "u16_at img off = Some ?lo" "u16_at img (off + 2) = Some ?hi"
    using assms(1) by (simp_all add: u16_at_def byte_at_def mk16_def or.commute numeral_3_eq_3)
  moreover have "mk32 ?hi ?lo = w"
    using assms(2) by (simp add: word_unat_eq_iff unat_mk32 unat_mk16 rd32_def)
  ultimately show ?thesis by (simp add: u32_at_def mk32_def or.commute)
qed

lemma le16_bytes: "ucast (ucast (v AND 0xFF) :: u8) OR push_bit 8 (ucast (ucast (drop_bit 8 v) :: u8)) = (v :: u16)"
  by (rule bit_eqI) (auto simp: bit_simps FF_eq_mask)

lemma le32_bytes: "ucast (ucast (v AND 0xFF) :: u8) OR push_bit 8 (ucast (ucast (drop_bit 8 v AND 0xFF) :: u8)) OR
    push_bit 16 (ucast (ucast (drop_bit 16 v AND 0xFF) :: u8)) OR push_bit 24 (ucast (ucast (drop_bit 24 v AND 0xFF) :: u8)) = (v :: u32)"
  (is "?w = v")
proof (rule bit_word_eqI)
  fix n assume "n < LENGTH(32)"
  then consider "n < 8" | "8 \<le> n" "n < 16" | "16 \<le> n" "n < 24" | "24 \<le> n" "n < 32" by fastforce
  then show "bit ?w n \<longleftrightarrow> bit v n" by cases (auto simp: bit_simps FF_eq_mask)
qed

lemma decode_entry_bytes:
  "decode_entry (entry_bytes name attr c sz) =
    \<lparr>fe_name = dotted (short_name name), fe_attr = attr, fe_cluster = c, fe_size = sz\<rparr>"
proof -
  let ?e = "entry_bytes name attr c sz"
  have at: "?e ! (11 + k) = ([attr] @ replicate 14 0 @ le16 c @ le32 sz) ! k" for k
    by (simp add: entry_bytes_def nth_append)
  have "?e ! 11 = attr" "?e ! 26 = ucast (c AND 0xFF)" "?e ! 27 = ucast (drop_bit 8 c)" "?e ! 28 = ucast (sz AND 0xFF)"
    "?e ! 29 = ucast (drop_bit 8 sz AND 0xFF)" "?e ! 30 = ucast (drop_bit 16 sz AND 0xFF)" "?e ! 31 = ucast (drop_bit 24 sz AND 0xFF)"
    using at [of 0] at [of 15] at [of 16] at [of 17] at [of 18] at [of 19] at [of 20] by (simp_all add: nth_append le16_def le32_def)
  moreover have "take 8 ?e = take 8 (short_name name)" "take 3 (drop 8 ?e) = take 3 (drop 8 (short_name name))"
    by (simp_all add: entry_bytes_def)
  ultimately show ?thesis by (simp only: decode_entry_def dotted_def le16_bytes le32_bytes)
qed

section \<open>Names\<close>

text \<open>The names that come back as they were, in upper case.\<close>

definition fits_8_3 :: "string \<Rightarrow> bool" where
  "fits_8_3 s \<longleftrightarrow> base_name s \<noteq> [] \<and> length (base_name s) \<le> 8 \<and> length (extension s) \<le> 3 \<and>
     (CHR ''.'' \<in> set s \<longrightarrow> extension s \<noteq> []) \<and> CHR ''.'' \<notin> set (extension s) \<and>
     list_all (\<lambda>c. 0x20 < (of_char c :: nat) \<and> (of_char c :: nat) < 0x7F \<and> c \<noteq> CHR ''/'') s"

lemma upper_range: "0x20 < (of_char c :: nat) \<Longrightarrow> (of_char c :: nat) < 0x7F \<Longrightarrow>
    0x20 < (of_char (toupper c) :: nat) \<and> (of_char (toupper c) :: nat) < 0x7F"
  by (auto simp: toupper_def Let_def)

lemma toupper_keeps: "0x60 < (of_char d :: nat) \<or> of_char d < (0x41 :: nat) \<or> 0x5A < (of_char d :: nat) \<Longrightarrow> of_char d < (97 :: nat) \<or> 122 < (of_char d :: nat) \<Longrightarrow>
    toupper c = d \<longleftrightarrow> c = d"
  by (auto simp: toupper_def Let_def dest: arg_cong [where f = of_char])

lemma pad_text:
  assumes "list_all (\<lambda>c. 0x20 < (of_char c :: nat) \<and> (of_char c :: nat) < 0x7F) s" "length s \<le> n"
  shows "trim (map (\<lambda>b. char_of (unat b)) (pad n s)) = upper s"
proof -
  have char: "(char_of (unat (of_char c :: u8)) :: char) = c" for c
  proof -
    have "(of_char c :: nat) < 256" using mod_less_divisor [of 256 "of_char c :: nat"] by simp
    then have "unat (of_nat (of_char c) :: u8) = of_char c" by (simp add: unat_of_nat del: of_nat_of_char)
    then have "unat (of_char c :: u8) = of_char c" by (simp only: of_nat_of_char)
    then show ?thesis by simp
  qed
  have blank: "char_of (32 :: nat) = CHR 0x20" by code_simp
  have "map (\<lambda>b. char_of (unat b)) (pad n s) = upper s @ replicate (n - length s) (CHR 0x20)"
    using assms(2) by (simp add: pad_def upper_def char blank)
  moreover have "CHR 0x20 \<notin> set (upper s)"
  proof
    assume "CHR 0x20 \<in> set (upper s)"
    then obtain c where "c \<in> set s" "toupper c = CHR 0x20" by (auto simp: upper_def)
    then show False using assms(1) upper_range [of c] by (auto simp: list_all_iff)
  qed
  then have "dropWhile (\<lambda>c. c = CHR 0x20) (rev (upper s)) = rev (upper s)"
    by (cases "rev (upper s)") (auto simp: rev_swap)
  moreover have "dropWhile (\<lambda>c. c = CHR 0x20) (replicate k (CHR 0x20) @ xs) = dropWhile (\<lambda>c. c = CHR 0x20) xs" for k xs
    by (induction k) simp_all
  ultimately show ?thesis by (simp add: trim_def)
qed

lemma name_split: "CHR ''.'' \<in> set s \<Longrightarrow> s = base_name s @ CHR ''.'' # extension s" "CHR ''.'' \<notin> set s \<Longrightarrow> s = base_name s \<and> extension s = []"
proof -
  assume "CHR ''.'' \<in> set s"
  then obtain b e where s: "s = b @ CHR ''.'' # e" "CHR ''.'' \<notin> set b" by (meson split_list_first)
  then have "takeWhile (\<lambda>c. c \<noteq> CHR ''.'') b = b" by (auto simp: takeWhile_eq_all_conv)
  then show "s = base_name s @ CHR ''.'' # extension s"
    using s(2) by (auto simp: s(1) base_name_def extension_def takeWhile_append dropWhile_append)
next
  assume "CHR ''.'' \<notin> set s"
  then have "\<forall>c\<in>set s. c \<noteq> CHR ''.''" by auto
  then have t: "takeWhile (\<lambda>c. c \<noteq> CHR ''.'') s = s" "dropWhile (\<lambda>c. c \<noteq> CHR ''.'') s = []"
    by (simp_all only: takeWhile_eq_all_conv dropWhile_eq_Nil_conv)
  show "s = base_name s \<and> extension s = []" by (simp only: base_name_def extension_def t list.sel simp_thms)
qed

lemma dotted_short_name:
  assumes "fits_8_3 s"
  shows "dotted (short_name s) = upper s"
proof -
  let ?ok = "list_all (\<lambda>c. 0x20 < (of_char c :: nat) \<and> (of_char c :: nat) < 0x7F)"
  have split: "s = (if CHR ''.'' \<in> set s then base_name s @ CHR ''.'' # extension s else base_name s)" "CHR ''.'' \<notin> set s \<Longrightarrow> extension s = []"
    using name_split [of s] by auto
  have "?ok s" using assms by (auto simp: fits_8_3_def list_all_iff)
  then have "?ok (base_name s @ extension s)" by (subst (asm) split(1)) (auto simp: split(2) split: if_splits)
  then have ok: "?ok (base_name s)" "?ok (extension s)" by simp_all
  have "s \<noteq> ''.''" "s \<noteq> ''..''" using assms by (auto simp: fits_8_3_def base_name_def)
  then have "take 8 (short_name s) = pad 8 (base_name s)" "take 3 (drop 8 (short_name s)) = pad 3 (extension s)"
    by (simp_all add: short_name_def)
  then have "dotted (short_name s) = (if extension s = [] then upper (base_name s) else upper (base_name s) @ CHR ''.'' # upper (extension s))"
    using assms ok pad_text [of "base_name s" 8] pad_text [of "extension s" 3] by (simp add: dotted_def fits_8_3_def upper_def)
  moreover have "toupper CHR ''.'' = CHR ''.''" by (simp add: toupper_def)
  moreover have "extension s = [] \<longleftrightarrow> CHR ''.'' \<notin> set s" using assms split(2) by (auto simp: fits_8_3_def)
  ultimately show ?thesis using arg_cong [OF split(1), where f = upper] by (simp add: upper_def)
qed

lemma short_name_live:
  assumes "fits_8_3 s \<or> s = ''.'' \<or> s = ''..''"
  shows "short_name s ! 0 \<noteq> 0 \<and> short_name s ! 0 \<noteq> 0xE5"
proof -
  have "of_char c \<noteq> (0 :: u8) \<and> of_char c \<noteq> (0xE5 :: u8)" if "0x20 < (of_char c :: nat)" "(of_char c :: nat) < 0x7F" for c :: char
  proof -
    have "unat (of_nat (of_char c) :: u8) = of_char c" using that by (simp add: unat_of_nat del: of_nat_of_char)
    then have "unat (of_char c :: u8) = of_char c" by (simp only: of_nat_of_char)
    then show ?thesis using that by (auto simp: word_unat_eq_iff)
  qed
  moreover have "short_name s ! 0 = of_char (toupper (hd s)) \<and> s \<noteq> []" if "fits_8_3 s"
  proof -
    have s: "s \<noteq> ''.''" "s \<noteq> ''..''" "base_name s \<noteq> []" using that by (auto simp: fits_8_3_def base_name_def)
    then have "hd (base_name s) = hd s \<and> s \<noteq> []" by (cases s) (auto simp: base_name_def split: if_splits)
    moreover have "pad 8 (base_name s) ! 0 = of_char (toupper (hd (base_name s)))" using s(3) by (cases "base_name s") (simp_all add: pad_def)
    ultimately show ?thesis using s by (simp add: short_name_def nth_append)
  qed
  ultimately show ?thesis
    using assms upper_range by (auto simp: fits_8_3_def short_name_def list_all_iff)
qed

section \<open>Directories read back\<close>

lemma concat_rows: "concat (map (\<lambda>i. map (\<lambda>k. f (i * w + k)) [0..<w]) [0..<n]) = map f [0..<n * w]"
proof (induction n)
  case (Suc n)
  have "map (\<lambda>k. f (n * w + k)) [0..<w] = map f [n * w..<n * w + w]"
    by (rule nth_equalityI) simp_all
  moreover have "[0..<Suc n * w] = [0..<n * w] @ [n * w..<n * w + w]" using upt_add_eq_append [of 0 "n * w" w] by (simp add: add.commute)
  ultimately show ?case using Suc by simp
qed simp

type_synonym slot = "string \<times> u8 \<times> u16 \<times> u32"

definition slot_bytes :: "slot \<Rightarrow> u8 list" where
  "slot_bytes s = (case s of (name, attr, c, sz) \<Rightarrow> entry_bytes name attr c sz)"

definition slot_entry :: "slot \<Rightarrow> fat_entry" where
  "slot_entry s = (case s of (name, attr, c, sz) \<Rightarrow> \<lparr>fe_name = dotted (short_name name), fe_attr = attr, fe_cluster = c, fe_size = sz\<rparr>)"

definition live :: "slot \<Rightarrow> bool" where
  "live s \<longleftrightarrow> (case s of (name, attr, c, sz) \<Rightarrow> (fits_8_3 name \<or> name = ''.'' \<or> name = ''..'') \<and> attr AND 0x08 = 0)"

lemma length_slot_bytes [simp]: "length (slot_bytes s) = 32"
  by (simp add: slot_bytes_def split: prod.split)

lemma slot_head:
  assumes "live s"
  shows "slot_bytes s ! 0 \<noteq> 0 \<and> slot_bytes s ! 0 \<noteq> 0xE5 \<and> slot_bytes s ! 11 AND 0x08 = 0"
proof -
  obtain name attr c sz where s: "s = (name, attr, c, sz)" by (cases s)
  have "slot_bytes s ! 0 = short_name name ! 0" "slot_bytes s ! (11 + 0) = attr"
    unfolding s slot_bytes_def entry_bytes_def prod.case by (simp_all only: nth_append length_short_name) simp_all
  then show ?thesis using assms short_name_live [of name] by (simp add: s live_def)
qed

lemma decode_slot: "decode_entry (slot_bytes s) = slot_entry s"
  by (simp add: slot_bytes_def slot_entry_def decode_entry_bytes split: prod.split)

lemma read_slots_live:
  assumes "\<forall>s\<in>set es. live s" "length es \<le> m" "a + 32 * m \<le> length img"
    and "slice a (32 * m) img = concat (map slot_bytes es) @ replicate (32 * (m - length es)) 0"
  shows "read_slots img (map (\<lambda>j. a + 32 * j) [0..<m]) = Some (map slot_entry es)"
  using assms
proof (induction es arbitrary: a m)
  case Nil
  show ?case
  proof (cases m)
    case (Suc k)
    have "slice a (32 * m) img ! 0 = 0" using Nil.prems(4) Suc by simp
    then have "img ! a = 0" using nth_slice [OF Nil.prems(3), of 0] Suc by simp
    moreover have "a < length img" using Nil.prems(3) Suc by simp
    ultimately show ?thesis using Suc by (simp add: upt_conv_Cons byte_at_def del: upt_Suc)
  qed simp
next
  case (Cons e es)
  then obtain k where k: "m = Suc k" by (cases m) simp_all
  have all: "slice a (32 * m) img = slot_bytes e @ concat (map slot_bytes es) @ replicate (32 * (k - length es)) 0"
    using Cons.prems(4) k by simp
  have "slice a 32 img = slice 0 32 (slice a (32 * m) img)" using k by (subst slice_slice) simp_all
  then have e: "slice a 32 img = slot_bytes e" unfolding all by (simp add: slice_def)
  have "slice (a + 32) (32 * k) img = slice 32 (32 * k) (slice a (32 * m) img)" using k by (subst slice_slice) simp_all
  then have rest: "slice (a + 32) (32 * k) img = concat (map slot_bytes es) @ replicate (32 * (k - length es)) 0"
    unfolding all using Cons.prems(2) k by (simp add: slice_def length_concat comp_def sum_list_triv)
  have "read_slots img (map (\<lambda>j. a + 32 + 32 * j) [0..<k]) = Some (map slot_entry es)"
    using Cons.prems k by (intro Cons.IH rest) simp_all
  moreover have "map (\<lambda>j. a + 32 * j) [0..<m] = a # map (\<lambda>j. a + 32 + 32 * j) [0..<k]"
    unfolding k by (rule nth_equalityI) (auto simp: nth_Cons' simp del: upt_Suc)
  moreover have room: "a + 32 \<le> length img" using Cons.prems(3) k by simp
  have "img ! (a + i) = slot_bytes e ! i" if "i < 32" for i using nth_slice [OF room that] unfolding e by simp
  from this [of 0] this [of 11] have "img ! a \<noteq> 0" "img ! a \<noteq> 0xE5" "img ! (a + 11) AND 0x08 = 0"
    using slot_head [of e] Cons.prems(1) by simp_all
  ultimately show ?case using room e by (simp add: byte_at_def bytes_at_def decode_slot)
qed

section \<open>The volume read back\<close>

text \<open>The reader's idea of the volume is the builder's.\<close>

definition mounts :: "fat_volume \<Rightarrow> fat_layout \<Rightarrow> u8 \<Rightarrow> u16 \<Rightarrow> u8 list \<Rightarrow> bool" where
  "mounts v g spc roots img \<longleftrightarrow> fv_img v = img \<and> fv_sec_per_clus v = ucast spc \<and> fv_root_entries v = ucast roots \<and>
     fv_fat_lba v = fg_fat_lba g \<and> fv_root_lba v = fg_root_lba g \<and> fv_data_lba v = fg_data_lba g \<and> fv_clusters v = fg_total_clusters g"

definition chained :: "u8 list \<Rightarrow> nat \<Rightarrow> nat \<Rightarrow> nat \<Rightarrow> bool" where
  "chained buf fat c n \<longleftrightarrow> (\<forall>i<n. rd16 buf (fat + 2 * (c + i)) = (if i + 1 < n then c + i + 1 else 0xFFFF))"

lemma chain_read:
  assumes v: "mounts v g spc roots img" and fat: "chained img (unat (fg_fat_lba g) * 512) c n"
    and room: "unat (fg_fat_lba g) * 512 + 2 * (c + n) \<le> length img" "2 \<le> c" "c + n \<le> 65528" "0 < n" "n \<le> m"
  shows "chain_from m v (of_nat c) = Some (map of_nat [c..<c + n])"
  using fat room
proof (induction n arbitrary: c m)
  case (Suc n)
  then obtain k where k: "m = Suc k" by (cases m) simp_all
  have c: "unat (of_nat c :: u16) = c" using Suc.prems by (simp add: unat_of_nat)
  then have in_range: "2 \<le> (of_nat c :: u16)" "(of_nat c :: u16) < 0xFFF8" using Suc.prems by (simp_all add: word_le_nat_alt word_less_nat_alt)
  have "rd16 img (unat (fg_fat_lba g) * 512 + 2 * c) = (if 0 < n then c + 1 else 0xFFFF)"
    using Suc.prems(1) unfolding chained_def by (auto dest: spec [of _ 0])
  moreover have "unat (if 0 < n then of_nat (c + 1) else 0xFFFF :: u16) = (if 0 < n then c + 1 else 0xFFFF)"
    using Suc.prems by (simp add: unat_of_nat del: of_nat_add of_nat_Suc)
  moreover have "unat (fv_fat_lba v) * 512 + unat (of_nat c :: u16) * 2 = unat (fg_fat_lba g) * 512 + 2 * c" "fv_img v = img"
    using v unfolding c by (simp_all add: mounts_def)
  ultimately have link: "fat_link v (of_nat c) = Some (if 0 < n then of_nat (c + 1) else 0xFFFF)"
    using Suc.prems(2) unfolding fat_link_def by (intro u16_at_rd16) simp_all
  have head: "[c..<c + Suc n] = c # [c + 1..<c + 1 + n]" by (simp add: upt_conv_Cons del: upt_Suc)
  show ?case
  proof (cases "n = 0")
    case True
    have "chain_from k v 0xFFFF = Some []" by (cases k) simp_all
    then show ?thesis using True in_range link by (simp add: k)
  next
    case False
    have "chained img (unat (fg_fat_lba g) * 512) (c + 1) n"
      unfolding chained_def
    proof (intro allI impI)
      fix i assume "i < n"
      then show "rd16 img (unat (fg_fat_lba g) * 512 + 2 * (c + 1 + i)) = (if i + 1 < n then c + 1 + i + 1 else 0xFFFF)"
        using Suc.prems(1) unfolding chained_def by (auto dest: spec [of _ "Suc i"])
    qed
    from Suc.IH [OF this] have "chain_from k v (of_nat (c + 1)) = Some (map of_nat [c + 1..<c + 1 + n])"
      using Suc.prems False k by simp
    then show ?thesis using in_range link False unfolding k head by simp
  qed
qed simp

text \<open>An extent: consecutive clusters of the data area, chained.\<close>

definition extent :: "fat_layout \<Rightarrow> u8 list \<Rightarrow> nat \<Rightarrow> nat \<Rightarrow> bool" where
  "extent g img c n \<longleftrightarrow> chained img (unat (fg_fat_lba g) * 512) c n \<and> unat (fg_fat_lba g) * 512 + 2 * (c + n) \<le> length img \<and>
     2 \<le> c \<and> 0 < n \<and> c + n \<le> unat (fg_total_clusters g) + 2 \<and> fg_total_clusters g \<le> 65524"

lemma extent_chain:
  assumes "mounts v g spc roots img" "extent g img c n"
  shows "chain v (of_nat c) = Some (map of_nat [c..<c + n])"
proof -
  have "unat (fg_total_clusters g) \<le> 65524" using assms(2) by (simp add: extent_def word_le_nat_alt)
  then show ?thesis
    unfolding chain_def using assms by (intro chain_read [of v g spc roots img]) (auto simp: extent_def mounts_def)
qed

lemma no_chain: "chain v 0 = Some []"
  by (simp add: chain_def)

lemma extent_lba:
  assumes "mounts v g spc roots img" "extent g img c n" "i < n" "k \<le> unat spc"
    and "unat (fg_data_lba g) + unat (fg_total_clusters g) * unat spc < 4294967296"
  shows "unat (cluster_lba v (of_nat (c + i)) + of_nat k) = unat (fg_data_lba g) + (c - 2 + i) * unat spc + k"
proof -
  let ?c = "c - 2 + i"
  have tot: "unat (fg_total_clusters g) \<le> 65524" using assms(2) by (simp add: extent_def word_le_nat_alt)
  have c: "c + i < 65536" "2 \<le> c" "?c + 1 \<le> unat (fg_total_clusters g)" using assms(2,3) tot by (auto simp: extent_def)
  have "(?c + 1) * unat spc \<le> unat (fg_total_clusters g) * unat spc" using c(3) by (rule mult_le_mono1)
  then have s: "unat (fg_data_lba g) + ?c * unat spc + k < 4294967296" using assms(4,5) by simp
  have "(ucast (of_nat (c + i) :: u16) :: u32) = of_nat (c + i)"
    using c(1) by (simp add: word_unat_eq_iff unsigned_ucast_eq take_bit_eq_mod unat_of_nat del: of_nat_add)
  moreover have "(of_nat (c + i) :: u32) - 2 = of_nat ?c" using c(2) by simp
  ultimately have "cluster_lba v (of_nat (c + i)) = fg_data_lba g + of_nat ?c * ucast spc"
    using assms(1) by (simp only: cluster_lba_def mounts_def)
  also have "\<dots> = of_nat (unat (fg_data_lba g) + ?c * unat spc)"
    by (simp only: of_nat_add of_nat_mult) (simp add: unsigned_ucast_eq)
  finally have "cluster_lba v (of_nat (c + i)) + of_nat k = of_nat (unat (fg_data_lba g) + ?c * unat spc + k)"
    by (simp only: of_nat_add)
  then show ?thesis using s by (simp only: unat_of_nat) simp
qed

lemma slot_offsets:
  "concat (map (\<lambda>lba. map (\<lambda>i. lba * 512 + i * 32) [0..<16]) (map (\<lambda>i. L + i) [0..<n])) = map (\<lambda>j. L * 512 + 32 * j) [0..<16 * n]"
proof -
  have "concat (map (\<lambda>lba. map (\<lambda>i. lba * 512 + i * 32) [0..<16]) (map (\<lambda>i. L + i) [0..<n])) =
      concat (map (\<lambda>k. map (\<lambda>i. L * 512 + 32 * (k * 16 + i)) [0..<16]) [0..<n])"
    unfolding map_map comp_def by (intro arg_cong [where f = concat] map_cong refl) (simp add: add_mult_distrib)
  then show ?thesis using concat_rows [of "\<lambda>j. L * 512 + 32 * j" 16 n] by (simp add: mult.commute)
qed

lemma dir_slots:
  assumes "dir_sectors v dir = Some lbas" "map unat lbas = map (\<lambda>i. L + i) [0..<n]" "fv_img v = img"
    and "\<forall>s\<in>set es. live s" "length es \<le> 16 * n" "L * 512 + 512 * n \<le> length img"
    and "slice (L * 512) (512 * n) img = concat (map slot_bytes es) @ replicate (512 * n - 32 * length es) 0"
  shows "dir_entries v dir = Some (map slot_entry es)"
proof -
  have "concat (map (\<lambda>lba. map (\<lambda>i. unat lba * 512 + i * 32) [0..<16]) lbas) =
      concat (map (\<lambda>lba. map (\<lambda>i. lba * 512 + i * 32) [0..<16]) (map unat lbas))"
    by (simp add: comp_def)
  also have "\<dots> = map (\<lambda>j. L * 512 + 32 * j) [0..<16 * n]" unfolding assms(2) by (rule slot_offsets)
  finally have "concat (map (\<lambda>lba. map (\<lambda>i. unat lba * 512 + i * 32) [0..<16]) lbas) = map (\<lambda>j. L * 512 + 32 * j) [0..<16 * n]" .
  moreover have "read_slots img (map (\<lambda>j. L * 512 + 32 * j) [0..<16 * n]) = Some (map slot_entry es)"
    using assms(5,6,7) by (intro read_slots_live [OF assms(4)]) (simp_all add: diff_mult_distrib2)
  ultimately show ?thesis by (simp add: dir_entries_def assms(1,3))
qed

text \<open>A subdirectory: its extent holds the slots, and zeros after them.\<close>

lemma subdir_entries:
  assumes v: "mounts v g spc roots img" and e: "extent g img c n"
    and tot: "unat (fg_data_lba g) + unat (fg_total_clusters g) * unat spc < 4294967296"
      "(unat (fg_data_lba g) + unat (fg_total_clusters g) * unat spc) * 512 \<le> length img"
    and es: "\<forall>s\<in>set es. live s" "32 * length es \<le> n * bytes_per_cluster spc"
      "slice (cluster_offset g spc c) (n * bytes_per_cluster spc) img =
        concat (map slot_bytes es) @ replicate (n * bytes_per_cluster spc - 32 * length es) 0"
  shows "dir_entries v (of_nat c) = Some (map slot_entry es)"
proof (rule dir_slots)
  let ?s = "unat spc" and ?L = "unat (fg_data_lba g) + (c - 2) * unat spc"
  let ?lbas = "concat (map (\<lambda>c. map (\<lambda>i. cluster_lba v c + of_nat i) [0..<unat (fv_sec_per_clus v)]) (map of_nat [c..<c + n]))"
  have c: "(of_nat c :: u16) \<noteq> 0"
    using e unfolding extent_def by (simp add: word_unat_eq_iff unat_of_nat word_le_nat_alt)
  then show "dir_sectors v (of_nat c) = Some ?lbas"
    using extent_chain [OF v e] by (simp add: dir_sectors_def)
  have spc: "unat (fv_sec_per_clus v) = ?s" using v by (simp add: mounts_def unsigned_ucast_eq take_bit_nat_eq_self_iff)
  have at: "unat (cluster_lba v (of_nat (c + i)) + of_nat k) = ?L + (i * ?s + k)" if "i < n" "k < ?s" for i k
    using extent_lba [OF v e that(1) _ tot(1), of k] that(2) by (simp add: add_mult_distrib)
  have idx: "[c..<c + n] = map (\<lambda>i. c + i) [0..<n]" by (rule nth_equalityI) simp_all
  have "map unat ?lbas = concat (map (\<lambda>i. map (\<lambda>k. unat (cluster_lba v (of_nat (c + i)) + of_nat k)) [0..<?s]) [0..<n])"
    unfolding spc idx by (simp add: map_concat comp_def)
  also have "\<dots> = concat (map (\<lambda>i. map (\<lambda>k. ?L + (i * ?s + k)) [0..<?s]) [0..<n])"
    by (intro arg_cong [where f = concat] map_cong refl) (simp only: at set_upt atLeastLessThan_iff)
  also have "\<dots> = map (\<lambda>i. ?L + i) [0..<n * ?s]" by (rule concat_rows)
  finally show "map unat ?lbas = map (\<lambda>i. ?L + i) [0..<n * ?s]" .
  have bytes: "512 * (n * ?s) = n * bytes_per_cluster spc" "?L * 512 = cluster_offset g spc c"
    by (simp_all add: bytes_per_cluster_def cluster_offset_def kSectorSize_def)
  show "length es \<le> 16 * (n * ?s)" using es(2) unfolding bytes(1) [symmetric] by simp
  show "slice (?L * 512) (512 * (n * ?s)) img = concat (map slot_bytes es) @ replicate (512 * (n * ?s) - 32 * length es) 0"
    unfolding bytes by (rule es(3))
  have "(c - 2 + n) * ?s \<le> unat (fg_total_clusters g) * ?s" using e by (intro mult_le_mono1) (auto simp: extent_def)
  then have "(?L + n * ?s) * 512 \<le> (unat (fg_data_lba g) + unat (fg_total_clusters g) * ?s) * 512"
    by (intro mult_le_mono1) (simp add: add_mult_distrib)
  then show "?L * 512 + 512 * (n * ?s) \<le> length img" using tot(2) by simp
qed (use v es in \<open>simp_all add: mounts_def\<close>)

text \<open>The root directory.\<close>

lemma root_entries:
  assumes v: "mounts v g spc roots img" and roots: "16 dvd unat roots"
    and room: "unat (fg_root_lba g) + unat roots div 16 < 4294967296" "(unat (fg_root_lba g) + unat roots div 16) * 512 \<le> length img"
    and es: "\<forall>s\<in>set es. live s" "length es \<le> unat roots"
      "slice (unat (fg_root_lba g) * 512) (32 * unat roots) img = concat (map slot_bytes es) @ replicate (32 * (unat roots - length es)) 0"
  shows "dir_entries v 0 = Some (map slot_entry es)"
proof (rule dir_slots)
  let ?n = "unat roots div 16"
  have n: "unat (fv_root_entries v div 16) = ?n" "fv_root_lba v = fg_root_lba g"
    using v by (simp_all add: mounts_def unat_div unsigned_ucast_eq take_bit_nat_eq_self_iff)
  then show "dir_sectors v 0 = Some (map (\<lambda>i. fg_root_lba g + of_nat i) [0..<?n])" by (simp add: dir_sectors_def)
  have "unat (fg_root_lba g + of_nat i) = unat (fg_root_lba g) + i" if "i < ?n" for i
    using that room(1) by (simp add: unat_word_ariths unat_of_nat)
  then show "map unat (map (\<lambda>i. fg_root_lba g + of_nat i) [0..<?n]) = map (\<lambda>i. unat (fg_root_lba g) + i) [0..<?n]" by simp
  have r: "16 * ?n = unat roots" using roots by simp
  show "length es \<le> 16 * ?n" unfolding r by (rule es(2))
  have "512 * ?n = 32 * unat roots" using r by linarith
  then show "slice (unat (fg_root_lba g) * 512) (512 * ?n) img = concat (map slot_bytes es) @ replicate (512 * ?n - 32 * length es) 0"
    using es(3) unfolding \<open>512 * ?n = _\<close> by (simp only: diff_mult_distrib2)
qed (use v es room in \<open>simp_all add: mounts_def\<close>)

text \<open>A file's bytes.\<close>

lemma those_map: "(\<And>x. x \<in> set xs \<Longrightarrow> f x = Some (h x)) \<Longrightarrow> those (map f xs) = Some (map h xs)"
  by (induction xs) auto

lemma read_extent:
  assumes v: "mounts v g spc roots img" and e: "extent g img c n"
    and tot: "unat (fg_data_lba g) + unat (fg_total_clusters g) * unat spc < 4294967296"
      "(unat (fg_data_lba g) + unat (fg_total_clusters g) * unat spc) * 512 \<le> length img"
    and ent: "fe_cluster ent = of_nat c" "unat (fe_size ent) \<le> n * bytes_per_cluster spc"
  shows "read_entry v ent = Some (slice (cluster_offset g spc c) (unat (fe_size ent)) img)"
proof -
  let ?s = "unat spc" and ?o = "cluster_offset g spc c"
  let ?f = "\<lambda>(c, s). bytes_at img ((unat (cluster_lba v c) + s) * 512) 512"
  have spc: "unat (fv_sec_per_clus v) = ?s" using v by (simp add: mounts_def unsigned_ucast_eq take_bit_nat_eq_self_iff)
  have c: "c - 2 + n \<le> unat (fg_total_clusters g)" using e by (auto simp: extent_def)
  have bytes: "n * bytes_per_cluster spc = n * ?s * 512" by (simp add: bytes_per_cluster_def kSectorSize_def)
  have "(c - 2 + n) * ?s \<le> unat (fg_total_clusters g) * ?s" using c by (rule mult_le_mono1)
  then have "(unat (fg_data_lba g) + (c - 2) * ?s + n * ?s) * 512 \<le> (unat (fg_data_lba g) + unat (fg_total_clusters g) * ?s) * 512"
    by (intro mult_le_mono1) (simp add: add_mult_distrib)
  then have room: "?o + n * ?s * 512 \<le> length img" using tot(2) by (simp add: cluster_offset_def kSectorSize_def)
  have at: "?f (of_nat (c + i), k) = Some (slice (?o + (i * ?s + k) * 512) 512 img)" if "i < n" "k < ?s" for i k
  proof -
    have "(unat (cluster_lba v (of_nat (c + i))) + k) * 512 = ?o + (i * ?s + k) * 512"
      using extent_lba [OF v e that(1) _ tot(1), of 0] by (simp add: cluster_offset_def kSectorSize_def add_mult_distrib)
    moreover have "i * ?s + k + 1 \<le> n * ?s"
    proof -
      have "(i + 1) * ?s \<le> n * ?s" using that(1) by (intro mult_le_mono1) simp
      then show ?thesis using that(2) by simp
    qed
    then have "(i * ?s + k + 1) * 512 \<le> n * ?s * 512" by (rule mult_le_mono1)
    then have "?o + (i * ?s + k) * 512 + 512 \<le> length img" using room by simp
    ultimately show ?thesis by (simp only: bytes_at_def prod.case if_True)
  qed
  have idx: "[c..<c + n] = map (\<lambda>i. c + i) [0..<n]" by (rule nth_equalityI) simp_all
  have "those (map ?f (concat (map (\<lambda>i. map (\<lambda>k. (of_nat (c + i), k)) [0..<?s]) [0..<n]))) =
      Some (map (the o ?f) (concat (map (\<lambda>i. map (\<lambda>k. (of_nat (c + i), k)) [0..<?s]) [0..<n])))"
  proof (rule those_map)
    fix x assume "x \<in> set (concat (map (\<lambda>i. map (\<lambda>k. (of_nat (c + i) :: u16, k)) [0..<?s]) [0..<n]))"
    then obtain i k where x: "x = (of_nat (c + i), k)" "i < n" "k < ?s" by (auto simp del: of_nat_add)
    show "?f x = Some ((the o ?f) x)" unfolding x(1) comp_def at [OF x(2,3)] by (simp only: option.sel)
  qed
  moreover have "map (the o ?f) (concat (map (\<lambda>i. map (\<lambda>k. (of_nat (c + i), k)) [0..<?s]) [0..<n])) =
      concat (map (\<lambda>i. map (\<lambda>k. slice (?o + (i * ?s + k) * 512) 512 img) [0..<?s]) [0..<n])"
    unfolding map_concat map_map comp_def
    by (intro arg_cong [where f = concat] map_cong refl) (simp only: at set_upt atLeastLessThan_iff option.sel)
  moreover have "\<dots> = map (\<lambda>i. slice (?o + i * 512) 512 img) [0..<n * ?s]" by (rule concat_rows)
  moreover have "concat (map (\<lambda>i. slice (?o + i * 512) 512 img) [0..<n * ?s]) = slice ?o (n * ?s * 512) img"
    by (rule slices_concat [OF room])
  moreover have "List.product (map of_nat [c..<c + n] :: u16 list) [0..<?s] = concat (map (\<lambda>i. map (\<lambda>k. (of_nat (c + i), k)) [0..<?s]) [0..<n])"
    unfolding product_concat_map idx by (simp add: comp_def)
  ultimately have "those (map ?f (List.product (map of_nat [c..<c + n]) [0..<?s])) = Some (map (\<lambda>i. slice (?o + i * 512) 512 img) [0..<n * ?s])"
    and parts: "concat (map (\<lambda>i. slice (?o + i * 512) 512 img) [0..<n * ?s]) = slice ?o (n * ?s * 512) img"
    by (simp_all only:)
  then have "read_entry v ent = Some (take (unat (fe_size ent)) (slice ?o (n * ?s * 512) img))"
    using v extent_chain [OF v e] unfolding read_entry_def ent(1) spc by (simp only: mounts_def bind.simps)
  then show ?thesis using ent(2) unfolding bytes by (simp add: slice_def min_def)
qed

section \<open>The boot sector read back\<close>

lemma boot_parses:
  assumes boot: "boot_sector g sectors spc roots nfats img0 = Some img1" "512 \<le> length img0"
    and same: "length img = length img1" "\<forall>i<512. img ! i = img1 ! i"
    and g: "fat_geometry payload_size sectors spc roots nfats = Some g" "fg_sectors_per_fat g < 65536" "16 dvd unat roots"
  shows "\<exists>v. parse_volume img = Some (Some v) \<and> mounts v g spc roots img"
proof -
  let ?fs = "boot_fields g sectors spc roots nfats"
  have len: "512 \<le> length img" using boot_length [OF boot(2,1)] same(1) boot(2) by simp
  have field: "slice off (length bs) img = bs" if "(off, bs) \<in> set ?fs" "off + length bs \<le> 512" for off bs
    using boot_field [OF boot(2,1) that(1)] slice_same [of off "length bs" img1 img] same that(2) len by auto
  have w16: "u16_at img off = Some w" if "slice off 2 img = le16 w" "off + 2 \<le> 512" for off w
    using that len by (intro u16_at_rd16) (simp_all add: rd16_slice rd16_le16)
  have w32: "u32_at img off = Some w" if "slice off 4 img = le32 w" "off + 4 \<le> 512" for off w
    using that len by (intro u32_at_rd32) (simp_all add: rd32_slice rd32_le32)
  have w8: "byte_at img off = Some w \<and> img ! off = w" if "slice off 1 img = [w]" "off + 1 \<le> 512" for off w
    using nth_slice [of off 1 img 0] that len by (simp add: byte_at_def)
  have "slice 0x0B 2 img = le16 (of_nat kSectorSize)" "slice 0x0D 1 img = [spc]" "slice 0x0E 2 img = le16 (fg_reserved_sectors g)"
    "slice 0x10 1 img = [nfats]" "slice 0x11 2 img = le16 roots" "slice 0x13 2 img = le16 (if sectors \<le> 0xFFFF then ucast sectors else 0)"
    "slice 0x16 2 img = le16 (ucast (fg_sectors_per_fat g))" "slice 0x20 4 img = le32 (if 0xFFFF < sectors then sectors else 0)"
    "slice 0x1FE 1 img = [0x55]" "slice 0x1FF 1 img = [0xAA]"
    using field [of 11 "le16 (of_nat kSectorSize)"] field [of 13 "[spc]"] field [of 14 "le16 (fg_reserved_sectors g)"] field [of 16 "[nfats]"]
      field [of 17 "le16 roots"] field [of 19 "le16 (if sectors \<le> 0xFFFF then ucast sectors else 0)"]
      field [of 22 "le16 (ucast (fg_sectors_per_fat g))"] field [of 32 "le32 (if 0xFFFF < sectors then sectors else 0)"]
      field [of 510 "[0x55]"] field [of 511 "[0xAA]"]
    by (simp_all add: boot_fields_def)
  then have f: "u16_at img 11 = Some 512" "byte_at img 13 = Some spc" "u16_at img 14 = Some (fg_reserved_sectors g)"
    "byte_at img 16 = Some nfats" "u16_at img 17 = Some roots" "u16_at img 19 = Some (if sectors \<le> 0xFFFF then ucast sectors else 0)"
    "u16_at img 22 = Some (ucast (fg_sectors_per_fat g))" "u32_at img 32 = Some (if 0xFFFF < sectors then sectors else 0)"
    "img ! 510 = 0x55" "img ! 511 = 0xAA"
    using w8 [of "0x0D" spc] w8 [of "0x10" nfats] w8 [of "0x1FE" "0x55"] w8 [of "0x1FF" "0xAA"]
    by (simp_all add: w16 w32 kSectorSize_def)
  have small: "(ucast (ucast x :: u16) :: u32) = x" if "x \<le> 0xFFFF" for x :: u32
    using that by (simp add: word_unat_eq_iff unsigned_ucast_eq take_bit_eq_mod word_le_nat_alt unat_mod)
  have tot: "(if (if sectors \<le> 0xFFFF then ucast sectors else 0 :: u16) \<noteq> 0 then ucast (if sectors \<le> 0xFFFF then ucast sectors else 0 :: u16)
      else if 0xFFFF < sectors then sectors else 0) = sectors"
    using small [of sectors] by (auto simp: not_le)
  have spf: "(ucast (ucast (fg_sectors_per_fat g) :: u16) :: u32) = fg_sectors_per_fat g"
    using g(2) by (intro small) (simp add: word_le_nat_alt word_less_nat_alt)
  have lay: "fg_fat_lba g = ucast (fg_reserved_sectors g)" "fg_root_lba g = fg_fat_lba g + ucast nfats * fg_sectors_per_fat g"
    "fg_data_lba g = fg_root_lba g + fg_root_dir_sectors g" "fg_total_clusters g = (sectors - fg_data_lba g) div ucast spc" "spc \<noteq> 0"
    "fg_root_dir_sectors g = of_nat ((unat roots * 32 + 511) div 512)"
    using g(1) by (auto simp: fat_geometry_def Let_def kSectorSize_def add.commute [of 511] split: if_splits)
  have "(unat roots * 32 + 511) div 512 = unat roots div 16" using g(3) by (auto elim!: dvdE)
  moreover have "unat roots div 16 < 4294967296" using unat16_less [of roots] by linarith
  ultimately have "unat (fg_root_dir_sectors g) = unat roots div 16" unfolding lay(6) by (simp only: unat_of_nat) simp
  moreover have "unat (ucast roots :: u32) = unat roots" by (simp add: unsigned_ucast_eq take_bit_nat_eq_self_iff)
  ultimately have rds: "fg_root_dir_sectors g = ucast roots div 16" by (simp add: word_unat_eq_iff unat_div)
  show ?thesis
    using len lay(5) unfolding parse_volume_def f tot [unfolded if_distrib] Let_def bind_simps
    by (simp add: f tot spf mounts_def lay(1-4) rds)
qed

end
