(* ===== verification/Fat16_Tree.thy ===== *)
theory Fat16_Tree
  imports Fat16_Volume
begin

text \<open>
  The first pass of the FAT16 builder (\<open>place_files\<close>, \<open>entry_counts\<close> and \<open>parents\<close> of \<^theory_text>\<open>Fat16\<close>): the list of
  directories it makes is a tree, every file is put in the directory its path names, every directory has a
  file below it, and each directory's entries are counted.
\<close>

section \<open>The tree\<close>

definition child :: "fat_dir list \<Rightarrow> nat \<Rightarrow> string \<Rightarrow> nat \<Rightarrow> bool" where
  "child dirs d n x \<longleftrightarrow> d < length dirs \<and> (n, x) \<in> set (fd_subdirs (dirs ! d))"

text \<open>Directories come after their parents, and have one; the names in a directory are different.\<close>

definition tree_ok :: "fat_dir list \<Rightarrow> bool" where
  "tree_ok dirs \<longleftrightarrow> dirs \<noteq> [] \<and>
     (\<forall>d n x. child dirs d n x \<longrightarrow> d < x \<and> x < length dirs) \<and>
     (\<forall>d n x y. child dirs d n x \<longrightarrow> child dirs d n y \<longrightarrow> x = y) \<and>
     (\<forall>d e m n x. child dirs d m x \<longrightarrow> child dirs e n x \<longrightarrow> d = e \<and> m = n) \<and>
     (\<forall>x. 0 < x \<longrightarrow> x < length dirs \<longrightarrow> (\<exists>d n. child dirs d n x)) \<and>
     (\<forall>d\<in>set dirs. distinct (fd_subdirs d) \<and> fd_entries d = [] \<and> fd_cluster d = 0)"

inductive reaches :: "fat_dir list \<Rightarrow> string list \<Rightarrow> nat \<Rightarrow> bool" for dirs where
  root: "reaches dirs [] 0"
| down: "reaches dirs p d \<Longrightarrow> child dirs d n x \<Longrightarrow> reaches dirs (p @ [n]) x"

inductive above :: "fat_dir list \<Rightarrow> nat \<Rightarrow> nat \<Rightarrow> bool" for dirs where
  self: "above dirs x x"
| under: "above dirs x d \<Longrightarrow> child dirs d n y \<Longrightarrow> above dirs x y"

lemma above_trans: "above dirs y z \<Longrightarrow> above dirs x y \<Longrightarrow> above dirs x z"
  by (induction rule: above.induct) (auto intro: above.intros)

lemma tree_okD:
  assumes "tree_ok dirs"
  shows "child dirs d n x \<Longrightarrow> d < x" "child dirs d n x \<Longrightarrow> x < length dirs" "child dirs d n x \<Longrightarrow> d < length dirs"
    "child dirs d n x \<Longrightarrow> child dirs d n y \<Longrightarrow> x = y"
    "child dirs d m x \<Longrightarrow> child dirs e n x \<Longrightarrow> d = e" "child dirs d m x \<Longrightarrow> child dirs e n x \<Longrightarrow> m = n"
    "0 < x \<Longrightarrow> x < length dirs \<Longrightarrow> \<exists>d n. child dirs d n x" "0 < length dirs"
    "d < length dirs \<Longrightarrow> distinct (fd_subdirs (dirs ! d))" "d < length dirs \<Longrightarrow> fd_entries (dirs ! d) = []"
    "d < length dirs \<Longrightarrow> fd_cluster (dirs ! d) = 0"
proof -
  have ne: "dirs \<noteq> []" and up: "\<forall>d n x. child dirs d n x \<longrightarrow> d < x \<and> x < length dirs"
    and names: "\<forall>d n x y. child dirs d n x \<longrightarrow> child dirs d n y \<longrightarrow> x = y"
    and one: "\<forall>d e m n x. child dirs d m x \<longrightarrow> child dirs e n x \<longrightarrow> d = e \<and> m = n"
    and all: "\<forall>x. 0 < x \<longrightarrow> x < length dirs \<longrightarrow> (\<exists>d n. child dirs d n x)"
    and new: "\<forall>d\<in>set dirs. distinct (fd_subdirs d) \<and> fd_entries d = [] \<and> fd_cluster d = 0"
    using assms unfolding tree_ok_def by - (elim conjE, assumption)+
  show "child dirs d n x \<Longrightarrow> d < x" "child dirs d n x \<Longrightarrow> x < length dirs" using up by blast+
  show "child dirs d n x \<Longrightarrow> d < length dirs" by (simp add: child_def)
  show "child dirs d n x \<Longrightarrow> child dirs d n y \<Longrightarrow> x = y" using names by blast
  show "child dirs d m x \<Longrightarrow> child dirs e n x \<Longrightarrow> d = e" "child dirs d m x \<Longrightarrow> child dirs e n x \<Longrightarrow> m = n" using one by blast+
  show "0 < x \<Longrightarrow> x < length dirs \<Longrightarrow> \<exists>d n. child dirs d n x" using all by blast
  show "0 < length dirs" using ne by simp
  show "d < length dirs \<Longrightarrow> distinct (fd_subdirs (dirs ! d))" "d < length dirs \<Longrightarrow> fd_entries (dirs ! d) = []"
    "d < length dirs \<Longrightarrow> fd_cluster (dirs ! d) = 0" using new by simp_all
qed

lemma reaches_unique:
  assumes "tree_ok dirs"
  shows "reaches dirs p x \<Longrightarrow> reaches dirs q x \<Longrightarrow> p = q"
proof (induction arbitrary: q rule: reaches.induct)
  case root
  then show ?case using tree_okD(1) [OF assms] by (auto elim: reaches.cases)
next
  case (down p d n x)
  from down.prems show ?case
  proof cases
    case root
    then show ?thesis using down.hyps(2) tree_okD(1) [OF assms] by blast
  next
    case (down q' d' n')
    then show ?thesis using down.IH [of q'] tree_okD(5,6) [OF assms down.hyps(2)] \<open>child dirs d n x\<close>
      by (metis tree_okD(5,6) [OF assms])
  qed
qed

lemma reaches_fun:
  assumes "tree_ok dirs"
  shows "reaches dirs p x \<Longrightarrow> reaches dirs p y \<Longrightarrow> x = y"
proof (induction arbitrary: y rule: reaches.induct)
  case root
  then show ?case by (auto elim: reaches.cases)
next
  case (down p d n x)
  from down.prems show ?case
    by cases (use down.IH down.hyps(2) tree_okD(4) [OF assms] in blast)+
qed

lemma reaches_exists:
  assumes "tree_ok dirs"
  shows "x < length dirs \<Longrightarrow> \<exists>p. reaches dirs p x"
proof (induction x rule: less_induct)
  case (less x)
  show ?case
  proof (cases "x = 0")
    case False
    then obtain d n where "child dirs d n x" using tree_okD(7) [OF assms] less.prems by blast
    then show ?thesis using less.IH [of d] tree_okD(1,3) [OF assms] by (blast intro: reaches.down)
  qed (auto intro: reaches.root)
qed

text \<open>The path of a directory starts that of every directory below it.\<close>

lemma above_path: "above dirs x d \<Longrightarrow> reaches dirs p x \<Longrightarrow> \<exists>q. reaches dirs (p @ q) d"
proof (induction rule: above.induct)
  case (self x)
  then show ?case by (auto intro: exI [of _ "[]"])
next
  case (under x d n y)
  then obtain q where "reaches dirs (p @ q) d" by blast
  then have "reaches dirs (p @ q @ [n]) y" using reaches.down [OF _ under.hyps(2)] by fastforce
  then show ?case by blast
qed

section \<open>Placing a file\<close>

lemma fold_child:
  "(\<And>i. (part, i) \<in> set xs \<Longrightarrow> i = x) \<Longrightarrow> (part, x) \<in> set xs \<Longrightarrow> fold (\<lambda>(n, i) c. if n = part then i else c) xs c = x"
  "(\<And>i. (part, i) \<notin> set xs) \<Longrightarrow> fold (\<lambda>(n, i) c. if n = part then i else c) xs c = c"
proof -
  assume *: "\<And>i. (part, i) \<in> set xs \<Longrightarrow> i = x"
  have "c = x \<or> (part, x) \<in> set xs \<Longrightarrow> fold (\<lambda>(n, i) c. if n = part then i else c) xs c = x"
    using * by (induction xs arbitrary: c) (auto split: prod.splits)
  then show "(part, x) \<in> set xs \<Longrightarrow> fold (\<lambda>(n, i) c. if n = part then i else c) xs c = x" by blast
next
  assume "\<And>i. (part, i) \<notin> set xs"
  then show "fold (\<lambda>(n, i) c. if n = part then i else c) xs c = c"
    by (induction xs arbitrary: c) (auto split: prod.splits)
qed

lemma find_child_child:
  assumes "tree_ok dirs" "d < length dirs"
  shows "find_child part (dirs ! d) = x \<and> x \<noteq> 0 \<longleftrightarrow> child dirs d part x"
proof (cases "\<exists>y. child dirs d part y")
  case True
  then obtain y where y: "child dirs d part y" by blast
  then have "find_child part (dirs ! d) = y"
    unfolding find_child_def using tree_okD(4) [OF assms(1)] by (intro fold_child(1)) (auto simp: child_def)
  then show ?thesis using y tree_okD(1,4) [OF assms(1)] by fastforce
next
  case False
  then have "find_child part (dirs ! d) = 0"
    unfolding find_child_def using assms(2) by (intro fold_child(2)) (auto simp: child_def)
  then show ?thesis using False by auto
qed

definition add_child :: "nat \<Rightarrow> string \<Rightarrow> fat_dir list \<Rightarrow> fat_dir list" where
  "add_child d part dirs = dirs[d := (dirs ! d)\<lparr>fd_subdirs := fd_subdirs (dirs ! d) @ [(part, length dirs)]\<rparr>] @ [new_dir]"

lemma length_add_child [simp]: "length (add_child d part dirs) = Suc (length dirs)"
  by (simp add: add_child_def)

lemma child_add_child:
  assumes "d < length dirs"
  shows "child (add_child d part dirs) e n x \<longleftrightarrow> child dirs e n x \<or> e = d \<and> n = part \<and> x = length dirs"
  using assms by (cases "e < length dirs") (auto simp: child_def add_child_def nth_append nth_list_update new_dir_def less_Suc_eq)

lemma tree_ok_add_child:
  assumes "tree_ok dirs" "d < length dirs" "\<And>x. \<not> child dirs d part x"
  shows "tree_ok (add_child d part dirs)"
proof -
  note ok = tree_okD [OF assms(1)]
  have fresh: "\<not> child dirs e n (length dirs)" for e n using ok(2) by blast
  show ?thesis
    unfolding tree_ok_def child_add_child [OF assms(2)] length_add_child
  proof (intro conjI allI impI)
    show "add_child d part dirs \<noteq> []" by (simp add: add_child_def)
    show "\<forall>e\<in>set (add_child d part dirs). distinct (fd_subdirs e) \<and> fd_entries e = [] \<and> fd_cluster e = 0"
    proof
      fix e assume "e \<in> set (add_child d part dirs)"
      then consider "e \<in> set dirs" | "e = new_dir" | "e = (dirs ! d)\<lparr>fd_subdirs := fd_subdirs (dirs ! d) @ [(part, length dirs)]\<rparr>"
        unfolding add_child_def using set_update_subset_insert by fastforce
      then show "distinct (fd_subdirs e) \<and> fd_entries e = [] \<and> fd_cluster e = 0"
      proof cases
        case 1
        then show ?thesis using assms(1) by (simp add: tree_ok_def)
      next
        case 3
        then show ?thesis using ok(9,10,11) [OF assms(2)] fresh assms(2) by (auto simp: child_def)
      qed (simp add: new_dir_def)
    qed
  qed (use assms(2,3) ok(1,2,3,4,5,6,7) fresh in \<open>auto simp: less_Suc_eq\<close>)
qed

lemma mono_reaches: "reaches dirs p x \<Longrightarrow> (\<And>e n y. child dirs e n y \<Longrightarrow> child dirs' e n y) \<Longrightarrow> reaches dirs' p x"
  by (induction rule: reaches.induct) (auto intro: reaches.intros)

lemma mono_above: "above dirs x y \<Longrightarrow> (\<And>e n y. child dirs e n y \<Longrightarrow> child dirs' e n y) \<Longrightarrow> above dirs' x y"
  by (induction rule: above.induct) (auto intro: above.intros)

text \<open>The parts of a name, and the directory and the leaf they say.\<close>

fun name_parts :: "string \<Rightarrow> string list" where
  "name_parts [] = [[]]"
| "name_parts (c # s) = (if c = CHR ''/'' then [] # name_parts s
     else case name_parts s of [] \<Rightarrow> [[c]] | p # ps \<Rightarrow> (c # p) # ps)"

definition dir_path :: "string \<Rightarrow> string list" where
  "dir_path name = map upper (filter (\<lambda>p. p \<noteq> []) (butlast (name_parts name)))"

definition leaf_name :: "string \<Rightarrow> string" where
  "leaf_name name = last (name_parts name)"

lemma name_parts_ne [simp]: "name_parts s \<noteq> []"
  by (induction s) (auto split: list.splits)

lemma name_parts_split:
  "name_parts s = (if CHR ''/'' \<in> set s
     then takeWhile (\<lambda>c. c \<noteq> CHR ''/'') s # name_parts (tl (dropWhile (\<lambda>c. c \<noteq> CHR ''/'') s)) else [s])"
  by (induction s) (auto split: list.splits)

lemma dir_path_step:
  assumes "CHR ''/'' \<in> set s"
  defines "part \<equiv> upper (takeWhile (\<lambda>c. c \<noteq> CHR ''/'') s)" and "rest \<equiv> tl (dropWhile (\<lambda>c. c \<noteq> CHR ''/'') s)"
  shows "dir_path s = (if part = [] then dir_path rest else part # dir_path rest)" "leaf_name s = leaf_name rest"
proof -
  have "name_parts s = takeWhile (\<lambda>c. c \<noteq> CHR ''/'') s # name_parts rest" using name_parts_split [of s] assms(1) by (simp add: rest_def)
  then show "dir_path s = (if part = [] then dir_path rest else part # dir_path rest)" "leaf_name s = leaf_name rest"
    by (simp_all add: dir_path_def leaf_name_def part_def upper_def)
qed

lemma dir_path_leaf: "CHR ''/'' \<notin> set s \<Longrightarrow> dir_path s = [] \<and> leaf_name s = s"
  using name_parts_split [of s] by (simp add: dir_path_def leaf_name_def)

text \<open>What placing a file does to the tree.\<close>

definition grows :: "fat_dir list \<Rightarrow> nat \<Rightarrow> fat_dir list \<Rightarrow> nat \<Rightarrow> bool" where
  "grows dirs d dirs' d' \<longleftrightarrow> tree_ok dirs' \<and> length dirs \<le> length dirs' \<and> d' < length dirs' \<and>
     (\<forall>e n x. child dirs e n x \<longrightarrow> child dirs' e n x) \<and> above dirs' d d' \<and>
     (\<forall>x. length dirs \<le> x \<longrightarrow> x < length dirs' \<longrightarrow> above dirs' x d')"

lemma growsD:
  assumes "grows dirs d dirs' d'"
  shows "tree_ok dirs'" "length dirs \<le> length dirs'" "d' < length dirs'" "child dirs e n x \<Longrightarrow> child dirs' e n x" "above dirs' d d'"
    "length dirs \<le> x \<Longrightarrow> x < length dirs' \<Longrightarrow> above dirs' x d'"
  using assms by (simp_all add: grows_def)

lemma grows_step:
  assumes "grows dirs1 d1 dirs' d'" "length dirs \<le> length dirs1" "child dirs1 d n d1"
    and "\<And>e n x. child dirs e n x \<Longrightarrow> child dirs1 e n x" "\<And>x. length dirs \<le> x \<Longrightarrow> x < length dirs1 \<Longrightarrow> x = d1"
  shows "grows dirs d dirs' d'"
proof -
  note g = growsD [OF assms(1)]
  have "above dirs' d d1" using g(4) [OF assms(3)] by (auto intro: above.intros)
  then have "above dirs' d d'" using above_trans [OF g(5)] by blast
  moreover have "above dirs' x d'" if "length dirs \<le> x" "x < length dirs'" for x
    using that assms(5) [of x] g(5,6) by (cases "x < length dirs1") auto
  ultimately show ?thesis unfolding grows_def using g(1-4) assms(2,4) by (meson le_trans)
qed

lemma place_file_tree:
  "tree_ok dirs \<Longrightarrow> d < length dirs \<Longrightarrow> reaches dirs p d \<Longrightarrow> place_file d rest dirs = ((d', leaf), dirs') \<Longrightarrow>
   grows dirs d dirs' d' \<and> reaches dirs' (p @ dir_path rest) d' \<and> leaf = leaf_name rest"
proof (induction d rest dirs arbitrary: p rule: place_file.induct)
  case (1 d rest dirs)
  let ?part = "upper (takeWhile (\<lambda>c. c \<noteq> CHR ''/'') rest)" and ?rest = "tl (dropWhile (\<lambda>c. c \<noteq> CHR ''/'') rest)"
  let ?child = "find_child ?part (dirs ! d)"
  show ?case
  proof (cases "CHR ''/'' \<in> set rest")
    case False
    then have "d' = d" "leaf = rest" "dirs' = dirs" using "1.prems"(4) by (simp_all add: place_file.simps)
    then show ?thesis using "1.prems"(1-3) dir_path_leaf [OF False] by (auto simp: grows_def intro: above.self)
  next
    case slash: True
    note step = dir_path_step [OF slash]
    have place: "place_file d rest dirs = (if ?part = [] then place_file d ?rest dirs
        else if ?child = 0 then place_file (length dirs) ?rest (add_child d ?part dirs) else place_file ?child ?rest dirs)"
      using slash by (subst place_file.simps) (simp add: Let_def add_child_def)
    show ?thesis
    proof (cases "?part = []")
      case True
      then show ?thesis
        using "1.IH"(1) [OF _ refl refl True "1.prems"(1-3)] slash "1.prems"(4) step unfolding place by simp
    next
      case part: False
      show ?thesis
      proof (cases "?child = 0")
        case True
        let ?dirs = "add_child d ?part dirs"
        have "\<not> child dirs d ?part x" for x using find_child_child [OF "1.prems"(1,2), of ?part x] True by auto
        then have ok: "tree_ok ?dirs" using tree_ok_add_child "1.prems"(1,2) by blast
        have place_eq: "place_file (length dirs) ?rest ?dirs = ((d', leaf), dirs')" using place "1.prems"(4) part True by simp
        have ch: "child ?dirs d ?part (length dirs)" "\<And>e n x. child dirs e n x \<Longrightarrow> child ?dirs e n x"
          using child_add_child [OF "1.prems"(2)] by blast+
        have "reaches ?dirs (p @ [?part]) (length dirs)" using reaches.down [OF mono_reaches [OF "1.prems"(3) ch(2)] ch(1)] by blast
        then have rec: "grows ?dirs (length dirs) dirs' d' \<and> reaches dirs' ((p @ [?part]) @ dir_path ?rest) d' \<and> leaf = leaf_name ?rest"
          using slash place_eq by (intro "1.IH"(2) [folded add_child_def, OF _ refl refl part refl True ok]) simp_all
        have "grows dirs d dirs' d'" by (rule grows_step [OF conjunct1 [OF rec] _ ch]) simp_all
        then show ?thesis using rec step part by simp
      next
        case False
        then have ch: "child dirs d ?part ?child" using find_child_child [OF "1.prems"(1,2), of ?part ?child] by simp
        have rec: "grows dirs ?child dirs' d' \<and> reaches dirs' ((p @ [?part]) @ dir_path ?rest) d' \<and> leaf = leaf_name ?rest"
          using "1.IH"(3) [OF _ refl refl part refl False "1.prems"(1) tree_okD(2) [OF "1.prems"(1) ch] reaches.down [OF "1.prems"(3) ch]]
            slash "1.prems"(4) part False unfolding place by simp
        have "grows dirs d dirs' d'" by (rule grows_step [OF conjunct1 [OF rec] _ ch]) simp_all
        then show ?thesis using rec step part by simp
      qed
    qed
  qed
qed

lemma tree_ok_new: "tree_ok [new_dir]"
  by (simp add: tree_ok_def child_def new_dir_def)

text \<open>All the files.\<close>

definition placed_ok :: "fat16_file list \<Rightarrow> (nat \<times> string) list \<Rightarrow> fat_dir list \<Rightarrow> bool" where
  "placed_ok files placed dirs \<longleftrightarrow> tree_ok dirs \<and> length placed = length files \<and>
     (\<forall>i<length files. fst (placed ! i) < length dirs \<and> reaches dirs (dir_path (ff_name (files ! i))) (fst (placed ! i)) \<and>
        snd (placed ! i) = leaf_name (ff_name (files ! i))) \<and>
     (\<forall>x. 0 < x \<longrightarrow> x < length dirs \<longrightarrow> (\<exists>i<length files. above dirs x (fst (placed ! i))))"

lemma placed_okD:
  assumes "placed_ok files placed dirs"
  shows "tree_ok dirs" "length placed = length files" "i < length files \<Longrightarrow> fst (placed ! i) < length dirs"
    "i < length files \<Longrightarrow> reaches dirs (dir_path (ff_name (files ! i))) (fst (placed ! i))"
    "i < length files \<Longrightarrow> snd (placed ! i) = leaf_name (ff_name (files ! i))"
    "0 < x \<Longrightarrow> x < length dirs \<Longrightarrow> \<exists>i<length files. above dirs x (fst (placed ! i))"
  using assms by (simp_all add: placed_ok_def)

lemma place_files_ok: "placed_ok files (fst (place_files files)) (snd (place_files files))"
proof (induction files rule: rev_induct)
  case Nil
  then show ?case by (simp add: place_files_def placed_ok_def tree_ok_new)
next
  case (snoc f files)
  obtain placed dirs where st: "place_files files = (placed, dirs)" by force
  obtain d leaf dirs' where f: "place_file 0 (ff_name f) dirs = ((d, leaf), dirs')" by (metis surj_pair)
  have ok: "placed_ok files placed dirs" using snoc by (simp add: st)
  then have "grows dirs 0 dirs' d \<and> reaches dirs' ([] @ dir_path (ff_name f)) d \<and> leaf = leaf_name (ff_name f)"
    using tree_okD(8) by (intro place_file_tree [OF _ _ reaches.root f]) (auto simp: placed_ok_def)
  then have g: "grows dirs 0 dirs' d" "reaches dirs' (dir_path (ff_name f)) d" "leaf = leaf_name (ff_name f)" by simp_all
  note gr = growsD [OF g(1)]
  have next_state: "place_files (files @ [f]) = (placed @ [(d, leaf)], dirs')"
    using st f by (simp add: place_files_def)
  have "\<exists>i<length (files @ [f]). above dirs' x (fst ((placed @ [(d, leaf)]) ! i))" if pos: "0 < x" "x < length dirs'" for x
  proof (cases "x < length dirs")
    case True
    then obtain i where i: "i < length files" "above dirs x (fst (placed ! i))"
      using placed_okD(6) [OF ok pos(1)] by blast
    then show ?thesis using mono_above [OF i(2) gr(4)] placed_okD(2) [OF ok] by (intro exI [of _ i]) (simp add: nth_append)
  next
    case False
    then show ?thesis using gr(6) pos(2) placed_okD(2) [OF ok] by (intro exI [of _ "length files"]) (simp add: nth_append)
  qed
  moreover have "fst ((placed @ [(d, leaf)]) ! i) < length dirs' \<and>
      reaches dirs' (dir_path (ff_name ((files @ [f]) ! i))) (fst ((placed @ [(d, leaf)]) ! i)) \<and>
      snd ((placed @ [(d, leaf)]) ! i) = leaf_name (ff_name ((files @ [f]) ! i))" if "i < length (files @ [f])" for i
  proof (cases "i = length files")
    case True
    then show ?thesis using g gr(3) placed_okD(2) [OF ok] by (simp add: nth_append)
  next
    case False
    then have i: "i < length files" using that by simp
    then show ?thesis
      using placed_okD(2-5) [OF ok] mono_reaches [OF placed_okD(4) [OF ok i] gr(4)] less_le_trans [OF placed_okD(3) [OF ok i] gr(2)] i by (simp add: nth_append)
  qed
  ultimately show ?case using gr(1) placed_okD(2) [OF ok] unfolding next_state placed_ok_def fst_conv snd_conv by simp
qed

section \<open>Parents and counts\<close>

lemma length_stores: "length (fold (\<lambda>(x, d) ps. ps[x := d]) as ps) = length ps"
  by (induction as arbitrary: ps) (auto split: prod.splits)

lemma nth_stores:
  "(\<And>e. (x, e) \<in> set as \<Longrightarrow> e = d) \<Longrightarrow> x < length ps \<Longrightarrow> (x, d) \<in> set as \<or> ps ! x = d \<Longrightarrow> fold (\<lambda>(x, d) ps. ps[x := d]) as ps ! x = d"
proof (induction as arbitrary: ps)
  case (Cons a as)
  obtain y e where a: "a = (y, e)" by force
  have "e = d" if "x = y" using Cons.prems(1) [of e] that by (simp add: a)
  then have "(x, d) \<in> set as \<or> ps[y := e] ! x = d" using Cons.prems(2,3) by (cases "x = y") (auto simp: a)
  moreover have "z = d" if "(x, z) \<in> set as" for z using Cons.prems(1) [of z] that by simp
  ultimately have "fold (\<lambda>(x, d) ps. ps[x := d]) as (ps[y := e]) ! x = d" using Cons.prems(2) by (intro Cons.IH) simp_all
  then show ?case by (simp add: a)
qed simp

lemma parents_stores:
  "parents dirs = fold (\<lambda>(x, d) ps. ps[x := d]) (concat (map (\<lambda>d. map (\<lambda>(_, x). (x, d)) (fd_subdirs (dirs ! d))) [0..<length dirs]))
     (replicate (length dirs) 0)"
proof -
  have inner: "fold (\<lambda>(_, x) ps. ps[x := d]) xs ps = fold (\<lambda>(x, d) ps. ps[x := d]) (map (\<lambda>(_, x). (x, d)) xs) ps"
    for d :: nat and xs :: "(string \<times> nat) list" and ps
    by (induction xs arbitrary: ps) (auto split: prod.splits)
  have "fold (\<lambda>d ps. fold (\<lambda>(_, x) ps. ps[x := d]) (fd_subdirs (dirs ! d)) ps) ds ps =
      fold (\<lambda>(x, d) ps. ps[x := d]) (concat (map (\<lambda>d. map (\<lambda>(_, x). (x, d)) (fd_subdirs (dirs ! d))) ds)) ps" for ds ps
    by (induction ds arbitrary: ps) (simp_all add: inner)
  then show ?thesis by (simp add: parents_def)
qed

lemma parents_ok:
  assumes "tree_ok dirs"
  shows "length (parents dirs) = length dirs" "child dirs d n x \<Longrightarrow> parents dirs ! x = d" "parents dirs ! 0 = 0"
proof -
  let ?as = "concat (map (\<lambda>d. map (\<lambda>(_, x). (x, d)) (fd_subdirs (dirs ! d))) [0..<length dirs])"
  have as: "(x, d) \<in> set ?as \<longleftrightarrow> (\<exists>n. child dirs d n x)" for x d
    by (auto simp: child_def image_iff) force
  note ok = tree_okD [OF assms]
  show "length (parents dirs) = length dirs" unfolding parents_stores by (simp add: length_stores)
  show "parents dirs ! x = d" if "child dirs d n x"
    unfolding parents_stores using as ok(2,5) that by (intro nth_stores) auto
  have "(0, e) \<notin> set ?as" for e using as ok(1) by blast
  then show "parents dirs ! 0 = 0" unfolding parents_stores using ok(8) by (intro nth_stores) auto
qed

lemma parent_child:
  assumes "tree_ok dirs" "0 < x" "x < length dirs"
  shows "\<exists>n. child dirs (parents dirs ! x) n x" "parents dirs ! x < x"
proof -
  obtain d n where "child dirs d n x" using tree_okD(7) [OF assms] by blast
  then show "\<exists>n. child dirs (parents dirs ! x) n x" "parents dirs ! x < x"
    using parents_ok(2) [OF assms(1)] tree_okD(1) [OF assms(1)] by auto
qed

text \<open>What a directory's entries are besides its dots.\<close>

definition files_in :: "(nat \<times> string) list \<Rightarrow> nat \<Rightarrow> nat list" where
  "files_in placed d = filter (\<lambda>i. fst (placed ! i) = d) [0..<length placed]"

lemma files_in_snoc: "files_in (placed @ [p]) d = files_in placed d @ (if fst p = d then [length placed] else [])"
  by (auto simp: files_in_def nth_append intro!: filter_cong)

lemma counts_ok:
  assumes "d < length dirs" "\<forall>p\<in>set placed. fst p < length dirs"
  shows "length (entry_counts placed dirs) = length dirs"
    "entry_counts placed dirs ! d = length (fd_subdirs (dirs ! d)) + (if d = 0 then 0 else 2) + length (files_in placed d)"
proof -
  let ?base = "map (\<lambda>d. length (fd_subdirs (dirs ! d)) + (if d = 0 then 0 else 2)) [0..<length dirs]"
  have "length (fold (\<lambda>(d, _) counts. counts[d := counts ! d + 1]) placed ?base) = length dirs \<and>
    fold (\<lambda>(d, _) counts. counts[d := counts ! d + 1]) placed ?base ! d = ?base ! d + length (files_in placed d)"
    using assms(2)
  proof (induction placed rule: rev_induct)
    case Nil
    then show ?case by (simp add: files_in_def)
  next
    case (snoc p placed)
    obtain e leaf where "p = (e, leaf)" by force
    then show ?case using snoc assms(1) by (auto simp: files_in_snoc nth_list_update)
  qed
  then show "length (entry_counts placed dirs) = length dirs"
    "entry_counts placed dirs ! d = length (fd_subdirs (dirs ! d)) + (if d = 0 then 0 else 2) + length (files_in placed d)"
    using assms(1) by (simp_all add: entry_counts_def)
qed

text \<open>The root has at most one entry per file: each of its directories has a file below it, of which the path begins with the
  directory's name.\<close>

lemma root_bound:
  assumes "placed_ok files placed dirs"
  shows "entry_counts placed dirs ! 0 \<le> length files"
proof -
  note ok = placed_okD [OF assms] and tree = tree_okD [OF placed_okD(1) [OF assms]]
  let ?subs = "fd_subdirs (dirs ! 0)" and ?below = "{i. i < length files \<and> fst (placed ! i) \<noteq> 0}"
  have sub: "child dirs 0 (fst c) (snd c)" if "c \<in> set ?subs" for c using that tree(8) by (simp add: child_def)
  have "fst c \<in> (\<lambda>i. hd (dir_path (ff_name (files ! i)))) ` ?below" if c: "c \<in> set ?subs" for c
  proof -
    have x: "0 < snd c" "snd c < length dirs" using tree(1,2) [OF sub [OF c]] by simp_all
    obtain i where i: "i < length files" "above dirs (snd c) (fst (placed ! i))" using ok(6) [OF x] by blast
    have "reaches dirs [fst c] (snd c)" using reaches.down [OF reaches.root sub [OF c]] by simp
    then obtain q where "reaches dirs ([fst c] @ q) (fst (placed ! i))" using above_path [OF i(2)] by blast
    then have q: "dir_path (ff_name (files ! i)) = [fst c] @ q" by (rule reaches_unique [OF ok(1) ok(4) [OF i(1)]])
    have "fst (placed ! i) \<noteq> 0"
    proof
      assume "fst (placed ! i) = 0"
      then have "reaches dirs (dir_path (ff_name (files ! i))) 0" using ok(4) [OF i(1)] by simp
      then have "dir_path (ff_name (files ! i)) = []" using reaches.root by (rule reaches_unique [OF ok(1)])
      then show False using q by simp
    qed
    then show ?thesis using i(1) q by (intro image_eqI [of _ _ i]) simp_all
  qed
  then have "fst ` set ?subs \<subseteq> (\<lambda>i. hd (dir_path (ff_name (files ! i)))) ` ?below" by blast
  then have "card (fst ` set ?subs) \<le> card ((\<lambda>i. hd (dir_path (ff_name (files ! i)))) ` ?below)" by (intro card_mono) simp_all
  also have "\<dots> \<le> card ?below" by (intro card_image_le) simp
  finally have "card (fst ` set ?subs) \<le> card ?below" .
  moreover have "inj_on fst (set ?subs)"
    using sub tree(4) by (intro inj_onI prod_eqI) metis+
  then have "card (fst ` set ?subs) = length ?subs" using distinct_card [OF tree(9) [OF tree(8)]] by (simp add: card_image)
  moreover have "length (files_in placed 0) = card {i. i < length files \<and> fst (placed ! i) = 0}"
  proof -
    have "set (files_in placed 0) = {i. i < length files \<and> fst (placed ! i) = 0}" using ok(2) by (auto simp: files_in_def)
    moreover have "distinct (files_in placed 0)" by (simp add: files_in_def)
    ultimately show ?thesis by (metis distinct_card)
  qed
  moreover have "card ?below + card {i. i < length files \<and> fst (placed ! i) = 0} = length files"
  proof -
    have "?below \<union> {i. i < length files \<and> fst (placed ! i) = 0} = {..<length files}" by auto
    moreover have "card (?below \<union> {i. i < length files \<and> fst (placed ! i) = 0}) = card ?below + card {i. i < length files \<and> fst (placed ! i) = 0}"
      by (intro card_Un_disjoint) auto
    ultimately show ?thesis by simp
  qed
  moreover have "\<forall>p\<in>set placed. fst p < length dirs" using ok(2,3) by (metis in_set_conv_nth)
  ultimately show ?thesis using counts_ok(2) [OF tree(8)] by simp
qed

end
