(* ===== verification/Fat16_Dirs.thy ===== *)
theory Fat16_Dirs
  imports Fat16_Reader Fat16_Tree "HOL-Library.Multiset"
begin

text \<open>
  The second pass of the FAT16 builder: the clusters of the directories, their dot entries, the linking of
  each directory into its parent, and the files. What each pass leaves is said in terms of a plan: where every
  directory and every file goes, and which slots a directory has in the end.
\<close>

section \<open>The plan\<close>

record plan =
  pl_spc :: u8
  pl_files :: "fat16_file list"
  pl_placed :: "(nat \<times> string) list"
  pl_dirs :: "fat_dir list"

definition plan_ok :: "plan \<Rightarrow> bool" where
  "plan_ok P \<longleftrightarrow> 0 < pl_spc P \<and> placed_ok (pl_files P) (pl_placed P) (pl_dirs P)"

definition n_dirs :: "plan \<Rightarrow> nat" where
  "n_dirs P = length (pl_dirs P)"

definition pl_counts :: "plan \<Rightarrow> nat list" where
  "pl_counts P = entry_counts (pl_placed P) (pl_dirs P)"

definition pl_parent :: "plan \<Rightarrow> nat \<Rightarrow> nat" where
  "pl_parent P x = parents (pl_dirs P) ! x"

text \<open>The clusters of a directory and of a file: how many and from which.\<close>

definition dir_need :: "plan \<Rightarrow> nat \<Rightarrow> nat" where
  "dir_need P d = clusters_for (pl_spc P) (pl_counts P ! d * 32)"

definition dir_at :: "plan \<Rightarrow> nat \<Rightarrow> nat" where
  "dir_at P d = (if d = 0 then 0 else 2 + sum_list (map (dir_need P) [1..<d]))"

definition file_need :: "plan \<Rightarrow> nat \<Rightarrow> nat" where
  "file_need P i = need (pl_spc P) (pl_files P ! i)"

definition file_at :: "plan \<Rightarrow> nat \<Rightarrow> nat" where
  "file_at P i = 2 + sum_list (map (dir_need P) [1..<n_dirs P]) + sum_list (map (file_need P) [0..<i])"

definition plan_end :: "plan \<Rightarrow> nat" where
  "plan_end P = file_at P (length (pl_files P))"

text \<open>The slots of a directory.\<close>

definition dots :: "plan \<Rightarrow> nat \<Rightarrow> slot list" where
  "dots P d = (if d = 0 then [] else [(''.'', 0x10, of_nat (dir_at P d), 0), (''..'', 0x10, of_nat (dir_at P (pl_parent P d)), 0)])"

definition sub_slot :: "plan \<Rightarrow> string \<times> nat \<Rightarrow> slot" where
  "sub_slot P c = (fst c, 0x10, of_nat (dir_at P (snd c)), 0)"

definition file_slot :: "plan \<Rightarrow> nat \<Rightarrow> slot" where
  "file_slot P i = (snd (pl_placed P ! i), 0x20, if file_need P i = 0 then 0 else of_nat (file_at P i),
     of_nat (length (ff_data (pl_files P ! i))))"

text \<open>With these directories linked and the first \<open>k\<close> files added.\<close>

definition slots_after :: "plan \<Rightarrow> nat \<Rightarrow> bool list \<Rightarrow> nat \<Rightarrow> slot multiset" where
  "slots_after P k linked d = mset (dots P d) +
     mset (map (sub_slot P) (filter (\<lambda>c. linked ! snd c) (fd_subdirs (pl_dirs P ! d)))) +
     mset (map (file_slot P) (filter (\<lambda>i. i < k) (files_in (pl_placed P) d)))"

definition dir_list :: "fat_dir list \<Rightarrow> (nat \<Rightarrow> nat) \<Rightarrow> (nat \<Rightarrow> slot list) \<Rightarrow> fat_dir list" where
  "dir_list dirs at es = map (\<lambda>d. \<lparr>fd_entries = concat (map slot_bytes (es d)), fd_cluster = of_nat (at d),
     fd_subdirs = fd_subdirs (dirs ! d)\<rparr>) [0..<length dirs]"

lemma plan_okD:
  assumes "plan_ok P"
  shows "0 < pl_spc P" "placed_ok (pl_files P) (pl_placed P) (pl_dirs P)" "tree_ok (pl_dirs P)" "0 < n_dirs P"
  using assms placed_okD(1) tree_okD(8) by (auto simp: plan_ok_def n_dirs_def)

lemma dir_list_simps [simp]:
  "length (dir_list dirs at es) = length dirs"
  "d < length dirs \<Longrightarrow> fd_cluster (dir_list dirs at es ! d) = of_nat (at d)"
  "d < length dirs \<Longrightarrow> fd_subdirs (dir_list dirs at es ! d) = fd_subdirs (dirs ! d)"
  "d < length dirs \<Longrightarrow> fd_entries (dir_list dirs at es ! d) = concat (map slot_bytes (es d))"
  by (simp_all add: dir_list_def)

lemma add_slot:
  assumes "fb_dirs st = dir_list dirs at es" "d < length dirs"
  shows "update_dir d (add_entry name attr c sz) st =
    Some (st\<lparr>fb_dirs := dir_list dirs at (es(d := es d @ [(name, attr, c, sz)]))\<rparr>)"
proof -
  have "(dir_list dirs at es)[d := (dir_list dirs at es ! d)\<lparr>fd_entries := fd_entries (dir_list dirs at es ! d) @ entry_bytes name attr c sz\<rparr>] =
      dir_list dirs at (es(d := es d @ [(name, attr, c, sz)]))"
    using assms(2) by (intro nth_equalityI) (auto simp: nth_list_update dir_list_def slot_bytes_def)
  then show ?thesis by (simp add: update_dir_def add_entry_ok assms(1))
qed

section \<open>Allocation\<close>

definition allocated :: "fat_builder \<Rightarrow> (nat \<times> nat) set \<Rightarrow> bool" where
  "allocated st E \<longleftrightarrow> (\<forall>(c, n)\<in>E. c + n \<le> unat (fb_next st) \<and> chained (fb_fat st) 0 c n)"

lemma allocate_extends:
  assumes "allocated st E" "0 < n" "unat (fb_next st) + n < 65536" "2 * (unat (fb_next st) + n) \<le> length (fb_fat st)"
  shows "\<exists>fat. allocate n st = Some (fb_next st, st\<lparr>fb_fat := fat, fb_next := fb_next st + of_nat n\<rparr>) \<and> length fat = length (fb_fat st) \<and>
    unat (fb_next st + of_nat n) = unat (fb_next st) + n \<and>
    allocated (st\<lparr>fb_fat := fat, fb_next := fb_next st + of_nat n\<rparr>) (insert (unat (fb_next st), n) E)"
proof -
  let ?a = "unat (fb_next st)"
  obtain fat where fat: "allocate n st = Some (fb_next st, st\<lparr>fb_fat := fat, fb_next := fb_next st + of_nat n\<rparr>)"
    "length fat = length (fb_fat st)"
    "\<And>k. 2 * k + 2 \<le> length fat \<Longrightarrow> rd16 fat (2 * k) =
      (if ?a \<le> k \<and> k < ?a + n then if k + 1 < ?a + n then k + 1 else 0xFFFF else rd16 (fb_fat st) (2 * k))"
    using allocate_ok [OF assms(2-4)] by blast
  have nxt: "unat (fb_next st + of_nat n) = ?a + n" using assms(3) by (rule unat_add16_small)
  have "chained fat 0 ?a n"
    unfolding chained_def
  proof (intro allI impI)
    fix i assume i: "i < n"
    then have "2 * (?a + i) + 2 \<le> length fat" using assms(4) fat(2) by simp
    from fat(3) [OF this] show "rd16 fat (0 + 2 * (?a + i)) = (if i + 1 < n then ?a + i + 1 else 0xFFFF)" using i by simp
  qed
  moreover have "chained fat 0 c m" if "c + m \<le> ?a" "chained (fb_fat st) 0 c m" for c m
    unfolding chained_def
  proof (intro allI impI)
    fix i assume i: "i < m"
    then have "2 * (c + i) + 2 \<le> length fat" using assms(4) fat(2) that(1) by simp
    from fat(3) [OF this] show "rd16 fat (0 + 2 * (c + i)) = (if i + 1 < m then c + i + 1 else 0xFFFF)"
      using that i by (simp add: chained_def)
  qed
  ultimately show ?thesis using fat(1,2) nxt assms(1) by (fastforce simp: allocated_def)
qed

section \<open>The directories' clusters\<close>

lemma dir_at_Suc: "0 < d \<Longrightarrow> dir_at P (Suc d) = dir_at P d + dir_need P d"
  by (simp add: dir_at_def)

lemma dir_at_1: "dir_at P (Suc 0) = 2"
  by (simp add: dir_at_def)

lemma dir_at_mono: "0 < d \<Longrightarrow> d \<le> e \<Longrightarrow> dir_at P d \<le> dir_at P e"
proof (induction e)
  case (Suc e)
  then show ?case using dir_at_Suc [of e P] by (cases "d = Suc e") auto
qed simp

lemma file_at_0: "0 < n_dirs P \<Longrightarrow> file_at P 0 = dir_at P (n_dirs P)"
  by (simp add: file_at_def dir_at_def)

lemma file_at_Suc: "file_at P (Suc i) = file_at P i + file_need P i"
  by (simp add: file_at_def)

lemma file_at_mono: "i \<le> j \<Longrightarrow> file_at P i \<le> file_at P j"
  by (induction j) (auto simp: file_at_Suc le_Suc_eq)

lemma dir_at_plan_end: "plan_ok P \<Longrightarrow> 0 < d \<Longrightarrow> d \<le> n_dirs P \<Longrightarrow> dir_at P d \<le> plan_end P"
  using dir_at_mono [of d "n_dirs P" P] file_at_0 [of P] file_at_mono [of 0 "length (pl_files P)" P] plan_okD(4)
  by (simp add: plan_end_def)

lemma counts_plan:
  assumes "plan_ok P"
  shows "length (pl_counts P) = n_dirs P"
    "d < n_dirs P \<Longrightarrow> pl_counts P ! d = length (fd_subdirs (pl_dirs P ! d)) + (if d = 0 then 0 else 2) + length (files_in (pl_placed P) d)"
proof -
  note ok = placed_okD [OF plan_okD(2) [OF assms]]
  have "\<forall>p\<in>set (pl_placed P). fst p < length (pl_dirs P)" using ok(2,3) by (metis in_set_conv_nth)
  then show "length (pl_counts P) = n_dirs P"
    "d < n_dirs P \<Longrightarrow> pl_counts P ! d = length (fd_subdirs (pl_dirs P ! d)) + (if d = 0 then 0 else 2) + length (files_in (pl_placed P) d)"
    using counts_ok [of 0 "pl_dirs P" "pl_placed P"] counts_ok [of d "pl_dirs P" "pl_placed P"] plan_okD(4) [OF assms]
    by (simp_all add: pl_counts_def n_dirs_def)
qed

lemma dir_need_pos:
  assumes "plan_ok P" "0 < d" "d < n_dirs P"
  shows "0 < dir_need P d"
proof (rule ccontr)
  assume "\<not> 0 < dir_need P d"
  then have "pl_counts P ! d * 32 \<le> 0"
    using clusters_for_bounds(1) [OF plan_okD(1) [OF assms(1)], of "pl_counts P ! d * 32"] by (simp add: dir_need_def)
  then show False using counts_plan(2) [OF assms(1,3)] assms(2) by simp
qed

lemma allocate_dirs:
  assumes P: "plan_ok P" and room: "plan_end P < 65536" "2 * plan_end P \<le> length (fb_fat st)"
    and st: "fb_next st = 2" "fb_dirs st = pl_dirs P"
  shows "0 < k \<Longrightarrow> k \<le> n_dirs P \<Longrightarrow> \<exists>fat nxt. ofold (allocate_dir (pl_spc P) (pl_counts P)) [1..<k] st =
      Some (st\<lparr>fb_fat := fat, fb_next := nxt, fb_dirs := dir_list (pl_dirs P) (\<lambda>d. if d < k then dir_at P d else 0) (\<lambda>_. [])\<rparr>) \<and>
    length fat = length (fb_fat st) \<and> unat nxt = dir_at P k \<and>
    allocated (st\<lparr>fb_fat := fat, fb_next := nxt\<rparr>) ((\<lambda>d. (dir_at P d, dir_need P d)) ` {1..<k})"
proof (induction k)
  case (Suc k)
  show ?case
  proof (cases "k = 0")
    case True
    have "dir_list (pl_dirs P) (\<lambda>d. if d < Suc 0 then dir_at P d else 0) (\<lambda>_. []) = pl_dirs P"
      using tree_okD(10,11) [OF plan_okD(3) [OF P]] by (intro nth_equalityI) (auto simp: dir_list_def dir_at_def)
    then show ?thesis using True st by (intro exI [of _ "fb_fat st"] exI [of _ 2]) (simp add: allocated_def dir_at_1)
  next
    case False
    let ?at = "\<lambda>k d. if d < k then dir_at P d else 0" and ?n = "dir_need P k"
    let ?st = "\<lambda>fat nxt k. st\<lparr>fb_fat := fat, fb_next := nxt, fb_dirs := dir_list (pl_dirs P) (?at k) (\<lambda>_. [])\<rparr>"
    obtain fat nxt where IH: "ofold (allocate_dir (pl_spc P) (pl_counts P)) [1..<k] st = Some (?st fat nxt k)"
      "length fat = length (fb_fat st)" "unat nxt = dir_at P k"
      "allocated (st\<lparr>fb_fat := fat, fb_next := nxt\<rparr>) ((\<lambda>d. (dir_at P d, dir_need P d)) ` {1..<k})"
      using Suc False by auto
    have k: "k < n_dirs P" "0 < k" using Suc.prems False by simp_all
    have last: "dir_at P k + ?n \<le> plan_end P" using dir_at_plan_end [OF P _ Suc.prems(2)] dir_at_Suc [OF k(2), of P] by simp
    have alloc: "allocated (?st fat nxt k) ((\<lambda>d. (dir_at P d, dir_need P d)) ` {1..<k})" using IH(4) by (simp add: allocated_def)
    obtain fat' where a: "allocate ?n (?st fat nxt k) = Some (nxt, (?st fat nxt k)\<lparr>fb_fat := fat', fb_next := nxt + of_nat ?n\<rparr>)"
      "length fat' = length fat" "unat (nxt + of_nat ?n) = dir_at P k + ?n"
      "allocated ((?st fat nxt k)\<lparr>fb_fat := fat', fb_next := nxt + of_nat ?n\<rparr>)
        (insert (dir_at P k, ?n) ((\<lambda>d. (dir_at P d, dir_need P d)) ` {1..<k}))"
      using allocate_extends [OF alloc dir_need_pos [OF P k(2,1)]] last room IH(2,3) by auto
    have nxt: "nxt = of_nat (dir_at P k)" by (simp flip: IH(3))
    have dirs: "(dir_list (pl_dirs P) (?at k) (\<lambda>_. []))[k := (dir_list (pl_dirs P) (?at k) (\<lambda>_. []) ! k)\<lparr>fd_cluster := nxt\<rparr>] =
        dir_list (pl_dirs P) (?at (Suc k)) (\<lambda>_. [])"
      using k(1) unfolding nxt by (intro nth_equalityI) (auto simp: nth_list_update dir_list_def n_dirs_def less_Suc_eq)
    have "allocate_dir (pl_spc P) (pl_counts P) k (?st fat nxt k) = Some (?st fat' (nxt + of_nat ?n) (Suc k))"
      using a(1) dirs unfolding allocate_dir_def dir_need_def by simp
    then have "ofold (allocate_dir (pl_spc P) (pl_counts P)) [1..<Suc k] st = Some (?st fat' (nxt + of_nat ?n) (Suc k))"
      using IH(1) k(2) by (simp add: ofold_append)
    moreover have ins: "{1..<Suc k} = insert k {1..<k}" using k(2) by auto
    have "allocated (st\<lparr>fb_fat := fat', fb_next := nxt + of_nat ?n\<rparr>) ((\<lambda>d. (dir_at P d, dir_need P d)) ` {1..<Suc k})"
      using a(4) unfolding ins image_insert by (simp add: allocated_def)
    ultimately show ?thesis using a(2,3) IH(2) dir_at_Suc [OF k(2), of P] by auto
  qed
qed simp

text \<open>The dots.\<close>

lemma add_dots:
  assumes P: "plan_ok P" and st: "fb_dirs st = dir_list (pl_dirs P) (dir_at P) (\<lambda>_. [])"
  shows "0 < k \<Longrightarrow> k \<le> n_dirs P \<Longrightarrow> ofold (dot_entries (parents (pl_dirs P))) [1..<k] st =
    Some (st\<lparr>fb_dirs := dir_list (pl_dirs P) (dir_at P) (\<lambda>d. if d < k then dots P d else [])\<rparr>)"
proof (induction k)
  case (Suc k)
  show ?case
  proof (cases "k = 0")
    case True
    have "(\<lambda>d. if d < Suc 0 then dots P d else []) = (\<lambda>_. [])" by (auto simp: dots_def)
    then show ?thesis using True st by simp
  next
    case False
    let ?es = "\<lambda>d. if d < k then dots P d else []" and ?st = "\<lambda>es. st\<lparr>fb_dirs := dir_list (pl_dirs P) (dir_at P) es\<rparr>"
    have k: "k < length (pl_dirs P)" "0 < k" using Suc.prems False by (simp_all add: n_dirs_def)
    have p: "parents (pl_dirs P) ! k < length (pl_dirs P)"
      using parent_child(2) [OF plan_okD(3) [OF P] k(2,1)] k(1) by simp
    let ?es1 = "?es(k := ?es k @ [(''.'', 0x10, of_nat (dir_at P k), 0)])"
    have "dot_entries (parents (pl_dirs P)) k (?st ?es) =
        update_dir k (add_entry ''..'' 0x10 (of_nat (dir_at P (pl_parent P k))) 0) (?st ?es1)"
      using add_slot [of "?st ?es" "pl_dirs P" "dir_at P" ?es k] k p by (simp add: dot_entries_def pl_parent_def)
    also have "\<dots> = Some (?st (?es1(k := ?es1 k @ [(''..'', 0x10, of_nat (dir_at P (pl_parent P k)), 0)])))"
      using add_slot [of "?st ?es1" "pl_dirs P" "dir_at P" ?es1 k] k by simp
    also have "?es1(k := ?es1 k @ [(''..'', 0x10, of_nat (dir_at P (pl_parent P k)), 0)]) = (\<lambda>d. if d < Suc k then dots P d else [])"
      using k by (auto simp: dots_def less_Suc_eq fun_eq_iff)
    finally show ?thesis using Suc k by (simp add: ofold_append)
  qed
qed simp

section \<open>Linking the directories\<close>

text \<open>A parent is linked before its children; the directory of a file that is in is linked.\<close>

definition linked_up :: "plan \<Rightarrow> nat \<Rightarrow> bool list \<Rightarrow> bool" where
  "linked_up P k linked \<longleftrightarrow> length linked = n_dirs P \<and>
     (\<forall>x. 0 < x \<longrightarrow> x < n_dirs P \<longrightarrow> linked ! x \<longrightarrow> pl_parent P x = 0 \<or> linked ! pl_parent P x) \<and>
     (\<forall>i<k. fst (pl_placed P ! i) = 0 \<or> linked ! fst (pl_placed P ! i))"

definition dirs_state :: "plan \<Rightarrow> nat \<Rightarrow> fat_builder \<Rightarrow> bool" where
  "dirs_state P k st \<longleftrightarrow> linked_up P k (fb_linked st) \<and>
     (\<exists>es. fb_dirs st = dir_list (pl_dirs P) (dir_at P) es \<and> (\<forall>d<n_dirs P. mset (es d) = slots_after P k (fb_linked st) d))"

lemma mset_filter_gain:
  "distinct xs \<Longrightarrow> a \<in> set xs \<Longrightarrow> Q a \<Longrightarrow> \<not> R a \<Longrightarrow> (\<And>b. b \<in> set xs \<Longrightarrow> b \<noteq> a \<Longrightarrow> Q b = R b) \<Longrightarrow>
   mset (map f (filter Q xs)) = add_mset (f a) (mset (map f (filter R xs)))"
proof (induction xs)
  case (Cons x xs)
  show ?case
  proof (cases "x = a")
    case True
    then have "filter Q xs = filter R xs" using Cons.prems by (intro filter_cong) auto
    then show ?thesis using True Cons.prems(3,4) by simp
  next
    case False
    then show ?thesis using Cons by auto
  qed
qed simp

lemma only_child:
  assumes "distinct xs" "(n, x) \<in> set xs" "\<And>m. (m, x) \<in> set xs \<Longrightarrow> m = n"
  shows "ofold (\<lambda>(m, c) st. if c = x then f m st else Some st) xs st = f n st"
proof -
  have skip: "ofold (\<lambda>(m, c) st. if c = x then f m st else Some st) ys st = Some st" if "\<forall>(m, c)\<in>set ys. c \<noteq> x" for ys st
    using that by (induction ys) auto
  obtain ys zs where xs: "xs = ys @ (n, x) # zs" using assms(2) by (meson split_list)
  have "c \<noteq> x" if m: "(m, c) \<in> set (ys @ zs)" for m c
  proof
    assume "c = x"
    then have "(n, x) \<in> set (ys @ zs)" using assms(3) [of m] m by (auto simp: xs)
    then show False using assms(1) by (auto simp: xs)
  qed
  then have "\<forall>(m, c)\<in>set ys. c \<noteq> x" "\<forall>(m, c)\<in>set zs. c \<noteq> x" by auto
  then show ?thesis by (cases "f n st") (simp_all add: xs ofold_append skip)
qed

lemma link_one:
  assumes P: "plan_ok P" and st: "dirs_state P k st" and x: "0 < x" "x < n_dirs P" "\<not> fb_linked st ! x"
    and up: "pl_parent P x = 0 \<or> fb_linked st ! pl_parent P x"
  shows "\<exists>dirs. link_dir (parents (pl_dirs P)) x st = Some (st\<lparr>fb_dirs := dirs, fb_linked := (fb_linked st)[x := True]\<rparr>) \<and>
    dirs_state P k (st\<lparr>fb_dirs := dirs, fb_linked := (fb_linked st)[x := True]\<rparr>)"
proof -
  let ?d = "pl_parent P x" and ?linked = "(fb_linked st)[x := True]"
  note tree = plan_okD(3) [OF P]
  obtain es where es: "fb_dirs st = dir_list (pl_dirs P) (dir_at P) es" "\<And>d. d < n_dirs P \<Longrightarrow> mset (es d) = slots_after P k (fb_linked st) d"
    and linked: "linked_up P k (fb_linked st)" using st by (auto simp: dirs_state_def)
  obtain n where n: "child (pl_dirs P) ?d n x" using parent_child(1) [OF tree x(1)] x(2) by (auto simp: n_dirs_def pl_parent_def)
  have d: "?d < length (pl_dirs P)" "?d < x" using tree_okD(1,3) [OF tree n] by simp_all
  have len: "length (fb_linked st) = n_dirs P" using linked by (simp add: linked_up_def)
  let ?es = "es(?d := es ?d @ [(n, 0x10, of_nat (dir_at P x), 0)])"
  let ?dirs = "dir_list (pl_dirs P) (dir_at P) ?es"
  have subs: "(m, y) \<in> set (fd_subdirs (pl_dirs P ! ?d)) \<longleftrightarrow> child (pl_dirs P) ?d m y" for m y using d by (simp add: child_def)
  have "link_dir (parents (pl_dirs P)) x st = Option.bind (update_dir ?d (add_entry n 0x10 (of_nat (dir_at P x)) 0) st)
      (\<lambda>st. Some (st\<lparr>fb_linked := (fb_linked st)[x := True]\<rparr>))"
  proof -
    have "ofold (\<lambda>(m, c) st. if c = x then update_dir ?d (add_entry m 0x10 (fd_cluster (fb_dirs st ! x)) 0) st else Some st)
        (fd_subdirs (pl_dirs P ! ?d)) st = update_dir ?d (add_entry n 0x10 (fd_cluster (fb_dirs st ! x)) 0) st"
    proof (rule only_child [OF tree_okD(9) [OF tree d(1)], where f = "\<lambda>m st. update_dir ?d (add_entry m 0x10 (fd_cluster (fb_dirs st ! x)) 0) st"])
      show "(n, x) \<in> set (fd_subdirs (pl_dirs P ! ?d))" using n subs by simp
      show "m = n" if "(m, x) \<in> set (fd_subdirs (pl_dirs P ! ?d))" for m using that subs tree_okD(6) [OF tree n] by blast
    qed
    then show ?thesis using d(1) x(2) es(1) unfolding link_dir_def pl_parent_def [symmetric] by (simp add: n_dirs_def)
  qed
  then have "link_dir (parents (pl_dirs P)) x st = Some (st\<lparr>fb_dirs := ?dirs, fb_linked := ?linked\<rparr>)"
    using add_slot [OF es(1) d(1)] by simp
  moreover have "mset (?es e) = slots_after P k ?linked e" if e: "e < n_dirs P" for e
  proof (cases "e = ?d")
    case True
    have "mset (map (sub_slot P) (filter (\<lambda>c. ?linked ! snd c) (fd_subdirs (pl_dirs P ! ?d)))) =
        add_mset (sub_slot P (n, x)) (mset (map (sub_slot P) (filter (\<lambda>c. fb_linked st ! snd c) (fd_subdirs (pl_dirs P ! ?d)))))"
    proof (rule mset_filter_gain [OF tree_okD(9) [OF tree d(1)]])
      show "(n, x) \<in> set (fd_subdirs (pl_dirs P ! ?d))" using n subs by simp
      fix b assume b: "b \<in> set (fd_subdirs (pl_dirs P ! ?d))" "b \<noteq> (n, x)"
      then have "snd b \<noteq> x" using tree_okD(6) [OF tree n, of ?d "fst b"] subs [of "fst b" x] by (cases b) auto
      then show "(?linked ! snd b) = (fb_linked st ! snd b)" by simp
    qed (use x len in simp_all)
    then show ?thesis using es(2) [of ?d] d(1) True by (simp add: slots_after_def sub_slot_def n_dirs_def)
  next
    case False
    have "?linked ! snd b = fb_linked st ! snd b" if "b \<in> set (fd_subdirs (pl_dirs P ! e))" for b
    proof -
      have "child (pl_dirs P) e (fst b) (snd b)" using that e by (simp add: child_def n_dirs_def)
      then have "snd b \<noteq> x" using tree_okD(5) [OF tree n] False by metis
      then show ?thesis by simp
    qed
    then have "filter (\<lambda>c. ?linked ! snd c) (fd_subdirs (pl_dirs P ! e)) = filter (\<lambda>c. fb_linked st ! snd c) (fd_subdirs (pl_dirs P ! e))"
      by (intro filter_cong) auto
    then show ?thesis using es(2) [OF e] False by (simp add: slots_after_def)
  qed
  moreover have "linked_up P k ?linked"
    using linked up len d x(1,2) unfolding linked_up_def by (auto simp: nth_list_update)
  ultimately show ?thesis unfolding dirs_state_def by (intro exI [of _ ?dirs] conjI exI [of _ ?es]) simp_all
qed

lemma link_chain:
  assumes P: "plan_ok P"
  shows "dirs_state P k st \<Longrightarrow> x < n_dirs P \<Longrightarrow>
    \<exists>xs dirs linked. unlinked_chain (parents (pl_dirs P)) (fb_linked st) x = Some xs \<and>
      ofold (link_dir (parents (pl_dirs P))) (rev xs) st = Some (st\<lparr>fb_dirs := dirs, fb_linked := linked\<rparr>) \<and>
      dirs_state P k (st\<lparr>fb_dirs := dirs, fb_linked := linked\<rparr>) \<and> (x = 0 \<or> linked ! x) \<and>
      (\<forall>y. x < y \<longrightarrow> linked ! y = fb_linked st ! y)"
proof (induction x rule: less_induct)
  case (less x)
  show ?case
  proof (cases "x \<noteq> 0 \<and> \<not> fb_linked st ! x")
    case False
    then have "unlinked_chain (parents (pl_dirs P)) (fb_linked st) x = Some []" by (subst unlinked_chain.simps) auto
    then show ?thesis using less.prems False
      by (intro exI [of _ "[]"] exI [of _ "fb_dirs st"] exI [of _ "fb_linked st"]) simp
  next
    case True
    let ?d = "pl_parent P x"
    have d: "?d < x" using parent_child(2) [OF plan_okD(3) [OF P]] True less.prems(2) by (simp add: pl_parent_def n_dirs_def)
    then obtain xs dirs linked where IH: "unlinked_chain (parents (pl_dirs P)) (fb_linked st) ?d = Some xs"
      "ofold (link_dir (parents (pl_dirs P))) (rev xs) st = Some (st\<lparr>fb_dirs := dirs, fb_linked := linked\<rparr>)"
      "dirs_state P k (st\<lparr>fb_dirs := dirs, fb_linked := linked\<rparr>)" "?d = 0 \<or> linked ! ?d"
      "\<And>y. ?d < y \<Longrightarrow> linked ! y = fb_linked st ! y"
      using less.IH [of ?d] less.prems by auto
    have "\<not> linked ! x" using IH(5) [OF d] True by simp
    then obtain dirs' where link: "link_dir (parents (pl_dirs P)) x (st\<lparr>fb_dirs := dirs, fb_linked := linked\<rparr>) =
        Some (st\<lparr>fb_dirs := dirs', fb_linked := linked[x := True]\<rparr>)" "dirs_state P k (st\<lparr>fb_dirs := dirs', fb_linked := linked[x := True]\<rparr>)"
      using link_one [OF P IH(3), of x] True less.prems(2) IH(4) by auto
    have "unlinked_chain (parents (pl_dirs P)) (fb_linked st) x = Some (x # xs)"
      using True IH(1) by (subst unlinked_chain.simps) (simp add: pl_parent_def)
    moreover have "ofold (link_dir (parents (pl_dirs P))) (rev (x # xs)) st = Some (st\<lparr>fb_dirs := dirs', fb_linked := linked[x := True]\<rparr>)"
      using IH(2) link(1) by (simp add: ofold_append)
    moreover have "x < length linked" using IH(3) less.prems(2) by (simp add: dirs_state_def linked_up_def)
    ultimately show ?thesis using link(2) IH(5) d
      by (intro exI [of _ "x # xs"] exI [of _ dirs'] exI [of _ "linked[x := True]"]) auto
  qed
qed

section \<open>Adding the files\<close>

lemma add_file_slot:
  assumes P: "plan_ok P" and st: "dirs_state P k st" and k: "k < length (pl_files P)"
    and d: "fst (pl_placed P ! k) = 0 \<or> fb_linked st ! fst (pl_placed P ! k)"
  shows "\<exists>dirs. update_dir (fst (pl_placed P ! k)) (add_entry (snd (pl_placed P ! k)) 0x20
        (if file_need P k = 0 then 0 else of_nat (file_at P k)) (of_nat (length (ff_data (pl_files P ! k))))) st =
      Some (st\<lparr>fb_dirs := dirs\<rparr>) \<and> dirs_state P (Suc k) (st\<lparr>fb_dirs := dirs\<rparr>)"
proof -
  let ?d = "fst (pl_placed P ! k)"
  note placed = placed_okD [OF plan_okD(2) [OF P]]
  obtain es where es: "fb_dirs st = dir_list (pl_dirs P) (dir_at P) es" "\<And>d. d < n_dirs P \<Longrightarrow> mset (es d) = slots_after P k (fb_linked st) d"
    and linked: "linked_up P k (fb_linked st)" using st by (auto simp: dirs_state_def)
  have dl: "?d < length (pl_dirs P)" by (rule placed(3) [OF k])
  let ?es = "es(?d := es ?d @ [file_slot P k])"
  let ?dirs = "dir_list (pl_dirs P) (dir_at P) ?es"
  have "update_dir ?d (add_entry (snd (pl_placed P ! k)) 0x20 (if file_need P k = 0 then 0 else of_nat (file_at P k))
      (of_nat (length (ff_data (pl_files P ! k))))) st = Some (st\<lparr>fb_dirs := ?dirs\<rparr>)"
    using add_slot [OF es(1) dl] by (simp add: file_slot_def)
  moreover have "linked_up P (Suc k) (fb_linked st)" using linked d by (auto simp: linked_up_def less_Suc_eq)
  moreover have "mset (?es e) = slots_after P (Suc k) (fb_linked st) e" if e: "e < n_dirs P" for e
  proof (cases "e = ?d")
    case True
    have "mset (map (file_slot P) (filter (\<lambda>i. i < Suc k) (files_in (pl_placed P) ?d))) =
        add_mset (file_slot P k) (mset (map (file_slot P) (filter (\<lambda>i. i < k) (files_in (pl_placed P) ?d))))"
      using k placed(2) by (intro mset_filter_gain) (auto simp: files_in_def)
    then show ?thesis using es(2) [OF e] True by (simp add: slots_after_def)
  next
    case False
    then have "filter (\<lambda>i. i < Suc k) (files_in (pl_placed P) e) = filter (\<lambda>i. i < k) (files_in (pl_placed P) e)"
      by (intro filter_cong) (auto simp: files_in_def less_Suc_eq)
    then show ?thesis using es(2) [OF e] False by (simp add: slots_after_def)
  qed
  ultimately show ?thesis unfolding dirs_state_def by (intro exI [of _ ?dirs] conjI exI [of _ ?es]) simp_all
qed

definition dir_extents :: "plan \<Rightarrow> (nat \<times> nat) set" where
  "dir_extents P = (\<lambda>d. (dir_at P d, dir_need P d)) ` {1..<n_dirs P}"

definition file_extents :: "plan \<Rightarrow> nat \<Rightarrow> (nat \<times> nat) set" where
  "file_extents P k = (\<lambda>i. (file_at P i, file_need P i)) ` {i. i < k \<and> file_need P i \<noteq> 0}"

definition file_place :: "plan \<Rightarrow> fat_layout \<Rightarrow> nat \<Rightarrow> nat" where
  "file_place P g i = cluster_offset g (pl_spc P) (file_at P i)"

definition file_bytes :: "plan \<Rightarrow> nat \<Rightarrow> u8 list" where
  "file_bytes P i = ff_data (pl_files P ! i)"

definition store_state :: "plan \<Rightarrow> fat_layout \<Rightarrow> u8 list \<Rightarrow> u8 list \<Rightarrow> nat \<Rightarrow> fat_builder \<Rightarrow> bool" where
  "store_state P g fat0 img0 k st \<longleftrightarrow> length (fb_fat st) = length fat0 \<and> length (fb_image st) = length img0 \<and>
     unat (fb_next st) = file_at P k \<and> allocated st (dir_extents P \<union> file_extents P k) \<and>
     (\<forall>i<length img0. i < file_place P g 0 \<longrightarrow> fb_image st ! i = img0 ! i) \<and>
     (\<forall>i<k. slice (file_place P g i) (length (file_bytes P i)) (fb_image st) = file_bytes P i)"

definition roomy :: "plan \<Rightarrow> fat_layout \<Rightarrow> u8 list \<Rightarrow> u8 list \<Rightarrow> bool" where
  "roomy P g fat0 img0 \<longleftrightarrow> plan_end P < 65536 \<and> 2 * plan_end P \<le> length fat0 \<and> cluster_offset g (pl_spc P) (plan_end P) \<le> length img0"

lemma file_place_Suc: "plan_ok P \<Longrightarrow> file_place P g (Suc i) = file_place P g i + file_need P i * bytes_per_cluster (pl_spc P)"
  unfolding file_place_def file_at_Suc by (rule cluster_offset_add) (simp add: file_at_def)

lemma file_place_mono: "i \<le> j \<Longrightarrow> file_place P g i \<le> file_place P g j"
  unfolding file_place_def by (rule cluster_offset_mono [OF file_at_mono])

lemma file_fits: "plan_ok P \<Longrightarrow> length (file_bytes P i) \<le> file_need P i * bytes_per_cluster (pl_spc P)"
  using clusters_for_bounds(1) [OF plan_okD(1)] by (simp add: file_need_def file_bytes_def need_def)

lemma file_before: "plan_ok P \<Longrightarrow> i < j \<Longrightarrow> file_place P g i + length (file_bytes P i) \<le> file_place P g j"
  using file_place_Suc [of P g i] file_fits [of P i] file_place_mono [of "Suc i" j P g] by linarith

lemma file_in_image:
  assumes "plan_ok P" "roomy P g fat0 img0" "i < length (pl_files P)"
  shows "file_place P g i + length (file_bytes P i) \<le> length img0"
  using file_before [OF assms(1,3), of g] assms(2) by (simp add: roomy_def file_place_def plan_end_def)

text \<open>The bytes of a file, whose clusters are allocated.\<close>

lemma store_bytes:
  assumes P: "plan_ok P" and room: "roomy P g fat0 img0" and k: "k < length (pl_files P)" and st: "store_state P g fat0 img0 k st"
  shows "\<exists>fat nxt img. allocate (file_need P k) st =
      Some (if file_need P k = 0 then 0 else of_nat (file_at P k), st\<lparr>fb_fat := fat, fb_next := nxt\<rparr>) \<and>
    ofold (write_cluster g (pl_spc P) (file_bytes P k) (if file_need P k = 0 then 0 else of_nat (file_at P k))) [0..<file_need P k] (fb_image st) = Some img \<and>
    store_state P g fat0 img0 (Suc k) (st\<lparr>fb_fat := fat, fb_next := nxt, fb_image := img\<rparr>)"
proof -
  let ?n = "file_need P k" and ?spc = "pl_spc P"
  note s = st [unfolded store_state_def]
  note spc = plan_okD(1) [OF P]
  show ?thesis
  proof (cases "?n = 0")
    case True
    then have "file_bytes P k = []" using need_0 [OF spc] by (simp add: file_need_def file_bytes_def)
    moreover have "file_extents P (Suc k) = file_extents P k" using True by (auto simp: file_extents_def less_Suc_eq)
    ultimately have "store_state P g fat0 img0 (Suc k) st"
      using s True unfolding store_state_def file_at_Suc by (auto simp: less_Suc_eq slice_def)
    then show ?thesis using True by (intro exI [of _ "fb_fat st"] exI [of _ "fb_next st"] exI [of _ "fb_image st"]) (simp add: allocate_def)
  next
    case False
    have last: "file_at P k + ?n \<le> plan_end P" using file_at_mono [of "Suc k" "length (pl_files P)" P] k by (simp add: plan_end_def file_at_Suc)
    obtain fat where fat: "allocate ?n st = Some (fb_next st, st\<lparr>fb_fat := fat, fb_next := fb_next st + of_nat ?n\<rparr>)"
      "length fat = length (fb_fat st)" "unat (fb_next st + of_nat ?n) = file_at P k + ?n"
      "allocated (st\<lparr>fb_fat := fat, fb_next := fb_next st + of_nat ?n\<rparr>)
        (insert (file_at P k, ?n) (dir_extents P \<union> file_extents P k))"
      using allocate_extends [of st "dir_extents P \<union> file_extents P k" ?n] False last s room by (auto simp: roomy_def)
    have next_at: "unat (fb_next st) = file_at P k" using s by blast
    have start: "fb_next st = of_nat (file_at P k)" by (simp flip: next_at)
    have fits: "file_place P g k + length (file_bytes P k) \<le> length (fb_image st)" using file_in_image [OF P room k] s by simp
    let ?img = "overwrite (file_place P g k) (file_bytes P k) (fb_image st)"
    have written: "ofold (write_cluster g ?spc (file_bytes P k) (fb_next st)) [0..<?n] (fb_image st) = Some ?img"
      using write_clusters_ok [OF spc, of "fb_next st" g "file_bytes P k" "fb_image st"] fits s
      by (simp add: file_place_def file_need_def need_def file_bytes_def file_at_def)
    have ext: "insert (file_at P k, ?n) (dir_extents P \<union> file_extents P k) = dir_extents P \<union> file_extents P (Suc k)"
      using False by (auto simp: file_extents_def less_Suc_eq)
    have low: "?img ! i = img0 ! i" if "i < length img0" "i < file_place P g 0" for i
      using that fits s file_place_mono [of 0 k P g] by (subst nth_overwrite) auto
    have kept: "slice (file_place P g i) (length (file_bytes P i)) ?img = file_bytes P i" if i: "i < Suc k" for i
    proof (cases "i = k")
      case True
      then show ?thesis using fits by (simp add: slice_overwrite_same)
    next
      case False
      then have "file_place P g i + length (file_bytes P i) \<le> file_place P g k" using i by (intro file_before [OF P]) simp
      then have "slice (file_place P g i) (length (file_bytes P i)) ?img = slice (file_place P g i) (length (file_bytes P i)) (fb_image st)"
        using fits by (intro slice_overwrite_other) simp_all
      then show ?thesis using s i False by simp
    qed
    have "store_state P g fat0 img0 (Suc k) (st\<lparr>fb_fat := fat, fb_next := fb_next st + of_nat ?n, fb_image := ?img\<rparr>)"
      using fat(2-4) s fits low kept unfolding store_state_def file_at_Suc ext by (simp add: allocated_def)
    then show ?thesis using fat(1) written False unfolding start by auto
  qed
qed

lemma store_state_cong:
  assumes "store_state P g fat0 img0 k st" "fb_fat st' = fb_fat st" "fb_next st' = fb_next st" "fb_image st' = fb_image st"
  shows "store_state P g fat0 img0 k st'"
  using assms(1) unfolding store_state_def allocated_def assms(2-4) .

lemma add_one_file:
  assumes P: "plan_ok P" and room: "roomy P g fat0 img0" and k: "k < length (pl_files P)"
    and st: "dirs_state P k st" "store_state P g fat0 img0 k st"
  shows "\<exists>st'. add_file g (pl_spc P) (parents (pl_dirs P)) (pl_files P ! k, pl_placed P ! k) st = Some st' \<and>
    dirs_state P (Suc k) st' \<and> store_state P g fat0 img0 (Suc k) st'"
proof -
  let ?d = "fst (pl_placed P ! k)" and ?leaf = "snd (pl_placed P ! k)"
  have d: "?d < n_dirs P" using placed_okD(3) [OF plan_okD(2) [OF P] k] by (simp add: n_dirs_def)
  obtain xs dirs linked where link: "unlinked_chain (parents (pl_dirs P)) (fb_linked st) ?d = Some xs"
    "ofold (link_dir (parents (pl_dirs P))) (rev xs) st = Some (st\<lparr>fb_dirs := dirs, fb_linked := linked\<rparr>)"
    "dirs_state P k (st\<lparr>fb_dirs := dirs, fb_linked := linked\<rparr>)" "?d = 0 \<or> linked ! ?d"
    using link_chain [OF P st(1) d] by blast
  let ?st1 = "st\<lparr>fb_dirs := dirs, fb_linked := linked\<rparr>"
  have "store_state P g fat0 img0 k ?st1" by (rule store_state_cong [OF st(2)]) simp_all
  then obtain fat nxt img where store: "allocate (file_need P k) ?st1 =
      Some (if file_need P k = 0 then 0 else of_nat (file_at P k), ?st1\<lparr>fb_fat := fat, fb_next := nxt\<rparr>)"
    "ofold (write_cluster g (pl_spc P) (file_bytes P k) (if file_need P k = 0 then 0 else of_nat (file_at P k))) [0..<file_need P k] (fb_image st) = Some img"
    "store_state P g fat0 img0 (Suc k) (?st1\<lparr>fb_fat := fat, fb_next := nxt, fb_image := img\<rparr>)"
    using store_bytes [OF P room k] by fastforce
  let ?st2 = "?st1\<lparr>fb_fat := fat, fb_next := nxt\<rparr>"
  have "dirs_state P k ?st2" using link(3) by (simp add: dirs_state_def)
  then obtain dirs' where slot: "update_dir ?d (add_entry ?leaf 0x20 (if file_need P k = 0 then 0 else of_nat (file_at P k))
      (of_nat (length (ff_data (pl_files P ! k))))) ?st2 = Some (?st2\<lparr>fb_dirs := dirs'\<rparr>)" "dirs_state P (Suc k) (?st2\<lparr>fb_dirs := dirs'\<rparr>)"
    using add_file_slot [OF P _ k, of ?st2] link(4) by auto
  have n: "(if ff_data (pl_files P ! k) = [] then 0 else clusters_for (pl_spc P) (length (ff_data (pl_files P ! k)))) = file_need P k"
    using need_0 [OF plan_okD(1) [OF P], of "pl_files P ! k"] by (auto simp: need_def file_need_def)
  let ?st = "?st2\<lparr>fb_dirs := dirs', fb_image := img\<rparr>"
  have "add_file g (pl_spc P) (parents (pl_dirs P)) (pl_files P ! k, ?d, ?leaf) st = Some ?st"
    using store(2) unfolding add_file_def prod.case Let_def n link(1) bind.simps link(2) store(1) slot(1)
    by (simp add: file_bytes_def)
  then have "add_file g (pl_spc P) (parents (pl_dirs P)) (pl_files P ! k, pl_placed P ! k) st = Some ?st" by simp
  moreover have "dirs_state P (Suc k) ?st" using slot(2) by (simp add: dirs_state_def)
  moreover have "store_state P g fat0 img0 (Suc k) ?st" by (rule store_state_cong [OF store(3)]) simp_all
  ultimately show ?thesis by blast
qed

lemma add_all_files:
  assumes P: "plan_ok P" and room: "roomy P g fat0 img0" and st: "dirs_state P 0 st" "store_state P g fat0 img0 0 st"
  shows "k \<le> length (pl_files P) \<Longrightarrow>
    \<exists>st'. ofold (add_file g (pl_spc P) (parents (pl_dirs P))) (take k (zip (pl_files P) (pl_placed P))) st = Some st' \<and>
    dirs_state P k st' \<and> store_state P g fat0 img0 k st'"
proof (induction k)
  case (Suc k)
  then obtain st' where st': "ofold (add_file g (pl_spc P) (parents (pl_dirs P))) (take k (zip (pl_files P) (pl_placed P))) st = Some st'"
    "dirs_state P k st'" "store_state P g fat0 img0 k st'" by auto
  have len: "length (pl_placed P) = length (pl_files P)" by (rule placed_okD(2) [OF plan_okD(2) [OF P]])
  then have "take (Suc k) (zip (pl_files P) (pl_placed P)) = take k (zip (pl_files P) (pl_placed P)) @ [(pl_files P ! k, pl_placed P ! k)]"
    using Suc.prems by (simp add: take_Suc_conv_app_nth)
  then show ?case using add_one_file [OF P room _ st'(2,3)] st'(1) Suc.prems by (auto simp: ofold_append)
qed (use st in simp)

end
