(* ===== verification/Fat16_Filled.thy ===== *)
theory Fat16_Filled
  imports Fat16_Dirs
begin

text \<open>
  The image that the FAT16 builder leaves: once all files are added every directory is linked and has the slots
  of the plan, and \<open>fill_image\<close> puts the directories, the copies of the FAT and the root directory in their places
  (\<open>tree_image\<close>).
\<close>

section \<open>When all is in\<close>

text \<open>Every directory has a file below it, so in the end all are linked.\<close>

lemma linked_above:
  assumes P: "plan_ok P" and l: "linked_up P k linked"
  shows "above (pl_dirs P) x y \<Longrightarrow> 0 < x \<Longrightarrow> linked ! y \<or> y = 0 \<Longrightarrow> y < n_dirs P \<Longrightarrow> linked ! x"
proof (induction rule: above.induct)
  case (under x d n y)
  note tree = plan_okD(3) [OF P]
  have d: "d < y" "d < n_dirs P" "pl_parent P y = d"
    using tree_okD(1,3) [OF tree under.hyps(2)] parents_ok(2) [OF tree under.hyps(2)] by (simp_all add: n_dirs_def pl_parent_def)
  have y: "0 < y" "linked ! y" using d(1) under.prems(2) by auto
  have up: "\<forall>x. 0 < x \<longrightarrow> x < n_dirs P \<longrightarrow> linked ! x \<longrightarrow> pl_parent P x = 0 \<or> linked ! pl_parent P x"
    using l unfolding linked_up_def by (elim conjE)
  from up [rule_format, OF y(1) under.prems(3) y(2)] have "linked ! d \<or> d = 0" unfolding d(3) by (elim disjE) simp_all
  then show ?case by (rule under.IH [OF under.prems(1) _ d(2)])
qed simp

definition slots_of :: "plan \<Rightarrow> nat \<Rightarrow> slot list" where
  "slots_of P d = dots P d @ map (sub_slot P) (fd_subdirs (pl_dirs P ! d)) @ map (file_slot P) (files_in (pl_placed P) d)"

lemma length_slots_of: "plan_ok P \<Longrightarrow> d < n_dirs P \<Longrightarrow> length (slots_of P d) = pl_counts P ! d"
  by (simp add: slots_of_def counts_plan(2) dots_def)

lemma all_slots:
  assumes P: "plan_ok P" and st: "dirs_state P (length (pl_files P)) st" and d: "d < n_dirs P"
  shows "slots_after P (length (pl_files P)) (fb_linked st) d = mset (slots_of P d)"
proof -
  note placed = placed_okD [OF plan_okD(2) [OF P]]
  have l: "linked_up P (length (pl_files P)) (fb_linked st)" using st by (simp add: dirs_state_def)
  have "fb_linked st ! x" if x: "0 < x" "x < n_dirs P" for x
  proof -
    obtain i where i: "i < length (pl_files P)" "above (pl_dirs P) x (fst (pl_placed P ! i))"
      using placed(6) x by (auto simp: n_dirs_def)
    then show ?thesis using linked_above [OF P l i(2) x(1)] l placed(3) [OF i(1)] by (auto simp: linked_up_def n_dirs_def)
  qed
  moreover have "0 < snd c \<and> snd c < n_dirs P" if "c \<in> set (fd_subdirs (pl_dirs P ! d))" for c
  proof -
    have "child (pl_dirs P) d (fst c) (snd c)" using that d by (simp add: child_def n_dirs_def)
    then show ?thesis using tree_okD(1,2) [OF plan_okD(3) [OF P]] by (fastforce simp: n_dirs_def)
  qed
  ultimately have "filter (\<lambda>c. fb_linked st ! snd c) (fd_subdirs (pl_dirs P ! d)) = fd_subdirs (pl_dirs P ! d)"
    by (simp add: filter_id_conv)
  moreover have "filter (\<lambda>i. i < length (pl_files P)) (files_in (pl_placed P) d) = files_in (pl_placed P) d"
    using placed(2) by (intro filter_True) (auto simp: files_in_def)
  ultimately show ?thesis by (simp add: slots_after_def slots_of_def)
qed

text \<open>The directories go into the image.\<close>

definition table :: "nat \<Rightarrow> slot list \<Rightarrow> u8 list" where
  "table n es = concat (map slot_bytes es) @ replicate (n - 32 * length es) 0"

lemma length_slots: "length (concat (map slot_bytes es)) = 32 * length es"
  by (simp add: length_concat comp_def sum_list_triv)

lemma length_table [simp]: "32 * length es \<le> n \<Longrightarrow> length (table n es) = n"
  by (simp add: table_def length_slots)

lemma slice_table:
  assumes "a + n \<le> length buf" "32 * length es \<le> n" "\<And>i. i < n \<Longrightarrow> buf ! (a + i) = 0"
  shows "slice a n (overwrite a (concat (map slot_bytes es)) buf) = table n es"
  using assms by (intro slice_eqI) (auto simp: nth_overwrite length_slots table_def nth_append)

definition dir_place :: "plan \<Rightarrow> fat_layout \<Rightarrow> nat \<Rightarrow> nat" where
  "dir_place P g d = cluster_offset g (pl_spc P) (dir_at P d)"

definition dir_size :: "plan \<Rightarrow> nat \<Rightarrow> nat" where
  "dir_size P d = dir_need P d * bytes_per_cluster (pl_spc P)"

lemma dir_at_ge: "0 < d \<Longrightarrow> 2 \<le> dir_at P d"
  by (simp add: dir_at_def)

lemma dir_place_Suc: "0 < d \<Longrightarrow> dir_place P g (Suc d) = dir_place P g d + dir_size P d"
  unfolding dir_place_def dir_size_def dir_at_Suc by (rule cluster_offset_add [OF dir_at_ge])

lemma dir_place_mono: "0 < d \<Longrightarrow> d \<le> e \<Longrightarrow> dir_place P g d \<le> dir_place P g e"
  unfolding dir_place_def by (rule cluster_offset_mono [OF dir_at_mono])

lemma write_dirs:
  assumes P: "plan_ok P" and room: "dir_at P (n_dirs P) < 65536" "dir_place P g (n_dirs P) \<le> length img"
    and es: "\<And>d. 0 < d \<Longrightarrow> d < n_dirs P \<Longrightarrow> 32 * length (es d) \<le> dir_size P d"
    and zero: "\<And>i. dir_place P g 1 \<le> i \<Longrightarrow> i < dir_place P g (n_dirs P) \<Longrightarrow> img ! i = 0"
  shows "0 < k \<Longrightarrow> k \<le> n_dirs P \<Longrightarrow>
    \<exists>img'. ofold (write_dir g (pl_spc P) (dir_list (pl_dirs P) (dir_at P) es)) [1..<k] img = Some img' \<and> length img' = length img \<and>
      (\<forall>i<length img. i < dir_place P g 1 \<or> dir_place P g k \<le> i \<longrightarrow> img' ! i = img ! i) \<and>
      (\<forall>d. 0 < d \<longrightarrow> d < k \<longrightarrow> slice (dir_place P g d) (dir_size P d) img' = table (dir_size P d) (es d))"
proof (induction k)
  case (Suc k)
  show ?case
  proof (cases "k = 0")
    case False
    then obtain img' where IH: "ofold (write_dir g (pl_spc P) (dir_list (pl_dirs P) (dir_at P) es)) [1..<k] img = Some img'" "length img' = length img"
      "\<And>i. i < length img \<Longrightarrow> i < dir_place P g 1 \<or> dir_place P g k \<le> i \<Longrightarrow> img' ! i = img ! i"
      "\<And>d. 0 < d \<Longrightarrow> d < k \<Longrightarrow> slice (dir_place P g d) (dir_size P d) img' = table (dir_size P d) (es d)" using Suc by auto
    let ?bs = "concat (map slot_bytes (es k))" and ?o = "dir_place P g k"
    have k: "0 < k" "k < n_dirs P" "k < length (pl_dirs P)" using False Suc.prems by (simp_all add: n_dirs_def)
    note next_place = dir_place_Suc [OF k(1), of P g]
    have last: "?o + dir_size P k \<le> dir_place P g (n_dirs P)"
      using dir_place_mono [of "Suc k" "n_dirs P" P g] Suc.prems next_place by simp
    have fits: "?o + length ?bs \<le> length img'" using last room(2) IH(2) es [OF k(1,2)] by (simp add: length_slots)
    have "unat (of_nat (dir_at P k) :: u16) = dir_at P k"
      using room(1) dir_at_mono [OF k(1) less_imp_le [OF k(2)], of P] by (simp add: unat_of_nat)
    then have w: "write_dir g (pl_spc P) (dir_list (pl_dirs P) (dir_at P) es) k img' = Some (overwrite ?o ?bs img')"
      using put_bytes_ok [OF fits] k(3) by (simp add: write_dir_def Let_def dir_place_def cluster_offset_def)
    let ?img = "overwrite ?o ?bs img'"
    have "?img ! i = img ! i" if "i < length img" "i < dir_place P g 1 \<or> dir_place P g (Suc k) \<le> i" for i
    proof -
      have "i < ?o \<or> ?o + length ?bs \<le> i"
        using that(2) next_place es [OF k(1,2)] dir_place_mono [of 1 k P g] k(1) by (auto simp: length_slots)
      then have "?img ! i = img' ! i" using that(1) fits IH(2) by (auto simp: nth_overwrite)
      then show ?thesis using IH(3) [of i] that next_place by auto
    qed
    moreover have "slice (dir_place P g d) (dir_size P d) ?img = table (dir_size P d) (es d)" if d: "0 < d" "d < Suc k" for d
    proof (cases "d = k")
      case True
      have "img' ! (?o + i) = 0" if "i < dir_size P k" for i
        using that IH(3) [of "?o + i"] zero [of "?o + i"] last room(2) dir_place_mono [of 1 k P g] k(1) by simp
      then show ?thesis using True slice_table [of ?o "dir_size P k" img' "es k"] last room(2) IH(2) es [OF k(1,2)] by simp
    next
      case False
      then have "dir_place P g d + dir_size P d \<le> ?o"
        using d dir_place_Suc [OF d(1), of P g] dir_place_mono [of "Suc d" k P g] by simp
      then have "slice (dir_place P g d) (dir_size P d) ?img = slice (dir_place P g d) (dir_size P d) img'"
        using fits by (intro slice_overwrite_other) simp_all
      then show ?thesis using IH(4) d False by simp
    qed
    moreover have "length ?img = length img" using fits IH(2) by simp
    moreover have "ofold (write_dir g (pl_spc P) (dir_list (pl_dirs P) (dir_at P) es)) [1..<Suc k] img = Some ?img"
      using IH(1) w k(1) by (simp add: ofold_append)
    ultimately show ?thesis by (intro exI [of _ ?img]) blast
  qed (auto intro: exI [of _ img])
qed simp

lemma builder_done:
  assumes P: "plan_ok P" and room: "roomy P g fat img"
  defines "st0 \<equiv> \<lparr>fb_fat = fat, fb_next = 2, fb_dirs = pl_dirs P, fb_linked = replicate (n_dirs P) False, fb_image = img\<rparr>"
  shows "\<exists>st1 st2 st es. ofold (allocate_dir (pl_spc P) (pl_counts P)) [1..<n_dirs P] st0 = Some st1 \<and>
    ofold (dot_entries (parents (pl_dirs P))) [1..<n_dirs P] st1 = Some st2 \<and>
    ofold (add_file g (pl_spc P) (parents (pl_dirs P))) (zip (pl_files P) (pl_placed P)) st2 = Some st \<and>
    fb_dirs st = dir_list (pl_dirs P) (dir_at P) es \<and> (\<forall>d<n_dirs P. mset (es d) = mset (slots_of P d)) \<and>
    store_state P g fat img (length (pl_files P)) st"
proof -
  let ?n = "length (pl_files P)"
  note n = plan_okD(4) [OF P]
  have r: "plan_end P < 65536" "2 * plan_end P \<le> length (fb_fat st0)" using room by (simp_all add: roomy_def st0_def)
  have init: "fb_next st0 = 2" "fb_dirs st0 = pl_dirs P" by (simp_all add: st0_def)
  obtain fat1 nxt where a: "ofold (allocate_dir (pl_spc P) (pl_counts P)) [1..<n_dirs P] st0 =
      Some (st0\<lparr>fb_fat := fat1, fb_next := nxt, fb_dirs := dir_list (pl_dirs P) (\<lambda>d. if d < n_dirs P then dir_at P d else 0) (\<lambda>_. [])\<rparr>)"
    "length fat1 = length (fb_fat st0)" "unat nxt = dir_at P (n_dirs P)"
    "allocated (st0\<lparr>fb_fat := fat1, fb_next := nxt\<rparr>) ((\<lambda>d. (dir_at P d, dir_need P d)) ` {1..<n_dirs P})"
    using allocate_dirs [OF P r init n order_refl] by blast
  have dl: "dir_list (pl_dirs P) (\<lambda>d. if d < n_dirs P then dir_at P d else 0) (\<lambda>_. []) = dir_list (pl_dirs P) (dir_at P) (\<lambda>_. [])"
    by (simp add: dir_list_def n_dirs_def)
  let ?st1 = "st0\<lparr>fb_fat := fat1, fb_next := nxt, fb_dirs := dir_list (pl_dirs P) (dir_at P) (\<lambda>_. [])\<rparr>"
  let ?es = "\<lambda>d. if d < n_dirs P then dots P d else []"
  let ?st2 = "?st1\<lparr>fb_dirs := dir_list (pl_dirs P) (dir_at P) ?es\<rparr>"
  have d: "ofold (dot_entries (parents (pl_dirs P))) [1..<n_dirs P] ?st1 = Some ?st2"
    using add_dots [OF P _ n order_refl, of ?st1] by simp
  have "dirs_state P 0 ?st2"
    unfolding dirs_state_def
  proof (intro conjI exI [of _ ?es] allI impI)
    show "linked_up P 0 (fb_linked ?st2)" by (simp add: linked_up_def st0_def)
    fix d assume dn: "d < n_dirs P"
    have "\<not> replicate (n_dirs P) False ! snd c" if "c \<in> set (fd_subdirs (pl_dirs P ! d))" for c
    proof -
      have "child (pl_dirs P) d (fst c) (snd c)" using that dn by (simp add: child_def n_dirs_def)
      then show ?thesis using tree_okD(2) [OF plan_okD(3) [OF P]] by (simp add: n_dirs_def)
    qed
    then have "filter (\<lambda>c. replicate (n_dirs P) False ! snd c) (fd_subdirs (pl_dirs P ! d)) = []" by (simp add: filter_empty_conv)
    then show "mset (?es d) = slots_after P 0 (fb_linked ?st2) d" using dn by (simp add: slots_after_def st0_def)
  qed simp
  moreover have "store_state P g fat img 0 ?st2"
  proof (rule store_state_cong)
    show "store_state P g fat img 0 (st0\<lparr>fb_fat := fat1, fb_next := nxt\<rparr>)"
      using a(2-4) file_at_0 [OF n] by (simp add: store_state_def st0_def file_extents_def dir_extents_def)
  qed simp_all
  ultimately obtain st where st: "ofold (add_file g (pl_spc P) (parents (pl_dirs P))) (take ?n (zip (pl_files P) (pl_placed P))) ?st2 = Some st"
    "dirs_state P ?n st" "store_state P g fat img ?n st"
    using add_all_files [OF P room _ _ order_refl] by blast
  obtain es where es: "fb_dirs st = dir_list (pl_dirs P) (dir_at P) es" "\<And>d. d < n_dirs P \<Longrightarrow> mset (es d) = slots_after P ?n (fb_linked st) d"
    using st(2) by (auto simp: dirs_state_def)
  have "take ?n (zip (pl_files P) (pl_placed P)) = zip (pl_files P) (pl_placed P)" by simp
  then show ?thesis using a(1) [unfolded dl] d st(1,3) es all_slots [OF P st(2)] by (metis (no_types, lifting))
qed

text \<open>What the image holds in the end.\<close>

definition tree_image :: "plan \<Rightarrow> fat_layout \<Rightarrow> u8 list \<Rightarrow> u8 list \<Rightarrow> (nat \<Rightarrow> slot list) \<Rightarrow> bool" where
  "tree_image P g img0 img es \<longleftrightarrow> length img = length img0 \<and> (\<forall>i<unat (fg_fat_lba g) * 512. img ! i = img0 ! i) \<and>
     (\<forall>(c, n)\<in>dir_extents P \<union> file_extents P (length (pl_files P)). extent g img c n) \<and>
     (\<forall>d<n_dirs P. set (es d) = set (slots_of P d) \<and> length (es d) = pl_counts P ! d) \<and>
     slice (unat (fg_root_lba g) * 512) (unat (fg_root_dir_sectors g) * 512) img = table (unat (fg_root_dir_sectors g) * 512) (es 0) \<and>
     (\<forall>d. 0 < d \<longrightarrow> d < n_dirs P \<longrightarrow> slice (dir_place P g d) (dir_size P d) img = table (dir_size P d) (es d)) \<and>
     (\<forall>i<length (pl_files P). slice (file_place P g i) (length (file_bytes P i)) img = file_bytes P i)"

lemma root_bytes:
  assumes "32 * length es \<le> n"
  shows "put_bytes 0 (concat (map slot_bytes es)) (replicate n 0) = Some (table n es)"
proof -
  have "overwrite 0 (concat (map slot_bytes es)) (replicate n 0) = table n es" using assms by (simp add: overwrite_def table_def length_slots)
  then show ?thesis using put_bytes_ok [of 0 "concat (map slot_bytes es)" "replicate n 0"] assms by (simp add: length_slots)
qed

lemma need_sum: "plan_end P = 2 + clusters_needed (pl_spc P) (pl_counts P) (pl_files P)" if "plan_ok P"
proof -
  have "map (file_need P) [0..<length (pl_files P)] = map (\<lambda>f. clusters_for (pl_spc P) (length (ff_data f))) (pl_files P)"
    by (rule nth_equalityI) (simp_all add: file_need_def need_def)
  moreover have "map (dir_need P) [1..<n_dirs P] = map (\<lambda>d. clusters_for (pl_spc P) (pl_counts P ! d * 32)) [1..<length (pl_counts P)]"
    by (simp add: dir_need_def counts_plan(1) [OF that])
  ultimately show ?thesis by (simp add: plan_end_def file_at_def clusters_needed_def)
qed

text \<open>Where the parts of the volume are.\<close>

definition layout_ok :: "fat_layout \<Rightarrow> u8 \<Rightarrow> u8 \<Rightarrow> nat \<Rightarrow> u8 list \<Rightarrow> u8 list \<Rightarrow> bool" where
  "layout_ok g spc nfats sectors fat img \<longleftrightarrow> 0 < nfats \<and>
     unat (fg_root_lba g) = unat (fg_fat_lba g) + unat nfats * unat (fg_sectors_per_fat g) \<and>
     unat (fg_data_lba g) = unat (fg_root_lba g) + unat (fg_root_dir_sectors g) \<and>
     unat (fg_data_lba g) + unat (fg_total_clusters g) * unat spc \<le> sectors \<and> sectors < 4294967296 \<and>
     length fat = unat (fg_sectors_per_fat g) * 512 \<and> length img = sectors * 512 \<and>
     fg_total_clusters g \<le> 65524 \<and> unat (fg_total_clusters g) + 2 \<le> 256 * unat (fg_sectors_per_fat g)"

lemma layout_okD:
  assumes "layout_ok g spc nfats sectors fat img"
  shows "0 < nfats" "unat (fg_root_lba g) = unat (fg_fat_lba g) + unat nfats * unat (fg_sectors_per_fat g)"
    "unat (fg_data_lba g) = unat (fg_root_lba g) + unat (fg_root_dir_sectors g)"
    "unat (fg_data_lba g) + unat (fg_total_clusters g) * unat spc \<le> sectors" "sectors < 4294967296"
    "length fat = unat (fg_sectors_per_fat g) * 512" "length img = sectors * 512"
    "fg_total_clusters g \<le> 65524" "unat (fg_total_clusters g) + 2 \<le> 256 * unat (fg_sectors_per_fat g)"
    "unat (fg_fat_lba g) * 512 + length fat \<le> unat (fg_root_lba g) * 512"
    "unat (fg_root_lba g) * 512 + unat (fg_root_dir_sectors g) * 512 = unat (fg_data_lba g) * 512"
    "unat (fg_data_lba g) * 512 \<le> length img" "unat (fg_total_clusters g) \<le> 65524"
proof -
  show l: "0 < nfats" "unat (fg_root_lba g) = unat (fg_fat_lba g) + unat nfats * unat (fg_sectors_per_fat g)"
    "unat (fg_data_lba g) = unat (fg_root_lba g) + unat (fg_root_dir_sectors g)"
    "unat (fg_data_lba g) + unat (fg_total_clusters g) * unat spc \<le> sectors" "sectors < 4294967296"
    "length fat = unat (fg_sectors_per_fat g) * 512" "length img = sectors * 512"
    "fg_total_clusters g \<le> 65524" "unat (fg_total_clusters g) + 2 \<le> 256 * unat (fg_sectors_per_fat g)"
    using assms by (simp_all add: layout_ok_def)
  have "1 * unat (fg_sectors_per_fat g) \<le> unat nfats * unat (fg_sectors_per_fat g)"
    using l(1) by (intro mult_le_mono1) (auto simp: Suc_le_eq unat_gt_0)
  then show "unat (fg_fat_lba g) * 512 + length fat \<le> unat (fg_root_lba g) * 512" unfolding l(2,6) by simp
  show "unat (fg_root_lba g) * 512 + unat (fg_root_dir_sectors g) * 512 = unat (fg_data_lba g) * 512" unfolding l(3) by simp
  show "unat (fg_data_lba g) * 512 \<le> length img" using l(4,7) by simp
  show "unat (fg_total_clusters g) \<le> 65524" using l(8) by (simp add: word_le_nat_alt)
qed

lemma layout_roomy:
  assumes P: "plan_ok P" and l: "layout_ok g (pl_spc P) nfats sectors fat img"
    and room: "clusters_needed (pl_spc P) (pl_counts P) (pl_files P) \<le> unat (fg_total_clusters g)"
  shows "roomy P g fat img" "plan_end P \<le> unat (fg_total_clusters g) + 2"
proof -
  note lay = layout_okD [OF l]
  have e: "plan_end P \<le> unat (fg_total_clusters g) + 2" "2 \<le> plan_end P" using need_sum [OF P] room by simp_all
  have "(plan_end P - 2) * unat (pl_spc P) \<le> unat (fg_total_clusters g) * unat (pl_spc P)" using e(1) by (intro mult_le_mono1) simp
  then have "cluster_offset g (pl_spc P) (plan_end P) \<le> length img"
    unfolding cluster_offset_def lay(7) kSectorSize_def using lay(4) by (intro mult_le_mono1) linarith
  then show "roomy P g fat img" using e(1) lay(6,9,13) by (simp add: roomy_def)
  show "plan_end P \<le> unat (fg_total_clusters g) + 2" by (rule e(1))
qed

text \<open>An extent in the builder's FAT is one in the image.\<close>

lemma extent_in_image:
  assumes l: "layout_ok g spc nfats sectors fat img0" and img: "length img = length img0"
    and f: "slice (unat (fg_fat_lba g) * 512) (length fat) img = fat'" "length fat' = length fat" "chained fat' 0 c n"
    and c: "2 \<le> c" "0 < n" "c + n \<le> unat (fg_total_clusters g) + 2"
  shows "extent g img c n"
proof -
  note lay = layout_okD [OF l]
  let ?a = "unat (fg_fat_lba g) * 512"
  have fits: "?a + length fat \<le> length img" using lay(10,11,12) img by linarith
  have cn: "2 * (c + n) \<le> length fat" using mult_le_mono2 [OF order_trans [OF c(3) lay(9)], of 2] by (simp add: lay(6))
  have "rd16 img (?a + 2 * (c + i)) = rd16 fat' (0 + 2 * (c + i))" if "i < n" for i
    using rd16_in_slice [OF f(1) fits, of "2 * (c + i)"] that cn by simp
  then have "chained img ?a c n" using f(3) unfolding chained_def by presburger
  then show ?thesis using c cn fits lay(8) by (simp add: extent_def)
qed

lemma fill_tree:
  assumes P: "plan_ok P" and l: "layout_ok g (pl_spc P) nfats sectors fat img"
    and room: "clusters_needed (pl_spc P) (pl_counts P) (pl_files P) \<le> unat (fg_total_clusters g)"
      "32 * (pl_counts P ! 0) \<le> unat (fg_root_dir_sectors g) * 512"
    and zero: "\<And>i. unat (fg_data_lba g) * 512 \<le> i \<Longrightarrow> i < length img \<Longrightarrow> img ! i = 0"
  shows "\<exists>img' es. fill_image g (pl_spc P) nfats (pl_files P) (pl_placed P) (pl_dirs P) (pl_counts P) fat img = Some img' \<and>
    tree_image P g img img' es"
proof -
  let ?spc = "pl_spc P" and ?n = "length (pl_files P)" and ?fl = "unat (fg_fat_lba g)" and ?rl = "unat (fg_root_lba g)" and ?dl = "unat (fg_data_lba g)"
  let ?rds = "unat (fg_root_dir_sectors g) * 512"
  note lay = layout_okD [OF l] and rm = layout_roomy [OF P l room(1)] and nd = plan_okD(4) [OF P]
  obtain st1 st2 st es where st: "ofold (allocate_dir ?spc (pl_counts P)) [1..<n_dirs P]
      \<lparr>fb_fat = fat, fb_next = 2, fb_dirs = pl_dirs P, fb_linked = replicate (n_dirs P) False, fb_image = img\<rparr> = Some st1"
    "ofold (dot_entries (parents (pl_dirs P))) [1..<n_dirs P] st1 = Some st2"
    "ofold (add_file g ?spc (parents (pl_dirs P))) (zip (pl_files P) (pl_placed P)) st2 = Some st"
    "fb_dirs st = dir_list (pl_dirs P) (dir_at P) es" "\<forall>d<n_dirs P. mset (es d) = mset (slots_of P d)"
    "store_state P g fat img ?n st" using builder_done [OF P rm(1)] by blast
  have s: "length (fb_fat st) = length fat" "length (fb_image st) = length img"
    "allocated st (dir_extents P \<union> file_extents P ?n)" "\<And>i. i < length img \<Longrightarrow> i < file_place P g 0 \<Longrightarrow> fb_image st ! i = img ! i"
    "\<And>i. i < ?n \<Longrightarrow> slice (file_place P g i) (length (file_bytes P i)) (fb_image st) = file_bytes P i"
    using st(6) by (simp_all add: store_state_def)
  have es: "set (es d) = set (slots_of P d)" "length (es d) = pl_counts P ! d" if "d < n_dirs P" for d
    using st(5) that length_slots_of [OF P that] by (metis set_mset_mset, metis size_mset)
  have size: "32 * length (es d) \<le> dir_size P d" if "0 < d" "d < n_dirs P" for d
    using clusters_for_bounds(1) [OF plan_okD(1) [OF P], of "pl_counts P ! d * 32"] es(2) [OF that(2)] by (simp add: dir_size_def dir_need_def)
  have start: "dir_place P g 1 = ?dl * 512" by (simp add: dir_place_def dir_at_1 cluster_offset_def kSectorSize_def)
  have ends: "dir_place P g (n_dirs P) = file_place P g 0" by (simp add: dir_place_def file_place_def file_at_0 [OF nd])
  have low: "?dl * 512 \<le> file_place P g i" for i by (simp add: file_place_def cluster_offset_def kSectorSize_def)
  have img_end: "file_place P g ?n \<le> length img" using rm(1) by (simp add: roomy_def file_place_def plan_end_def)
  have "file_place P g 0 \<le> length img" using file_place_mono [of 0 ?n P g] img_end by simp
  moreover have "dir_at P (n_dirs P) < 65536" using dir_at_plan_end [OF P nd order_refl] rm(2) lay(13) by simp
  moreover have "fb_image st ! i = 0" if "?dl * 512 \<le> i" "i < file_place P g 0" for i
    using s(4) [of i] zero [of i] that \<open>file_place P g 0 \<le> length img\<close> by simp
  ultimately obtain im1 where im1: "ofold (write_dir g ?spc (dir_list (pl_dirs P) (dir_at P) es)) [1..<n_dirs P] (fb_image st) = Some im1" "length im1 = length img"
    "\<And>i. i < length img \<Longrightarrow> i < ?dl * 512 \<or> file_place P g 0 \<le> i \<Longrightarrow> im1 ! i = fb_image st ! i"
    "\<And>d. 0 < d \<Longrightarrow> d < n_dirs P \<Longrightarrow> slice (dir_place P g d) (dir_size P d) im1 = table (dir_size P d) (es d)"
    using write_dirs [OF P _ _ size, where g = g and img = "fb_image st" and k = "n_dirs P"] nd s(2) unfolding start ends by auto
  obtain im2 where im2: "ofold (write_fat g (fb_fat st)) [0..<unat nfats] im1 = Some im2" "length im2 = length img"
    "\<And>i. i < length img \<Longrightarrow> i < ?fl * 512 \<or> ?rl * 512 \<le> i \<Longrightarrow> im2 ! i = im1 ! i" "slice (?fl * 512) (length fat) im2 = fb_fat st"
    using write_fats_ok [of "fb_fat st" g "unat nfats" im1 "unat nfats"] s(1) im1(2) lay(1-7) by (auto simp: unat_gt_0)
  let ?root = "table ?rds (es 0)"
  have root: "put_bytes 0 (fd_entries (fb_dirs st ! 0)) (replicate (unat (fg_root_dir_sectors g) * kSectorSize) 0) = Some ?root"
    using root_bytes [of "es 0" ?rds] room(2) es(2) [OF nd] nd by (simp add: st(4) n_dirs_def kSectorSize_def)
  have root_len: "length ?root = ?rds" using room(2) es(2) [OF nd] by simp
  have fits: "?rl * 512 + length ?root \<le> length im2" using root_len lay(11,12) im2(2) by simp
  let ?img = "overwrite (?rl * 512) ?root im2"
  have "fill_image g ?spc nfats (pl_files P) (pl_placed P) (pl_dirs P) (pl_counts P) fat img = Some ?img"
    using st(1,2,3) root im1(1) im2(1) put_bytes_ok [OF fits] by (simp add: fill_image_def st(4) n_dirs_def kSectorSize_def)
  moreover have len: "length ?img = length img" using fits im2(2) by simp
  moreover have "?img ! i = img ! i" if "i < ?fl * 512" for i
  proof -
    have i: "i < length img" "i < ?rl * 512" "i < ?dl * 512" "i < file_place P g 0" using that lay(10,11,12) low [of 0] by linarith+
    then show ?thesis using that im2(2) im2(3) [OF i(1)] im1(3) [OF i(1)] s(4) [OF i(1,4)] fits by (simp add: nth_overwrite)
  qed
  moreover have fat: "slice (?fl * 512) (length fat) ?img = fb_fat st"
    using slice_overwrite_other [OF fits, of "?fl * 512" "length fat"] lay(10) fits im2(4) by simp
  have "extent g ?img c n" if cn: "(c, n) \<in> dir_extents P \<union> file_extents P ?n" for c n
  proof (rule extent_in_image [OF l len fat s(1)])
    show "chained (fb_fat st) 0 c n" using s(3) cn by (auto simp: allocated_def)
    show "2 \<le> c" "0 < n" using cn dir_at_ge dir_need_pos [OF P] by (auto simp: dir_extents_def file_extents_def file_at_def)
    have "c + n \<le> unat (fb_next st)" using s(3) cn by (auto simp: allocated_def)
    also have "\<dots> = plan_end P" using st(6) by (simp add: store_state_def plan_end_def)
    finally show "c + n \<le> unat (fg_total_clusters g) + 2" using rm(2) by simp
  qed
  moreover have same: "slice a n ?img = slice a n im1" if "?dl * 512 \<le> a" "a + n \<le> length img" for a n
  proof (rule slice_same)
    fix i assume i: "a \<le> i" "i < a + n"
    then show "?img ! i = im1 ! i" using that im2(2) im2(3) [of i] fits root_len lay(11) by (simp add: nth_overwrite)
  qed (use that len im1(2) in simp_all)
  have "slice (dir_place P g d) (dir_size P d) ?img = table (dir_size P d) (es d)" if d: "0 < d" "d < n_dirs P" for d
  proof -
    have "dir_place P g d + dir_size P d \<le> length img"
      using dir_place_Suc [OF d(1), of P g] dir_place_mono [of "Suc d" "n_dirs P" P g] d ends \<open>file_place P g 0 \<le> length img\<close> by simp
    then show ?thesis using same [of "dir_place P g d"] im1(4) [OF d] dir_place_mono [of 1 d P g] d start by simp
  qed
  moreover have "slice (file_place P g i) (length (file_bytes P i)) ?img = file_bytes P i" if i: "i < ?n" for i
  proof -
    have f: "file_place P g i + length (file_bytes P i) \<le> length img" by (rule file_in_image [OF P rm(1) i])
    have "slice (file_place P g i) (length (file_bytes P i)) ?img = slice (file_place P g i) (length (file_bytes P i)) im1"
      by (rule same [OF low f])
    also have "\<dots> = slice (file_place P g i) (length (file_bytes P i)) (fb_image st)"
      using f im1(2,3) s(2) file_place_mono [of 0 i P g] by (intro slice_same) simp_all
    finally show ?thesis using s(5) [OF i] by simp
  qed
  moreover have "slice (?rl * 512) ?rds ?img = ?root" using slice_overwrite_same [OF fits] unfolding root_len .
  ultimately show ?thesis using es unfolding tree_image_def by (intro exI [of _ ?img] exI [of _ es]) auto
qed

end
