(* ===== verification/Fat16_Paths.thy ===== *)
theory Fat16_Paths
  imports Fat16_Filled "HOL-Library.Sublist"
begin

text \<open>
  Paths on a volume built from files in nested directories: the reader of \<^theory_text>\<open>Fat16_Reader\<close> finds every file under
  its path, in upper case, and reads its bytes.
\<close>

section \<open>Names and paths\<close>

definition path_of :: "string \<Rightarrow> string list" where
  "path_of name = dir_path name @ [upper (leaf_name name)]"

definition good_name :: "string \<Rightarrow> bool" where
  "good_name name \<longleftrightarrow> list_all fits_8_3 (dir_path name) \<and> fits_8_3 (leaf_name name)"

lemma toupper_toupper: "toupper (toupper c) = toupper c"
proof -
  have "(of_char (char_of (of_char c - 32 :: nat) :: char) :: nat) = of_char c - 32" if "97 \<le> (of_char c :: nat)" "of_char c \<le> (122 :: nat)"
    using that by simp
  then show ?thesis by (auto simp: toupper_def Let_def)
qed

lemma upper_upper: "upper (upper s) = upper s"
  by (simp add: upper_def toupper_toupper)

lemma toupper_slash: "toupper c = CHR ''/'' \<longleftrightarrow> c = CHR ''/''"
  by (rule toupper_keeps) simp_all

lemma name_parts_upper: "name_parts (upper s) = map upper (name_parts s)"
  by (induction s) (auto simp: upper_def toupper_slash split: list.splits)

lemma name_parts_skip: "filter (\<lambda>p. p \<noteq> []) (name_parts (dropWhile (\<lambda>c. c = CHR ''/'') s)) = filter (\<lambda>p. p \<noteq> []) (name_parts s)"
  by (induction s) auto

lemma at_slash: "CHR ''/'' \<in> set s \<Longrightarrow> \<exists>t. dropWhile (\<lambda>c. c \<noteq> CHR ''/'') s = CHR ''/'' # t"
  by (induction s) auto

lemma path_parts_name: "path_parts s = filter (\<lambda>p. p \<noteq> []) (name_parts s)"
proof (induction s rule: path_parts.induct)
  case (1 s)
  let ?p = "dropWhile (\<lambda>c. c = CHR ''/'') s"
  show ?case
  proof (cases "?p = []")
    case True
    have "filter (\<lambda>p. p \<noteq> []) (name_parts s) = []" using name_parts_skip [of s] unfolding True by simp
    then show ?thesis by (subst path_parts.simps) (simp only: True Let_def if_True simp_thms)
  next
    case False
    let ?head = "takeWhile (\<lambda>c. c \<noteq> CHR ''/'') ?p" and ?rest = "dropWhile (\<lambda>c. c \<noteq> CHR ''/'') ?p"
    have "hd ?p \<noteq> CHR ''/''" using hd_dropWhile [of "\<lambda>c. c = CHR ''/''" s] False by simp
    then have head: "?head \<noteq> []" using False by (cases ?p) (simp_all del: dropWhile_eq_Nil_conv)
    have "filter (\<lambda>p. p \<noteq> []) (name_parts ?p) = ?head # filter (\<lambda>p. p \<noteq> []) (name_parts ?rest)"
    proof (cases "CHR ''/'' \<in> set ?p")
      case True
      then obtain t where "?rest = CHR ''/'' # t" using at_slash by blast
      then show ?thesis using name_parts_split [of ?p] True head by simp
    next
      case slash: False
      then have "\<forall>c\<in>set ?p. c \<noteq> CHR ''/''" by blast
      then have whole: "?head = ?p" "?rest = []" unfolding takeWhile_eq_all_conv dropWhile_eq_Nil_conv by assumption+
      have "name_parts ?p = [?p]" using name_parts_split [of ?p] slash by (simp only: if_False)
      then show ?thesis unfolding whole by (simp only: filter.simps False not_False_eq_True if_True name_parts.simps) simp
    qed
    then show ?thesis using 1 False name_parts_skip [of s] by (subst path_parts.simps) (simp add: Let_def)
  qed
qed

lemma path_parts_upper:
  assumes "good_name name"
  shows "path_parts (upper name) = path_of name"
proof -
  let ?ps = "butlast (name_parts name)" and ?leaf = "leaf_name name"
  have leaf: "upper ?leaf \<noteq> []" using assms by (auto simp: good_name_def fits_8_3_def base_name_def upper_def)
  have "name_parts name = ?ps @ [?leaf]" by (simp add: leaf_name_def)
  then have "map upper (name_parts name) = map upper ?ps @ [upper ?leaf]" by (metis list.simps(8,9) map_append)
  then have "path_parts (upper name) = filter (\<lambda>p. p \<noteq> []) (map upper ?ps) @ [upper ?leaf]"
    using leaf by (simp add: path_parts_name name_parts_upper)
  also have "filter (\<lambda>p. p \<noteq> []) (map upper ?ps) = dir_path name"
    unfolding dir_path_def by (simp add: filter_map comp_def upper_def)
  finally show ?thesis by (simp add: path_of_def)
qed

section \<open>One directory\<close>

text \<open>No file's path is another's, or a directory on the way to another.\<close>

definition distinct_paths :: "fat16_file list \<Rightarrow> bool" where
  "distinct_paths files \<longleftrightarrow> (\<forall>i<length files. \<forall>j<length files. i \<noteq> j \<longrightarrow>
     \<not> prefix (path_of (ff_name (files ! i))) (path_of (ff_name (files ! j))))"

definition good_plan :: "plan \<Rightarrow> bool" where
  "good_plan P \<longleftrightarrow> plan_ok P \<and> distinct_paths (pl_files P) \<and> (\<forall>f\<in>set (pl_files P). good_name (ff_name f) \<and> length (ff_data f) < 4294967296)"

lemma good_planD:
  assumes "good_plan P"
  shows "plan_ok P" "i < length (pl_files P) \<Longrightarrow> j < length (pl_files P) \<Longrightarrow>
      prefix (path_of (ff_name (pl_files P ! i))) (path_of (ff_name (pl_files P ! j))) \<Longrightarrow> i = j"
    "i < length (pl_files P) \<Longrightarrow> good_name (ff_name (pl_files P ! i))"
    "i < length (pl_files P) \<Longrightarrow> length (ff_data (pl_files P ! i)) < 4294967296"
  using assms by (auto simp: good_plan_def distinct_paths_def)

lemma find_slot:
  "s \<in> set es \<Longrightarrow> fe_name (slot_entry s) = n \<Longrightarrow> (\<And>t. t \<in> set es \<Longrightarrow> fe_name (slot_entry t) = n \<Longrightarrow> t = s) \<Longrightarrow>
   find (\<lambda>e. fe_name e = n) (map slot_entry es) = Some (slot_entry s)"
proof (induction es)
  case (Cons t es)
  show ?case
  proof (cases "fe_name (slot_entry t) = n")
    case True
    then show ?thesis using Cons.prems(3) [of t] by simp
  next
    case False
    then have "find (\<lambda>e. fe_name e = n) (map slot_entry es) = Some (slot_entry s)"
      using Cons.prems(1,2) by (intro Cons.IH Cons.prems(3)) auto
    then show ?thesis using False by simp
  qed
qed simp

text \<open>The parts of the paths are names of directories.\<close>

lemma child_part:
  assumes P: "good_plan P" and c: "child (pl_dirs P) d n x"
  shows "fits_8_3 n" "upper n = n" "\<exists>i<length (pl_files P). above (pl_dirs P) x (fst (pl_placed P ! i))"
proof -
  note placed = placed_okD [OF plan_okD(2) [OF good_planD(1) [OF P]]]
  have x: "0 < x" "x < length (pl_dirs P)" "d < length (pl_dirs P)" using tree_okD(1,2,3) [OF placed(1) c] by simp_all
  show "\<exists>i<length (pl_files P). above (pl_dirs P) x (fst (pl_placed P ! i))" by (rule placed(6) [OF x(1,2)])
  then obtain i where i: "i < length (pl_files P)" "above (pl_dirs P) x (fst (pl_placed P ! i))" by blast
  obtain p where p: "reaches (pl_dirs P) p d" using reaches_exists [OF placed(1) x(3)] by blast
  obtain q where "reaches (pl_dirs P) ((p @ [n]) @ q) (fst (pl_placed P ! i))"
    using above_path [OF i(2) reaches.down [OF p c]] by blast
  then have "dir_path (ff_name (pl_files P ! i)) = p @ n # q" using reaches_unique [OF placed(1) _ placed(4) [OF i(1)]] by fastforce
  then have n: "n \<in> set (dir_path (ff_name (pl_files P ! i)))" by simp
  then show "fits_8_3 n" using good_planD(3) [OF P i(1)] by (auto simp: good_name_def list_all_iff)
  show "upper n = n" using n by (auto simp: dir_path_def upper_upper)
qed

lemma fe_names:
  "fe_name (slot_entry (sub_slot P (n, x))) = dotted (short_name n)"
  "fe_name (slot_entry (file_slot P i)) = dotted (short_name (snd (pl_placed P ! i)))"
  "fe_attr (slot_entry (sub_slot P (n, x))) = 0x10" "fe_cluster (slot_entry (sub_slot P (n, x))) = of_nat (dir_at P x)"
  "fe_size (slot_entry (file_slot P i)) = of_nat (length (file_bytes P i))"
  "fe_cluster (slot_entry (file_slot P i)) = (if file_need P i = 0 then 0 else of_nat (file_at P i))"
  by (simp_all add: slot_entry_def sub_slot_def file_slot_def file_bytes_def)

lemma dots_names: "t \<in> set (dots P d) \<Longrightarrow> fe_name (slot_entry t) = ''.'' \<or> fe_name (slot_entry t) = ''..''"
proof -
  have "dotted (short_name ''.'') = ''.''" "dotted (short_name ''..'') = ''..''" by code_simp+
  then show "t \<in> set (dots P d) \<Longrightarrow> fe_name (slot_entry t) = ''.'' \<or> fe_name (slot_entry t) = ''..''"
    by (auto simp: dots_def slot_entry_def split: if_splits)
qed

lemma fits_not_dots:
  assumes "fits_8_3 n"
  shows "upper n \<noteq> ''.'' \<and> upper n \<noteq> ''..''"
proof (cases n)
  case (Cons c m)
  have "toupper c = CHR ''.'' \<longleftrightarrow> c = CHR ''.''" by (rule toupper_keeps) simp_all
  moreover have "c \<noteq> CHR ''.''" using assms Cons by (auto simp: fits_8_3_def base_name_def)
  ultimately show ?thesis by (simp add: Cons upper_def)
qed (simp add: upper_def)

lemma slots_cases:
  assumes "t \<in> set (slots_of P d)" "d < n_dirs P"
  obtains "t \<in> set (dots P d)" | n x where "child (pl_dirs P) d n x" "t = sub_slot P (n, x)"
    | i where "i < length (pl_placed P)" "fst (pl_placed P ! i) = d" "t = file_slot P i"
  using assms by (auto simp: slots_of_def child_def n_dirs_def files_in_def)

text \<open>The path to a directory below and the path of a file in this directory are different.\<close>

lemma dir_not_file:
  assumes P: "good_plan P" and c: "child (pl_dirs P) d n x" and i: "i < length (pl_files P)" "fst (pl_placed P ! i) = d"
  shows "upper (snd (pl_placed P ! i)) \<noteq> n"
proof
  assume n: "upper (snd (pl_placed P ! i)) = n"
  note placed = placed_okD [OF plan_okD(2) [OF good_planD(1) [OF P]]]
  obtain j where j: "j < length (pl_files P)" "above (pl_dirs P) x (fst (pl_placed P ! j))" using child_part(3) [OF P c] by blast
  have "reaches (pl_dirs P) (dir_path (ff_name (pl_files P ! i)) @ [n]) x" using reaches.down [OF placed(4) [OF i(1)]] c i(2) by blast
  moreover have path: "dir_path (ff_name (pl_files P ! i)) @ [n] = path_of (ff_name (pl_files P ! i))" using n placed(5) [OF i(1)] by (simp add: path_of_def)
  ultimately obtain q where "reaches (pl_dirs P) (path_of (ff_name (pl_files P ! i)) @ q) (fst (pl_placed P ! j))" using above_path [OF j(2)] by metis
  then have q: "dir_path (ff_name (pl_files P ! j)) = path_of (ff_name (pl_files P ! i)) @ q" using reaches_unique [OF placed(1) _ placed(4) [OF j(1)]] by fastforce
  then have "prefix (path_of (ff_name (pl_files P ! i))) (path_of (ff_name (pl_files P ! j)))" by (simp add: path_of_def)
  then have "i = j" by (rule good_planD(2) [OF P i(1) j(1)])
  then show False using q by (simp add: path_of_def)
qed

lemma find_sub:
  assumes P: "good_plan P" and es: "set es = set (slots_of P d)" and c: "child (pl_dirs P) d n x"
  shows "find (\<lambda>e. fe_name e = n) (map slot_entry es) = Some (slot_entry (sub_slot P (n, x)))"
proof (rule find_slot)
  note placed = placed_okD [OF plan_okD(2) [OF good_planD(1) [OF P]]]
  have d: "d < n_dirs P" using c by (simp add: child_def n_dirs_def)
  show "sub_slot P (n, x) \<in> set es" using c unfolding es by (auto simp: slots_of_def child_def)
  have names: "dotted (short_name m) = m" if "child (pl_dirs P) d m y" for m y
    using dotted_short_name child_part(1,2) [OF P that] by simp
  show "fe_name (slot_entry (sub_slot P (n, x))) = n" using names [OF c] by (simp add: fe_names)
  fix t assume t: "t \<in> set es" "fe_name (slot_entry t) = n"
  from t(1) [unfolded es] d show "t = sub_slot P (n, x)"
  proof (cases rule: slots_cases)
    case 1
    then show ?thesis using dots_names [OF 1] t(2) fits_not_dots [OF child_part(1) [OF P c]] child_part(2) [OF P c] by auto
  next
    case (2 m y)
    then have "m = n" using names [OF 2(1)] t(2) by (simp add: fe_names)
    then show ?thesis using 2 tree_okD(4) [OF placed(1) c] by simp
  next
    case (3 i)
    then have i: "i < length (pl_files P)" using placed(2) by simp
    have "fe_name (slot_entry t) = upper (snd (pl_placed P ! i))"
      using dotted_short_name good_planD(3) [OF P i] placed(5) [OF i] 3(3) by (simp add: fe_names good_name_def)
    then show ?thesis using dir_not_file [OF P c i 3(2)] t(2) by simp
  qed
qed

lemma find_file:
  assumes P: "good_plan P" and i: "i < length (pl_files P)" "fst (pl_placed P ! i) = d" and es: "set es = set (slots_of P d)"
  shows "find (\<lambda>e. fe_name e = upper (snd (pl_placed P ! i))) (map slot_entry es) = Some (slot_entry (file_slot P i))"
proof (rule find_slot)
  note placed = placed_okD [OF plan_okD(2) [OF good_planD(1) [OF P]]]
  have d: "d < n_dirs P" using placed(3) [OF i(1)] i(2) by (simp add: n_dirs_def)
  have names: "fe_name (slot_entry (file_slot P j)) = upper (snd (pl_placed P ! j))" if "j < length (pl_files P)" for j
    using dotted_short_name good_planD(3) [OF P that] placed(5) [OF that] by (simp add: fe_names good_name_def)
  show "fe_name (slot_entry (file_slot P i)) = upper (snd (pl_placed P ! i))" by (rule names [OF i(1)])
  show "file_slot P i \<in> set es" using i placed(2) unfolding es by (auto simp: slots_of_def files_in_def)
  fix t assume t: "t \<in> set es" "fe_name (slot_entry t) = upper (snd (pl_placed P ! i))"
  from t(1) [unfolded es] d show "t = file_slot P i"
  proof (cases rule: slots_cases)
    case 1
    have "fits_8_3 (snd (pl_placed P ! i))" using good_planD(3) [OF P i(1)] placed(5) [OF i(1)] by (simp add: good_name_def)
    then show ?thesis using dots_names [OF 1] t(2) fits_not_dots by metis
  next
    case (2 m y)
    then have "dotted (short_name m) = m" using dotted_short_name child_part(1,2) [OF P 2(1)] by simp
    then show ?thesis using dir_not_file [OF P 2(1) i] t(2) 2(2) by (simp add: fe_names)
  next
    case (3 j)
    then have j: "j < length (pl_files P)" using placed(2) by simp
    have "dir_path (ff_name (pl_files P ! i)) = dir_path (ff_name (pl_files P ! j))"
      using reaches_unique [OF placed(1) placed(4) [OF i(1)]] placed(4) [OF j] i(2) 3(2) by metis
    then have "path_of (ff_name (pl_files P ! i)) = path_of (ff_name (pl_files P ! j))"
      using t(2) names [OF j] 3(3) placed(5) [OF i(1)] placed(5) [OF j] by (simp add: path_of_def)
    then have "i = j" using good_planD(2) [OF P i(1) j] by simp
    then show ?thesis using 3(3) by simp
  qed
qed

section \<open>Walking down\<close>

lemma walk:
  assumes P: "good_plan P" and entries: "\<And>d. d < n_dirs P \<Longrightarrow> dir_entries v (of_nat (dir_at P d)) = Some (map slot_entry (es d))"
    and es: "\<And>d. d < n_dirs P \<Longrightarrow> set (es d) = set (slots_of P d)"
  shows "reaches (pl_dirs P) p d \<Longrightarrow> \<exists>f. \<forall>rest out. find_parts v (p @ rest) 0 out = find_parts v rest (of_nat (dir_at P d)) (f out)"
proof (induction rule: reaches.induct)
  case root
  have "dir_at P 0 = 0" by (simp add: dir_at_def)
  then show ?case by (auto intro: exI [of _ id])
next
  case (down p d n x)
  then obtain f where f: "\<And>rest out. find_parts v (p @ rest) 0 out = find_parts v rest (of_nat (dir_at P d)) (f out)" by blast
  have d: "d < n_dirs P" using down.hyps(2) by (simp add: child_def n_dirs_def)
  have "find_parts v ((p @ [n]) @ rest) 0 out = find_parts v rest (of_nat (dir_at P x)) (slot_entry (sub_slot P (n, x)))" for rest out
    using f [of "n # rest" out] by (simp add: entries [OF d] find_sub [OF P es [OF d] down.hyps(2)] fe_names)
  then show ?case by (intro exI [of _ "\<lambda>_. slot_entry (sub_slot P (n, x))"] allI)
qed

lemma find_placed:
  assumes P: "good_plan P" and entries: "\<And>d. d < n_dirs P \<Longrightarrow> dir_entries v (of_nat (dir_at P d)) = Some (map slot_entry (es d))"
    and es: "\<And>d. d < n_dirs P \<Longrightarrow> set (es d) = set (slots_of P d)" and i: "i < length (pl_files P)"
  shows "find_path v (upper (ff_name (pl_files P ! i))) = Some (Some (slot_entry (file_slot P i)))"
proof -
  note placed = placed_okD [OF plan_okD(2) [OF good_planD(1) [OF P]]]
  let ?d = "fst (pl_placed P ! i)"
  have d: "?d < n_dirs P" using placed(3) [OF i] by (simp add: n_dirs_def)
  obtain f where "\<forall>rest out. find_parts v (dir_path (ff_name (pl_files P ! i)) @ rest) 0 out = find_parts v rest (of_nat (dir_at P ?d)) (f out)"
    using walk [OF P entries es placed(4) [OF i]] by blast
  then show ?thesis
    using find_file [OF P i refl es [OF d]] placed(5) [OF i]
    by (simp add: find_path_def path_parts_upper [OF good_planD(3) [OF P i]] path_of_def entries [OF d])
qed

lemma slots_live:
  assumes P: "good_plan P" and d: "d < n_dirs P" and t: "t \<in> set (slots_of P d)"
  shows "live t"
  using t d
proof (cases rule: slots_cases)
  case 1
  then show ?thesis by (auto simp: dots_def live_def split: if_splits)
next
  case (2 n x)
  then show ?thesis using child_part(1) [OF P 2(1)] by (simp add: live_def sub_slot_def)
next
  case (3 i)
  note placed = placed_okD [OF plan_okD(2) [OF good_planD(1) [OF P]]]
  have i: "i < length (pl_files P)" using 3(1) placed(2) by simp
  then show ?thesis using good_planD(3) [OF P i] placed(5) [OF i] 3(3) by (simp add: live_def file_slot_def good_name_def)
qed

text \<open>The image read back: every file, under its path, with its bytes.\<close>

lemma tree_reads:
  assumes P: "good_plan P" and l: "layout_ok g (pl_spc P) nfats sectors fat img0" and img: "tree_image P g img0 img es"
    and v: "mounts v g (pl_spc P) roots img" and roots: "16 dvd unat roots" "unat (fg_root_dir_sectors g) = unat roots div 16"
      "pl_counts P ! 0 \<le> unat roots" and i: "i < length (pl_files P)"
  shows "\<exists>e. find_path v (upper (ff_name (pl_files P ! i))) = Some (Some e) \<and> \<not> is_dir e \<and>
    unat (fe_size e) = length (ff_data (pl_files P ! i)) \<and> read_entry v e = Some (ff_data (pl_files P ! i))"
proof -
  note ok = good_planD(1) [OF P] and lay = layout_okD [OF l]
  have im: "length img = length img0" "\<And>c n. (c, n) \<in> dir_extents P \<union> file_extents P (length (pl_files P)) \<Longrightarrow> extent g img c n"
    "\<And>d. d < n_dirs P \<Longrightarrow> set (es d) = set (slots_of P d)" "\<And>d. d < n_dirs P \<Longrightarrow> length (es d) = pl_counts P ! d"
    "slice (unat (fg_root_lba g) * 512) (unat (fg_root_dir_sectors g) * 512) img = table (unat (fg_root_dir_sectors g) * 512) (es 0)"
    "\<And>d. 0 < d \<Longrightarrow> d < n_dirs P \<Longrightarrow> slice (dir_place P g d) (dir_size P d) img = table (dir_size P d) (es d)"
    "\<And>i. i < length (pl_files P) \<Longrightarrow> slice (file_place P g i) (length (file_bytes P i)) img = file_bytes P i"
    using img unfolding tree_image_def by auto
  have tot: "unat (fg_data_lba g) + unat (fg_total_clusters g) * unat (pl_spc P) < 4294967296"
    "(unat (fg_data_lba g) + unat (fg_total_clusters g) * unat (pl_spc P)) * 512 \<le> length img"
    using lay(4,5,7) im(1) by simp_all
  have live: "\<forall>s\<in>set (es d). live s" if "d < n_dirs P" for d using slots_live [OF P that] im(3) [OF that] by simp
  have entries: "dir_entries v (of_nat (dir_at P d)) = Some (map slot_entry (es d))" if d: "d < n_dirs P" for d
  proof (cases "d = 0")
    case True
    have size: "unat (fg_root_dir_sectors g) * 512 = 32 * unat roots" using roots(1,2) by auto
    have "unat (fg_root_lba g) + unat roots div 16 = unat (fg_data_lba g)" using lay(3) roots(2) by simp
    then have "dir_entries v 0 = Some (map slot_entry (es 0))"
      using tot im(4) [OF d] im(5) roots(3) True live [OF d] unfolding size
      by (intro root_entries [OF v roots(1)]) (simp_all add: table_def diff_mult_distrib2)
    then show ?thesis using True by (simp add: dir_at_def)
  next
    case False
    have "32 * length (es d) \<le> dir_size P d"
      using clusters_for_bounds(1) [OF plan_okD(1) [OF ok], of "pl_counts P ! d * 32"] im(4) [OF d] by (simp add: dir_size_def dir_need_def)
    moreover have "extent g img (dir_at P d) (dir_need P d)" using d False by (intro im(2)) (simp add: dir_extents_def)
    ultimately show ?thesis
      using live [OF d] im(6) [OF _ d] False tot by (intro subdir_entries [OF v]) (simp_all add: dir_size_def dir_place_def table_def)
  qed
  let ?e = "slot_entry (file_slot P i)"
  have size: "unat (fe_size ?e) = length (file_bytes P i)"
    using good_planD(4) [OF P i] by (simp add: fe_names file_bytes_def unat_of_nat)
  have "read_entry v ?e = Some (file_bytes P i)"
  proof (cases "file_need P i = 0")
    case True
    then have "file_bytes P i = []" using need_0 [OF plan_okD(1) [OF ok]] by (simp add: file_need_def file_bytes_def)
    then show ?thesis using True size by (simp add: read_entry_def fe_names no_chain)
  next
    case False
    have "extent g img (file_at P i) (file_need P i)" using i False by (intro im(2)) (auto simp: file_extents_def)
    then have "read_entry v ?e = Some (slice (cluster_offset g (pl_spc P) (file_at P i)) (unat (fe_size ?e)) img)"
      using False size file_fits [OF ok, of i] tot by (intro read_extent [OF v]) (simp_all add: fe_names)
    then show ?thesis using size im(7) [OF i] by (simp add: file_place_def)
  qed
  moreover have "\<not> is_dir ?e" by (simp add: is_dir_def slot_entry_def file_slot_def)
  ultimately show ?thesis using find_placed [OF P entries im(3) i] size by (auto simp: file_bytes_def)
qed

section \<open>The whole build\<close>

lemma tree_roundtrip:
  assumes "fat_geometry (length payload) sectors spc roots nfats = Some g"
    and "4085 \<le> fg_total_clusters g" "fg_total_clusters g \<le> 65524"
    and "1 + (length payload + 511) div 512 < 65536" "fg_sectors_per_fat g < 65536" "0 < nfats" "16 dvd unat roots"
    and "unat (fg_reserved_sectors g) + unat nfats * unat (fg_sectors_per_fat g) + unat (fg_root_dir_sectors g) \<le> unat sectors"
    and "unat (fg_total_clusters g) + 2 \<le> 256 * unat (fg_sectors_per_fat g)"
    and "place_files files = (placed, dirs)" "entry_counts placed dirs ! 0 \<le> unat roots"
    and "clusters_needed spc (entry_counts placed dirs) files \<le> unat (fg_total_clusters g)"
    and "distinct_paths files" "\<forall>f\<in>set files. good_name (ff_name f) \<and> length (ff_data f) < 4294967296"
  shows "\<exists>img v. build_fat16_image True True payload files sectors spc roots nfats = Some (Inr img) \<and>
    length img = unat sectors * 512 \<and> slice 512 (length payload) img = payload \<and> parse_volume img = Some (Some v) \<and>
    (\<forall>f\<in>set files. \<exists>e. find_path v (upper (ff_name f)) = Some (Some e) \<and> \<not> is_dir e \<and>
      unat (fe_size e) = length (ff_data f) \<and> read_entry v e = Some (ff_data f))"
proof -
  note g = assms(1) and lay = geometry_layout [OF assms(1,4,8)]
  let ?P = "\<lparr>pl_spc = spc, pl_files = files, pl_placed = placed, pl_dirs = dirs\<rparr>"
  obtain img0 img1 fat where start: "boot_sector g sectors spc roots nfats (replicate (unat sectors * 512) 0) = Some img0"
    "512 \<le> unat sectors * 512" "length img1 = unat sectors * 512" "length img0 = length img1" "\<And>i. i < 512 \<Longrightarrow> img1 ! i = img0 ! i"
    "slice 512 (length payload) img1 = payload" "512 + length payload \<le> unat (fg_fat_lba g) * 512"
    "\<And>i. i < length img1 \<Longrightarrow> unat (fg_fat_lba g) * 512 \<le> i \<Longrightarrow> img1 ! i = 0" "length fat = unat (fg_sectors_per_fat g) * 512"
    "build_fat16_image True True payload files sectors spc roots nfats =
      map_option Inr (fill_image g spc nfats files placed dirs (entry_counts placed dirs) fat img1)"
    using build_start [OF g assms(2,3,9,4,8,10)] assms(11,12) by (auto simp: not_less [symmetric])
  have ok: "plan_ok ?P" using place_files_ok [of files] lay(1) by (simp add: plan_ok_def assms(10))
  then have good: "good_plan ?P" using assms(13,14) by (simp add: good_plan_def)
  have l: "layout_ok g (pl_spc ?P) nfats (unat sectors) fat img1"
    using assms(3,6,9) lay(4-7) start(3,9) by (simp add: layout_ok_def)
  have rds: "unat (fg_root_dir_sectors g) = unat roots div 16" unfolding lay(3) using assms(7) by (auto elim!: dvdE)
  then have root_room: "32 * (pl_counts ?P ! 0) \<le> unat (fg_root_dir_sectors g) * 512"
    using assms(7,11) by (auto simp: pl_counts_def elim!: dvdE)
  obtain img es where img: "fill_image g spc nfats files placed dirs (entry_counts placed dirs) fat img1 = Some img" "tree_image ?P g img1 img es"
    using fill_tree [OF ok l _ root_room] assms(12) start(8) lay(5,6) unfolding lay(4) by (auto simp: pl_counts_def)
  have im: "length img = length img1" "\<And>i. i < unat (fg_fat_lba g) * 512 \<Longrightarrow> img ! i = img1 ! i" using img(2) by (simp_all add: tree_image_def)
  have payload: "slice 512 (length payload) img = payload"
  proof -
    have "slice 512 (length payload) img = slice 512 (length payload) img1"
      using im start(7) l lay(4-7) by (intro slice_same) (simp_all add: layout_ok_def)
    then show ?thesis using start(6) by simp
  qed
  have "\<forall>i<512. img ! i = img0 ! i" using im(2) start(5,7) by simp
  then obtain v where v: "parse_volume img = Some (Some v)" "mounts v g spc roots img"
    using boot_parses [OF start(1) _ _ _ g assms(5,7), of img] start(2,3,4) im(1) by auto
  have "\<exists>e. find_path v (upper (ff_name (files ! i))) = Some (Some e) \<and> \<not> is_dir e \<and>
      unat (fe_size e) = length (ff_data (files ! i)) \<and> read_entry v e = Some (ff_data (files ! i))" if "i < length files" for i
    using tree_reads [OF good l img(2) _ assms(7) rds, where i = i] v(2) assms(11) that by (simp add: pl_counts_def)
  then have "\<forall>f\<in>set files. \<exists>e. find_path v (upper (ff_name f)) = Some (Some e) \<and> \<not> is_dir e \<and>
      unat (fe_size e) = length (ff_data f) \<and> read_entry v e = Some (ff_data f)" by (metis in_set_conv_nth)
  then show ?thesis using start(10) img(1) v(1) payload im(1) start(3) by (intro exI [of _ img] exI [of _ v]) simp
qed

text \<open>C15. A volume built from files in nested directories is read back by the repository's own reader: with room for the
  entries and the clusters, a FAT with an entry for every cluster, and names whose parts fit 8.3, none of whose paths
  leads through or to another file, the build succeeds, the reader mounts the image, and for every file it finds an
  entry under its path, in upper case, with the file's size, from which it reads exactly the file's bytes.\<close>
theorem fat_tree_roundtrip:
  assumes "fat_geometry (length payload) sectors spc roots nfats = Some g"
    and "4085 \<le> fg_total_clusters g" "fg_total_clusters g \<le> 65524"
    and "1 + (length payload + 511) div 512 < 65536" "fg_sectors_per_fat g < 65536" "0 < nfats" "16 dvd unat roots"
    and "unat (fg_reserved_sectors g) + unat nfats * unat (fg_sectors_per_fat g) + unat (fg_root_dir_sectors g) \<le> unat sectors"
    and "unat (fg_total_clusters g) + 2 \<le> 256 * unat (fg_sectors_per_fat g)"
    and "place_files files = (placed, dirs)" "entry_counts placed dirs ! 0 \<le> unat roots"
    and "clusters_needed spc (entry_counts placed dirs) files \<le> unat (fg_total_clusters g)"
    and "distinct_paths files" "\<forall>f\<in>set files. good_name (ff_name f) \<and> length (ff_data f) < 4294967296"
  shows "\<exists>img v. build_fat16_image True True payload files sectors spc roots nfats = Some (Inr img) \<and>
    length img = unat sectors * 512 \<and> slice 512 (length payload) img = payload \<and> parse_volume img = Some (Some v) \<and>
    (\<forall>f\<in>set files. \<exists>e. find_path v (upper (ff_name f)) = Some (Some e) \<and> \<not> is_dir e \<and>
      unat (fe_size e) = length (ff_data f) \<and> read_entry v e = Some (ff_data f))"
  using assms by (rule tree_roundtrip)

theorem fat_tree_roundtrip_witness:
  "\<exists>img v e. build_fat16_image True True [1, 2, 3]
      [\<lparr>ff_name = ''Hello.txt'', ff_data = [0x48, 0x69]\<rparr>, \<lparr>ff_name = ''bin/tools/run.com'', ff_data = [7, 8, 9]\<rparr>] 16384 2 512 2 = Some (Inr img) \<and>
    parse_volume img = Some (Some v) \<and> find_path v ''BIN/TOOLS/RUN.COM'' = Some (Some e) \<and> read_entry v e = Some [7, 8, 9]"
proof -
  let ?files = "[\<lparr>ff_name = ''Hello.txt'', ff_data = [0x48, 0x69]\<rparr>, \<lparr>ff_name = ''bin/tools/run.com'', ff_data = [7, 8, 9]\<rparr>] :: fat16_file list"
  let ?g = "\<lparr>fg_reserved_sectors = 2, fg_root_dir_sectors = 32, fg_sectors_per_fat = 32,
      fg_fat_lba = 2, fg_root_lba = 66, fg_data_lba = 98, fg_total_clusters = 8143\<rparr>"
  let ?dirs = "[\<lparr>fd_entries = [], fd_cluster = 0, fd_subdirs = [(''BIN'', 1)]\<rparr>, \<lparr>fd_entries = [], fd_cluster = 0, fd_subdirs = [(''TOOLS'', 2)]\<rparr>,
      \<lparr>fd_entries = [], fd_cluster = 0, fd_subdirs = []\<rparr>]"
  have place: "place_files ?files = ([(0, ''Hello.txt''), (2, ''run.com'')], ?dirs)"
    by (simp add: place_files_def place_file.simps new_dir_def find_child_def) code_simp
  have paths: "path_of ''Hello.txt'' = [''HELLO.TXT'']" "path_of ''bin/tools/run.com'' = [''BIN'', ''TOOLS'', ''RUN.COM'']" by code_simp+
  have counts: "entry_counts [(0, ''Hello.txt''), (2, ''run.com'')] ?dirs = [2, 3, 3]" by code_simp
  have good: "good_name ''Hello.txt''" "good_name ''bin/tools/run.com''" by code_simp+
  have "distinct_paths ?files" by (auto simp: distinct_paths_def less_Suc_eq paths)
  then have "\<exists>img v. build_fat16_image True True [1, 2, 3] ?files 16384 2 512 2 = Some (Inr img) \<and>
    length img = unat (16384 :: u32) * 512 \<and> slice 512 (length [1, 2, 3 :: u8]) img = [1, 2, 3] \<and> parse_volume img = Some (Some v) \<and>
    (\<forall>f\<in>set ?files. \<exists>e. find_path v (upper (ff_name f)) = Some (Some e) \<and> \<not> is_dir e \<and>
      unat (fe_size e) = length (ff_data f) \<and> read_entry v e = Some (ff_data f))"
    using good by (intro fat_tree_roundtrip [where g = ?g, OF _ _ _ _ _ _ _ _ _ place])
      (simp_all add: fat_geometry_def kSectorSize_def counts [simplified] clusters_needed_def clusters_for_def bytes_per_cluster_def upt_rec)
  moreover have "upper ''bin/tools/run.com'' = ''BIN/TOOLS/RUN.COM''" by code_simp
  ultimately show ?thesis by auto
qed

section \<open>The volume of the programs\<close>

text \<open>The volume: 16384 sectors of which the payload's are the only ones that vary.\<close>

lemma disk_geometry:
  assumes "n \<le> 65536"
  shows "\<exists>g. fat_geometry n 16384 2 512 2 = Some g \<and> unat (fg_reserved_sectors g) = 1 + (n + 511) div 512 \<and>
    unat (fg_sectors_per_fat g) = 32 \<and> unat (fg_root_dir_sectors g) = 32 \<and> unat (fg_total_clusters g) = (16287 - (n + 511) div 512) div 2"
proof -
  define r where "r = 1 + (n + 511) div 512"
  have r: "r \<le> 129" "1 \<le> r" using assms unfolding r_def by linarith+
  let ?g = "\<lparr>fg_reserved_sectors = of_nat r, fg_root_dir_sectors = 32, fg_sectors_per_fat = 32, fg_fat_lba = of_nat r,
    fg_root_lba = of_nat r + 64, fg_data_lba = of_nat r + 96, fg_total_clusters = of_nat ((16288 - r) div 2)\<rparr>"
  have fat_lba: "(ucast (of_nat r :: u16) :: u32) = of_nat r"
    using r by (simp add: word_unat_eq_iff unsigned_ucast_eq take_bit_eq_mod unat_of_nat)
  have spf: "(16865 - of_nat r :: u32) div 514 = 32"
  proof -
    have "(16865 - of_nat r :: u32) = of_nat (16865 - r)" using r by simp
    moreover have "(16865 - r) div 514 = 32" using r by (intro div_nat_eqI) simp_all
    moreover have "16865 - r < 4294967296" by simp
    ultimately show ?thesis by (simp only: word_unat_eq_iff unat_div unat_of_nat) simp
  qed
  have total: "(16288 - of_nat r :: u32) div 2 = of_nat ((16288 - r) div 2)"
  proof -
    have "(16288 - of_nat r :: u32) = of_nat (16288 - r)" using r by simp
    moreover have "16288 - r < 4294967296" "(16288 - r) div 2 < 4294967296" by simp_all
    ultimately show ?thesis by (simp only: word_unat_eq_iff unat_div unat_of_nat) simp
  qed
  have reserved: "1 + (n + 512 - 1) div 512 = r" by (simp add: r_def)
  have "fat_geometry n 16384 2 512 2 = Some ?g"
    unfolding fat_geometry_def Let_def kSectorSize_def reserved fat_lba using spf total by simp
  moreover have "unat (of_nat r :: u16) = r" "unat (of_nat ((16288 - r) div 2) :: u32) = (16288 - r) div 2"
    using r by (simp_all add: unat_of_nat)
  ultimately show ?thesis unfolding r_def by (intro exI [of _ ?g]) (simp add: r_def)
qed

lemma fits_size:
  assumes "clusters_needed spc counts files \<le> n" "f \<in> set files" "0 < spc"
  shows "length (ff_data f) \<le> n * bytes_per_cluster spc"
proof -
  have "clusters_for spc (length (ff_data f)) \<le> sum_list (map (\<lambda>f. clusters_for spc (length (ff_data f))) files)"
    using assms(2) by (intro member_le_sum_list) auto
  then have "clusters_for spc (length (ff_data f)) * bytes_per_cluster spc \<le> n * bytes_per_cluster spc"
    using assms(1) by (intro mult_le_mono1) (simp add: clusters_needed_def)
  then show ?thesis using clusters_for_bounds(1) [OF assms(3), of "length (ff_data f)"] by linarith
qed

text \<open>The volume of the programs: 16384 sectors, two per cluster, 512 root entries and two FATs. It holds the files or is refused,
  by the number of clusters they need.\<close>

lemma standard_volume:
  assumes "length dos \<le> 65536" "place_files files = (placed, dirs)" "length files \<le> 512"
    and "distinct_paths files" "\<And>f. f \<in> set files \<Longrightarrow> good_name (ff_name f)"
  shows "if (16287 - (length dos + 511) div 512) div 2 < clusters_needed 2 (entry_counts placed dirs) files
    then build_fat16_image True True dos files 16384 2 512 2 = Some (Inl DoesNotFit)
    else \<exists>img v. build_fat16_image True True dos files 16384 2 512 2 = Some (Inr img) \<and> slice 512 (length dos) img = dos \<and>
       parse_volume img = Some (Some v) \<and>
       (\<forall>f\<in>set files. \<exists>e. find_path v (upper (ff_name f)) = Some (Some e) \<and> \<not> is_dir e \<and> read_entry v e = Some (ff_data f))"
proof -
  obtain g where g: "fat_geometry (length dos) 16384 2 512 2 = Some g" "unat (fg_reserved_sectors g) = 1 + (length dos + 511) div 512"
    "unat (fg_sectors_per_fat g) = 32" "unat (fg_root_dir_sectors g) = 32" "unat (fg_total_clusters g) = (16287 - (length dos + 511) div 512) div 2"
    using disk_geometry [OF assms(1)] by blast
  have r: "(length dos + 511) div 512 \<le> 128" using assms(1) by linarith
  have roots: "entry_counts placed dirs ! 0 \<le> 512" using root_bound [OF place_files_ok [of files]] assms(3) by (simp add: assms(2))
  have total: "4085 \<le> fg_total_clusters g" "fg_total_clusters g \<le> 65524" "unat (fg_total_clusters g) + 2 \<le> 256 * unat (fg_sectors_per_fat g)"
    using r unfolding word_le_nat_alt g(3,5) by simp_all
  show ?thesis
  proof (cases "clusters_needed 2 (entry_counts placed dirs) files \<le> unat (fg_total_clusters g)")
    case True
    have "length (ff_data f) < 4294967296" if "f \<in> set files" for f
      using fits_size [OF True that] unfolding g(5) by (simp add: bytes_per_cluster_def kSectorSize_def)
    then have "\<exists>img v. build_fat16_image True True dos files 16384 2 512 2 = Some (Inr img) \<and>
        length img = unat (16384 :: u32) * 512 \<and> slice 512 (length dos) img = dos \<and> parse_volume img = Some (Some v) \<and>
        (\<forall>f\<in>set files. \<exists>e. find_path v (upper (ff_name f)) = Some (Some e) \<and> \<not> is_dir e \<and>
          unat (fe_size e) = length (ff_data f) \<and> read_entry v e = Some (ff_data f))"
      using total roots True assms(4,5) r g(2-4)
      by (intro tree_roundtrip [OF g(1) _ _ _ _ _ _ _ _ assms(2)]) (simp_all add: word_less_nat_alt)
    moreover have "\<not> (16287 - (length dos + 511) div 512) div 2 < clusters_needed 2 (entry_counts placed dirs) files"
      using True unfolding g(5) by (simp only: not_less)
    ultimately show ?thesis by (simp only: if_False) blast
  next
    case False
    have "build_fat16_image True True dos files 16384 2 512 2 = Some (Inl DoesNotFit)"
      using build_start [OF g(1) total _ _ assms(2)] r g(2-4) roots False by (auto simp: not_less [symmetric])
    moreover have "(16287 - (length dos + 511) div 512) div 2 < clusters_needed 2 (entry_counts placed dirs) files"
      using False unfolding g(5) by (simp only: not_le)
    ultimately show ?thesis by (simp only: if_True)
  qed
qed

end
