(* ===== verification/Com_Port.thy ===== *)
theory Com_Port
  imports Uart "HOL-Library.Multiset"
begin

text \<open>
  The bridge from the UART to a serial port of the host,
  \<^verbatim>\<open>simulator/src/pugputer/com_port_bridge.cpp\<close>, with both of its implementations (Win32 and POSIX). The
  operating system is what it answers to the calls (\<open>posix_answers\<close>, \<open>win_answers\<close>, a list of
  \<open>write_answer\<close>), and what the code does to it is a list of events.
\<close>

section \<open>State\<close>

datatype speed = B300 | B1200 | B2400 | B4800 | B9600 | B19200 | B38400 | B57600 | B115200

datatype port_error =
    Pty_not_created
  | Pty_not_set_up
  | Open_failed string
  | Not_serial string
  | CreateFile_failed string
  | GetCommState_failed
  | SetCommState_failed
  | SetCommTimeouts_failed

record com_port =
  cp_handle :: "int option"
  cp_fd :: int
  cp_pty_slave_fd :: int
  cp_write_stalled :: bool
  cp_device_name :: string
  cp_last_error :: "port_error option"

definition new_com_port :: com_port where
  "new_com_port = \<lparr>cp_handle = None, cp_fd = -1, cp_pty_slave_fd = -1, cp_write_stalled = False,
     cp_device_name = '''', cp_last_error = None\<rparr>"

definition port_open :: "com_port \<Rightarrow> bool" where
  "port_open p \<longleftrightarrow> cp_handle p \<noteq> None \<or> 0 \<le> cp_fd p"

section \<open>Line settings\<close>

text \<open>The part of \<^verbatim>\<open>termios\<close> the code sets; \<open>tio_raw\<close> is what \<^verbatim>\<open>cfmakeraw\<close> turns off (line editing, echo,
  signals, translation), which also leaves 8 bits and no parity.\<close>

record termios =
  tio_raw :: bool
  tio_clocal :: bool
  tio_cread :: bool
  tio_cstopb :: bool
  tio_parenb :: bool
  tio_crtscts :: bool
  tio_vmin :: nat
  tio_vtime :: nat
  tio_ispeed :: speed
  tio_ospeed :: speed

definition to_speed :: "nat \<Rightarrow> speed" where
  "to_speed baud =
    (if baud = 300 then B300 else if baud = 1200 then B1200 else if baud = 2400 then B2400
     else if baud = 4800 then B4800 else if baud = 9600 then B9600 else if baud = 38400 then B38400
     else if baud = 57600 then B57600 else if baud = 115200 then B115200 else B19200)"

definition cfmakeraw :: "termios \<Rightarrow> termios" where
  "cfmakeraw tio = tio\<lparr>tio_raw := True, tio_parenb := False\<rparr>"

definition raw_settings :: "nat \<Rightarrow> termios \<Rightarrow> termios" where
  "raw_settings baud tio =
    (let tio = cfmakeraw tio;
         tio = tio\<lparr>tio_clocal := True, tio_cread := True\<rparr>;
         tio = tio\<lparr>tio_cstopb := False, tio_parenb := False\<rparr>;
         tio = tio\<lparr>tio_crtscts := False\<rparr>;
         tio = tio\<lparr>tio_vmin := 0, tio_vtime := 0\<rparr>
     in tio\<lparr>tio_ispeed := to_speed baud, tio_ospeed := to_speed baud\<rparr>)"

record dcb =
  dcb_baud_rate :: nat
  dcb_byte_size :: nat
  dcb_parity :: bool
  dcb_two_stop_bits :: bool
  dcb_binary :: bool
  dcb_cts_flow :: bool
  dcb_dsr_flow :: bool
  dcb_dtr :: bool
  dcb_rts :: bool

definition dcb_settings :: "nat \<Rightarrow> dcb \<Rightarrow> dcb" where
  "dcb_settings baud d = d\<lparr>dcb_baud_rate := baud, dcb_byte_size := 8, dcb_parity := False,
     dcb_two_stop_bits := False, dcb_binary := True, dcb_cts_flow := False, dcb_dsr_flow := False,
     dcb_dtr := True, dcb_rts := True\<rparr>"

section \<open>What the code does to the operating system\<close>

datatype os_event =
    Opened int
  | Closed int
  | Configured int termios
  | Nonblocking int
  | Comm_state int dcb
  | Comm_timeouts int

definition opened :: "int \<Rightarrow> os_event list" where
  "opened fd = (if fd < 0 then [] else [Opened fd])"

definition closed_if :: "int \<Rightarrow> os_event list" where
  "closed_if fd = (if 0 \<le> fd then [Closed fd] else [])"

section \<open>POSIX: opening and closing\<close>

record posix_answers =
  pa_openpt :: int
  pa_grantpt :: bool
  pa_unlockpt :: bool
  pa_ptsname :: "string option"
  pa_open :: "string \<Rightarrow> int"
  pa_isatty :: bool
  pa_tcgetattr :: "termios option"
  pa_tcsetattr :: bool

definition make_raw :: "posix_answers \<Rightarrow> int \<Rightarrow> nat \<Rightarrow> bool \<times> os_event list" where
  "make_raw os fd baud =
    (case pa_tcgetattr os of
       None \<Rightarrow> (False, [])
     | Some tio \<Rightarrow> (pa_tcsetattr os, [Configured fd (raw_settings baud tio)]))"

definition posix_close :: "com_port \<Rightarrow> com_port \<times> os_event list" where
  "posix_close p =
    (let ev = closed_if (cp_fd p) @ closed_if (cp_pty_slave_fd p);
         p = (if 0 \<le> cp_fd p then p\<lparr>cp_fd := -1\<rparr> else p)
     in (if 0 \<le> cp_pty_slave_fd p then p\<lparr>cp_pty_slave_fd := -1\<rparr> else p, ev))"

definition open_pty :: "posix_answers \<Rightarrow> nat \<Rightarrow> com_port \<Rightarrow> bool \<times> com_port \<times> os_event list" where
  "open_pty os baud p =
    (let master = pa_openpt os in
     if master < 0 \<or> \<not> pa_grantpt os \<or> \<not> pa_unlockpt os
     then (False, p\<lparr>cp_last_error := Some Pty_not_created\<rparr>, opened master @ closed_if master)
     else
       let slave = (case pa_ptsname os of None \<Rightarrow> -1 | Some n \<Rightarrow> pa_open os n);
           (raw, ev) = (if slave < 0 then (False, []) else make_raw os slave baud)
       in if slave < 0 \<or> \<not> raw
          then (False, p\<lparr>cp_last_error := Some Pty_not_set_up\<rparr>,
                opened master @ opened slave @ ev @ closed_if slave @ [Closed master])
          else (True, p\<lparr>cp_fd := master, cp_pty_slave_fd := slave, cp_device_name := the (pa_ptsname os),
                        cp_write_stalled := False, cp_last_error := None\<rparr>,
                opened master @ opened slave @ ev @ [Nonblocking master]))"

definition open_tty :: "posix_answers \<Rightarrow> string \<Rightarrow> nat \<Rightarrow> com_port \<Rightarrow> bool \<times> com_port \<times> os_event list" where
  "open_tty os port_name baud p =
    (let path = (if CHR ''/'' \<in> set port_name then port_name else ''/dev/'' @ port_name);
         fd = pa_open os path
     in if fd < 0 then (False, p\<lparr>cp_last_error := Some (Open_failed path)\<rparr>, [])
        else
          let (raw, ev) = (if pa_isatty os then make_raw os fd baud else (False, []))
          in if \<not> raw then (False, p\<lparr>cp_last_error := Some (Not_serial path)\<rparr>, Opened fd # ev @ [Closed fd])
             else (True, p\<lparr>cp_fd := fd, cp_device_name := path, cp_write_stalled := False, cp_last_error := None\<rparr>,
                   Opened fd # ev))"

definition posix_open :: "posix_answers \<Rightarrow> string \<Rightarrow> nat \<Rightarrow> com_port \<Rightarrow> bool \<times> com_port \<times> os_event list" where
  "posix_open os port_name baud p =
    (let (p, ev) = posix_close p;
         (ok, p, ev') = (if port_name = ''pty'' then open_pty os baud p else open_tty os port_name baud p)
     in (ok, p, ev @ ev'))"

section \<open>Windows: opening and closing\<close>

record win_answers =
  wa_create_file :: "string \<Rightarrow> int option"
  wa_get_comm_state :: "dcb option"
  wa_set_comm_state :: bool
  wa_set_comm_timeouts :: bool

definition win_close :: "com_port \<Rightarrow> com_port \<times> os_event list" where
  "win_close p = (case cp_handle p of None \<Rightarrow> (p, []) | Some h \<Rightarrow> (p\<lparr>cp_handle := None\<rparr>, [Closed h]))"

definition win_open :: "win_answers \<Rightarrow> string \<Rightarrow> nat \<Rightarrow> com_port \<Rightarrow> bool \<times> com_port \<times> os_event list" where
  "win_open os port_name baud p =
    (let (p, ev) = win_close p;
         full_name = [CHR 0x5C, CHR 0x5C, CHR ''.'', CHR 0x5C] @ port_name
     in case wa_create_file os full_name of
          None \<Rightarrow> (False, p\<lparr>cp_last_error := Some (CreateFile_failed full_name)\<rparr>, ev)
        | Some h \<Rightarrow>
            (case wa_get_comm_state os of
               None \<Rightarrow> (False, p\<lparr>cp_last_error := Some GetCommState_failed\<rparr>, ev @ [Opened h, Closed h])
             | Some d \<Rightarrow>
                 let ev = ev @ [Opened h, Comm_state h (dcb_settings baud d)]
                 in if \<not> wa_set_comm_state os then (False, p\<lparr>cp_last_error := Some SetCommState_failed\<rparr>, ev @ [Closed h])
                    else if \<not> wa_set_comm_timeouts os
                    then (False, p\<lparr>cp_last_error := Some SetCommTimeouts_failed\<rparr>, ev @ [Comm_timeouts h, Closed h])
                    else (True, p\<lparr>cp_handle := Some h, cp_device_name := port_name, cp_last_error := None\<rparr>,
                          ev @ [Comm_timeouts h])))"

section \<open>Pumping bytes\<close>

definition receive_bytes :: "u8 list \<Rightarrow> uart \<Rightarrow> uart" where
  "receive_bytes got uart = fold (\<lambda>b u. snd (rx_enqueue b u)) got uart"

primrec gather :: "nat \<Rightarrow> uart \<Rightarrow> u8 list \<times> uart" where
  "gather 0 u = ([], u)"
| "gather (Suc n) u =
    (case tx_dequeue u of
       (None, u) \<Rightarrow> ([], u)
     | (Some b, u) \<Rightarrow> (case gather n u of (bs, u) \<Rightarrow> (b # bs, u)))"

text \<open>What \<^verbatim>\<open>::write\<close> answers: a count, \<^verbatim>\<open>EAGAIN\<close> with what \<^verbatim>\<open>::poll\<close> says if it is then asked to wait a second
  (whether the port became ready), \<^verbatim>\<open>EINTR\<close>, or another error.\<close>

datatype write_answer = Accepted nat | Busy bool | Interrupted | Refused

text \<open>The bytes that were accepted, the new stall flag and the answers not used; \<open>None\<close> if the answers run out
  (the loop would go on).\<close>

fun send_loop :: "write_answer list \<Rightarrow> u8 list \<Rightarrow> bool \<Rightarrow> (u8 list \<times> bool \<times> write_answer list) option" where
  "send_loop answers [] stalled = Some ([], stalled, answers)"
| "send_loop [] (b # bs) stalled = None"
| "send_loop (Accepted w # answers) (b # bs) stalled =
    (if 0 < w
     then map_option (\<lambda>(sent, r). (take w (b # bs) @ sent, r)) (send_loop answers (drop w (b # bs)) False)
     else Some ([], stalled, answers))"
| "send_loop (Busy ready # answers) (b # bs) stalled =
    (if stalled then Some ([], stalled, answers) else send_loop answers (b # bs) (\<not> ready))"
| "send_loop (Interrupted # answers) (b # bs) stalled = send_loop answers (b # bs) stalled"
| "send_loop (Refused # answers) (b # bs) stalled = Some ([], stalled, answers)"

text \<open>\<open>got\<close> is what \<^verbatim>\<open>::read\<close> put in the buffer, nothing if it failed.\<close>

definition posix_poll ::
    "u8 list \<Rightarrow> write_answer list \<Rightarrow> com_port \<Rightarrow> uart \<Rightarrow> (u8 list \<times> write_answer list \<times> com_port \<times> uart) option" where
  "posix_poll got answers p uart =
    (if cp_fd p < 0 then Some ([], answers, p, uart)
     else case gather 256 (receive_bytes got uart) of (out_buf, uart) \<Rightarrow>
       map_option (\<lambda>(sent, stalled, answers). (sent, answers, p\<lparr>cp_write_stalled := stalled\<rparr>, uart))
         (send_loop answers out_buf (cp_write_stalled p)))"

text \<open>\<^verbatim>\<open>WriteFile\<close> writes what it can within the timeout; the count is not looked at.\<close>

definition win_poll :: "u8 list \<Rightarrow> nat \<Rightarrow> com_port \<Rightarrow> uart \<Rightarrow> u8 list \<times> uart" where
  "win_poll got written p uart =
    (if cp_handle p = None then ([], uart)
     else case gather 256 (receive_bytes got uart) of (out_buf, uart) \<Rightarrow> (take written out_buf, uart))"

section \<open>Descriptors\<close>

text \<open>The operating system's table of open descriptors. \<open>None\<close>: the code has closed or used one that is not open.\<close>

definition if_open :: "int \<Rightarrow> int multiset \<Rightarrow> int multiset \<Rightarrow> int multiset option" where
  "if_open fd fds result = (if fd \<in># fds then Some result else None)"

fun descriptor :: "os_event \<Rightarrow> int multiset \<Rightarrow> int multiset option" where
  "descriptor (Opened fd) fds = Some (add_mset fd fds)"
| "descriptor (Closed fd) fds = if_open fd fds (fds - {#fd#})"
| "descriptor (Configured fd tio) fds = if_open fd fds fds"
| "descriptor (Nonblocking fd) fds = if_open fd fds fds"
| "descriptor (Comm_state fd d) fds = if_open fd fds fds"
| "descriptor (Comm_timeouts fd) fds = if_open fd fds fds"

primrec descriptors :: "os_event list \<Rightarrow> int multiset \<Rightarrow> int multiset option" where
  "descriptors [] fds = Some fds"
| "descriptors (e # ev) fds = Option.bind (descriptor e fds) (descriptors ev)"

text \<open>The descriptors a bridge holds.\<close>

definition held :: "com_port \<Rightarrow> int multiset" where
  "held p = (case cp_handle p of None \<Rightarrow> {#} | Some h \<Rightarrow> {#h#}) +
     (if 0 \<le> cp_fd p then {#cp_fd p#} else {#}) + (if 0 \<le> cp_pty_slave_fd p then {#cp_pty_slave_fd p#} else {#})"

text \<open>The calls of a program, with what \<^verbatim>\<open>open\<close> returned (a close returns nothing, here \<open>True\<close>).\<close>

datatype port_call = Posix_open posix_answers string nat | Posix_close | Win_open win_answers string nat | Win_close

fun call_port :: "port_call \<Rightarrow> com_port \<Rightarrow> bool \<times> com_port \<times> os_event list" where
  "call_port (Posix_open os name baud) p = posix_open os name baud p"
| "call_port Posix_close p = (True, posix_close p)"
| "call_port (Win_open os name baud) p = win_open os name baud p"
| "call_port Win_close p = (True, win_close p)"

fun call_ports :: "port_call list \<Rightarrow> com_port \<Rightarrow> com_port \<times> os_event list" where
  "call_ports [] p = (p, [])"
| "call_ports (c # cs) p = (case call_port c p of (ok, q, ev) \<Rightarrow> case call_ports cs q of (r, ev') \<Rightarrow> (r, ev @ ev'))"

text \<open>The half of the file that a call is in, and whether it opens.\<close>

fun on_windows :: "port_call \<Rightarrow> bool" where
  "on_windows (Win_open os name baud) = True"
| "on_windows Win_close = True"
| "on_windows _ = False"

fun is_open :: "port_call \<Rightarrow> bool" where
  "is_open (Posix_open os name baud) = True"
| "is_open (Win_open os name baud) = True"
| "is_open _ = False"

lemma descriptors_append: "descriptors (ev @ ev') fds = Option.bind (descriptors ev fds) (descriptors ev')"
  by (induction ev arbitrary: fds) (auto split: bind_splits)

lemma make_raw_descriptors: "make_raw os fd baud = (ok, ev) \<Longrightarrow> fd \<in># fds \<Longrightarrow> descriptors ev fds = Some fds"
  by (auto simp: make_raw_def if_open_def split: option.splits)

text \<open>A call that is made while the descriptors held are among the open ones.\<close>

definition balanced :: "com_port \<Rightarrow> com_port \<Rightarrow> os_event list \<Rightarrow> bool" where
  "balanced p q ev \<longleftrightarrow> (\<forall>rest. descriptors ev (held p + rest) = Some (held q + rest))"

lemma balanced_trans: "balanced p q ev \<Longrightarrow> balanced q r ev' \<Longrightarrow> balanced p r (ev @ ev')"
  by (simp add: balanced_def descriptors_append)

lemma posix_close_balanced: "balanced p (fst (posix_close p)) (snd (posix_close p))"
  by (auto simp: balanced_def posix_close_def Let_def closed_if_def held_def if_open_def split: option.splits)

lemma posix_close_closed: "cp_fd (fst (posix_close p)) < 0" "cp_pty_slave_fd (fst (posix_close p)) < 0"
  "cp_handle (fst (posix_close p)) = cp_handle p"
  by (auto simp: posix_close_def Let_def)

lemma open_tty_balanced:
  assumes "cp_fd p < 0" "cp_pty_slave_fd p < 0" "open_tty os name baud p = (ok, q, ev)"
  shows "balanced p q ev"
  using assms make_raw_descriptors
  by (auto simp: open_tty_def Let_def balanced_def held_def descriptors_append if_open_def split: if_splits prod.splits option.splits)

lemma open_pty_balanced:
  assumes "cp_fd p < 0" "cp_pty_slave_fd p < 0" "open_pty os baud p = (ok, q, ev)"
  shows "balanced p q ev"
  using assms make_raw_descriptors
  by (auto simp: open_pty_def Let_def balanced_def held_def opened_def closed_if_def descriptors_append if_open_def
      split: if_splits prod.splits option.splits)

lemma posix_open_balanced: "posix_open os name baud p = (ok, r, ev) \<Longrightarrow> balanced p r ev"
proof -
  assume call: "posix_open os name baud p = (ok, r, ev)"
  obtain q ev1 where close: "posix_close p = (q, ev1)" by (cases "posix_close p")
  then have q: "cp_fd q < 0" "cp_pty_slave_fd q < 0" using posix_close_closed [of p] by simp_all
  obtain ev2 where open_it: "(if name = ''pty'' then open_pty os baud q else open_tty os name baud q) = (ok, r, ev2)" "ev = ev1 @ ev2"
    using call by (auto simp: posix_open_def close split: prod.splits)
  then have "balanced q r ev2" using open_pty_balanced [OF q] open_tty_balanced [OF q] by (auto split: if_splits)
  moreover have "balanced p q ev1" using posix_close_balanced [of p] by (simp add: close)
  ultimately show ?thesis using balanced_trans open_it(2) by blast
qed

lemma win_open_balanced: "win_open os name baud p = (ok, q, ev) \<Longrightarrow> balanced p q ev"
  by (auto simp: win_open_def win_close_def Let_def balanced_def held_def descriptors_append if_open_def split: option.splits if_splits)

lemma call_port_balanced: "call_port c p = (ok, q, ev) \<Longrightarrow> balanced p q ev"
proof (cases c)
  case Posix_close
  moreover assume "call_port c p = (ok, q, ev)"
  ultimately show ?thesis using posix_close_balanced [of p] by simp
next
  case Win_close
  moreover assume "call_port c p = (ok, q, ev)"
  ultimately show ?thesis by (auto simp: win_close_def balanced_def held_def if_open_def split: option.splits)
qed (auto intro: posix_open_balanced win_open_balanced)

lemma call_ports_balanced: "call_ports cs p = (q, ev) \<Longrightarrow> balanced p q ev"
proof (induction cs arbitrary: p q ev)
  case Nil
  then show ?case by (simp add: balanced_def)
next
  case (Cons c cs)
  then show ?case by (auto split: prod.splits) (metis balanced_trans call_port_balanced)
qed

text \<open>A bridge of one platform: nothing of the other is open.\<close>

definition bridge_of :: "bool \<Rightarrow> com_port \<Rightarrow> bool" where
  "bridge_of windows p \<longleftrightarrow> (if windows then cp_fd p < 0 \<and> cp_pty_slave_fd p < 0 else cp_handle p = None)"

lemma posix_open_result:
  assumes "posix_open os name baud p = (ok, q, ev)"
  shows "cp_handle q = cp_handle p \<and> (if ok then 0 \<le> cp_fd q else cp_fd q < 0 \<and> cp_pty_slave_fd q < 0) \<and>
    (cp_last_error q = None) = ok"
  using assms posix_close_closed [of p]
  by (auto simp: posix_open_def open_pty_def open_tty_def Let_def posix_close_def split: if_splits prod.splits option.splits)

lemma win_open_result:
  assumes "win_open os name baud p = (ok, q, ev)"
  shows "cp_fd q = cp_fd p \<and> cp_pty_slave_fd q = cp_pty_slave_fd p \<and> (cp_handle q = None) = (\<not> ok) \<and> (cp_last_error q = None) = ok"
  using assms by (auto simp: win_open_def win_close_def Let_def split: if_splits option.splits)

lemma call_port_result:
  assumes "call_port c p = (ok, q, ev)" "bridge_of (on_windows c) p"
  shows "bridge_of (on_windows c) q \<and> port_open q = (is_open c \<and> ok) \<and> (port_open q \<or> held q = {#}) \<and>
    (is_open c \<longrightarrow> (cp_last_error q = None) = ok)"
proof (cases c)
  case Posix_close
  then show ?thesis
    using assms posix_close_closed [of p] by (auto simp: bridge_of_def port_open_def held_def)
next
  case Win_close
  then show ?thesis using assms by (auto simp: bridge_of_def port_open_def held_def win_close_def split: option.splits)
next
  case (Posix_open os name baud)
  then show ?thesis
    using assms posix_open_result [of os name baud p ok q ev] by (auto simp: bridge_of_def port_open_def held_def split: if_splits)
next
  case (Win_open os name baud)
  then show ?thesis
    using assms win_open_result [of os name baud p ok q ev] by (auto simp: bridge_of_def port_open_def held_def split: if_splits)
qed

lemma call_ports_bridge:
  "call_ports cs p = (q, ev) \<Longrightarrow> bridge_of w p \<Longrightarrow> \<forall>c\<in>set cs. on_windows c = w \<Longrightarrow> bridge_of w q"
proof (induction cs arbitrary: p q ev)
  case (Cons c cs)
  then show ?case using call_port_result [of c p] by (auto split: prod.splits)
qed simp

text \<open>C32. No call leaks a descriptor, and none uses or closes one that is not open: after any sequence of opens and closes
  on either platform, whatever the operating system answers, the descriptors that are open are those the bridge
  holds. One more call leaves the port open exactly if it is an open that succeeded; otherwise, after a close and
  after an open that failed, no descriptor at all is open, also when the port was open before. A failed open says
  why.\<close>
theorem com_port_no_leak:
  assumes "\<forall>x\<in>set (cs @ [c]). on_windows x = windows"
    and "call_ports cs new_com_port = (p, ev)" "call_port c p = (ok, q, ev')"
  shows "descriptors ev {#} = Some (held p) \<and> descriptors (ev @ ev') {#} = Some (held q) \<and>
    (if is_open c \<and> ok then port_open q else \<not> port_open q \<and> descriptors (ev @ ev') {#} = Some {#}) \<and>
    (is_open c \<and> \<not> ok \<longrightarrow> cp_last_error q \<noteq> None)"
proof -
  have new: "held new_com_port = {#}" "bridge_of windows new_com_port" by (simp_all add: held_def new_com_port_def bridge_of_def)
  have first: "balanced new_com_port p ev" using call_ports_balanced [OF assms(2)] .
  have all: "balanced new_com_port q (ev @ ev')" using balanced_trans [OF first call_port_balanced [OF assms(3)]] .
  have "bridge_of (on_windows c) p" using call_ports_bridge [OF assms(2) new(2)] assms(1) by simp
  note result = call_port_result [OF assms(3) this]
  show ?thesis
    using first [unfolded balanced_def new, rule_format, of "{#}"] all [unfolded balanced_def new, rule_format, of "{#}"] result by auto
qed

text \<open>A terminal, as its line may be set before the bridge sets it; a port on it that is opened again, in vain.\<close>

definition line_tio :: termios where
  "line_tio = \<lparr>tio_raw = False, tio_clocal = False, tio_cread = False, tio_cstopb = True, tio_parenb = True, tio_crtscts = True,
     tio_vmin = 1, tio_vtime = 0, tio_ispeed = B300, tio_ospeed = B300\<rparr>"

definition line_os :: "termios option \<Rightarrow> posix_answers" where
  "line_os tio = \<lparr>pa_openpt = 3, pa_grantpt = True, pa_unlockpt = True, pa_ptsname = Some ''/dev/pts/7'',
     pa_open = (\<lambda>_. 4), pa_isatty = True, pa_tcgetattr = tio, pa_tcsetattr = True\<rparr>"

theorem com_port_no_leak_witness:
  "let (p, ev) = call_ports [Posix_open (line_os (Some line_tio)) ''ttyS0'' 9600] new_com_port;
       (ok, q, ev') = call_port (Posix_open (line_os None) ''pty'' 9600) p
   in port_open p \<and> \<not> ok \<and> ev' = [Closed 4, Opened 3, Opened 4, Closed 4, Closed 3] \<and>
     descriptors (ev @ ev') {#} = Some {#} \<and> \<not> port_open q \<and> cp_last_error q \<noteq> None"
proof -
  let ?first = "Posix_open (line_os (Some line_tio)) ''ttyS0'' 9600" and ?second = "Posix_open (line_os None) ''pty'' 9600"
  let ?p = "new_com_port\<lparr>cp_fd := 4, cp_device_name := ''/dev/ttyS0''\<rparr>"
  let ?q = "?p\<lparr>cp_fd := -1, cp_last_error := Some Pty_not_set_up\<rparr>"
  have first: "call_ports [?first] new_com_port = (?p, [Opened 4, Configured 4 (raw_settings 9600 line_tio)])"
    by (simp add: posix_open_def open_tty_def posix_close_def new_com_port_def make_raw_def closed_if_def line_os_def)
  have second: "call_port ?second ?p = (False, ?q, [Closed 4, Opened 3, Opened 4, Closed 4, Closed 3])"
    by (simp add: posix_open_def open_pty_def posix_close_def new_com_port_def make_raw_def opened_def closed_if_def line_os_def)
  have "port_open ?p" by (simp add: port_open_def)
  then show ?thesis
    using com_port_no_leak [OF _ first second, of False] unfolding first second Let_def prod.case
    by (simp add: held_def new_com_port_def)
qed

section \<open>Bytes\<close>
lemma gather_eq: "gather n u = (take n (u_tx_queue u), u\<lparr>u_tx_queue := drop n (u_tx_queue u)\<rparr>)"
proof (induction n arbitrary: u)
  case (Suc n)
  then show ?case by (cases "u_tx_queue u") (simp_all add: tx_dequeue_def)
qed simp

lemma receive_queue: "u_tx_queue (receive_bytes got u) = u_tx_queue u"
  unfolding receive_bytes_def by (induction got arbitrary: u) (simp_all add: rx_enqueue_def)

lemma send_prefix: "send_loop answers bs stalled = Some (sent, stalled', rest) \<Longrightarrow> prefix sent bs"
proof (induction answers bs stalled arbitrary: sent rule: send_loop.induct)
  case (3 w answers b bs stalled)
  then show ?case
    by (auto split: if_splits) (metis append_take_drop_id prefix_def append.assoc)
qed (auto split: if_splits)

text \<open>A port that takes what it is given, if only after a while.\<close>

fun cooperates :: "write_answer \<Rightarrow> bool" where
  "cooperates (Accepted w) = (0 < w)"
| "cooperates (Busy becomes_ready) = becomes_ready"
| "cooperates Interrupted = True"
| "cooperates Refused = False"

fun takes :: "write_answer \<Rightarrow> bool" where
  "takes (Accepted w) = (0 < w)"
| "takes _ = False"

lemma send_all:
  "send_loop answers bs stalled = Some (sent, stalled', rest) \<Longrightarrow> \<forall>a\<in>set answers. cooperates a \<Longrightarrow> \<not> stalled \<Longrightarrow>
   sent = bs \<and> \<not> stalled'"
proof (induction answers bs stalled arbitrary: sent rule: send_loop.induct)
  case (3 w answers b bs stalled)
  then obtain sent' where "sent = take w (b # bs) @ sent'"
    "send_loop answers (drop w (b # bs)) False = Some (sent', stalled', rest)"
    by (auto split: if_splits)
  then show ?case using 3 by (metis append_take_drop_id list.set_intros(2) cooperates.simps(1) list.set_intros(1))
qed (auto split: if_splits)

lemma send_ends: "length bs \<le> length (filter takes answers) \<Longrightarrow> \<exists>r. send_loop answers bs stalled = Some r"
proof (induction answers bs stalled rule: send_loop.induct)
  case (3 w answers b bs stalled)
  show ?case
  proof (cases "0 < w")
    case True
    then obtain r where "send_loop answers (drop w (b # bs)) False = Some r" using 3 by fastforce
    then show ?thesis using True by (cases r) simp
  qed simp
qed auto

text \<open>The seconds a poll waits in vain.\<close>

fun timeouts :: "write_answer list \<Rightarrow> u8 list \<Rightarrow> bool \<Rightarrow> nat" where
  "timeouts answers [] stalled = 0"
| "timeouts [] (b # bs) stalled = 0"
| "timeouts (Accepted w # answers) (b # bs) stalled = (if 0 < w then timeouts answers (drop w (b # bs)) False else 0)"
| "timeouts (Busy ready # answers) (b # bs) stalled =
    (if stalled then 0 else (if ready then 0 else 1) + timeouts answers (b # bs) (\<not> ready))"
| "timeouts (Interrupted # answers) (b # bs) stalled = timeouts answers (b # bs) stalled"
| "timeouts (Refused # answers) (b # bs) stalled = 0"

lemma nothing_sent:
  "send_loop answers bs stalled = Some ([], stalled', rest) \<Longrightarrow> timeouts answers bs stalled + of_bool stalled = of_bool stalled'"
  by (induction answers bs stalled rule: send_loop.induct) (auto split: if_splits)

text \<open>The machine runs, and its host polls the bridge from time to time.\<close>

datatype bridge_event = Machine serial_event | Poll "u8 list" "write_answer list"

fun bridge_run :: "bridge_event list \<Rightarrow> com_port \<Rightarrow> uart \<Rightarrow> (u8 list \<times> com_port \<times> uart) option" where
  "bridge_run [] p u = Some ([], p, u)"
| "bridge_run (Machine e # es) p u = bridge_run es p (serial_step e u)"
| "bridge_run (Poll got answers # es) p u =
    (case posix_poll got answers p u of
       None \<Rightarrow> None
     | Some (sent, _, p, u) \<Rightarrow> map_option (\<lambda>(more, r). (sent @ more, r)) (bridge_run es p u))"

text \<open>The bytes the UART finishes transmitting, and the time lost, over a run.\<close>

definition transmitted :: "serial_event \<Rightarrow> uart \<Rightarrow> u8 list" where
  "transmitted e u = drop (length (u_tx_queue u)) (u_tx_queue (serial_step e u))"

fun all_transmitted :: "bridge_event list \<Rightarrow> com_port \<Rightarrow> uart \<Rightarrow> u8 list" where
  "all_transmitted [] p u = []"
| "all_transmitted (Machine e # es) p u = transmitted e u @ all_transmitted es p (serial_step e u)"
| "all_transmitted (Poll got answers # es) p u =
    (case posix_poll got answers p u of None \<Rightarrow> [] | Some (_, _, p, u) \<Rightarrow> all_transmitted es p u)"

fun lost_seconds :: "bridge_event list \<Rightarrow> com_port \<Rightarrow> uart \<Rightarrow> nat" where
  "lost_seconds [] p u = 0"
| "lost_seconds (Machine e # es) p u = lost_seconds es p (serial_step e u)"
| "lost_seconds (Poll got answers # es) p u =
    (if cp_fd p < 0 then 0 else timeouts answers (take 256 (u_tx_queue u)) (cp_write_stalled p)) +
    (case posix_poll got answers p u of None \<Rightarrow> 0 | Some (_, _, p, u) \<Rightarrow> lost_seconds es p u)"

lemma tx_queue_steps:
  "u_tx_queue (rx_start u) = u_tx_queue u" "u_tx_queue (rx_advance n u) = u_tx_queue u"
  "u_tx_queue (snd (uart_read u a)) = u_tx_queue u" "u_tx_queue (uart_write u a b) = u_tx_queue u"
  "\<exists>bs. u_tx_queue (tick_tx n u) = u_tx_queue u @ bs"
  by (simp_all add: rx_start_def rx_advance_def uart_read_def uart_write_def tick_tx_def Let_def)

lemma transmitted_queue:
  assumes "e \<noteq> Bus ResetEv"
  shows "u_tx_queue (serial_step e u) = u_tx_queue u @ transmitted e u"
proof -
  have "\<exists>bs. u_tx_queue (serial_step e u) = u_tx_queue u @ bs"
  proof (cases e)
    case (Bus b)
    then show ?thesis using assms
      by (cases b) (simp_all add: tx_queue_steps uart_tick_def)
  qed (simp add: rx_enqueue_def)
  then show ?thesis by (auto simp: transmitted_def)
qed

lemma posix_poll_sends:
  assumes "posix_poll got answers p u = Some (sent, rest, q, v)"
  shows "\<exists>taken. u_tx_queue u = taken @ u_tx_queue v \<and> prefix sent taken \<and> cp_fd q = cp_fd p \<and>
    ((\<forall>a\<in>set answers. cooperates a) \<and> \<not> cp_write_stalled p \<longrightarrow> sent = taken \<and> \<not> cp_write_stalled q)"
proof (cases "cp_fd p < 0")
  case True
  then show ?thesis using assms by (simp add: posix_poll_def)
next
  case False
  then obtain stalled where send: "send_loop answers (take 256 (u_tx_queue u)) (cp_write_stalled p) = Some (sent, stalled, rest)"
    "q = p\<lparr>cp_write_stalled := stalled\<rparr>" "u_tx_queue v = drop 256 (u_tx_queue u)"
    using assms by (auto simp: posix_poll_def gather_eq receive_queue)
  then show ?thesis
    using send_prefix [OF send(1)] send_all [OF send(1)] send(2,3) by (intro exI [of _ "take 256 (u_tx_queue u)"]) auto
qed

fun well_behaved :: "bridge_event \<Rightarrow> bool" where
  "well_behaved (Machine e) = True"
| "well_behaved (Poll got answers) = (\<forall>a\<in>set answers. cooperates a)"

text \<open>C25. The bridge delivers the machine's output: over any run of the machine with polls in between, the bytes
  the host port has taken, followed by those still queued, are a subsequence of what the UART
  transmitted, in order; they are all of it when the port takes what it is given, however slowly.\<close>
theorem com_port_output:
  assumes "bridge_run es p u = Some (sent, q, v)" "Machine (Bus ResetEv) \<notin> set es"
  shows "subseq (sent @ u_tx_queue v) (u_tx_queue u @ all_transmitted es p u) \<and>
    ((\<forall>e\<in>set es. well_behaved e) \<and> \<not> cp_write_stalled p \<longrightarrow>
       sent @ u_tx_queue v = u_tx_queue u @ all_transmitted es p u)"
  using assms
proof (induction es p u arbitrary: sent rule: bridge_run.induct)
  case (2 e es p u)
  then show ?case using transmitted_queue [of e u] by auto
next
  case (3 got answers es p u)
  then obtain sent1 rest p1 u1 more where poll: "posix_poll got answers p u = Some (sent1, rest, p1, u1)"
    and run: "bridge_run es p1 u1 = Some (more, q, v)" and sent: "sent = sent1 @ more"
    by (auto split: option.splits)
  obtain taken where queue: "u_tx_queue u = taken @ u_tx_queue u1" and some: "prefix sent1 taken"
    and all: "(\<forall>a\<in>set answers. cooperates a) \<and> \<not> cp_write_stalled p \<longrightarrow> sent1 = taken \<and> \<not> cp_write_stalled p1"
    using posix_poll_sends [OF poll] by blast
  have IH: "subseq (more @ u_tx_queue v) (u_tx_queue u1 @ all_transmitted es p1 u1)"
    "(\<forall>e\<in>set es. well_behaved e) \<and> \<not> cp_write_stalled p1 \<longrightarrow>
       more @ u_tx_queue v = u_tx_queue u1 @ all_transmitted es p1 u1"
    using "3.IH" [OF poll refl refl refl run] "3.prems"(2) by auto
  have "subseq (sent1 @ more @ u_tx_queue v) (taken @ u_tx_queue u1 @ all_transmitted es p1 u1)"
    using prefix_imp_subseq [OF some] IH(1) by (rule list_emb_append_mono)
  then show ?case using IH(2) all by (simp add: sent queue poll)
qed simp

theorem com_port_output_witness:
  "fst (the (bridge_run [Poll [] [Busy True, Accepted 1, Interrupted, Accepted 9]]
     (new_com_port\<lparr>cp_fd := 3\<rparr>) (new_uart 1843200\<lparr>u_tx_queue := [72, 105]\<rparr>))) = [72, 105]"
proof -
  let ?es = "[Poll [] [Busy True, Accepted 1, Interrupted, Accepted 9]]" and ?p = "new_com_port\<lparr>cp_fd := 3\<rparr>"
    and ?u = "new_uart 1843200\<lparr>u_tx_queue := [72, 105]\<rparr>"
  have "\<exists>sent. bridge_run ?es ?p ?u = Some (sent, ?p, new_uart 1843200)"
    by (simp add: posix_poll_def gather_eq receive_bytes_def new_com_port_def new_uart_def)
  then obtain sent where "bridge_run ?es ?p ?u = Some (sent, ?p, new_uart 1843200)" by blast
  moreover have "all_transmitted ?es ?p ?u = []" "\<not> cp_write_stalled ?p" "u_tx_queue (new_uart 1843200) = []"
    by (simp_all add: new_com_port_def new_uart_def split: option.splits)
  ultimately show ?thesis using com_port_output [of ?es ?p ?u sent ?p "new_uart 1843200"] by simp
qed

text \<open>A dead port costs one second at most: if nothing reads what the machine sends, all the polls of a run
  together wait in vain once, and a bridge whose last write timed out does not wait again.\<close>
theorem com_port_stalls_once:
  assumes "bridge_run es p u = Some ([], q, v)"
  shows "lost_seconds es p u + of_bool (cp_write_stalled p) = of_bool (cp_write_stalled q) \<and> lost_seconds es p u \<le> 1"
proof -
  have "lost_seconds es p u + of_bool (cp_write_stalled p) = of_bool (cp_write_stalled q)"
    using assms
  proof (induction es p u rule: bridge_run.induct)
    case (3 got answers es p u)
    then obtain rest p1 u1 where poll: "posix_poll got answers p u = Some ([], rest, p1, u1)"
      and run: "bridge_run es p1 u1 = Some ([], q, v)"
      by (auto split: option.splits)
    have "(if cp_fd p < 0 then 0 else timeouts answers (take 256 (u_tx_queue u)) (cp_write_stalled p)) +
        of_bool (cp_write_stalled p) = (of_bool (cp_write_stalled p1) :: nat)"
      using poll by (auto simp: posix_poll_def gather_eq receive_queue of_bool_def split: if_splits dest!: nothing_sent)
    then show ?case using "3.IH" [OF poll refl refl refl run] by (simp add: poll)
  qed auto
  moreover have "of_bool (cp_write_stalled q) \<le> (1 :: nat)" by simp
  ultimately show ?thesis by linarith
qed

theorem com_port_stalls_once_witness:
  "lost_seconds [Poll [] [Busy False, Busy False], Poll [] [Busy False]] (new_com_port\<lparr>cp_fd := 3\<rparr>)
     (new_uart 1843200\<lparr>u_tx_queue := [72, 105]\<rparr>) = 1"
proof -
  let ?es = "[Poll [] [Busy False, Busy False], Poll [] [Busy False]]" and ?p = "new_com_port\<lparr>cp_fd := 3\<rparr>"
    and ?u = "new_uart 1843200\<lparr>u_tx_queue := [72, 105]\<rparr>"
  have "bridge_run ?es ?p ?u = Some ([], ?p\<lparr>cp_write_stalled := True\<rparr>, new_uart 1843200)"
    by (simp add: posix_poll_def gather_eq receive_bytes_def new_com_port_def new_uart_def)
  from com_port_stalls_once [OF this] show ?thesis by (simp add: new_com_port_def)
qed

end
