(* ===== verification/Video_Window.thy ===== *)
theory Video_Window
  imports Prelude Complex_Main "HOL-Library.Sublist"
begin

text \<open>
  The video window. On POSIX systems it is a program of its own,
  \<^verbatim>\<open>simulator/tools/pugputer_video.cpp\<close>, joined to the emulator's side,
  \<^verbatim>\<open>simulator/tools/video_out.cpp\<close>, by two pipes: frames one way, keys and mouse the other. Here are what
  each side writes to its pipe and how the other takes it apart, the pacing of the frames, and the parts of the
  Windows window that make input (key codes, where the picture is, the mouse). SDL and Win32 calls, the
  drawing and the starting of the other program are not modelled; an event is a constructor with the fields
  the code reads.
\<close>

unbundle bit_operations_syntax

section \<open>Input\<close>

text \<open>\<^verbatim>\<open>VideoOut::Input\<close>: its kind with the fields that kind uses.\<close>

datatype input = Char u8 | Key u8 bool | Mouse int int u8 | Wheel int

section \<open>The window program: from events to bytes\<close>

text \<open>Mouse buttons, and the keys the program tells apart.\<close>

datatype mouse_button = Left_button | Right_button | Middle_button | Other_button

datatype key_sym =
    Return_key | Keypad_enter | Backspace_key | Tab_key | Escape_key | Letter_key nat
  | Up_key | Down_key | Right_key | Left_key | Home_key | End_key | Insert_key | Delete_key | Page_up_key | Page_down_key
  | Other_key

datatype sdl_event =
    Quit
  | Focus_lost
  | Mouse_enter int int "mouse_button set"
  | Text_input "u8 list"
  | Key_up int
  | Mouse_motion int int "mouse_button set"
  | Button_event bool mouse_button int int
  | Wheel_event int bool
  | Key_down int key_sym bool

record window =
  w_open :: bool
  w_buttons :: u8
  w_x :: int
  w_y :: int

definition new_window :: window where
  "new_window = \<lparr>w_open = True, w_buttons = 0, w_x = 0, w_y = 0\<rparr>"

definition send_key :: "int \<Rightarrow> bool \<Rightarrow> u8 list" where
  "send_key sc down = (if sc \<le> 0 \<or> 0xE7 < sc then [] else [0xFF, 0x4B, of_int sc, if down then 1 else 0])"

definition send_mouse :: "int \<Rightarrow> int \<Rightarrow> u8 \<Rightarrow> u8 list" where
  "send_mouse x y buttons = [0xFF, 0x4D, of_int (x div 256), of_int x, of_int (y div 256), of_int y, buttons]"

definition send_wheel :: "int \<Rightarrow> u8 list" where
  "send_wheel clicks = (if clicks = 0 then [] else [0xFF, 0x57, of_int clicks])"

definition card_buttons :: "mouse_button set \<Rightarrow> u8" where
  "card_buttons held = (if Left_button \<in> held then 1 else 0) OR (if Right_button \<in> held then 2 else 0) OR
     (if Middle_button \<in> held then 4 else 0)"

definition button_bit :: "mouse_button \<Rightarrow> u8" where
  "button_bit b = (case b of Left_button \<Rightarrow> 1 | Right_button \<Rightarrow> 2 | Middle_button \<Rightarrow> 4 | Other_button \<Rightarrow> 0)"

definition ansi :: "string \<Rightarrow> u8 list" where
  "ansi s = 0x1B # map of_char s"

definition key_sequence :: "key_sym \<Rightarrow> u8 list" where
  "key_sequence k = (case k of
     Up_key \<Rightarrow> ansi ''[A'' | Down_key \<Rightarrow> ansi ''[B'' | Right_key \<Rightarrow> ansi ''[C'' | Left_key \<Rightarrow> ansi ''[D''
   | Home_key \<Rightarrow> ansi ''[H'' | End_key \<Rightarrow> ansi ''[F'' | Insert_key \<Rightarrow> ansi ''[2~'' | Delete_key \<Rightarrow> ansi ''[3~''
   | Page_up_key \<Rightarrow> ansi ''[5~'' | Page_down_key \<Rightarrow> ansi ''[6~'' | _ \<Rightarrow> [])"

text \<open>The characters a key press sends beside its record.\<close>

definition typed :: "key_sym \<Rightarrow> bool \<Rightarrow> u8 list" where
  "typed k ctrl =
    (if k = Return_key \<or> k = Keypad_enter then [0x0D]
     else if k = Backspace_key then [0x08]
     else if k = Tab_key then [0x09]
     else if k = Escape_key then [0x1B]
     else case k of Letter_key n \<Rightarrow> if ctrl then [of_nat (n + 1)] else [] | _ \<Rightarrow> key_sequence k)"

fun window_event :: "sdl_event \<Rightarrow> window \<Rightarrow> u8 list \<times> window" where
  "window_event Quit w = ([], w\<lparr>w_open := False\<rparr>)"
| "window_event Focus_lost w =
    (if w_buttons w \<noteq> 0 then (send_mouse (w_x w) (w_y w) 0, w\<lparr>w_buttons := 0\<rparr>) else ([], w))"
| "window_event (Mouse_enter x y held) w =
    (let now = card_buttons held; w = w\<lparr>w_x := x, w_y := y\<rparr>
     in if now \<noteq> w_buttons w then (send_mouse x y now, w\<lparr>w_buttons := now\<rparr>) else ([], w))"
| "window_event (Text_input text) w = (filter (\<lambda>c. c < 0x80) text, w)"
| "window_event (Key_up sc) w = (send_key sc False, w)"
| "window_event (Mouse_motion x y held) w =
    (let w = w\<lparr>w_x := x, w_y := y, w_buttons := card_buttons held\<rparr> in (send_mouse x y (w_buttons w), w))"
| "window_event (Button_event down b x y) w =
    (let buttons = (if down then w_buttons w OR button_bit b else w_buttons w AND NOT (button_bit b));
         w = w\<lparr>w_buttons := buttons, w_x := x, w_y := y\<rparr>
     in (send_mouse x y buttons, w))"
| "window_event (Wheel_event y flipped) w = (send_wheel (if flipped then - y else y), w)"
| "window_event (Key_down sc k ctrl) w = (send_key sc True @ typed k ctrl, w)"

primrec window_events :: "sdl_event list \<Rightarrow> window \<Rightarrow> u8 list \<times> window" where
  "window_events [] w = ([], w)"
| "window_events (e # es) w =
    (case window_event e w of (bs, w) \<Rightarrow> case window_events es w of (bs', w) \<Rightarrow> (bs @ bs', w))"

section \<open>The emulator: from bytes to input\<close>

definition int16 :: "u8 \<Rightarrow> u8 \<Rightarrow> int" where
  "int16 hi lo = sint (push_bit 8 (ucast hi) OR ucast lo :: 16 word)"

definition record_length :: "u8 \<Rightarrow> nat" where
  "record_length kind = (if kind = 0x4B then 4 else if kind = 0x4D then 7 else if kind = 0x57 then 3 else 2)"

definition decode_record :: "u8 \<Rightarrow> u8 list \<Rightarrow> input list" where
  "decode_record kind r =
    (if kind = 0x4B then [Key (r ! 0) (r ! 1 \<noteq> 0)]
     else if kind = 0x4D then [Mouse (int16 (r ! 0) (r ! 1)) (int16 (r ! 2) (r ! 3)) (r ! 4)]
     else if kind = 0x57 then [Wheel (sint (r ! 0))]
     else [])"

text \<open>The loop over the bytes: the input they hold and the bytes of a record that is not complete.\<close>

function parse :: "u8 list \<Rightarrow> input list \<times> u8 list" where
  "parse g =
    (case g of
       [] \<Rightarrow> ([], [])
     | b # r \<Rightarrow>
         if b \<noteq> 0xFF then (case parse r of (es, rest) \<Rightarrow> (Char b # es, rest))
         else case r of
           [] \<Rightarrow> ([], g)
         | kind # q \<Rightarrow>
             if length g < record_length kind then ([], g)
             else case parse (drop (record_length kind) g) of (es, rest) \<Rightarrow> (decode_record kind q @ es, rest))"
  by pat_completeness auto
termination
  by (relation "measure length") (auto simp: record_length_def)

declare parse.simps [simp del]

text \<open>The pipe from the window: the bytes in it and whether its other end is closed.\<close>

record window_in =
  wi_pipe :: "u8 list"
  wi_eof :: bool
  wi_from :: bool
  wi_closed :: bool
  wi_got :: "u8 list"
  wi_input :: "input list"

text \<open>One \<^verbatim>\<open>read\<close> takes up to 256 of the \<open>avail\<close> bytes that have arrived; no byte yet is \<^verbatim>\<open>EAGAIN\<close>.\<close>

definition fetch :: "nat \<Rightarrow> window_in \<Rightarrow> window_in" where
  "fetch avail w =
    (if wi_input w = [] \<and> wi_from w then
       let n = min (min avail 256) (length (wi_pipe w)) in
       if 0 < n then
         case parse (wi_got w @ take n (wi_pipe w)) of
           (es, rest) \<Rightarrow> w\<lparr>wi_pipe := drop n (wi_pipe w), wi_input := es, wi_got := rest\<rparr>
       else if wi_eof w \<and> wi_pipe w = [] then w\<lparr>wi_from := False, wi_closed := True\<rparr> else w
     else w)"

definition poll_input :: "nat \<Rightarrow> window_in \<Rightarrow> input option \<times> window_in" where
  "poll_input avail w =
    (let w = fetch avail w
     in case wi_input w of [] \<Rightarrow> (None, w) | e # es \<Rightarrow> (Some e, w\<lparr>wi_input := es\<rparr>))"

primrec poll_inputs :: "nat list \<Rightarrow> window_in \<Rightarrow> input list \<times> window_in" where
  "poll_inputs [] w = ([], w)"
| "poll_inputs (n # ns) w =
    (case poll_input n w of (r, w) \<Rightarrow> case poll_inputs ns w of (es, w) \<Rightarrow> ((case r of None \<Rightarrow> [] | Some e \<Rightarrow> [e]) @ es, w))"

section \<open>What the events mean\<close>

fun event_input :: "sdl_event \<Rightarrow> window \<Rightarrow> input list" where
  "event_input Quit w = []"
| "event_input Focus_lost w = (if w_buttons w = 0 then [] else [Mouse (w_x w) (w_y w) 0])"
| "event_input (Mouse_enter x y held) w = (if card_buttons held = w_buttons w then [] else [Mouse x y (card_buttons held)])"
| "event_input (Text_input text) w = map Char (filter (\<lambda>c. c < 0x80) text)"
| "event_input (Key_up sc) w = (if 0 < sc \<and> sc \<le> 0xE7 then [Key (of_int sc) False] else [])"
| "event_input (Mouse_motion x y held) w = [Mouse x y (card_buttons held)]"
| "event_input (Button_event down b x y) w =
    [Mouse x y (if down then w_buttons w OR button_bit b else w_buttons w AND NOT (button_bit b))]"
| "event_input (Wheel_event y flipped) w = (if y = 0 then [] else [Wheel (if flipped then - y else y)])"
| "event_input (Key_down sc k ctrl) w =
    (if 0 < sc \<and> sc \<le> 0xE7 then [Key (of_int sc) True] else []) @ map Char (typed k ctrl)"

primrec events_input :: "sdl_event list \<Rightarrow> window \<Rightarrow> input list" where
  "events_input [] w = []"
| "events_input (e # es) w = event_input e w @ events_input es (snd (window_event e w))"

text \<open>The fields of a record are two bytes for a coordinate and one for the wheel.\<close>

definition coordinate :: "int \<Rightarrow> bool" where
  "coordinate x \<longleftrightarrow> - 32768 \<le> x \<and> x < 32768"

definition in_picture_range :: "window \<Rightarrow> bool" where
  "in_picture_range w \<longleftrightarrow> coordinate (w_x w) \<and> coordinate (w_y w)"

fun representable :: "sdl_event \<Rightarrow> bool" where
  "representable (Mouse_enter x y held) = (coordinate x \<and> coordinate y)"
| "representable (Mouse_motion x y held) = (coordinate x \<and> coordinate y)"
| "representable (Button_event down b x y) = (coordinate x \<and> coordinate y)"
| "representable (Wheel_event y flipped) = (- 128 < y \<and> y < 128)"
| "representable (Key_down sc (Letter_key n) ctrl) = (n < 26)"
| "representable e = True"

section \<open>Encoding and decoding\<close>

lemma parse_nil [simp]: "parse [] = ([], [])"
  by (simp add: parse.simps)

lemma parse_char: "b \<noteq> 0xFF \<Longrightarrow> parse (b # r) = (Char b # fst (parse r), snd (parse r))"
  by (subst parse.simps) (simp split: prod.splits)

lemma parse_record:
  "record_length kind \<le> length (0xFF # kind # q) \<Longrightarrow>
   parse (0xFF # kind # q) = (decode_record kind q @ fst (parse (drop (record_length kind - 2) q)),
     snd (parse (drop (record_length kind - 2) q)))"
proof -
  assume len: "record_length kind \<le> length (0xFF # kind # q)"
  have two: "2 \<le> record_length kind" by (simp add: record_length_def)
  then have "drop (record_length kind) (0xFF # kind # q) = drop (record_length kind - 2) q"
    by (cases "record_length kind"; cases "record_length kind - 1") auto
  then show ?thesis using len by (subst parse.simps) (simp split: prod.splits)
qed

lemma parse_short: "length (0xFF # r) < (case r of [] \<Rightarrow> 2 | kind # q \<Rightarrow> record_length kind) \<Longrightarrow> parse (0xFF # r) = ([], 0xFF # r)"
  by (subst parse.simps) (auto split: list.splits)

text \<open>Parsing can be cut anywhere: what is left over is put before what comes next.\<close>

lemma parse_append:
  "parse (a @ b) = (fst (parse a) @ fst (parse (snd (parse a) @ b)), snd (parse (snd (parse a) @ b)))"
proof (induction a rule: parse.induct)
  case (1 a)
  show ?case
  proof (cases a)
    case Nil
    then show ?thesis by simp
  next
    case (Cons c r)
    show ?thesis
    proof (cases "c = 0xFF")
      case False
      then show ?thesis using 1(1) [OF Cons] by (simp add: Cons parse_char)
    next
      case c: True
      show ?thesis
      proof (cases "length a < (case r of [] \<Rightarrow> 2 | kind # q \<Rightarrow> record_length kind)")
        case True
        then show ?thesis using parse_short [of r] by (simp add: Cons c)
      next
        case False
        then obtain kind q where r: "r = kind # q" by (cases r) (auto simp: Cons)
        have len: "record_length kind \<le> length (0xFF # kind # q)" using False by (simp add: Cons r)
        then have drop: "drop (record_length kind) a = drop (record_length kind - 2) q"
          using parse_record [of kind q] by (simp add: Cons c r record_length_def split: if_splits)
        have "decode_record kind (q @ b) = decode_record kind q"
          using len by (auto simp: decode_record_def record_length_def nth_append)
        moreover have "drop (record_length kind - 2) (q @ b) = drop (record_length kind - 2) q @ b"
          using len by (simp add: record_length_def split: if_splits)
        ultimately show ?thesis
          using parse_record [of kind q] parse_record [of kind "q @ b"] len 1(2) [OF Cons _ r] False drop
          by (simp add: Cons c r)
      qed
    qed
  qed
qed

lemma int16_of_int: "coordinate x \<Longrightarrow> int16 (of_int (x div 256)) (of_int x) = x"
proof -
  assume x: "coordinate x"
  have "push_bit 8 (ucast (of_int (x div 256) :: u8)) OR ucast (of_int x :: u8) = (of_int x :: 16 word)"
    by (rule bit_eqI) (auto simp: bit_simps drop_bit_eq_div [of 8, symmetric, simplified] le_less_Suc_eq)
  moreover have "sint (of_int x :: 16 word) = x" using x by (simp add: sint_sbintrunc' signed_take_bit_int_eq_self coordinate_def)
  ultimately show ?thesis by (simp only: int16_def)
qed

text \<open>What a piece of output parses to, whatever follows it.\<close>

definition encodes :: "u8 list \<Rightarrow> input list \<Rightarrow> bool" where
  "encodes bs es \<longleftrightarrow> (\<forall>t. parse (bs @ t) = (es @ fst (parse t), snd (parse t)))"

lemma encodes_nil: "encodes [] []"
  by (simp add: encodes_def)

lemma encodes_append: "encodes bs es \<Longrightarrow> encodes bs' es' \<Longrightarrow> encodes (bs @ bs') (es @ es')"
  by (simp add: encodes_def)

lemma encodes_chars: "0xFF \<notin> set cs \<Longrightarrow> encodes cs (map Char cs)"
  by (induction cs) (auto simp: encodes_def parse_char)

lemma encodes_key: "encodes (send_key sc down) (if 0 < sc \<and> sc \<le> 0xE7 then [Key (of_int sc) down] else [])"
  by (auto simp: encodes_def send_key_def parse_record record_length_def decode_record_def)

lemma encodes_mouse: "coordinate x \<Longrightarrow> coordinate y \<Longrightarrow> encodes (send_mouse x y buttons) [Mouse x y buttons]"
  by (simp add: encodes_def send_mouse_def parse_record record_length_def decode_record_def int16_of_int numeral_eq_Suc)

lemma encodes_wheel:
  assumes "- 128 < y" "y < 128"
  shows "encodes (send_wheel y) (if y = 0 then [] else [Wheel y])"
proof -
  have "sint (of_int y :: u8) = y" using assms by (simp add: sint_sbintrunc' signed_take_bit_int_eq_self)
  then show ?thesis by (simp add: encodes_def send_wheel_def parse_record record_length_def decode_record_def)
qed

lemma below_0x80: "0xFF \<notin> set (filter (\<lambda>c. c < 0x80) (text :: u8 list))"
  by simp

lemma typed_no_FF: "(\<forall>n. k = Letter_key n \<longrightarrow> n < 26) \<Longrightarrow> 0xFF \<notin> set (typed k ctrl)"
proof -
  have "of_nat (n + 1) \<noteq> (0xFF :: u8)" if "n < 26" for n
  proof
    assume "of_nat (n + 1) = (0xFF :: u8)"
    then have "unat (of_nat (n + 1) :: u8) = 255" by simp
    then show False using that by (simp only: unat_of_nat) simp
  qed
  then show "(\<forall>n. k = Letter_key n \<longrightarrow> n < 26) \<Longrightarrow> 0xFF \<notin> set (typed k ctrl)"
    by (auto simp: typed_def key_sequence_def ansi_def split: key_sym.splits)
qed

lemma event_encodes:
  assumes "representable e" "in_picture_range w"
  shows "encodes (fst (window_event e w)) (event_input e w) \<and> in_picture_range (snd (window_event e w))"
proof (cases e)
  case (Key_down sc k ctrl)
  then have "\<forall>n. k = Letter_key n \<longrightarrow> n < 26" using assms(1) by auto
  then show ?thesis
    using assms encodes_append [OF encodes_key encodes_chars [OF typed_no_FF]] by (simp add: Key_down)
next
  case (Wheel_event y flipped)
  then show ?thesis using assms encodes_wheel [of "if flipped then - y else y"] by (auto split: if_splits)
qed (use assms in \<open>auto simp: Let_def encodes_nil encodes_key encodes_mouse encodes_chars in_picture_range_def\<close>)

lemma events_encode:
  "\<forall>e\<in>set es. representable e \<Longrightarrow> in_picture_range w \<Longrightarrow> encodes (fst (window_events es w)) (events_input es w)"
proof (induction es arbitrary: w)
  case (Cons e es)
  have e: "encodes (fst (window_event e w)) (event_input e w)" "in_picture_range (snd (window_event e w))"
    using event_encodes Cons.prems by auto
  have "encodes (fst (window_events es (snd (window_event e w)))) (events_input es (snd (window_event e w)))"
    using Cons.IH Cons.prems(1) e(2) by simp
  then show ?case using encodes_append [OF e(1)] by (simp add: case_prod_beta')
qed (simp add: encodes_nil)

section \<open>The whole way\<close>

text \<open>The input that is on its way: what has been made into input, and what the bytes held and in the pipe hold.\<close>

definition on_the_way :: "window_in \<Rightarrow> input list" where
  "on_the_way w = wi_input w @ fst (parse (wi_got w @ (if wi_from w then wi_pipe w else [])))"

lemma fetch_keeps: "on_the_way (fetch avail w) = on_the_way w"
proof -
  have "fst (parse (wi_got w @ wi_pipe w)) = es @ fst (parse (rest @ drop n (wi_pipe w)))"
    if "parse (wi_got w @ take n (wi_pipe w)) = (es, rest)" for n es rest
    using parse_append [of "wi_got w @ take n (wi_pipe w)" "drop n (wi_pipe w)"] that by simp
  then show ?thesis
    by (auto simp: fetch_def on_the_way_def Let_def split: prod.splits)
qed

lemma poll_keeps: "poll_input avail w = (r, v) \<Longrightarrow> on_the_way w = (case r of None \<Rightarrow> [] | Some e \<Rightarrow> [e]) @ on_the_way v"
  using fetch_keeps [of avail w] by (auto simp: poll_input_def Let_def on_the_way_def split: list.splits)

lemma polls_keep: "poll_inputs ns w = (es, v) \<Longrightarrow> on_the_way w = es @ on_the_way v"
  by (induction ns arbitrary: w es) (auto split: prod.splits dest!: poll_keeps)

text \<open>What is held back is never a whole record, and every poll that could read makes progress.\<close>

definition partial :: "window_in \<Rightarrow> bool" where
  "partial w \<longleftrightarrow> fst (parse (wi_got w)) = []"

lemma parse_rest: "fst (parse (snd (parse g))) = []"
  using parse_append [of g "[]"] by (cases "parse g") simp

lemma poll_partial: "partial w \<Longrightarrow> partial (snd (poll_input avail w))"
  using parse_rest by (auto simp: poll_input_def fetch_def partial_def Let_def split: list.splits prod.splits) (metis snd_conv)+

lemma polls_partial: "partial w \<Longrightarrow> partial (snd (poll_inputs ns w))"
  by (induction ns arbitrary: w) (auto split: prod.splits dest: poll_partial, metis poll_partial snd_conv)

lemma parse_length: "length (fst (parse g)) + length (snd (parse g)) \<le> length g"
proof (induction g rule: parse.induct)
  case (1 g)
  show ?case
  proof (cases g)
    case (Cons b r)
    show ?thesis
    proof (cases "b = 0xFF")
      case False
      then show ?thesis using 1(1) [OF Cons] by (simp add: Cons parse_char)
    next
      case b: True
      show ?thesis
      proof (cases "length g < (case r of [] \<Rightarrow> 2 | kind # q \<Rightarrow> record_length kind)")
        case True
        then show ?thesis using parse_short [of r] by (simp add: Cons b)
      next
        case False
        then obtain kind q where r: "r = kind # q" by (cases r) (auto simp: Cons)
        have len: "record_length kind \<le> length (0xFF # kind # q)" using False by (simp add: Cons r)
        then have "drop (record_length kind) g = drop (record_length kind - 2) q"
          by (simp add: Cons r record_length_def split: if_splits)
        then have "length (fst (parse (drop (record_length kind - 2) q))) + length (snd (parse (drop (record_length kind - 2) q)))
            \<le> length (drop (record_length kind - 2) q)"
          using 1(2) [OF Cons _ r] b False by (simp add: Cons r)
        moreover have "length (decode_record kind q) \<le> 1" by (simp add: decode_record_def)
        ultimately show ?thesis using parse_record [OF len] len by (simp add: Cons b r)
      qed
    qed
  qed simp
qed

definition work :: "window_in \<Rightarrow> nat" where
  "work w = length (wi_input w) + 2 * length (wi_pipe w) + length (wi_got w)"

lemma poll_works:
  assumes "wi_from w" "0 < avail" "wi_input w \<noteq> [] \<or> wi_pipe w \<noteq> []"
  shows "work (snd (poll_input avail w)) < work w \<and> wi_from (snd (poll_input avail w))"
proof (cases "wi_input w")
  case (Cons e es)
  then show ?thesis using assms(1) by (simp add: poll_input_def fetch_def work_def)
next
  case Nil
  obtain n where n: "n = min (min avail 256) (length (wi_pipe w))" "0 < n" "n \<le> length (wi_pipe w)"
    using assms(2,3) Nil by simp
  obtain es rest where parse: "parse (wi_got w @ take n (wi_pipe w)) = (es, rest)" by (cases "parse (wi_got w @ take n (wi_pipe w))")
  have "length es + length rest \<le> length (wi_got w) + n"
    using parse_length [of "wi_got w @ take n (wi_pipe w)"] n(3) by (simp add: parse)
  moreover have "fetch avail w = w\<lparr>wi_pipe := drop n (wi_pipe w), wi_input := es, wi_got := rest\<rparr>"
    using assms(1) Nil n(2) parse unfolding fetch_def n(1) [symmetric] Let_def by simp
  ultimately show ?thesis using n(2,3) assms(1) Nil by (cases es) (auto simp: poll_input_def work_def Let_def)
qed

lemma polls_finish:
  assumes "wi_from w" "0 \<notin> set ns" "partial w" "work w \<le> length ns"
  shows "on_the_way (snd (poll_inputs ns w)) = []"
  using assms
proof (induction ns arbitrary: w)
  case Nil
  then show ?case by (simp add: work_def on_the_way_def)
next
  case (Cons n ns)
  obtain r v where poll: "poll_input n w = (r, v)" by (cases "poll_input n w")
  obtain es u where polls: "poll_inputs ns v = (es, u)" by (cases "poll_inputs ns v")
  show ?case
  proof (cases "wi_input w \<noteq> [] \<or> wi_pipe w \<noteq> []")
    case True
    then have "work v < work w" "wi_from v" using poll_works [of w n] Cons.prems(1,2) poll by auto
    then show ?thesis using Cons.IH [of v] Cons.prems poll_partial [of w n] poll polls by simp
  next
    case False
    then have "on_the_way w = []" using Cons.prems(3) by (simp add: on_the_way_def partial_def)
    then show ?thesis using poll_keeps [OF poll] polls_keep [OF polls] poll polls by simp
  qed
qed

text \<open>C19. What is done in the window reaches the emulator whole and in order: the bytes the window program sends for
  any events whose coordinates fit the records, cut into reads anywhere and polled at any moments, give exactly
  the characters, keys, mouse states and wheel turns the events mean. What has been polled is a prefix of it at
  every moment, and all of it after enough polls that found a byte to read.\<close>
theorem window_input_arrives:
  assumes "\<forall>e\<in>set es. representable e" "in_picture_range w"
    and "wi_pipe v = fst (window_events es w)" "wi_got v = []" "wi_input v = []" "wi_from v"
    and "poll_inputs ns v = (ins, u)"
  shows "prefix ins (events_input es w) \<and>
    (0 \<notin> set ns \<and> 2 * length (fst (window_events es w)) \<le> length ns \<longrightarrow> ins = events_input es w)"
proof -
  have "parse (fst (window_events es w) @ []) = (events_input es w @ fst (parse []), snd (parse []))"
    using events_encode [OF assms(1,2)] unfolding encodes_def by blast
  then have "on_the_way v = events_input es w"
    using assms(3-6) by (simp add: on_the_way_def)
  then have "events_input es w = ins @ on_the_way u" using polls_keep [OF assms(7)] by simp
  moreover have "on_the_way u = []" if "0 \<notin> set ns" "2 * length (fst (window_events es w)) \<le> length ns"
    using polls_finish [of v ns] that assms by (simp add: work_def partial_def)
  ultimately show ?thesis by auto
qed

theorem window_input_arrives_witness:
  "\<exists>u. poll_inputs [3, 1, 1, 1, 1, 1, 1, 1, 1, 1, 1, 1, 1, 1, 1, 1, 1, 1, 1, 1, 1, 1, 1, 1, 1, 1]
     \<lparr>wi_pipe = [0xFF, 0x4B, 4, 1, 0x61, 0xFF, 0x4D, 0xFF, 0xFE, 1, 0, 1], wi_eof = False, wi_from = True, wi_closed = False,
      wi_got = [], wi_input = []\<rparr> = ([Key 4 True, Char 0x61, Mouse (- 2) 256 1], u)"
proof -
  let ?es = "[Key_down 4 (Letter_key 0) False, Text_input [0x61], Mouse_motion (- 2) 256 {Left_button}]"
  let ?v = "\<lparr>wi_pipe = [0xFF, 0x4B, 4, 1, 0x61, 0xFF, 0x4D, 0xFF, 0xFE, 1, 0, 1], wi_eof = False, wi_from = True, wi_closed = False,
      wi_got = [], wi_input = []\<rparr>"
  let ?ns = "[3, 1, 1, 1, 1, 1, 1, 1, 1, 1, 1, 1, 1, 1, 1, 1, 1, 1, 1, 1, 1, 1, 1, 1, 1, 1] :: nat list"
  have bytes: "fst (window_events ?es new_window) = [0xFF, 0x4B, 4, 1, 0x61, 0xFF, 0x4D, 0xFF, 0xFE, 1, 0, 1]"
    by (simp add: send_key_def typed_def send_mouse_def card_buttons_def word_less_nat_alt)
  have "events_input ?es new_window = [Key 4 True, Char 0x61, Mouse (- 2) 256 1]"
    by (simp add: typed_def card_buttons_def word_less_nat_alt)
  moreover have "\<forall>e\<in>set ?es. representable e" "in_picture_range new_window"
    by (simp_all add: coordinate_def in_picture_range_def new_window_def)
  moreover obtain ins u where "poll_inputs ?ns ?v = (ins, u)" by (cases "poll_inputs ?ns ?v")
  ultimately show ?thesis
    using window_input_arrives [of ?es new_window ?v ?ns ins u] bytes by (simp del: poll_inputs.simps window_events.simps)
qed

section \<open>Frames\<close>

definition kW :: nat where "kW = 640"
definition kH :: nat where "kH = 480"
definition kFrameBytes :: nat where "kFrameBytes = kW * kH * 4"

definition pixel_bytes :: "u32 \<Rightarrow> u8 list" where
  "pixel_bytes p = [ucast p, ucast (drop_bit 8 p), ucast (drop_bit 16 p), ucast (drop_bit 24 p)]"

definition frame_bytes :: "bool \<Rightarrow> u32 list \<Rightarrow> u8 list" where
  "frame_bytes hide_pointer pixels = [0x46, if hide_pointer then 1 else 0, 0, 0] @ concat (map pixel_bytes pixels)"

text \<open>The window program's side: every whole frame, with its flag; it stops at anything else.\<close>

function read_frames :: "u8 list \<Rightarrow> (bool \<times> u8 list) list" where
  "read_frames s =
    (if length s < 4 \<or> s ! 0 \<noteq> 0x46 \<or> length s < 4 + kFrameBytes then []
     else (s ! 1 AND 1 \<noteq> 0, take kFrameBytes (drop 4 s)) # read_frames (drop (4 + kFrameBytes) s))"
  by pat_completeness auto
termination
  by (relation "measure length") (auto simp: kFrameBytes_def kW_def kH_def)

declare read_frames.simps [simp del]

section \<open>Pacing\<close>

text \<open>Times are microseconds of the steady clock; \<open>fails\<close> tells whether opening the window fails, \<open>gone\<close> whether
  showing the picture finds the window gone. The result of a frame is whether its picture is shown and until
  when the emulator sleeps.\<close>

record pacer =
  pc_turbo :: bool
  pc_opened :: bool
  pc_closed :: bool
  pc_next :: int
  pc_shown :: int

definition kFrame :: int where "kFrame = 16667"

definition showing :: "pacer \<Rightarrow> bool" where
  "showing p \<longleftrightarrow> pc_opened p \<and> \<not> pc_closed p"

definition wants_frame :: "int \<Rightarrow> pacer \<Rightarrow> bool" where
  "wants_frame now p = (if pc_closed p then False else if \<not> pc_turbo p then True else kFrame \<le> now - pc_shown p)"

definition frame :: "bool \<Rightarrow> bool \<Rightarrow> int \<Rightarrow> bool \<Rightarrow> pacer \<Rightarrow> bool \<times> int option \<times> pacer" where
  "frame fails gone now pixels p =
    (let p = (if \<not> pc_opened p then p\<lparr>pc_opened := True, pc_closed := pc_closed p \<or> fails\<rparr> else p)
     in if pc_closed p then (False, None, p)
        else
          let p = (if pixels then p\<lparr>pc_shown := now, pc_closed := gone\<rparr> else p)
          in if pc_turbo p then (pixels, None, p)
             else
               let p = (if 100000 < now - pc_next p then p\<lparr>pc_next := now\<rparr> else p);
                   p = p\<lparr>pc_next := pc_next p + kFrame\<rparr>
               in (pixels, if now < pc_next p then Some (pc_next p) else None, p))"

text \<open>The moments of successive frames, when the emulator does sleep as long as it is told.\<close>

fun paced :: "int list \<Rightarrow> pacer \<Rightarrow> bool" where
  "paced [] p = True"
| "paced (t # ts) p =
    (case frame False False t True p of (_, wake, q) \<Rightarrow>
       (case ts of [] \<Rightarrow> True | t' # _ \<Rightarrow> t \<le> t' \<and> (case wake of None \<Rightarrow> True | Some w \<Rightarrow> w \<le> t')) \<and> paced ts q)"

section \<open>The Windows window\<close>

text \<open>The PC scan codes of set 1 without and with the prefix E0.\<close>

definition usage_plain :: "u8 list" where
  "usage_plain =
    [0, 0x29, 0x1E, 0x1F, 0x20, 0x21, 0x22, 0x23, 0x24, 0x25, 0x26, 0x27, 0x2D, 0x2E, 0x2A, 0x2B,
     0x14, 0x1A, 0x08, 0x15, 0x17, 0x1C, 0x18, 0x0C, 0x12, 0x13, 0x2F, 0x30, 0x28, 0xE0, 0x04, 0x16,
     0x07, 0x09, 0x0A, 0x0B, 0x0D, 0x0E, 0x0F, 0x33, 0x34, 0x35, 0xE1, 0x31, 0x1D, 0x1B, 0x06, 0x19,
     0x05, 0x11, 0x10, 0x36, 0x37, 0x38, 0xE5, 0x55, 0xE2, 0x2C, 0x39, 0x3A, 0x3B, 0x3C, 0x3D, 0x3E,
     0x3F, 0x40, 0x41, 0x42, 0x43, 0x48, 0x47, 0x5F, 0x60, 0x61, 0x56, 0x5C, 0x5D, 0x5E, 0x57, 0x59,
     0x5A, 0x5B, 0x62, 0x63, 0, 0, 0x64, 0x44, 0x45]"

definition usage_extended :: "(nat \<times> u8) list" where
  "usage_extended =
    [(0x1C, 0x58), (0x1D, 0xE4), (0x35, 0x54), (0x37, 0x46), (0x38, 0xE6), (0x45, 0x53), (0x47, 0x4A), (0x48, 0x52),
     (0x49, 0x4B), (0x4B, 0x50), (0x4D, 0x4F), (0x4F, 0x4D), (0x50, 0x51), (0x51, 0x4E), (0x52, 0x49), (0x53, 0x4C),
     (0x5B, 0xE3), (0x5C, 0xE7), (0x5D, 0x65)]"

definition usage_of :: "u32 \<Rightarrow> u8" where
  "usage_of lp =
    (let sc = unat (drop_bit 16 lp AND 0xFF)
     in if \<not> bit lp 24 then (if sc < length usage_plain then usage_plain ! sc else 0)
        else case map_of usage_extended sc of None \<Rightarrow> 0 | Some u \<Rightarrow> u)"

record rect =
  r_left :: int
  r_top :: int
  r_right :: int
  r_bottom :: int

definition picture_rect :: "int \<Rightarrow> int \<Rightarrow> rect" where
  "picture_rect cw ch =
    (let dw = cw; dh = cw * int kH div int kW;
         (dw, dh) = (if ch < dh then (ch * int kW div int kH, ch) else (dw, dh));
         dx = (cw - dw) div 2; dy = (ch - dh) div 2
     in \<lparr>r_left = dx, r_top = dy, r_right = dx + dw, r_bottom = dy + dh\<rparr>)"

text \<open>The messages that make input; C division truncates.\<close>

datatype win_message =
    Wm_char nat
  | Wm_key bool bool u32 key_sym
  | Wm_mouse int int "mouse_button set"
  | Wm_killfocus
  | Wm_mousewheel int

record win_window =
  ww_buttons :: u8
  ww_mouse_x :: int
  ww_mouse_y :: int

definition tdiv :: "int \<Rightarrow> int \<Rightarrow> int" where
  "tdiv a b = sgn a * sgn b * (\<bar>a\<bar> div \<bar>b\<bar>)"

fun window_proc :: "int \<Rightarrow> int \<Rightarrow> win_message \<Rightarrow> win_window \<Rightarrow> input list \<times> win_window" where
  "window_proc cw ch (Wm_char wp) w = (if wp < 0x80 then [Char (of_nat wp)] else [], w)"
| "window_proc cw ch (Wm_key sys down lp vk) w =
    ((if usage_of lp \<noteq> 0 then [Key (usage_of lp) down] else []) @
     (if down \<and> \<not> sys then map Char (key_sequence vk) else []), w)"
| "window_proc cw ch (Wm_mouse x y held) w =
    (let b = card_buttons held; w = w\<lparr>ww_buttons := b\<rparr>; p = picture_rect cw ch;
         width = r_right p - r_left p; height = r_bottom p - r_top p
     in if 0 < width \<and> 0 < height then
          let mx = tdiv ((x - r_left p) * int kW) width; my = tdiv ((y - r_top p) * int kH) height
          in ([Mouse mx my b], w\<lparr>ww_mouse_x := mx, ww_mouse_y := my\<rparr>)
        else ([], w))"
| "window_proc cw ch Wm_killfocus w =
    (if ww_buttons w \<noteq> 0 then ([Mouse (ww_mouse_x w) (ww_mouse_y w) 0], w\<lparr>ww_buttons := 0\<rparr>) else ([], w))"
| "window_proc cw ch (Wm_mousewheel delta) w =
    (let clicks = tdiv delta 120 in (if clicks \<noteq> 0 then [Wheel clicks] else [], w))"

section \<open>Frames arrive, no faster than they should\<close>

lemma frame_bytes_length: "length pixels = kW * kH \<Longrightarrow> length (frame_bytes hide pixels) = 4 + kFrameBytes"
proof -
  have "length (concat (map pixel_bytes pixels)) = 4 * length pixels"
    by (induction pixels) (simp_all add: pixel_bytes_def)
  then show "length pixels = kW * kH \<Longrightarrow> length (frame_bytes hide pixels) = 4 + kFrameBytes"
    by (simp add: frame_bytes_def kFrameBytes_def)
qed

lemma frames_arrive:
  "\<forall>(hide, pixels)\<in>set fs. length pixels = kW * kH \<Longrightarrow>
   read_frames (concat (map (\<lambda>(hide, pixels). frame_bytes hide pixels) fs)) =
     map (\<lambda>(hide, pixels). (hide, concat (map pixel_bytes pixels))) fs"
proof (induction fs)
  case Nil
  then show ?case by (simp add: read_frames.simps)
next
  case (Cons f fs)
  obtain hide pixels where f: "f = (hide, pixels)" by (cases f)
  let ?b = "frame_bytes hide pixels" and ?rest = "concat (map (\<lambda>(hide, pixels). frame_bytes hide pixels) fs)"
  have len: "length ?b = 4 + kFrameBytes" using Cons.prems by (simp add: f frame_bytes_length)
  have parts: "?b ! 0 = 0x46" "?b ! 1 AND 1 \<noteq> 0 \<longleftrightarrow> hide" "drop 4 ?b = concat (map pixel_bytes pixels)"
    by (simp_all add: frame_bytes_def)
  have "read_frames (?b @ ?rest) = (hide, take kFrameBytes (drop 4 ?b)) # read_frames ?rest"
    using len parts(1,2) by (subst read_frames.simps) (simp add: nth_append)
  moreover have "take kFrameBytes (drop 4 ?b) = drop 4 ?b" using len by simp
  ultimately show ?case using Cons parts(3) by (simp add: f)
qed

text \<open>The emulator is held to 60 frames a second: whatever the moments of its frames, as long as it sleeps when
  it is told to, the n-th frame after the first does not come earlier than n frame times after it, less
  the tenth of a second that it may catch up.\<close>
theorem frames_are_paced:
  assumes "paced ts p" "\<not> pc_turbo p" "\<not> pc_closed p" "n < length ts"
  shows "ts ! 0 + int n * kFrame - 100000 \<le> ts ! n"
proof -
  have next_frame: "\<not> pc_turbo q \<and> \<not> pc_closed q \<and> pc_next p + kFrame \<le> pc_next q \<and> t - 100000 + kFrame \<le> pc_next q \<and>
      (case wake of None \<Rightarrow> pc_next q \<le> t | Some w \<Rightarrow> w = pc_next q)"
    if "frame False False t True p = (s, wake, q)" "\<not> pc_turbo p" "\<not> pc_closed p" for t s wake and p q :: pacer
    using that by (auto simp: frame_def Let_def kFrame_def split: if_splits)
  have later: "pc_next p + int n * kFrame \<le> (ts ! n)"
    if "paced ts p" "\<not> pc_turbo p" "\<not> pc_closed p" "n < length ts" "pc_next p \<le> ts ! 0" for ts n and p :: pacer
    using that
  proof (induction n arbitrary: ts p)
    case (Suc n)
    obtain t t' ts' where ts: "ts = t # t' # ts'" using Suc.prems(4) by (cases ts; cases "tl ts") auto
    obtain s wake q where f: "frame False False t True p = (s, wake, q)" by (cases "frame False False t True p")
    note q = next_frame [OF f Suc.prems(2,3)]
    have "paced (t' # ts') q" "t \<le> t'" "case wake of None \<Rightarrow> True | Some w \<Rightarrow> w \<le> t'"
      using Suc.prems(1) f by (simp_all add: ts)
    then have "pc_next q \<le> t'" using q by (auto split: option.splits)
    then have "pc_next q + int n * kFrame \<le> (t' # ts') ! n"
      using Suc.IH [of "t' # ts'" q] \<open>paced (t' # ts') q\<close> q Suc.prems(4) by (simp add: ts)
    then show ?case using q by (simp add: ts algebra_simps)
  qed simp
  show ?thesis
  proof (cases n)
    case (Suc m)
    obtain t t' ts' where ts: "ts = t # t' # ts'" using assms(4) Suc by (cases ts; cases "tl ts") auto
    obtain s wake q where f: "frame False False t True p = (s, wake, q)" by (cases "frame False False t True p")
    note q = next_frame [OF f assms(2,3)]
    have "paced (t' # ts') q" "t \<le> t'" "case wake of None \<Rightarrow> True | Some w \<Rightarrow> w \<le> t'"
      using assms(1) f by (simp_all add: ts)
    then have "pc_next q + int m * kFrame \<le> (t' # ts') ! m"
      using later [of "t' # ts'" q m] q assms(4) Suc by (auto simp: ts split: option.splits)
    then show ?thesis using q Suc by (simp add: ts algebra_simps)
  qed (use assms in simp)
qed

theorem frames_are_paced_witness:
  "paced [200000, 216667, 300000] \<lparr>pc_turbo = False, pc_opened = False, pc_closed = False, pc_next = 0, pc_shown = 0\<rparr> \<and>
   (200000 + int 2 * kFrame - 100000 \<le> [200000, 216667, 300000 :: int] ! 2)"
proof -
  have "paced [200000, 216667, 300000] \<lparr>pc_turbo = False, pc_opened = False, pc_closed = False, pc_next = 0, pc_shown = 0\<rparr>"
    by (simp add: frame_def kFrame_def)
  then show ?thesis using frames_are_paced [of "[200000, 216667, 300000]" _ 2] by fastforce
qed

lemma picture_rect_fits:
  assumes "0 < cw" "0 < ch"
  shows "0 \<le> r_left (picture_rect cw ch) \<and> r_left (picture_rect cw ch) \<le> r_right (picture_rect cw ch) \<and> r_right (picture_rect cw ch) \<le> cw \<and>
    0 \<le> r_top (picture_rect cw ch) \<and> r_top (picture_rect cw ch) \<le> r_bottom (picture_rect cw ch) \<and> r_bottom (picture_rect cw ch) \<le> ch"
proof -
  show ?thesis
  proof (cases "ch < cw * 480 div 640")
    case True
    let ?w = "ch * 640 div 480"
    have "0 \<le> ?w" "?w \<le> cw" using assms True by linarith+
    moreover from this have "0 \<le> (cw - ?w) div 2" "(cw - ?w) div 2 + ?w \<le> cw" by linarith+
    ultimately show ?thesis using True assms by (simp only: picture_rect_def kW_def kH_def Let_def of_nat_numeral if_True rect.simps) simp
  next
    case False
    let ?h = "cw * 480 div 640"
    have "0 \<le> ?h" "?h \<le> ch" using assms False by linarith+
    moreover from this have "0 \<le> (ch - ?h) div 2" "(ch - ?h) div 2 + ?h \<le> ch" by linarith+
    ultimately show ?thesis using False assms by (simp only: picture_rect_def kW_def kH_def Let_def of_nat_numeral if_False rect.simps) simp
  qed
qed

text \<open>A point inside the picture is given in the card's pixels.\<close>

lemma mouse_in_picture:
  assumes "r_left p \<le> x" "x < r_right p"
  shows "0 \<le> tdiv ((x - r_left p) * int kW) (r_right p - r_left p) \<and> tdiv ((x - r_left p) * int kW) (r_right p - r_left p) < int kW"
proof -
  let ?a = "x - r_left p" and ?w = "r_right p - r_left p"
  have w: "0 < ?w" "0 \<le> ?a" "?a < ?w" using assms by simp_all
  then have "tdiv (?a * int kW) ?w = ?a * int kW div ?w"
    by (cases "?a = 0") (simp_all add: tdiv_def kW_def)
  moreover have "?a * int kW div ?w < int kW"
  proof -
    have "?a * int kW < int kW * ?w" using w by (simp add: kW_def)
    then have "int kW * ?w - ?a * int kW > 0" by linarith
    moreover have "?w * (?a * int kW div ?w) \<le> ?a * int kW" using w by (smt (verit) div_mult_mod_eq mult.commute pos_mod_sign)
    ultimately have "?w * (?a * int kW div ?w) < ?w * int kW" by (simp add: mult.commute)
    then show ?thesis using w by (simp only: mult_less_cancel_left_pos)
  qed
  ultimately show ?thesis using w by (simp add: pos_imp_zdiv_nonneg_iff kW_def)
qed

end
