(* ===== verification/Host_Keys.thy ===== *)
theory Host_Keys
  imports Video_State Video_Device Video_Window Com_Port
begin

text \<open>
  The emulator program \<^verbatim>\<open>simulator/tools/basic309_sdboot_demo.cpp\<close>: its options, what its console gives, the
  typing of console bytes into the video card's keyboard, and what one turn of its main loop does after the
  machine has run: the window's input goes to the UART or to the card, the console's bytes to the UART or to
  the card, or the bridge is polled. What the console and the window give is a parameter; the calls that set
  the console up and the messages are not modelled.
\<close>

unbundle bit_operations_syntax

section \<open>Options\<close>

record demo_options =
  do_com :: string
  do_bios :: string
  do_disk :: string
  do_sound :: bool
  do_video :: bool
  do_turbo :: bool
  do_scale :: int

text \<open>\<^verbatim>\<open>std::atoi\<close>: blanks, a sign, and digits up to anything else.\<close>

definition code :: "char \<Rightarrow> int" where
  "code c = of_char c"

definition digits :: "string \<Rightarrow> int" where
  "digits s = fold (\<lambda>c n. 10 * n + (code c - 48)) (takeWhile (\<lambda>c. 48 \<le> code c \<and> code c \<le> 57) s) 0"

definition atoi :: "string \<Rightarrow> int" where
  "atoi s =
    (case dropWhile (\<lambda>c. code c = 32 \<or> 9 \<le> code c \<and> code c \<le> 13) s of
       [] \<Rightarrow> 0
     | c # r \<Rightarrow> if c = CHR ''-'' then - digits r else if c = CHR ''+'' then digits r else digits (c # r))"

text \<open>\<open>None\<close> is the help; an option that lacks its value, or is not known, is passed over.\<close>

fun demo_args :: "string list \<Rightarrow> demo_options \<Rightarrow> demo_options option" where
  "demo_args [] opt = Some opt"
| "demo_args (a # as) opt =
    (if a = ''--help'' \<or> a = ''-h'' \<or> a = ''/?'' then None
     else if a = ''--com'' \<and> as \<noteq> [] then demo_args (tl as) (opt\<lparr>do_com := hd as\<rparr>)
     else if a = ''--bios'' \<and> as \<noteq> [] then demo_args (tl as) (opt\<lparr>do_bios := hd as\<rparr>)
     else if a = ''--disk'' \<and> as \<noteq> [] then demo_args (tl as) (opt\<lparr>do_disk := hd as\<rparr>)
     else if a = ''--no-sound'' then demo_args as (opt\<lparr>do_sound := False\<rparr>)
     else if a = ''--no-video'' then demo_args as (opt\<lparr>do_video := False\<rparr>)
     else if a = ''--turbo'' then demo_args as (opt\<lparr>do_turbo := True\<rparr>)
     else if a = ''--scale'' \<and> as \<noteq> [] then demo_args (tl as) (opt\<lparr>do_scale := atoi (hd as)\<rparr>)
     else demo_args as opt)"

text \<open>A file beside the executable, if it is there. \<open>exe\<close> is the path of the program, empty if it is not known.\<close>

definition folder :: "string \<Rightarrow> string" where
  "folder path = rev (dropWhile (\<lambda>c. c \<noteq> CHR ''/'' \<and> c \<noteq> CHR 0x5C) (rev path))"

definition find_default :: "string \<Rightarrow> (string \<Rightarrow> bool) \<Rightarrow> string \<Rightarrow> string \<Rightarrow> string" where
  "find_default exe good name fallback =
    (if folder exe \<noteq> [] \<and> good (folder exe @ name) then folder exe @ name else fallback)"

definition demo_defaults :: "string \<Rightarrow> (string \<Rightarrow> bool) \<Rightarrow> string \<Rightarrow> string \<Rightarrow> demo_options" where
  "demo_defaults exe good bios disk =
    \<lparr>do_com = '''', do_bios = find_default exe good ''pugbios.s19'' bios, do_disk = find_default exe good ''disk.img'' disk,
     do_sound = True, do_video = True, do_turbo = False, do_scale = 1\<rparr>"

section \<open>The console\<close>

text \<open>POSIX: what the reads give while there is something to read; \<open>None\<close> is an error, an empty list the end. The
  second result is whether the end of piped input was seen.\<close>

fun read_console :: "bool \<Rightarrow> u8 list option list \<Rightarrow> u8 list \<times> bool" where
  "read_console tty [] = ([], False)"
| "read_console tty (None # rs) = ([], False)"
| "read_console tty (Some [] # rs) = ([], \<not> tty)"
| "read_console tty (Some (b # bs) # rs) =
    (case read_console tty rs of
       (later, eof) \<Rightarrow> (map (\<lambda>b. if tty \<and> b = 0x7F then 0x08 else b) (b # bs) @ later, eof))"

definition poll_console :: "bool \<Rightarrow> u8 list option list \<Rightarrow> bool \<Rightarrow> u8 list \<times> bool" where
  "poll_console tty reads eof = (if eof then ([], True) else read_console tty reads)"

text \<open>Windows: the console's key events.\<close>

datatype console_key = Named_key key_sym | F_key nat

definition console_sequence :: "console_key \<Rightarrow> u8 list" where
  "console_sequence k =
    (case k of Named_key s \<Rightarrow> key_sequence s
     | F_key n \<Rightarrow>
         if n = 1 then ansi ''OP'' else if n = 2 then ansi ''OQ'' else if n = 3 then ansi ''OR'' else if n = 4 then ansi ''OS''
         else if n = 5 then ansi ''[15~'' else if n = 6 then ansi ''[17~'' else if n = 7 then ansi ''[18~''
         else if n = 8 then ansi ''[19~'' else if n = 9 then ansi ''[20~'' else if n = 10 then ansi ''[21~''
         else if n = 11 then ansi ''[23~'' else if n = 12 then ansi ''[24~'' else [])"

datatype console_event = Console_key bool u8 nat bool console_key | Other_event

fun console_bytes :: "bool \<Rightarrow> console_event \<Rightarrow> u8 list" where
  "console_bytes vt (Console_key down ch repeats alt k) =
    (if \<not> down then []
     else concat (replicate (if repeats = 0 then 1 else repeats)
       (if vt then (if ch \<noteq> 0 then [ch] else [])
        else if ch \<noteq> 0 then (if alt then [0x1B, ch] else [ch])
        else console_sequence k)))"
| "console_bytes vt Other_event = []"

definition poll_windows_console :: "bool \<Rightarrow> console_event list \<Rightarrow> u8 list" where
  "poll_windows_console vt es = concat (map (console_bytes vt) es)"

section \<open>Typing into the card\<close>

definition kKeys :: string where
  "kKeys = ''abcdefghijklmnopqrstuvwxyz1234567890'' @ [CHR 0x0D, CHR 0x1B, CHR 0x08, CHR 0x09] @
     '' -=[]'' @ [CHR 0x5C] @ ''#;'' @ [CHR 0x27, CHR 0x60] @ '',./''"

definition kShifted :: string where
  "kShifted = ''ABCDEFGHIJKLMNOPQRSTUVWXYZ!@#$%^&*()'' @ [CHR 0x0D, CHR 0x1B, CHR 0x08, CHR 0x09] @
     '' _+{}|~:'' @ [CHR 0x22] @ ''~<>?''"

definition card_seqs :: "(u8 list \<times> u8) list" where
  "card_seqs = [(map of_char ''A'', 0x52), (map of_char ''B'', 0x51), (map of_char ''C'', 0x4F), (map of_char ''D'', 0x50),
     (map of_char ''H'', 0x4A), (map of_char ''F'', 0x4D), (map of_char ''5~'', 0x4B), (map of_char ''6~'', 0x4E),
     (map of_char ''3~'', 0x4C), (map of_char ''2~'', 0x49)]"

definition press_key :: "u8 \<Rightarrow> u8 \<Rightarrow> 's video_device \<Rightarrow> 's video_device" where
  "press_key usage modifier d =
    (let d = (if modifier \<noteq> 0 then vd_key modifier True d else d);
         d = vd_key usage True d;
         d = vd_key usage False d
     in if modifier \<noteq> 0 then vd_key modifier False d else d)"

text \<open>\<^verbatim>\<open>std::strchr\<close>, as an index.\<close>

fun strchr :: "string \<Rightarrow> u8 \<Rightarrow> nat option" where
  "strchr [] b = None"
| "strchr (c # s) b = (if of_char c = b then Some 0 else map_option Suc (strchr s b))"

text \<open>The key a byte is, with the modifier held down for it.\<close>

definition key_for :: "u8 \<Rightarrow> (u8 \<times> u8) option" where
  "key_for b =
    (let b = (if b = 0x7F then 0x08 else b);
         ctrl = (1 \<le> b \<and> b \<le> 26 \<and> b \<noteq> 0x0D \<and> b \<noteq> 0x08 \<and> b \<noteq> 0x09);
         (b, modifier) = (if ctrl then (0x61 + b - 1, 0xE0) else (b, 0))
     in if b = 0 then None
        else case strchr kKeys b of
          Some i \<Rightarrow> Some (0x04 + of_nat i, modifier)
        | None \<Rightarrow> (case strchr kShifted b of Some i \<Rightarrow> Some (0x04 + of_nat i, 0xE1) | None \<Rightarrow> None))"

definition type_byte :: "u8 \<Rightarrow> 's video_device \<Rightarrow> 's video_device" where
  "type_byte b d = (case key_for b of None \<Rightarrow> d | Some (usage, modifier) \<Rightarrow> press_key usage modifier d)"

text \<open>The bytes after \<^verbatim>\<open>ESC [\<close> that name a key, if they do: the length of the name and the key's usage.\<close>

definition find_seq :: "u8 list \<Rightarrow> (u8 list \<times> u8) option" where
  "find_seq r = find (\<lambda>(s, u). take (length s) r = s) card_seqs"

function type_into_card :: "u8 list \<Rightarrow> 's video_device \<Rightarrow> 's video_device" where
  "type_into_card [] d = d"
| "type_into_card (b # r) d =
    (case (if b = 0x1B \<and> 2 \<le> length r \<and> hd r = 0x5B then find_seq (tl r) else None) of
       Some (s, u) \<Rightarrow> type_into_card (drop (1 + length s) r) (press_key u 0 d)
     | None \<Rightarrow> type_into_card r (type_byte b d))"
  by pat_completeness auto
termination
  by (relation "measure (\<lambda>(bs, _). length bs)") auto

section \<open>One turn of the main loop\<close>

record 's host =
  h_uart :: uart
  h_card :: "'s video_device"
  h_pointer_hidden :: bool
  h_told_keys :: bool

definition keys_to_card :: "'s host \<Rightarrow> bool" where
  "keys_to_card h \<longleftrightarrow> vd_input_ctrl (h_card h) AND 0x02 \<noteq> 0"

fun route_input :: "input \<Rightarrow> 's host \<Rightarrow> 's host" where
  "route_input (Char b) h = (if keys_to_card h then h else h\<lparr>h_uart := snd (rx_enqueue b (h_uart h))\<rparr>)"
| "route_input (Key u down) h = (if keys_to_card h then h\<lparr>h_card := vd_key u down (h_card h)\<rparr> else h)"
| "route_input (Mouse x y b) h = h\<lparr>h_card := vd_mouse_to x y b (h_card h)\<rparr>"
| "route_input (Wheel n) h = h\<lparr>h_card := vd_mouse_wheel n (h_card h)\<rparr>"

definition serve_window :: "input list \<Rightarrow> 's host \<Rightarrow> 's host" where
  "serve_window ins h =
    (let h = fold route_input ins h in h\<lparr>h_pointer_hidden := vd_input_ctrl (h_card h) AND 0x01 \<noteq> 0\<rparr>)"

definition serve_console :: "bool \<Rightarrow> u8 list \<Rightarrow> 's host \<Rightarrow> 's host" where
  "serve_console window_shown bytes h =
    (let to_card = (keys_to_card h \<and> \<not> window_shown);
         h = h\<lparr>h_told_keys := to_card\<rparr>
     in if to_card then h\<lparr>h_card := type_into_card bytes (h_card h)\<rparr>
        else h\<lparr>h_uart := receive_bytes bytes (h_uart h)\<rparr>)"

definition serve_bridge ::
    "u8 list \<Rightarrow> write_answer list \<Rightarrow> com_port \<Rightarrow> 's host \<Rightarrow> (u8 list \<times> write_answer list \<times> com_port \<times> 's host) option" where
  "serve_bridge got answers p h =
    map_option (\<lambda>(sent, rest, p, u). (sent, rest, p, h\<lparr>h_uart := u\<rparr>)) (posix_poll got answers p (h_uart h))"

section \<open>What is typed arrives\<close>

lemma strchr_Some: "strchr s b = Some i \<Longrightarrow> i < length s \<and> of_char (s ! i) = b"
proof (induction s arbitrary: i)
  case (Cons c s)
  show ?case
  proof (cases "of_char c = b")
    case True
    then show ?thesis using Cons.prems by simp
  next
    case False
    then obtain j where "strchr s b = Some j" "i = Suc j" using Cons.prems by (simp only: strchr.simps if_False) blast
    then show ?thesis using Cons.IH by simp
  qed
qed simp

lemma strchr_None: "strchr s b = None \<longleftrightarrow> b \<notin> of_char ` set s"
proof (induction s)
  case (Cons c s)
  then show ?case by (cases "of_char c = b") (simp_all only: strchr.simps if_True if_False list.set image_insert, simp_all)
qed simp

text \<open>The codes of the characters.\<close>

definition key_codes :: "int list" where
  "key_codes =
    [97, 98, 99, 100, 101, 102, 103, 104, 105, 106, 107, 108, 109, 110, 111, 112, 113, 114, 115, 116, 117, 118,
     119, 120, 121, 122, 49, 50, 51, 52, 53, 54, 55, 56, 57, 48, 13, 27, 8, 9, 32, 45, 61, 91, 93, 92, 35, 59,
     39, 96, 44, 46, 47]"

definition shifted_codes :: "int list" where
  "shifted_codes =
    [65, 66, 67, 68, 69, 70, 71, 72, 73, 74, 75, 76, 77, 78, 79, 80, 81, 82, 83, 84, 85, 86, 87, 88, 89, 90, 33,
     64, 35, 36, 37, 94, 38, 42, 40, 41, 13, 27, 8, 9, 32, 95, 43, 123, 125, 124, 126, 58, 34, 126, 60, 62, 63]"

lemma codes: "map of_char kKeys = key_codes" "map of_char kShifted = shifted_codes"
  unfolding kKeys_def kShifted_def key_codes_def shifted_codes_def by code_simp+

lemma printable_on_keys: "\<forall>n\<in>set [32..126]. n \<in> set (key_codes @ shifted_codes)"
  unfolding key_codes_def shifted_codes_def by code_simp

lemma letters_on_keys: "\<forall>n\<in>set [97..122]. n \<in> set key_codes"
  unfolding key_codes_def by code_simp

text \<open>What a byte stands for: DEL is a backspace. The bytes a key can be pressed for are all from 1 to \<^verbatim>\<open>$7F\<close>
  without Esc, which may begin a sequence, and the four codes after it.\<close>

definition normal :: "u8 \<Rightarrow> u8" where
  "normal b = (if b = 0x7F then 0x08 else b)"

definition typable :: "u8 \<Rightarrow> bool" where
  "typable b \<longleftrightarrow> 1 \<le> b \<and> b \<le> 0x7F \<and> \<not> (0x1B \<le> b \<and> b \<le> 0x1F)"

definition modifier_bits :: "u8 \<Rightarrow> u8" where
  "modifier_bits m = (if m = 0xE0 then 1 else if m = 0xE1 then 2 else 0)"

lemma same_keys: "kKeys = k_keys" "kShifted = k_shifted"
  by (simp_all only: kKeys_def k_keys_def kShifted_def k_shifted_def)

lemma key_counts: "length kKeys = 53" "length kShifted = 53"
  by (simp_all add: kKeys_def kShifted_def)

lemma usage_index:
  assumes "i < 53"
  shows "unat (0x04 + of_nat i - 0x04 :: u8) = i" "(0x04 :: u8) \<le> 0x04 + of_nat i" "(0x04 :: u8) + of_nat i \<le> 0x38"
proof -
  have "unat (0x04 + of_nat i :: u8) = 4 + i" using assms by (simp add: unat_word_ariths unat_of_nat)
  then show "(0x04 :: u8) \<le> 0x04 + of_nat i" "(0x04 :: u8) + of_nat i \<le> 0x38"
    using assms by (simp_all add: word_le_nat_alt)
  show "unat (0x04 + of_nat i - 0x04 :: u8) = i" using assms by (simp add: unat_of_nat)
qed

lemma ctrl_letter: "1 \<le> b \<Longrightarrow> b \<le> 26 \<Longrightarrow> (0x61 + b - 1) AND 0x1F = (b :: u8) \<and> 0x61 \<le> 0x61 + b - 1 \<and> 0x61 + b - 1 \<le> 0x7A"
proof -
  assume b: "1 \<le> b" "b \<le> 26"
  have list: "list_all (\<lambda>n. (0x61 + of_nat n - 1) AND 0x1F = (of_nat n :: u8) \<and> (0x61 :: u8) \<le> 0x61 + of_nat n - 1 \<and>
      (0x61 :: u8) + of_nat n - 1 \<le> 0x7A) [2..<27]"
    by (simp add: upt_rec_numeral)
  have "1 \<le> unat b" "unat b < 27" using b by (simp_all add: word_le_nat_alt)
  then have "unat b = 1 \<or> unat b \<in> set [2..<27]" unfolding set_upt atLeastLessThan_iff by linarith
  then show ?thesis
  proof (elim disjE)
    assume "unat b = 1"
    then have "b = 1" by (simp add: word_unat_eq_iff)
    then show ?thesis by simp
  next
    assume "unat b \<in> set [2..<27]"
    moreover have "of_nat (unat b) = b" by simp
    ultimately show ?thesis using list unfolding list_all_iff by metis
  qed
qed

lemma key_char_of:
  assumes "vc_mods c = modifier_bits m" "\<not> vc_caps_lock c" "i < 53" "m = 0 \<or> m = 0xE0 \<or> m = 0xE1"
    and "b = of_char ((if m = 0xE1 then kShifted else kKeys) ! i)"
  shows "key_char c (0x04 + of_nat i) = (if 0x40 \<le> b \<and> b < 0x7F \<and> m = 0xE0 then b AND 0x1F else b)"
  using assms(4) assms(1-3,5) usage_index [OF assms(3)]
  by (elim disjE) (simp_all add: key_char_def modifier_bits_def Let_def same_keys)

definition key_type :: "u8 \<Rightarrow> u8 \<times> u8 \<Rightarrow> bool" where
  "key_type b k = (case k of (u, m) \<Rightarrow> 0x04 \<le> u \<and> u \<le> 0x38 \<and> (m = 0 \<or> m = 0xE0 \<or> m = 0xE1) \<and>
     (\<forall>c. vc_mods c = modifier_bits m \<and> \<not> vc_caps_lock c \<longrightarrow> key_char c u = normal b))"

lemma printable_key:
  assumes "0x20 \<le> b" "b < 0x7F" "strchr kKeys b = None"
  shows "\<exists>i. strchr kShifted b = Some i"
proof (rule ccontr)
  assume "\<nexists>i. strchr kShifted b = Some i"
  then have "strchr kShifted b = None" by (cases "strchr kShifted b") simp_all
  then have none: "b \<notin> of_char ` set (kKeys @ kShifted)" using assms(3) by (auto simp: strchr_None)
  have "32 \<le> uint b" "uint b \<le> 126" using assms(1,2) by (simp_all add: word_le_def word_less_def)
  then have "uint b \<in> set [32..126]" unfolding set_upto atLeastAtMost_iff by blast
  then have "uint b \<in> of_char ` set (kKeys @ kShifted)" unfolding set_map [symmetric] map_append codes by (rule bspec [OF printable_on_keys])
  then obtain ch where "ch \<in> set (kKeys @ kShifted)" "uint b = of_char ch" by blast
  moreover from this(2) have "of_int (uint b) = (of_int (of_char ch) :: u8)" by (rule arg_cong)
  then have "b = of_char ch" by (simp only: of_int_of_char word_of_int_uint)
  ultimately show False using none by blast
qed

lemma letter_key:
  assumes "0x61 \<le> b" "b \<le> 0x7A"
  shows "\<exists>i. strchr kKeys b = Some i"
proof (rule ccontr)
  assume "\<nexists>i. strchr kKeys b = Some i"
  then have none: "b \<notin> of_char ` set kKeys" by (cases "strchr kKeys b") (simp_all add: strchr_None)
  have "97 \<le> uint b" "uint b \<le> 122" using assms(1,2) by (simp_all add: word_le_def)
  then have "uint b \<in> set [97..122]" unfolding set_upto atLeastAtMost_iff by blast
  then have "uint b \<in> of_char ` set kKeys" unfolding set_map [symmetric] codes by (rule bspec [OF letters_on_keys])
  then obtain ch where "ch \<in> set kKeys" "uint b = of_char ch" by blast
  moreover from this(2) have "of_int (uint b) = (of_int (of_char ch) :: u8)" by (rule arg_cong)
  then have "b = of_char ch" by (simp only: of_int_of_char word_of_int_uint)
  ultimately show False using none by blast
qed

lemma key_type_found:
  assumes "strchr (if m = 0xE1 then kShifted else kKeys) l = Some i" "m = 0 \<or> m = 0xE0 \<or> m = 0xE1"
    and "(if 0x40 \<le> l \<and> l < 0x7F \<and> m = 0xE0 then l AND 0x1F else l) = normal b"
  shows "key_type b (0x04 + of_nat i, m)"
proof -
  have i: "i < 53" "l = of_char ((if m = 0xE1 then kShifted else kKeys) ! i)"
    using strchr_Some [OF assms(1)] key_counts by (auto split: if_splits)
  then show ?thesis
    using usage_index(2,3) [OF i(1)] key_char_of [OF _ _ i(1) assms(2) i(2)] assms(2,3) by (simp add: key_type_def)
qed

lemma key_for_type:
  assumes "typable b"
  shows "\<exists>k. key_for b = Some k \<and> key_type b k"
proof -
  let ?n = "normal b"
  have small: "?n = 0x08 \<or> ?n = 0x09 \<or> ?n = 0x0D \<or> (1 \<le> ?n \<and> ?n \<le> 26 \<and> ?n \<noteq> 0x0D \<and> ?n \<noteq> 0x08 \<and> ?n \<noteq> 0x09) \<or>
      (0x20 \<le> ?n \<and> ?n < 0x7F)"
    using assms by (auto simp: typable_def normal_def word_le_nat_alt word_less_nat_alt word_unat_eq_iff)
  consider (named) "?n = 0x08 \<or> ?n = 0x09 \<or> ?n = 0x0D"
    | (ctrl) "1 \<le> ?n \<and> ?n \<le> 26 \<and> ?n \<noteq> 0x0D \<and> ?n \<noteq> 0x08 \<and> ?n \<noteq> 0x09"
    | (plain) "0x20 \<le> ?n" "?n < 0x7F"
    using small by blast
  then show ?thesis
  proof cases
    case named
    then obtain i where i: "strchr kKeys ?n = Some i" by (elim disjE) (simp_all add: kKeys_def)
    then have "key_for b = Some (0x04 + of_nat i, 0)" using named by (auto simp: key_for_def normal_def [symmetric] Let_def)
    moreover have "key_type b (0x04 + of_nat i, 0)" using i by (intro key_type_found [where l = ?n]) simp_all
    ultimately show ?thesis by blast
  next
    case ctrl
    note letter = ctrl_letter [of ?n]
    obtain i where i: "strchr kKeys (0x61 + ?n - 1) = Some i" using letter_key letter ctrl by blast
    have pos: "0x61 + ?n - 1 \<noteq> 0" using letter ctrl by auto
    have "key_for b = Some (0x04 + of_nat i, 0xE0)"
      unfolding key_for_def normal_def [symmetric] Let_def using ctrl i pos by (simp only: simp_thms if_True prod.case if_False option.case)
    moreover have "key_type b (0x04 + of_nat i, 0xE0)"
      using i letter ctrl by (intro key_type_found [where l = "0x61 + ?n - 1"]) (auto simp: word_le_nat_alt word_less_nat_alt)
    ultimately show ?thesis by blast
  next
    case plain
    then have not: "\<not> (1 \<le> ?n \<and> ?n \<le> 26 \<and> ?n \<noteq> 0x0D \<and> ?n \<noteq> 0x08 \<and> ?n \<noteq> 0x09)" "?n \<noteq> 0"
      by (auto simp: word_le_nat_alt)
    show ?thesis
    proof (cases "strchr kKeys ?n")
      case (Some i)
      have "key_for b = Some (0x04 + of_nat i, 0)"
        unfolding key_for_def normal_def [symmetric] Let_def using not Some by (simp only: simp_thms if_True prod.case if_False option.case)
      moreover have "key_type b (0x04 + of_nat i, 0)" using Some by (intro key_type_found [where l = ?n]) simp_all
      ultimately show ?thesis by blast
    next
      case None
      obtain i where i: "strchr kShifted ?n = Some i" using printable_key [OF plain None] by blast
      have "key_for b = Some (0x04 + of_nat i, 0xE1)"
        unfolding key_for_def normal_def [symmetric] Let_def using not None i by (simp only: simp_thms if_True prod.case if_False option.case)
      moreover have "key_type b (0x04 + of_nat i, 0xE1)" using i by (intro key_type_found [where l = ?n]) simp_all
      ultimately show ?thesis by blast
    qed
  qed
qed

text \<open>What a program that reads the card's characters makes of the events: a character, or a key that is none.\<close>

datatype stroke = Types u8 | Presses u8

fun event_stroke :: "u8 \<times> u8 \<Rightarrow> stroke list" where
  "event_stroke (u, ch) = (if bit ch 7 \<or> 0xE0 \<le> u then [] else if u \<le> 0x38 then [Types ch] else [Presses u])"

definition strokes :: "(u8 \<times> u8) list \<Rightarrow> stroke list" where
  "strokes es = concat (map event_stroke es)"

definition idle_keys :: "vc_card \<Rightarrow> bool" where
  "idle_keys c \<longleftrightarrow> keyq_ok c \<and> vc_mods c = 0 \<and> \<not> vc_caps_lock c"

definition press_events :: "u8 \<Rightarrow> u8 \<Rightarrow> u8 \<Rightarrow> (u8 \<times> u8) list" where
  "press_events u m ch =
    (if m = 0 then [(u, ch), (u, ch OR 0x80)] else [(m, 0), (u, ch), (u, ch OR 0x80), (m, 0x80)])"

lemma vc_key_other:
  assumes "u < 0xE0" "u \<noteq> 0x39"
  shows "vc_mods (vc_key u d c) = vc_mods c" "vc_caps_lock (vc_key u d c) = vc_caps_lock c"
proof -
  have "\<not> 0xE0 \<le> u" using assms(1) by simp
  then show "vc_mods (vc_key u d c) = vc_mods c" "vc_caps_lock (vc_key u d c) = vc_caps_lock c"
    using assms(2) by (simp_all add: vc_key_def Let_def)
qed

lemma vc_key_modifier:
  assumes "m = 0xE0 \<or> m = 0xE1"
  shows "vc_mods c = 0 \<Longrightarrow> vc_mods (vc_key m True c) = modifier_bits m"
    "vc_mods c = modifier_bits m \<Longrightarrow> vc_mods (vc_key m False c) = 0"
    "vc_caps_lock (vc_key m d c) = vc_caps_lock c" "key_char c m = 0"
  using assms by (auto simp: vc_key_def modifier_bits_def Let_def key_char_def)

lemma keys_room:
  assumes "keyq_ok c" "vc_keyq_len c < 32" "u \<noteq> 0"
  shows "keys (vc_key u d c) = keys c @ [(u, key_char (vc_key u d c) u OR (if d then 0 else 0x80))]"
    "vc_keyq_len (vc_key u d c) = vc_keyq_len c + 1" "keyq_ok (vc_key u d c)"
proof -
  show k: "keys (vc_key u d c) = keys c @ [(u, key_char (vc_key u d c) u OR (if d then 0 else 0x80))]"
    using assms by (simp add: keys_vc_key VC_KEY_QUEUE_def)
  show "vc_keyq_len (vc_key u d c) = vc_keyq_len c + 1" using arg_cong [OF k, of length] by simp
  show "keyq_ok (vc_key u d c)" using assms(1) by (rule vc_key_keyq)
qed

definition key_gives :: "u8 \<Rightarrow> u8 \<Rightarrow> u8 \<Rightarrow> bool" where
  "key_gives u m ch \<longleftrightarrow> u \<noteq> 0 \<and> u \<noteq> 0x39 \<and> u < 0xE0 \<and> (m = 0 \<or> m = 0xE0 \<or> m = 0xE1) \<and>
     (\<forall>c. vc_mods c = modifier_bits m \<and> \<not> vc_caps_lock c \<longrightarrow> key_char c u = ch)"

lemma tap:
  assumes "keyq_ok c" "vc_keyq_len c + 2 \<le> 32" "vc_mods c = modifier_bits m" "\<not> vc_caps_lock c" "key_gives u m ch"
  defines "c' \<equiv> vc_key u False (vc_key u True c)"
  shows "keys c' = keys c @ [(u, ch), (u, ch OR 0x80)]" "vc_keyq_len c' = vc_keyq_len c + 2" "keyq_ok c'"
    "vc_mods c' = modifier_bits m" "\<not> vc_caps_lock c'"
proof -
  have u: "u \<noteq> 0" "u < 0xE0" "u \<noteq> 0x39" and ch: "\<And>c. vc_mods c = modifier_bits m \<Longrightarrow> \<not> vc_caps_lock c \<Longrightarrow> key_char c u = ch"
    using assms(5) by (auto simp: key_gives_def)
  note one = keys_room [of c u True] keys_room [of "vc_key u True c" u False]
  note same = vc_key_other [OF u(2,3)]
  have char: "key_char (vc_key u True c) u = ch" "key_char c' u = ch"
    unfolding c'_def using assms(3,4) by (auto intro!: ch simp: same)
  have len: "vc_keyq_len c < 32" "vc_keyq_len (vc_key u True c) < 32" using one(2) assms(1,2) u(1) by simp_all
  show "keys c' = keys c @ [(u, ch), (u, ch OR 0x80)]"
    using one(1,4) [OF _ _ u(1)] one(3) len assms(1) u(1) char unfolding c'_def by simp
  show "vc_keyq_len c' = vc_keyq_len c + 2" "keyq_ok c'"
    using one(2,3,5,6) len assms(1) u(1) unfolding c'_def by simp_all
  show "vc_mods c' = modifier_bits m" "\<not> vc_caps_lock c'" using assms(3,4) by (simp_all add: c'_def same)
qed

lemma press_card:
  "vd_card (press_key u m d) =
    (let c = (if m \<noteq> 0 then vc_key m True (vd_card d) else vd_card d); c = vc_key u False (vc_key u True c)
     in if m \<noteq> 0 then vc_key m False c else c)"
  by (simp add: press_key_def vd_key_def Let_def)

lemma press_keys:
  assumes "idle_keys (vd_card d)" "vc_keyq_len (vd_card d) + length (press_events u m ch) \<le> 32" "key_gives u m ch"
  defines "c' \<equiv> vd_card (press_key u m d)"
  shows "keys c' = keys (vd_card d) @ press_events u m ch \<and> idle_keys c'"
proof (cases "m = 0")
  case True
  then show ?thesis
    using tap [of "vd_card d" m u ch] assms by (simp add: press_card press_events_def idle_keys_def modifier_bits_def)
next
  case False
  then have m: "m = 0xE0 \<or> m = 0xE1" "m \<noteq> 0" using assms(3) by (auto simp: key_gives_def)
  let ?c = "vd_card d"
  have ok: "keyq_ok ?c" "vc_mods ?c = 0" "\<not> vc_caps_lock ?c" "vc_keyq_len ?c + 4 \<le> 32"
    using assms(1,2) False by (simp_all add: idle_keys_def press_events_def)
  note mods = vc_key_modifier [OF m(1)]
  let ?d = "vc_key m True ?c"
  have d: "keys ?d = keys ?c @ [(m, 0)]" "vc_keyq_len ?d = vc_keyq_len ?c + 1" "keyq_ok ?d" "vc_mods ?d = modifier_bits m"
      "\<not> vc_caps_lock ?d"
    using keys_room [OF ok(1) _ m(2), of True] ok mods by simp_all
  let ?e = "vc_key u False (vc_key u True ?d)"
  have room: "vc_keyq_len ?d + 2 \<le> 32" using d(2) ok(4) by simp
  note e = tap [OF d(3) room d(4,5) assms(3)]
  have "vc_keyq_len ?e < 32" using e(2) d(2) ok(4) by simp
  then have "keys (vc_key m False ?e) = keys ?e @ [(m, 0x80)]" "keyq_ok (vc_key m False ?e)"
    using keys_room [OF e(3) _ m(2), of False] mods(4) by simp_all
  moreover have "vc_mods (vc_key m False ?e) = 0" "\<not> vc_caps_lock (vc_key m False ?e)" using mods e(4,5) by simp_all
  ultimately show ?thesis
    using d(1) e(1) m(2) unfolding c'_def press_card by (simp add: idle_keys_def press_events_def Let_def)
qed

text \<open>What a terminal sends, a character or a key's sequence at a time, and the events a card gets for it.\<close>

datatype token = Ch u8 | Seq "u8 list \<times> u8"

fun token_ok :: "token \<Rightarrow> bool" where
  "token_ok (Ch b) = typable b"
| "token_ok (Seq s) = (s \<in> set card_seqs)"

fun token_bytes :: "token \<Rightarrow> u8 list" where
  "token_bytes (Ch b) = [b]"
| "token_bytes (Seq s) = 0x1B # 0x5B # fst s"

fun token_stroke :: "token \<Rightarrow> stroke" where
  "token_stroke (Ch b) = Types (normal b)"
| "token_stroke (Seq s) = Presses (snd s)"

fun token_events :: "token \<Rightarrow> nat" where
  "token_events (Ch b) = (case key_for b of None \<Rightarrow> 0 | Some (u, m) \<Rightarrow> if m = 0 then 2 else 4)"
| "token_events (Seq s) = 2"

fun type_token :: "token \<Rightarrow> 's video_device \<Rightarrow> 's video_device" where
  "type_token (Ch b) d = type_byte b d"
| "type_token (Seq s) d = press_key (snd s) 0 d"

lemma card_seqs_bytes:
  "card_seqs = [([0x41], 0x52), ([0x42], 0x51), ([0x43], 0x4F), ([0x44], 0x50), ([0x48], 0x4A), ([0x46], 0x4D),
     ([0x35, 0x7E], 0x4B), ([0x36, 0x7E], 0x4E), ([0x33, 0x7E], 0x4C), ([0x32, 0x7E], 0x49)]"
  by (simp add: card_seqs_def)

lemma find_card_seqs: "\<forall>s\<in>set card_seqs. find_seq (fst s @ r) = Some s \<and> fst s \<noteq> []"
  unfolding card_seqs_bytes list.set ball_simps find_seq_def by simp

lemma find_card_seq: "s \<in> set card_seqs \<Longrightarrow> find_seq (fst s @ r) = Some s" "s \<in> set card_seqs \<Longrightarrow> fst s \<noteq> []"
  using find_card_seqs by blast+

lemma card_seq_usage: "s \<in> set card_seqs \<Longrightarrow> 0x48 < snd s \<and> snd s < 0x54"
proof -
  have "\<forall>s\<in>set card_seqs. 0x48 < snd s \<and> snd s < 0x54"
    unfolding card_seqs_bytes list.set ball_simps by simp
  then show "s \<in> set card_seqs \<Longrightarrow> 0x48 < snd s \<and> snd s < 0x54" by blast
qed

lemma type_token_first: "token_ok t \<Longrightarrow> type_into_card (token_bytes t @ r) d = type_into_card r (type_token t d)"
proof (cases t)
  case (Ch b)
  assume "token_ok t"
  then have "b \<noteq> 0x1B" by (auto simp: Ch typable_def)
  then show ?thesis by (simp add: Ch)
next
  case (Seq s)
  assume "token_ok t"
  then have s: "s \<in> set card_seqs" by (simp add: Seq)
  show ?thesis using find_card_seq(1) [OF s, of r] find_card_seq(2) [OF s] by (cases s) (auto simp: Seq neq_Nil_conv)
qed

lemma no_high_bit: "ch \<le> 0x7F \<Longrightarrow> \<not> bit (ch :: u8) 7"
proof -
  assume "ch \<le> 0x7F"
  then have "unat ch div 2 ^ 7 = 0" by (simp add: word_le_nat_alt)
  then have "\<not> bit (unat ch) 7" unfolding bit_iff_odd by simp
  then show ?thesis by (simp add: bit_unsigned_iff)
qed

lemma typed_strokes:
  assumes "key_type b (u, m)" "typable b"
  shows "key_gives u m (normal b)" "strokes (press_events u m (normal b)) = [Types (normal b)]"
proof -
  have u: "0x04 \<le> u" "u \<le> 0x38" and m: "m = 0 \<or> m = 0xE0 \<or> m = 0xE1"
    and ch: "\<forall>c. vc_mods c = modifier_bits m \<and> \<not> vc_caps_lock c \<longrightarrow> key_char c u = normal b"
    using assms(1) by (simp_all add: key_type_def)
  have "u \<noteq> 0" "u \<noteq> 0x39" "u < 0xE0" using u by (auto simp: word_le_nat_alt word_less_nat_alt)
  then show "key_gives u m (normal b)" using m ch by (simp add: key_gives_def)
  have "\<not> bit (normal b) 7" using assms(2) by (intro no_high_bit) (simp add: normal_def typable_def)
  then show "strokes (press_events u m (normal b)) = [Types (normal b)]"
    using m u(2) \<open>u < 0xE0\<close> by (auto simp: strokes_def press_events_def bit_or_iff)
qed

lemma seq_strokes:
  assumes "s \<in> set card_seqs"
  shows "\<exists>ch. key_gives (snd s) 0 ch \<and> strokes (press_events (snd s) 0 ch) = [Presses (snd s)]"
proof -
  let ?ch = "if snd s = 0x4C then 0x7F else 0 :: u8"
  note u = card_seq_usage [OF assms]
  have range: "\<not> snd s \<le> 0x38" "\<not> 0x54 \<le> snd s" "snd s < 0xE0" "\<not> 0xE0 \<le> snd s" "snd s \<noteq> 0" "snd s \<noteq> 0x39"
    using u by (auto simp: word_le_nat_alt word_less_nat_alt)
  then have "key_gives (snd s) 0 ?ch" by (simp add: key_gives_def key_char_def Let_def)
  moreover have "\<not> bit ?ch 7" by simp
  then have "strokes (press_events (snd s) 0 ?ch) = [Presses (snd s)]"
    using range by (simp add: strokes_def press_events_def bit_or_iff)
  ultimately show ?thesis by blast
qed

lemma token_typed:
  assumes "token_ok t" "idle_keys (vd_card d)" "vc_keyq_len (vd_card d) + token_events t \<le> 32"
  shows "\<exists>es. keys (vd_card (type_token t d)) = keys (vd_card d) @ es \<and> strokes es = [token_stroke t] \<and>
    length es = token_events t \<and> idle_keys (vd_card (type_token t d))"
proof (cases t)
  case (Ch b)
  then obtain u m where k: "key_for b = Some (u, m)" "key_type b (u, m)" using key_for_type [of b] assms(1) by auto
  have len: "length (press_events u m (normal b)) = token_events t" by (simp add: Ch k press_events_def)
  show ?thesis
    using press_keys [OF assms(2) _ typed_strokes(1) [OF k(2)]] typed_strokes(2) [OF k(2)] assms(1,3) k(1) len
    by (intro exI [of _ "press_events u m (normal b)"]) (simp add: Ch type_byte_def)
next
  case (Seq s)
  then obtain ch where ch: "key_gives (snd s) 0 ch" "strokes (press_events (snd s) 0 ch) = [Presses (snd s)]"
    using seq_strokes [of s] assms(1) by auto
  have len: "length (press_events (snd s) 0 ch) = token_events t" by (simp add: Seq press_events_def)
  show ?thesis
    using press_keys [OF assms(2) _ ch(1)] ch(2) assms(3) len
    by (intro exI [of _ "press_events (snd s) 0 ch"]) (simp add: Seq)
qed

lemma tokens_typed:
  assumes "\<forall>t\<in>set ts. token_ok t" "idle_keys (vd_card d)" "vc_keyq_len (vd_card d) + sum_list (map token_events ts) \<le> 32"
  shows "\<exists>es. keys (vd_card (type_into_card (concat (map token_bytes ts)) d)) = keys (vd_card d) @ es \<and>
    strokes es = map token_stroke ts \<and> idle_keys (vd_card (type_into_card (concat (map token_bytes ts)) d))"
  using assms
proof (induction ts arbitrary: d)
  case Nil
  then show ?case by (simp add: strokes_def)
next
  case (Cons t ts)
  obtain es where es: "keys (vd_card (type_token t d)) = keys (vd_card d) @ es" "strokes es = [token_stroke t]"
    "length es = token_events t" "idle_keys (vd_card (type_token t d))"
    using token_typed [of t d] Cons.prems by auto
  have "vc_keyq_len (vd_card (type_token t d)) = vc_keyq_len (vd_card d) + token_events t"
    using arg_cong [OF es(1), of length] es(3) by simp
  then obtain fs where
    "keys (vd_card (type_into_card (concat (map token_bytes ts)) (type_token t d))) = keys (vd_card (type_token t d)) @ fs"
    "strokes fs = map token_stroke ts" "idle_keys (vd_card (type_into_card (concat (map token_bytes ts)) (type_token t d)))"
    using Cons.IH [of "type_token t d"] Cons.prems es(4) by auto
  then show ?case
    using es(1,2) type_token_first [of t "concat (map token_bytes ts)" d] Cons.prems(1)
    by (intro exI [of _ "es @ fs"]) (simp add: strokes_def)
qed

lemma read_all_keys: "keyq_ok c \<Longrightarrow> read_keys (vc_keyq_len c) c = keys c"
  using read_keys_take [of c "vc_keyq_len c"] by simp

text \<open>C18. What is typed at the terminal is what a program reads from the card: for any characters and key sequences
  that fit its queue, with no modifier held and Caps Lock off, a program that reads the key and character
  registers to the end of the queue finds exactly those characters (DEL as a backspace, the control codes
  made with Ctrl) and those keys, in order, after what was there; no modifier is left held.\<close>
theorem typed_text_is_read:
  assumes "\<forall>t\<in>set ts. token_ok t" "idle_keys (vd_card d)" "vc_keyq_len (vd_card d) + sum_list (map token_events ts) \<le> 32"
    and "c = vd_card (type_into_card (concat (map token_bytes ts)) d)"
  shows "strokes (read_keys (vc_keyq_len c) c) = strokes (read_keys (vc_keyq_len (vd_card d)) (vd_card d)) @ map token_stroke ts \<and>
    vc_mods c = 0"
proof -
  obtain es where "keys c = keys (vd_card d) @ es" "strokes es = map token_stroke ts" "idle_keys c"
    using tokens_typed [OF assms(1-3)] assms(4) by blast
  then show ?thesis using assms(2) by (simp add: read_all_keys idle_keys_def strokes_def)
qed

lemma token_events_le: "token_events t \<le> 4"
  by (cases t) (simp_all split: option.splits)

theorem typed_text_is_read_witness:
  "let c = vd_card (type_into_card [0x48, 0x7F, 0x1B, 0x5B, 0x41, 0x03] idle_device)
   in strokes (read_keys (vc_keyq_len c) c) = [Types 0x48, Types 0x08, Presses 0x52, Types 0x03] \<and> vc_mods c = 0"
proof -
  let ?ts = "[Ch 0x48, Ch 0x7F, Seq ([0x41], 0x52), Ch 0x03]"
  have new: "idle_keys (vd_card idle_device)" "vc_keyq_len (vd_card idle_device) = 0"
    by (simp_all add: idle_device_def new_card_def vc_reset_def blank_card_def idle_keys_def keyq_ok_def VC_KEY_QUEUE_def Let_def)
  have ok: "\<forall>t\<in>set ?ts. token_ok t" by (simp add: typable_def card_seqs_bytes)
  have "sum_list (map token_events ?ts) \<le> 32"
    using token_events_le [of "Ch 0x48"] token_events_le [of "Ch 0x7F"] token_events_le [of "Ch 0x03"] by simp
  then show ?thesis
    using typed_text_is_read [OF ok new(1) _ refl] new(2) by (simp add: Let_def normal_def strokes_def)
qed

section \<open>Input goes one way\<close>

definition chars :: "input list \<Rightarrow> u8 list" where
  "chars ins = concat (map (\<lambda>e. case e of Char b \<Rightarrow> [b] | _ \<Rightarrow> []) ins)"

definition key_events :: "input list \<Rightarrow> (u8 \<times> bool) list" where
  "key_events ins = concat (map (\<lambda>e. case e of Key u d \<Rightarrow> [(u, d)] | _ \<Rightarrow> []) ins)"

definition key_state :: "vc_card \<Rightarrow> u8 \<times> bool \<times> (u8 \<times> u8) list \<times> nat \<times> nat" where
  "key_state c = (vc_mods c, vc_caps_lock c, vc_keyq c, vc_keyq_head c, vc_keyq_len c)"

definition char_of_key :: "u8 \<Rightarrow> bool \<Rightarrow> u8 \<Rightarrow> u8" where
  "char_of_key mods caps u = key_char ((new_card [] None)\<lparr>vc_mods := mods, vc_caps_lock := caps\<rparr>) u"

lemma key_char_mods: "key_char c u = char_of_key (vc_mods c) (vc_caps_lock c) u"
  unfolding char_of_key_def by (rule key_char_cong) simp_all

lemma key_state_key: "key_state c = key_state c' \<Longrightarrow> key_state (vc_key u d c) = key_state (vc_key u d c')"
  by (simp add: key_state_def vc_key_def Let_def key_char_mods)

lemma key_state_keys: "key_state c = key_state c' \<Longrightarrow>
  key_state (fold (\<lambda>(u, d). vc_key u d) es c) = key_state (fold (\<lambda>(u, d). vc_key u d) es c')"
proof (induction es arbitrary: c c')
  case (Cons e es)
  show ?case using Cons.IH [OF key_state_key [OF Cons.prems, of "fst e" "snd e"]] by (simp add: case_prod_beta')
qed simp

lemma key_state_mouse: "key_state (vc_mouse_to x y b c) = key_state c" "key_state (vc_mouse_wheel n c) = key_state c"
  by (simp_all add: key_state_def vc_mouse_to_def vc_mouse_wheel_def Let_def)

lemma in_ctrl_input: "vc_in_ctrl (vc_key u d c) = vc_in_ctrl c" "vc_in_ctrl (vc_mouse_to x y b c) = vc_in_ctrl c"
  "vc_in_ctrl (vc_mouse_wheel n c) = vc_in_ctrl c"
  by (simp_all add: vc_key_def vc_mouse_to_def vc_mouse_wheel_def Let_def)

lemma route_keeps_mode: "keys_to_card (route_input e h) = keys_to_card h"
  by (cases e) (simp_all add: keys_to_card_def vd_input_ctrl_def vd_key_def vd_mouse_to_def vd_mouse_wheel_def in_ctrl_input)

lemma receive_pending:
  "length (u_rx_pending u) \<le> 65536 \<Longrightarrow> u_rx_pending (receive_bytes bs u) = take 65536 (u_rx_pending u @ bs)"
proof (induction bs arbitrary: u)
  case (Cons b bs)
  show ?case
  proof (cases "65536 \<le> length (u_rx_pending u)")
    case True
    then have "u_rx_pending (receive_bytes bs u) = u_rx_pending u" using Cons.IH [of u] Cons.prems by simp
    then show ?thesis using True Cons.prems by (simp add: receive_bytes_def rx_enqueue_def)
  next
    case False
    then show ?thesis using Cons.IH [of "u\<lparr>u_rx_pending := u_rx_pending u @ [b]\<rparr>"] by (simp add: receive_bytes_def rx_enqueue_def)
  qed
qed (simp add: receive_bytes_def)

lemma route_uart: "h_uart (fold route_input ins h) = (if keys_to_card h then h_uart h else receive_bytes (chars ins) (h_uart h))"
proof (induction ins arbitrary: h)
  case (Cons e ins)
  then show ?case using route_keeps_mode [of e h] by (cases e) (simp_all add: chars_def receive_bytes_def)
qed (simp add: chars_def receive_bytes_def)

lemma route_keys: "key_state (vd_card (h_card (fold route_input ins h))) =
  key_state (fold (\<lambda>(u, d). vc_key u d) (if keys_to_card h then key_events ins else []) (vd_card (h_card h)))"
proof (induction ins arbitrary: h)
  case (Cons e ins)
  have "key_state (fold (\<lambda>(u, d). vc_key u d) es (vd_card (h_card (route_input e h)))) =
      key_state (fold (\<lambda>(u, d). vc_key u d) (if keys_to_card h then key_events [e] @ es else es) (vd_card (h_card h)))" for es
    by (cases e) (auto simp: key_events_def vd_key_def vd_mouse_to_def vd_mouse_wheel_def key_state_mouse intro!: key_state_keys)
  then show ?case
    using Cons.IH [of "route_input e h"] route_keeps_mode [of e h] by (auto simp: key_events_def split: if_splits)
qed (simp add: key_events_def)

text \<open>C27. Nothing is typed twice or in the wrong place. In a turn of the main loop, while the program does not take the
  card's keys, the characters from the window and then the console's bytes are put in the UART's queue, up to
  its 65536, and the card's keyboard is as it was. While it takes them, the window's keys go to the card and
  its characters nowhere; the console's bytes go to the UART when the window shows, else to the card alone.\<close>
theorem input_goes_one_way:
  assumes "length (u_rx_pending (h_uart h)) \<le> 65536" "h' = serve_console shown bytes (serve_window ins h)"
  shows "(\<not> keys_to_card h \<longrightarrow>
      u_rx_pending (h_uart h') = take 65536 (u_rx_pending (h_uart h) @ chars ins @ bytes) \<and>
      key_state (vd_card (h_card h')) = key_state (vd_card (h_card h))) \<and>
    (keys_to_card h \<and> shown \<longrightarrow>
      u_rx_pending (h_uart h') = take 65536 (u_rx_pending (h_uart h) @ bytes) \<and>
      key_state (vd_card (h_card h')) = key_state (fold (\<lambda>(u, d). vc_key u d) (key_events ins) (vd_card (h_card h)))) \<and>
    (keys_to_card h \<and> \<not> shown \<longrightarrow>
      h_uart h' = h_uart h \<and> h_card h' = type_into_card bytes (h_card (serve_window ins h)))"
proof -
  have mode: "keys_to_card (serve_window ins h) = keys_to_card h"
  proof -
    have "keys_to_card (fold route_input ins h) = keys_to_card h"
      by (induction ins arbitrary: h) (simp_all add: route_keeps_mode)
    then show ?thesis by (simp add: serve_window_def keys_to_card_def Let_def)
  qed
  have uart: "h_uart (serve_window ins h) = (if keys_to_card h then h_uart h else receive_bytes (chars ins) (h_uart h))"
    by (simp add: serve_window_def route_uart Let_def)
  have pending: "u_rx_pending (h_uart (serve_window ins h)) =
      (if keys_to_card h then u_rx_pending (h_uart h) else take 65536 (u_rx_pending (h_uart h) @ chars ins))"
    using receive_pending [OF assms(1)] by (simp add: uart)
  have both: "take n (take n (xs @ ys) @ zs) = take n (xs @ ys @ zs)" for n and xs ys zs :: "u8 list"
    by (simp add: min_def)
  have len: "length (u_rx_pending (h_uart (serve_window ins h))) \<le> 65536"
    by (cases "keys_to_card h") (use assms(1) in \<open>simp_all only: pending if_True if_False length_take min.cobounded2\<close>)
  have later: "u_rx_pending (receive_bytes bytes (h_uart (serve_window ins h))) =
      take 65536 (u_rx_pending (h_uart h) @ (if keys_to_card h then [] else chars ins) @ bytes)"
    by (cases "keys_to_card h") (simp_all only: receive_pending [OF len] pending if_True if_False both append_Nil)
  have keys: "key_state (vd_card (h_card (serve_window ins h))) =
      key_state (fold (\<lambda>(u, d). vc_key u d) (if keys_to_card h then key_events ins else []) (vd_card (h_card h)))"
    by (simp add: serve_window_def route_keys Let_def)
  show ?thesis using mode uart later keys by (cases "keys_to_card h") (simp_all add: assms(2) serve_console_def Let_def)
qed

theorem input_goes_one_way_witness:
  "u_rx_pending (h_uart (serve_console True [0x62] (serve_window [Char 0x61, Key 4 True]
     \<lparr>h_uart = new_uart 1843200, h_card = idle_device, h_pointer_hidden = False, h_told_keys = False\<rparr>))) = [0x61, 0x62]"
proof -
  let ?h = "\<lparr>h_uart = new_uart 1843200, h_card = idle_device, h_pointer_hidden = False, h_told_keys = False\<rparr>"
  have "length (u_rx_pending (h_uart ?h)) \<le> 65536" "u_rx_pending (h_uart ?h) = []" by (simp_all add: new_uart_def)
  moreover have "\<not> keys_to_card ?h"
    by (simp add: keys_to_card_def vd_input_ctrl_def idle_device_def new_card_def vc_reset_def blank_card_def Let_def)
  ultimately show ?thesis
    using input_goes_one_way [OF _ refl, of ?h True "[0x62]" "[Char 0x61, Key 4 True]"] by (simp add: chars_def)
qed

end
