(* ===== verification/Host_Machine.thy ===== *)
theory Host_Machine
  imports System_Bus Srec Fat16_Paths
begin

text \<open>
  The machines the command line programs put together. The emulator
  \<^verbatim>\<open>simulator/tools/basic309_sdboot_demo.cpp\<close>: the BIOS image from an S-record file, its ROM, its five devices
  and where they are mapped. And \<^verbatim>\<open>simulator/tools/pugrun.cpp\<close>, which boots such a machine from a disk image of its
  own, types commands at the shell prompt, and waits for the next one: its arguments, the machine, and the
  loops that drive it, and the files it copies off the disk in the end, with the reader of \<^theory_text>\<open>Fat16_Reader\<close>. Files of
  the host are functions from paths.
\<close>

unbundle bit_operations_syntax

section \<open>The BIOS\<close>

definition kBiosBase :: nat where "kBiosBase = 0xF000"
definition kBiosSize :: nat where "kBiosSize = 0x1000"

definition load_bios :: "string option \<Rightarrow> u8 list option" where
  "load_bios contents =
    (let r = load_srec_file contents (replicate 65536 0)
     in if res_ok r then Some (sr_mem (res_state r)) else None)"

definition bios_rom :: "u8 list \<Rightarrow> rom_device" where
  "bios_rom img = rom_load (take kBiosSize (drop kBiosBase img)) (new_rom (of_nat kBiosSize))"

section \<open>The emulator's memory map\<close>

text \<open>The devices are pointers; the last one mapped to an address answers there.\<close>

definition demo_map :: "device_ptr \<Rightarrow> device_ptr \<Rightarrow> device_ptr \<Rightarrow> device_ptr \<Rightarrow> device_ptr \<Rightarrow> ('s, 'c) system_bus \<Rightarrow> ('s, 'c) system_bus" where
  "demo_map rom sdcard uart opl3 video b =
    (let b = map_device ''bios_rom'' (of_nat kBiosBase) (of_nat kBiosSize) rom NoLine b;
         b = map_device ''sdcard'' 0xFFD8 4 sdcard NoLine b;
         b = map_device ''uart'' 0xFFE8 4 uart IRQ b;
         b = map_bank_registers kBankRegistersBase b;
         b = map_device ''opl3'' 0xFFE0 4 opl3 NoLine b
     in map_device ''video'' 0xFF80 0x20 video IRQ b)"

text \<open>The emulator's machine as it starts: its five devices, with the sound and the window if they are there (\<open>sink\<close> is the state
  of the window), and the UART's bytes printed if it is bridged to the console.\<close>

definition demo_devices :: "'s video_sink \<Rightarrow> u8 list \<Rightarrow> 'c synthesizer \<Rightarrow> 'c \<Rightarrow> u8 list \<Rightarrow> u8 list \<Rightarrow> bool \<Rightarrow> 's option \<Rightarrow> bool \<Rightarrow>
    's video_device \<Rightarrow> nat \<Rightarrow> ('s, 'c) device" where
  "demo_devices ops font S chip bios disk sound sink console vcard i =
    (if i = 0 then RomDev (bios_rom bios)
     else if i = 1 then SdDev (snd (sd_open (Some disk) True new_sdcard))
     else if i = 2 then UartDev (set_tx_callback console (new_uart 1843200))
     else if i = 3 then OplDev S (set_sink sound (new_opl3 S chip 48000 3579545))
     else VideoDev ops font (vd_set_sink sink vcard))"

definition demo_machine :: "'s video_sink \<Rightarrow> u8 list \<Rightarrow> 'c synthesizer \<Rightarrow> 'c \<Rightarrow> u8 list \<Rightarrow> u8 list \<Rightarrow> bool \<Rightarrow> 's option \<Rightarrow> bool \<Rightarrow>
    ('s, 'c) machine option" where
  "demo_machine ops font S chip bios disk sound sink console =
    Option.bind (new_video_device ops font 3579545) (\<lambda>vcard.
      let c = new_machine 64 (demo_devices ops font S chip bios disk sound sink console vcard)
      in sys_reset (c\<lparr>bus_ctx := demo_map (DevPtr 0) (DevPtr 1) (DevPtr 2) (DevPtr 3) (DevPtr 4) (bus_ctx c)\<rparr>))"

section \<open>pugrun: arguments\<close>

definition base_name_of :: "string \<Rightarrow> string" where
  "base_name_of p = rev (takeWhile (\<lambda>c. c \<noteq> CHR ''/'' \<and> c \<noteq> CHR 0x5C) (rev p))"

definition split_spec :: "string \<Rightarrow> (string \<times> string) option" where
  "split_spec s = (if CHR ''='' \<in> set s
     then Some (takeWhile (\<lambda>c. c \<noteq> CHR ''='') s, tl (dropWhile (\<lambda>c. c \<noteq> CHR ''='') s)) else None)"

text \<open>\<^verbatim>\<open>std::strtoull\<close> in base 10: blanks, a sign, digits; too large a number is the largest.\<close>

definition char_code :: "char \<Rightarrow> nat" where
  "char_code c = of_char c"

definition decimal :: "string \<Rightarrow> nat" where
  "decimal s = fold (\<lambda>c n. 10 * n + (char_code c - 48)) (takeWhile (\<lambda>c. 48 \<le> char_code c \<and> char_code c \<le> 57) s) 0"

definition strtoull :: "string \<Rightarrow> u64" where
  "strtoull s =
    (let fit = (\<lambda>n m. if 2 ^ 64 \<le> n then - 1 else m)
     in case dropWhile (\<lambda>c. char_code c = 32 \<or> 9 \<le> char_code c \<and> char_code c \<le> 13) s of
          [] \<Rightarrow> 0
        | c # r \<Rightarrow> if c = CHR ''-'' then fit (decimal r) (- of_nat (decimal r))
                   else if c = CHR ''+'' then fit (decimal r) (of_nat (decimal r))
                   else fit (decimal (c # r)) (of_nat (decimal (c # r))))"

record pugrun_args =
  pr_files :: "fat16_file list"
  pr_gets :: "(string \<times> string) list"
  pr_commands :: "string list"
  pr_disk :: string
  pr_budget :: u64
  pr_quiet :: bool

definition pugrun_defaults :: pugrun_args where
  "pugrun_defaults = \<lparr>pr_files = [], pr_gets = [], pr_commands = [], pr_disk = ''pugrun.img'', pr_budget = 4000000000,
     pr_quiet = False\<rparr>"

text \<open>\<open>None\<close>: a file to add cannot be read.\<close>

fun parse_args :: "(string \<Rightarrow> u8 list option) \<Rightarrow> string list \<Rightarrow> pugrun_args \<Rightarrow> pugrun_args option" where
  "parse_args host [] p = Some p"
| "parse_args host (a # as) p =
    (if a = ''--add'' \<and> as \<noteq> [] then
       let spec = hd as;
           (path, name) = (case split_spec spec of None \<Rightarrow> (spec, base_name_of spec) | Some pn \<Rightarrow> pn)
       in case host path of
            None \<Rightarrow> None
          | Some bytes \<Rightarrow> parse_args host (tl as) (p\<lparr>pr_files := pr_files p @ [\<lparr>ff_name = name, ff_data = bytes\<rparr>]\<rparr>)
     else if a = ''--get'' \<and> as \<noteq> [] then
       parse_args host (tl as)
         (p\<lparr>pr_gets := pr_gets p @ [case split_spec (hd as) of None \<Rightarrow> (hd as, hd as) | Some g \<Rightarrow> g]\<rparr>)
     else if a = ''--disk'' \<and> as \<noteq> [] then parse_args host (tl as) (p\<lparr>pr_disk := hd as\<rparr>)
     else if a = ''--cycles'' \<and> as \<noteq> [] then parse_args host (tl as) (p\<lparr>pr_budget := strtoull (hd as)\<rparr>)
     else if a = ''--quiet'' then parse_args host as (p\<lparr>pr_quiet := True\<rparr>)
     else parse_args host as (p\<lparr>pr_commands := pr_commands p @ [a]\<rparr>))"

section \<open>pugrun: the machine\<close>

text \<open>A machine without a video or a music card: no sink and no synthesizer.\<close>

type_synonym pugrun_box = "(unit, unit) machine"

definition pugrun_map :: "(unit, unit) system_bus \<Rightarrow> (unit, unit) system_bus" where
  "pugrun_map b =
    (let b = map_device ''bios_rom'' 0xF000 0x1000 (DevPtr 0) NoLine b;
         b = map_device ''sdcard'' 0xFFD8 4 (DevPtr 1) NoLine b;
         b = map_device ''uart'' 0xFFE8 4 (DevPtr 2) IRQ b
     in map_bank_registers kBankRegistersBase b)"

definition pugrun_devices :: "u8 list \<Rightarrow> u8 list \<Rightarrow> nat \<Rightarrow> (unit, unit) device" where
  "pugrun_devices bios disk i =
    (if i = 0 then RomDev (bios_rom bios)
     else if i = 1 then SdDev (snd (sd_open (Some disk) True new_sdcard))
     else UartDev (set_tx_callback True (new_uart 1843200)))"

definition pugrun_machine :: "u8 list \<Rightarrow> u8 list \<Rightarrow> pugrun_box option" where
  "pugrun_machine bios disk =
    (let c = new_machine 64 (pugrun_devices bios disk)
     in sys_reset (c\<lparr>bus_ctx := pugrun_map (bus_ctx c)\<rparr>))"

text \<open>The UART object the program holds, and what it has printed since \<open>mark\<close> bytes had been.\<close>

definition the_uart :: "pugrun_box \<Rightarrow> uart" where
  "the_uart c = (case sb_store (bus_ctx c) 2 of UartDev u \<Rightarrow> u | _ \<Rightarrow> new_uart 1843200)"

definition set_uart :: "uart \<Rightarrow> pugrun_box \<Rightarrow> pugrun_box" where
  "set_uart u c = c\<lparr>bus_ctx := (bus_ctx c)\<lparr>sb_store := (sb_store (bus_ctx c))(2 := UartDev u)\<rparr>\<rparr>"

definition printed :: "nat \<Rightarrow> pugrun_box \<Rightarrow> u8 list" where
  "printed mark c = drop mark (u_tx_cb_calls (the_uart c))"

definition ends_with :: "u8 list \<Rightarrow> u8 list \<Rightarrow> bool" where
  "ends_with s t \<longleftrightarrow> length t \<le> length s \<and> drop (length s - length t) s = t"

definition prompt :: "u8 list" where
  "prompt = [0x3E, 0x20]"

section \<open>pugrun: driving the machine\<close>

partial_function (option) run_until_prompt :: "nat \<Rightarrow> u64 \<Rightarrow> u64 \<Rightarrow> pugrun_box \<Rightarrow> (bool \<times> pugrun_box) option" where
  "run_until_prompt mark budget spent c =
    (if spent < budget then
       Option.bind (sys_run 20000 c) (\<lambda>(n, c).
         if ends_with (printed mark c) prompt then Some (True, c) else run_until_prompt mark budget (spent + n) c)
     else Some (False, c))"

definition type_line :: "string \<Rightarrow> pugrun_box \<Rightarrow> pugrun_box" where
  "type_line cmd c = set_uart (fold (\<lambda>b u. snd (rx_enqueue b u)) (map of_char cmd @ [0x0D]) (the_uart c)) c"

text \<open>One command: whether the prompt came back, what was printed, and the machine.\<close>

definition type_command :: "u64 \<Rightarrow> string \<Rightarrow> pugrun_box \<Rightarrow> (bool \<times> u8 list \<times> pugrun_box) option" where
  "type_command budget cmd c =
    (let mark = length (u_tx_cb_calls (the_uart c)); c = type_line cmd c
     in Option.bind (sys_run 2000000 c) (\<lambda>(_, c).
          map_option (\<lambda>(finished, c). (finished, printed mark c, c)) (run_until_prompt mark budget 0 c)))"

text \<open>24 steps, to show where a program that did not finish is.\<close>

primrec sys_steps :: "nat \<Rightarrow> pugrun_box \<Rightarrow> pugrun_box option" where
  "sys_steps 0 c = Some c"
| "sys_steps (Suc k) c = Option.bind (sys_step c) (\<lambda>(_, c). sys_steps k c)"

definition show_pcs :: "pugrun_box \<Rightarrow> pugrun_box option" where
  "show_pcs c = sys_steps 24 c"

text \<open>The commands up to the first that does not finish.\<close>

fun run_commands :: "u64 \<Rightarrow> string list \<Rightarrow> pugrun_box \<Rightarrow> (nat \<times> u8 list list \<times> pugrun_box) option" where
  "run_commands budget [] c = Some (0, [], c)"
| "run_commands budget (cmd # cmds) c =
    Option.bind (type_command budget cmd c) (\<lambda>(finished, out, c).
      if finished then map_option (\<lambda>(rc, outs, c). (rc, out # outs, c)) (run_commands budget cmds c)
      else map_option (\<lambda>c. (1, [out], c)) (show_pcs c))"

text \<open>The exit code, what each command printed, and the machine at the end.\<close>

definition pugrun_session :: "u64 \<Rightarrow> string list \<Rightarrow> pugrun_box \<Rightarrow> (nat \<times> u8 list list \<times> pugrun_box) option" where
  "pugrun_session budget cmds c =
    Option.bind (run_until_prompt 0 50000000 0 c) (\<lambda>(started, c).
      if started then run_commands budget cmds c else Some (2, [], c))"

text \<open>The disk image that the device holds, and the files copied off it: path on the disk and name on the host. The inner
  \<open>None\<close>: the image does not mount. A file that is not there makes the exit code 1.\<close>

definition the_disk :: "pugrun_box \<Rightarrow> u8 list" where
  "the_disk c = (case sb_store (bus_ctx c) 1 of SdDev d \<Rightarrow> (case sd_file d of Some img \<Rightarrow> img | None \<Rightarrow> []) | _ \<Rightarrow> [])"

fun copy_gets :: "fat_volume \<Rightarrow> (string \<times> string) list \<Rightarrow> nat \<Rightarrow> (nat \<times> (string \<times> u8 list) list) option" where
  "copy_gets v [] rc = Some (rc, [])"
| "copy_gets v ((path, out) # specs) rc = do {
     found \<leftarrow> find_path v path;
     case found of
       None \<Rightarrow> copy_gets v specs 1
     | Some e \<Rightarrow> do {
         bytes \<leftarrow> read_entry v e;
         (rc, copied) \<leftarrow> copy_gets v specs rc;
         Some (rc, (out, bytes) # copied)
       }
   }"

definition copy_off :: "u8 list \<Rightarrow> (string \<times> string) list \<Rightarrow> nat \<Rightarrow> (nat \<times> (string \<times> u8 list) list) option" where
  "copy_off img specs rc = do {
     mounted \<leftarrow> parse_volume img;
     case mounted of None \<Rightarrow> Some (2, []) | Some v \<Rightarrow> copy_gets v specs rc
   }"

text \<open>The whole program: the exit code, what each command printed, and the files written to the host. \<open>opens\<close> and \<open>writes\<close>
  say whether the disk image can be opened for writing and written. A session that did not start copies nothing.\<close>

definition pugrun :: "bool \<Rightarrow> bool \<Rightarrow> (string \<Rightarrow> u8 list option) \<Rightarrow> string \<Rightarrow> string \<Rightarrow> string option \<Rightarrow> pugrun_args \<Rightarrow>
    (nat \<times> u8 list list \<times> (string \<times> u8 list) list) option" where
  "pugrun opens writes host dos_path shell_path bios_text p =
    (case (host dos_path, host shell_path) of
       (Some dos, Some shell) \<Rightarrow> do {
         built \<leftarrow> build_fat16_image opens writes dos (\<lparr>ff_name = ''SHELL.COM'', ff_data = shell\<rparr> # pr_files p) 16384 2 512 2;
         case (built, load_bios bios_text) of
           (Inr disk, Some bios) \<Rightarrow> do {
             machine \<leftarrow> pugrun_machine bios disk;
             (rc, outs, c) \<leftarrow> pugrun_session (pr_budget p) (pr_commands p) machine;
             if rc = 2 then Some (2, outs, [])
             else do {
               (rc, copied) \<leftarrow> copy_off (the_disk c) (pr_gets p) rc;
               Some (rc, outs, copied)
             }
           }
         | _ \<Rightarrow> Some (2, [], [])
       }
     | _ \<Rightarrow> Some (2, [], []))"

section \<open>The map\<close>

text \<open>The emulator's memory map: with its devices mapped over the BIOS in the order of the program, every address
  reaches the device it should, at the right offset: the video card, the disk, the music card, the UART and the
  bank registers in the last page, the BIOS everywhere else from \<^verbatim>\<open>$F000\<close> up (so the vectors are its own), and
  RAM below.\<close>
theorem demo_memory_map:
  "map_option (\<lambda>m. (m_device m, addr - m_base m)) (find_mapping addr (demo_map rom sdcard uart opl3 video (new_bus 64 store))) =
   (if addr < 0xF000 then None
    else Some (if 0xFF80 \<le> addr \<and> addr < 0xFFA0 then (video, addr - 0xFF80)
               else if 0xFFD8 \<le> addr \<and> addr < 0xFFDC then (sdcard, addr - 0xFFD8)
               else if 0xFFE0 \<le> addr \<and> addr < 0xFFE4 then (opl3, addr - 0xFFE0)
               else if 0xFFE8 \<le> addr \<and> addr < 0xFFEC then (uart, addr - 0xFFE8)
               else if 0xFFEC \<le> addr \<and> addr < 0xFFF0 then (BankRegisters, addr - 0xFFEC)
               else (rom, addr - 0xF000)))"
proof -
  have "unat addr < 65536" using unsigned_less [of addr] by simp
  then show ?thesis
    by (simp add: find_mapping_def demo_map_def map_device_def unmap_device_def map_bank_registers_def new_bus_def Let_def
        in_window_def kBiosBase_def kBiosSize_def kBankRegistersBase_def word_less_nat_alt word_le_nat_alt)
qed

section \<open>Booting\<close>
lemma bios_rom_read:
  assumes "length img = 65536" "unat offset < 0x1000"
  shows "fst (rom_read (bios_rom img) offset) = img ! (0xF000 + unat offset)"
  using assms by (simp add: bios_rom_def rom_load_def new_rom_def rom_read_def kBiosBase_def kBiosSize_def nth_append min_def)

text \<open>What the machine leaves alone while it runs: the mappings, and a ROM.\<close>

definition rom_kept :: "('s, 'c) system_bus \<Rightarrow> ('s, 'c) system_bus \<Rightarrow> bool" where
  "rom_kept b b' \<longleftrightarrow> sb_devices b' = sb_devices b \<and> (\<forall>d. sb_store b 0 = RomDev d \<longrightarrow> sb_store b' 0 = RomDev d)"

lemma rom_kept_trans: "rom_kept a b \<Longrightarrow> rom_kept b c \<Longrightarrow> rom_kept a c"
  by (simp add: rom_kept_def)

lemma rom_kept_store:
  "(\<And>r. sb_store b i = RomDev r \<Longrightarrow> d = RomDev r) \<Longrightarrow> rom_kept b (b\<lparr>sb_store := (sb_store b)(i := d)\<rparr>)"
  by (auto simp: rom_kept_def)

lemma rom_kept_access: "rom_kept b (snd (bus_read8 b a))" "rom_kept b (bus_write8 b a v)"
proof -
  have same: "rom_kept b b" "rom_kept b (b\<lparr>sb_ram := m\<rparr>)" "rom_kept b (b\<lparr>sb_bank_regs := rs\<rparr>)" for m rs
    by (simp_all add: rom_kept_def)
  have "rom_kept b (b\<lparr>sb_store := (sb_store b)(i := snd (dev_read (sb_store b i) a'))\<rparr>)" for i a'
    by (rule rom_kept_store) (simp add: rom_read_def)
  then show "rom_kept b (snd (bus_read8 b a))"
    by (simp add: bus_read8_def ptr_read_def split_beta same split: option.split device_ptr.split)
  have "rom_kept b (b\<lparr>sb_store := (sb_store b)(i := dev_write (sb_store b i) a' v)\<rparr>)" for i a'
    by (rule rom_kept_store) (simp add: rom_write_def)
  then show "rom_kept b (bus_write8 b a v)"
    by (simp add: bus_write8_def ptr_write_def same split: option.split device_ptr.split)
qed

lemma rom_kept_reach: "bus_reach bus_read8 bus_write8 b b' \<Longrightarrow> rom_kept b b'"
proof (induction rule: bus_reach.induct)
  case bus_refl
  then show ?case by (simp add: rom_kept_def)
qed (blast intro: rom_kept_trans rom_kept_access)+

lemma rom_kept_ptr:
  "ptr_reset p b = Some b' \<Longrightarrow> rom_kept b b' \<and> sb_bank_regs b' = sb_bank_regs b"
  "ptr_tick n p b = Some b' \<Longrightarrow> rom_kept b b'"
  by (auto simp: ptr_reset_def ptr_tick_def rom_reset_def default_tick_def rom_kept_def split: device_ptr.splits)

lemma rom_kept_reset_all: "reset_all ms b = Some b' \<Longrightarrow> rom_kept b b' \<and> sb_bank_regs b' = sb_bank_regs b"
proof (induction ms arbitrary: b)
  case (Cons m ms)
  then show ?case by (auto split: bind_splits) (meson rom_kept_ptr rom_kept_trans, metis rom_kept_ptr(1))
qed (simp add: rom_kept_def)

lemma rom_kept_tick_all: "tick_all n ms b = Some b' \<Longrightarrow> rom_kept b b'"
proof (induction ms arbitrary: b)
  case (Cons m ms)
  then show ?case by (auto split: bind_splits) (meson rom_kept_ptr rom_kept_trans)
qed (simp add: rom_kept_def)

lemma bus_update_irq:
  "sb_devices (bus_ctx (update_irq_lines c)) = sb_devices (bus_ctx c)" "sb_store (bus_ctx (update_irq_lines c)) = sb_store (bus_ctx c)"
  by (simp_all add: update_irq_lines_def set_irq_def set_firq_def nmi_pulse_def Let_def)

lemma rom_kept_trace:
  assumes "read_fn c = bus_read8" "write_fn c = bus_write8" "bus_trace c d"
  shows "rom_kept (bus_ctx c) (bus_ctx d)"
  using assms rom_kept_reach [of "bus_ctx c" "bus_ctx d"] by (simp add: bus_trace_def)

lemma rom_kept_step:
  assumes "machine_inv c" "sys_step c = Some (n, d)"
  shows "rom_kept (bus_ctx c) (bus_ctx d)"
proof -
  let ?d = "snd (run_state step c)"
  have "rom_kept (bus_ctx c) (bus_ctx ?d)"
    using assms(1) preservesD [OF bus.keep_step] by (intro rom_kept_trace) (simp_all add: machine_inv_def)
  moreover obtain k b where "tick_all k (sb_devices (bus_ctx ?d)) (bus_ctx ?d) = Some b" "d = update_irq_lines (?d\<lparr>bus_ctx := b\<rparr>)"
    using assms(2) by (auto simp: sys_step_def split_beta)
  then have "rom_kept (bus_ctx ?d) (bus_ctx d)"
    using rom_kept_tick_all by (simp add: rom_kept_def bus_update_irq)
  ultimately show ?thesis by (rule rom_kept_trans)
qed

lemma rom_kept_run: "sys_run_loop max_cycles consumed c = Some r \<Longrightarrow> machine_inv c \<longrightarrow> rom_kept (bus_ctx c) (bus_ctx (snd r))"
proof (induction rule: sys_run_loop.raw_induct [rotated, consumes 1, case_names step])
  case (step loop max_cycles consumed c r)
  show ?case
  proof (cases "consumed < max_cycles \<and> \<not> halted c")
    case True
    then obtain k d where d: "sys_step c = Some (k, d)" "loop max_cycles (consumed + of_nat k) d = Some r"
      using step(2) by (auto split: bind_splits)
    show ?thesis
      using step(1) [OF d(2)] rom_kept_step [OF _ d(1)] sys_step_returns [of c] d(1) rom_kept_trans by fastforce
  next
    case False
    then show ?thesis using step(2) by (auto simp: rom_kept_def split: if_splits)
  qed
qed

text \<open>A reset, which fetches its vector while the banks are as the program left them.\<close>

definition bios_mapping :: device_mapping where
  "bios_mapping = \<lparr>m_name = ''bios_rom'', m_base = 0xF000, m_size = 0x1000, m_device = DevPtr 0, m_irq_line = NoLine\<rparr>"

definition has_bios :: "u8 list \<Rightarrow> ('s, 'c) system_bus \<Rightarrow> bool" where
  "has_bios bios b \<longleftrightarrow> sb_store b 0 = RomDev (bios_rom bios) \<and>
     find_mapping 0xFFFE b = Some bios_mapping \<and> find_mapping 0xFFFF b = Some bios_mapping"

lemma has_bios_kept: "has_bios bios b \<Longrightarrow> rom_kept b b' \<Longrightarrow> has_bios bios b'"
  by (simp add: has_bios_def rom_kept_def find_mapping_def)

lemma bios_byte:
  assumes "has_bios bios b" "length bios = 65536" "addr = 0xFFFE \<or> addr = 0xFFFF"
  shows "bus_read8 b addr = (bios ! unat addr, b)"
proof -
  have "rom_read (bios_rom bios) (addr - 0xF000) = (bios ! unat addr, bios_rom bios)"
    using bios_rom_read [OF assms(2), of "addr - 0xF000"] assms(3) by (auto simp: rom_read_def prod_eq_iff)
  then show ?thesis
    using assms(1,3) by (auto simp: has_bios_def bios_mapping_def bus_read8_def ptr_read_def fun_upd_idem)
qed

definition at_start :: "u8 list \<Rightarrow> ('s, 'c) machine \<Rightarrow> bool" where
  "at_start bios c \<longleftrightarrow> r_pc c = mk16 (bios ! 0xFFFE) (bios ! 0xFFFF) \<and> r_cc c = CC_I OR CC_F \<and> \<not> halted c \<and>
     sb_bank_regs (bus_ctx c) = [0, 1, 2, 3]"

lemma reset_boots:
  assumes "machine_inv c" "has_bios bios (bus_ctx c)" "length bios = 65536"
  shows "\<exists>d. sys_reset c = Some d \<and> at_start bios d \<and> machine_inv d \<and> rom_kept (bus_ctx c) (bus_ctx d)"
proof -
  obtain d where d: "sys_reset c = Some d" "machine_inv d" using sys_reset_returns [OF assms(1)] by blast
  let ?b = "(bus_ctx c)\<lparr>sb_bank_regs := [0, 1, 2, 3]\<rparr>"
  have fn: "read_fn c = bus_read8" using assms(1) by (simp add: machine_inv_def)
  note reads = bios_byte [OF assms(2,3)]
  have cpu: "bus_ctx (snd (run_state reset_cpu c)) = bus_ctx c" "\<not> halted (snd (run_state reset_cpu c))"
    "r_pc (snd (run_state reset_cpu c)) = mk16 (bios ! 0xFFFE) (bios ! 0xFFFF)" "r_cc (snd (run_state reset_cpu c)) = CC_I OR CC_F"
    by (simp_all add: reset_cpu_def read16_def read8_def VEC_RESET_def fn reads)
  obtain b where b: "reset_all (sb_devices (bus_ctx c)) ?b = Some b"
    "d = (snd (run_state reset_cpu c))\<lparr>bus_ctx := b\<lparr>sb_nmi_prev := False\<rparr>\<rparr>"
    using d(1) by (auto simp: sys_reset_def cpu(1) Let_def)
  have "rom_kept ?b b" "sb_bank_regs b = [0, 1, 2, 3]" using rom_kept_reset_all [OF b(1)] by simp_all
  then have "at_start bios d" "rom_kept (bus_ctx c) (bus_ctx d)"
    using cpu by (simp_all add: b(2) at_start_def rom_kept_def)
  then show ?thesis using d by blast
qed

text \<open>Operations that leave the mappings and the BIOS's ROM object to themselves.\<close>

primrec leaves_bios :: "('s, 'c) machine_op \<Rightarrow> bool" where
  "leaves_bios Step_Bus = True"
| "leaves_bios (Run_Bus max_cycles) = True"
| "leaves_bios Reset_Bus = True"
| "leaves_bios (Configure e) = False"
| "leaves_bios (Cpu_Access e) = True"
| "leaves_bios (Fill_Ram ram) = True"
| "leaves_bios (Set_Object i d) = (i \<noteq> 0)"

lemma op_has_bios:
  assumes "machine_inv c" "has_bios bios (bus_ctx c)" "length bios = 65536" "leaves_bios e" "machine_do e c = Some c'"
  shows "has_bios bios (bus_ctx c')"
proof (rule has_bios_kept [OF assms(2)])
  have access: "rom_kept b (do_access x b)" for x and b :: "('a, 'b) system_bus"
    by (cases x) (simp_all add: rom_kept_access)
  show "rom_kept (bus_ctx c) (bus_ctx c')"
  proof (cases e)
    case (Run_Bus max_cycles)
    then show ?thesis using assms(1,5) rom_kept_run by (fastforce simp: sys_run_def)
  next
    case Reset_Bus
    then show ?thesis using assms(5) reset_boots [OF assms(1-3)] by auto
  qed (use assms(1,4,5) rom_kept_step access in \<open>auto simp: rom_kept_def [of _ "b\<lparr>sb_ram := r\<rparr>" for b r] rom_kept_def [of _ "b\<lparr>sb_store := r\<rparr>" for b r]\<close>)
qed

lemma ops_have_bios:
  assumes "machine_inv c" "has_bios bios (bus_ctx c)" "length bios = 65536" "list_all fair_op es" "list_all leaves_bios es"
  shows "\<exists>c'. machine_does es c = Some c' \<and> machine_inv c' \<and> has_bios bios (bus_ctx c')"
  using assms(1,2,4,5)
proof (induction es arbitrary: c)
  case (Cons e es)
  then obtain d where d: "machine_do e c = Some d" "machine_inv d" using machine_do_returns [of c e] by auto
  then have "has_bios bios (bus_ctx d)" using Cons.prems op_has_bios [OF _ _ assms(3)] by auto
  then show ?case using Cons d by auto
qed simp

section \<open>The machines of the programs\<close>

lemma new_machine_bus:
  "sb_devices (bus_ctx (new_machine 64 store)) = []" "sb_store (bus_ctx (new_machine 64 store)) = store"
  by (simp_all add: new_machine_def new_CPU_def reset_cpu_def read16_def read8_def new_bus_def bus_read8_def find_mapping_def
      phys_byte_def kAddressablePages_def Let_def)

text \<open>A machine whose devices are mapped over the BIOS, but not over its vector.\<close>

lemma machine_boots:
  assumes "\<And>i. dev_inv (store i)" "store 0 = RomDev (bios_rom bios)" "length bios = 65536"
    and "c = new_machine 64 store" "maps = fold configure es" "find (in_window 0xFFFE) (rev (sb_devices (maps (bus_ctx c)))) = Some bios_mapping"
    and "find (in_window 0xFFFF) (rev (sb_devices (maps (bus_ctx c)))) = Some bios_mapping"
  shows "\<exists>d. sys_reset (c\<lparr>bus_ctx := maps (bus_ctx c)\<rparr>) = Some d \<and> machine_inv d \<and> at_start bios d \<and> has_bios bios (bus_ctx d)"
proof -
  let ?c = "c\<lparr>bus_ctx := maps (bus_ctx c)\<rparr>"
  have new: "machine_inv c" unfolding assms(4) using assms(1) by (rule machine_inv_new)
  have inv: "bus_inv (fold configure es b)" if "bus_inv b" for b :: "('a, 'b) system_bus"
    using that by (induction es arbitrary: b) (simp_all add: bus_inv_configure)
  have store: "sb_store (fold configure es b) = sb_store b" for b :: "('a, 'b) system_bus"
  proof (induction es arbitrary: b)
    case (Cons e es)
    then show ?case by (cases e) (simp_all add: map_device_def unmap_device_def map_bank_registers_def Let_def)
  qed simp
  have c: "machine_inv ?c" using new inv by (simp add: machine_inv_def assms(5))
  have "has_bios bios (bus_ctx ?c)"
    using assms(6,7) by (simp add: has_bios_def find_mapping_def) (simp add: assms(2,4,5) store new_machine_bus)
  then show ?thesis using reset_boots [OF c _ assms(3)] has_bios_kept by fastforce
qed

lemma pugrun_boots:
  assumes "length bios = 65536"
  shows "\<exists>c. pugrun_machine bios disk = Some c \<and> machine_inv c \<and> at_start bios c \<and> has_bios bios (bus_ctx c)"
  unfolding pugrun_machine_def Let_def
proof (rule machine_boots [OF _ _ assms refl])
  show "dev_inv (pugrun_devices bios disk i)" for i
    by (simp add: pugrun_devices_def sd_open_def sd_inv_new set_tx_callback_def new_uart_def uart_inv_def sd_inv_def new_sdcard_def
        kBlockSize_def)
  show "pugrun_map = fold configure [Map_Device ''bios_rom'' 0xF000 0x1000 (DevPtr 0) NoLine, Map_Device ''sdcard'' 0xFFD8 4 (DevPtr 1) NoLine,
      Map_Device ''uart'' 0xFFE8 4 (DevPtr 2) IRQ, Map_Banks kBankRegistersBase]"
    by (simp add: fun_eq_iff pugrun_map_def Let_def)
qed (simp_all add: pugrun_devices_def bios_mapping_def new_machine_bus in_window_def pugrun_map_def map_device_def unmap_device_def
    map_bank_registers_def Let_def kBankRegistersBase_def)

text \<open>The emulator's machine starts at its BIOS too, with all five devices in their invariants.\<close>

lemma demo_boots:
  assumes "length bios = 65536"
  shows "\<exists>c. demo_machine ops font S chip bios disk sound sink console = Some c \<and> machine_inv c \<and> at_start bios c \<and>
    has_bios bios (bus_ctx c)"
proof -
  obtain v where v: "new_video_device ops font 3579545 = Some v" "device_ok v" using new_video_device_ok [of 3579545 ops font] by auto
  let ?store = "demo_devices ops font S chip bios disk sound sink console v"
  have opl: "opl3_inv (set_sink sound (new_opl3 S chip 48000 3579545))"
    by (simp add: opl3_inv_def set_sink_def new_opl3_def opl3_reset_def kChunk_def)
  have inv: "dev_inv (?store i)" for i
    using v(2) by (simp add: demo_devices_def sd_open_def sd_inv_new set_tx_callback_def new_uart_def uart_inv_def sd_inv_def new_sdcard_def
        kBlockSize_def opl card_change_ok)
  have maps: "demo_map (DevPtr 0) (DevPtr 1) (DevPtr 2) (DevPtr 3) (DevPtr 4) = fold configure
      [Map_Device ''bios_rom'' 0xF000 0x1000 (DevPtr 0) NoLine, Map_Device ''sdcard'' 0xFFD8 4 (DevPtr 1) NoLine,
       Map_Device ''uart'' 0xFFE8 4 (DevPtr 2) IRQ, Map_Banks kBankRegistersBase,
       Map_Device ''opl3'' 0xFFE0 4 (DevPtr 3) NoLine, Map_Device ''video'' 0xFF80 0x20 (DevPtr 4) IRQ]"
    by (simp add: fun_eq_iff demo_map_def Let_def kBiosBase_def kBiosSize_def)
  show ?thesis
    unfolding demo_machine_def v(1) Let_def Option.bind.bind_lunit
    by (rule machine_boots [OF inv _ assms refl maps])
      (simp_all add: demo_devices_def bios_mapping_def new_machine_bus in_window_def demo_map_def map_device_def unmap_device_def
        map_bank_registers_def Let_def kBankRegistersBase_def kBiosBase_def kBiosSize_def)
qed

lemma boots_again:
  assumes "machine_inv c" "at_start bios c" "has_bios bios (bus_ctx c)" "length bios = 65536" "list_all fair_op es" "list_all leaves_bios es"
  shows "\<exists>d e. machine_does es c = Some d \<and> sys_reset d = Some e \<and> at_start bios c \<and> at_start bios e \<and> machine_inv c \<and> machine_inv e"
  using ops_have_bios [OF assms(1,3-6)] reset_boots [OF _ _ assms(4)] assms(1,2) by metis

text \<open>C16. The machine starts where the BIOS says, and starts there again: after the constructor, the mapping of the devices and
  the reset, and after a reset at any later moment, whatever the machine has run, read and written until then (its
  bank registers and its RAM included; only its mappings and its ROM must be the same), the program counter is the reset vector of the image the S-record file gave,
  interrupts are masked, the CPU is not halted, the banks are the first four pages, and the machine is well formed
  (\<open>at_start\<close>, \<open>machine_inv\<close>): the machine of \<^verbatim>\<open>pugrun\<close> and that of the emulator with its five devices.\<close>
theorem boots_from_bios:
  assumes "length bios = 65536" "list_all fair_op es" "list_all leaves_bios es" "list_all fair_op es'" "list_all leaves_bios es'"
  shows "(\<exists>c d e. pugrun_machine bios disk = Some c \<and> machine_does es c = Some d \<and> sys_reset d = Some e \<and>
      at_start bios c \<and> at_start bios e \<and> machine_inv c \<and> machine_inv e) \<and>
    (\<exists>c d e. demo_machine ops font S chip bios disk sound sink console = Some c \<and> machine_does es' c = Some d \<and> sys_reset d = Some e \<and>
      at_start bios c \<and> at_start bios e \<and> machine_inv c \<and> machine_inv e)"
  using pugrun_boots [OF assms(1), of disk] demo_boots [OF assms(1), of ops font S chip disk sound sink console]
    boots_again [OF _ _ _ assms(1-3)] boots_again [OF _ _ _ assms(1,4,5)] by meson

text \<open>A program that shows other pages in all the banks before the reset.\<close>

theorem boots_from_bios_witness:
  "let bios = replicate 65534 0 @ [0xF0, 0x12] in
   \<exists>c d e. demo_machine counting_sink [] \<lparr>sy_reset = (\<lambda>_ c. c), sy_write_reg = (\<lambda>_ _ c. c), sy_generate = (\<lambda>n c. ([], c))\<rparr> () bios [] True
       (Some 0) True = Some c \<and>
     machine_does [Cpu_Access (Wr 0xFFEC 9), Cpu_Access (Wr 0xFFEF 200), Run_Bus 1000] c = Some d \<and> sys_reset d = Some e \<and>
     r_pc c = 0xF012 \<and> r_pc e = 0xF012 \<and> sb_bank_regs (bus_ctx e) = [0, 1, 2, 3]"
proof -
  let ?bios = "replicate 65534 0 @ [0xF0, 0x12] :: u8 list"
  let ?S = "\<lparr>sy_reset = (\<lambda>_ c. c), sy_write_reg = (\<lambda>_ _ c. c), sy_generate = (\<lambda>n c. ([], c))\<rparr> :: unit synthesizer"
  let ?es = "[Cpu_Access (Wr 0xFFEC 9), Cpu_Access (Wr 0xFFEF 200), Run_Bus 1000] :: (nat, unit) machine_op list"
  have "length ?bios = 65536" "list_all fair_op ?es" "list_all leaves_bios ?es" by simp_all
  from boots_from_bios [OF this(1) _ _ this(2,3), of "[]" "[]" counting_sink "[]" ?S "()" True "Some 0" True]
  show ?thesis by (auto simp: at_start_def Let_def nth_append mk16_def)
qed

section \<open>The driver comes to an end\<close>

text \<open>A machine that goes on, and a run of it for a budget the program uses.\<close>

definition goes_on :: "pugrun_box \<Rightarrow> bool" where
  "goes_on c \<longleftrightarrow> \<not> halted c \<and> machine_inv c"

lemma run_goes_on:
  assumes "goes_on c" "unat max_cycles \<le> 2 ^ 63"
  shows "\<exists>n c'. sys_run max_cycles c = Some (n, c') \<and> unat max_cycles \<le> unat n \<and> unat n \<le> unat max_cycles + 196611 \<and> goes_on c'"
  using sys_run_loop_outcome [OF assms(2), of 0 c] assms(1) by (auto simp: sys_run_def goes_on_def word_le_nat_alt)

lemma prompt_loop_ends:
  assumes "unat budget \<le> 2 ^ 63" "goes_on c" "unat spent \<le> unat budget + 216611"
  shows "\<exists>ok c'. run_until_prompt mark budget spent c = Some (ok, c') \<and> goes_on c' \<and> (ok \<longrightarrow> ends_with (printed mark c') prompt)"
  using assms(2,3)
proof (induction "unat budget - unat spent" arbitrary: spent c rule: less_induct)
  case less
  show ?case
  proof (cases "spent < budget")
    case True
    obtain n d where run: "sys_run 20000 c = Some (n, d)" "20000 \<le> unat n" "unat n \<le> 216611" "goes_on d"
      using run_goes_on [OF less.prems(1), of 20000] by auto
    have lt: "unat spent < unat budget" using True by (simp add: word_less_nat_alt)
    then have sum: "unat (spent + n) = unat spent + unat n"
      using run(3) assms(1) by (intro unat_add_lem [THEN iffD1]) simp
    show ?thesis
    proof (cases "ends_with (printed mark d) prompt")
      case True
      then show ?thesis using run lt by (subst run_until_prompt.simps) (auto simp: word_less_nat_alt)
    next
      case False
      have "unat budget - unat (spent + n) < unat budget - unat spent" "unat (spent + n) \<le> unat budget + 216611"
        using sum run(2,3) lt by linarith+
      then obtain ok c' where "run_until_prompt mark budget (spent + n) d = Some (ok, c')" "goes_on c'"
          "ok \<longrightarrow> ends_with (printed mark c') prompt"
        using less.hyps run(4) by blast
      then show ?thesis using run False lt by (subst run_until_prompt.simps) (simp add: word_less_nat_alt)
    qed
  next
    case False
    then show ?thesis using less.prems(1) by (subst run_until_prompt.simps) auto
  qed
qed

lemma uart_inv_receive: "uart_inv u \<Longrightarrow> uart_inv (fold (\<lambda>b u. snd (rx_enqueue b u)) bs u)"
  by (induction bs arbitrary: u) (simp_all add: rx_enqueue_def uart_inv_def)

lemma type_line_goes_on: "goes_on c \<Longrightarrow> goes_on (type_line cmd c)"
proof -
  assume c: "goes_on c"
  then have dev: "dev_inv (sb_store (bus_ctx c) 2)" by (simp add: goes_on_def machine_inv_def bus_inv_def)
  have "uart_inv (the_uart c)"
    using dev by (auto simp: the_uart_def new_uart_def uart_inv_def split: device.split)
  then show ?thesis
    using c uart_inv_receive [of "the_uart c" "map of_char cmd @ [0x0D]"]
    by (simp add: goes_on_def type_line_def set_uart_def machine_inv_def bus_inv_store del: fold_append fold_simps)
qed

lemma command_ends:
  assumes "unat budget \<le> 2 ^ 63" "goes_on c"
  shows "\<exists>ok out c'. type_command budget cmd c = Some (ok, out, c') \<and> goes_on c' \<and> (ok \<longrightarrow> ends_with out prompt)"
proof -
  let ?mark = "length (u_tx_cb_calls (the_uart c))" and ?c = "type_line cmd c"
  obtain n d where run: "sys_run 2000000 ?c = Some (n, d)" "goes_on d"
    using run_goes_on [OF type_line_goes_on [OF assms(2), of cmd], of 2000000] by auto
  then obtain ok e where "run_until_prompt ?mark budget 0 d = Some (ok, e)" "goes_on e" "ok \<longrightarrow> ends_with (printed ?mark e) prompt"
    using prompt_loop_ends [OF assms(1), of d 0 ?mark] by auto
  then show ?thesis using run(1) by (simp add: type_command_def Let_def)
qed

lemma sys_steps_end: "goes_on c \<Longrightarrow> \<exists>d. sys_steps k c = Some d \<and> goes_on d"
proof (induction k arbitrary: c)
  case (Suc k)
  then show ?case using sys_step_returns [of c] by (fastforce simp: goes_on_def)
qed simp

lemma commands_end:
  assumes "unat budget \<le> 2 ^ 63" "goes_on c"
  shows "\<exists>rc outs c'. run_commands budget cmds c = Some (rc, outs, c') \<and> rc \<le> 1 \<and> goes_on c' \<and>
    length outs \<le> length cmds \<and> (rc = 0 \<longrightarrow> length outs = length cmds \<and> (\<forall>out\<in>set outs. ends_with out prompt))"
  using assms(2)
proof (induction cmds arbitrary: c)
  case Nil
  then show ?case by simp
next
  case (Cons cmd cmds)
  obtain ok out d where cmd: "type_command budget cmd c = Some (ok, out, d)" "goes_on d" "ok \<longrightarrow> ends_with out prompt"
    using command_ends [OF assms(1) Cons.prems] by blast
  show ?case
  proof (cases ok)
    case True
    obtain rc outs e where "run_commands budget cmds d = Some (rc, outs, e)" "rc \<le> 1" "goes_on e"
        "length outs \<le> length cmds" "rc = 0 \<longrightarrow> length outs = length cmds \<and> (\<forall>out\<in>set outs. ends_with out prompt)"
      using Cons.IH [OF cmd(2)] by blast
    then show ?thesis using cmd True by auto
  next
    case False
    obtain e where "show_pcs d = Some e" "goes_on e" using sys_steps_end [OF cmd(2)] unfolding show_pcs_def by blast
    then show ?thesis using cmd(1) False by simp
  qed
qed

text \<open>C17. A session of \<^verbatim>\<open>pugrun\<close> always comes to an end, whatever the disk and the BIOS hold and the programs on them do:
  with an exit code of 0 when the shell came up and every command's output ends with the prompt, 1 after the first
  command that used its budget up without one, 2 if the shell did not start; the machine's invariant still holds.\<close>
theorem pugrun_ends:
  assumes "length bios = 65536" "unat budget \<le> 2 ^ 63"
  shows "\<exists>rc outs c. Option.bind (pugrun_machine bios disk) (pugrun_session budget cmds) = Some (rc, outs, c) \<and> rc \<le> 2 \<and>
    length outs \<le> length cmds \<and> (rc = 0 \<longrightarrow> length outs = length cmds \<and> (\<forall>out\<in>set outs. ends_with out prompt)) \<and>
    machine_inv c \<and> \<not> halted c"
proof -
  obtain m where m: "pugrun_machine bios disk = Some m" "goes_on m"
    using pugrun_boots [OF assms(1), of disk] by (auto simp: goes_on_def at_start_def)
  then obtain started c where first: "run_until_prompt 0 50000000 0 m = Some (started, c)" "goes_on c"
    using prompt_loop_ends [of 50000000 m 0 0] by auto
  show ?thesis
  proof (cases started)
    case True
    then show ?thesis
      using commands_end [OF assms(2) first(2), of cmds] first(1) m(1) by (auto simp: pugrun_session_def goes_on_def)
  next
    case False
    then show ?thesis using first m(1) by (simp add: pugrun_session_def goes_on_def)
  qed
qed

theorem pugrun_ends_witness:
  "\<exists>rc outs c. Option.bind (pugrun_machine (replicate 65536 0x12) []) (pugrun_session 4000000000 [''DIR'']) = Some (rc, outs, c) \<and> rc \<le> 2"
  using pugrun_ends [of "replicate 65536 0x12" 4000000000 "[]" "[''DIR'']"] by auto

section \<open>Files off the disk\<close>

lemma copy_gets_found:
  assumes "length outs = length fs" "\<And>f. f \<in> set fs \<Longrightarrow> \<exists>e. find_path v (path f) = Some (Some e) \<and> read_entry v e = Some (data f)"
  shows "copy_gets v (zip (map path fs) outs) rc = Some (rc, zip outs (map data fs))"
  using assms by (induction outs fs rule: list_induct2) fastforce+

lemma copy_gets_missing:
  assumes "find_path v path = Some None"
  shows "copy_gets v specs rc = Some (rc', copied) \<Longrightarrow> \<exists>copied'. copy_gets v (specs @ [(path, out)]) rc = Some (1, copied')"
proof (induction specs arbitrary: rc rc' copied)
  case (Cons g specs)
  then show ?case by (cases g) (fastforce split: bind_splits option.splits)
qed (simp add: assms)

text \<open>C31. Files make it to the disk and back: \<^verbatim>\<open>pugrun\<close>'s disk, built from at most 512 files with valid names, is refused exactly
  if they need too many clusters; otherwise copying any of them off it, under their paths in upper case (names are stored so,
  and the reader tells the cases apart), in any order and as often as asked for, writes the same bytes to the host and
  leaves the exit code as it was.\<close>
theorem pugrun_copies_back:
  assumes "length dos \<le> 65536" "place_files files = (placed, dirs)" "length files \<le> 512"
    and "distinct_paths files" "\<forall>f\<in>set files. good_name (ff_name f)" "set fs \<subseteq> set files" "length outs = length fs"
  shows "if (16287 - (length dos + 511) div 512) div 2 < clusters_needed 2 (entry_counts placed dirs) files
    then build_fat16_image True True dos files 16384 2 512 2 = Some (Inl DoesNotFit)
    else \<exists>disk. build_fat16_image True True dos files 16384 2 512 2 = Some (Inr disk) \<and>
       copy_off disk (zip (map (upper o ff_name) fs) outs) rc = Some (rc, zip outs (map ff_data fs))"
proof -
  have "good_name (ff_name f)" if "f \<in> set files" for f using assms(5) that by blast
  note std = standard_volume [OF assms(1-4) this]
  show ?thesis
  proof (cases "(16287 - (length dos + 511) div 512) div 2 < clusters_needed 2 (entry_counts placed dirs) files")
    case True
    then show ?thesis using std by (simp only: if_True)
  next
    case False
    then obtain img v where img: "build_fat16_image True True dos files 16384 2 512 2 = Some (Inr img)" "parse_volume img = Some (Some v)"
      "\<And>f. f \<in> set files \<Longrightarrow> \<exists>e. find_path v (upper (ff_name f)) = Some (Some e) \<and> \<not> is_dir e \<and> read_entry v e = Some (ff_data f)"
      using std unfolding if_not_P [OF False] by blast
    have "copy_gets v (zip (map (upper o ff_name) fs) outs) rc = Some (rc, zip outs (map ff_data fs))"
      using img(3) assms(6) by (intro copy_gets_found [OF assms(7)]) fastforce
    then have "copy_off img (zip (map (upper o ff_name) fs) outs) rc = Some (rc, zip outs (map ff_data fs))" by (simp add: copy_off_def img(2))
    then show ?thesis using False img(1) by (simp only: if_False) blast
  qed
qed

theorem pugrun_copies_back_witness:
  "\<exists>disk. build_fat16_image True True [] [\<lparr>ff_name = ''SHELL.COM'', ff_data = [1]\<rparr>, \<lparr>ff_name = ''src/a.asm'', ff_data = [2, 3]\<rparr>] 16384 2 512 2 =
     Some (Inr disk) \<and> copy_off disk [(''SRC/A.ASM'', ''out.asm'')] 0 = Some (0, [(''out.asm'', [2, 3])])"
proof -
  let ?a = "\<lparr>ff_name = ''src/a.asm'', ff_data = [2, 3]\<rparr> :: fat16_file"
  let ?files = "[\<lparr>ff_name = ''SHELL.COM'', ff_data = [1]\<rparr>, ?a]"
  let ?dirs = "[\<lparr>fd_entries = [], fd_cluster = 0, fd_subdirs = [(''SRC'', 1)]\<rparr>, \<lparr>fd_entries = [], fd_cluster = 0, fd_subdirs = []\<rparr>]"
  have place: "place_files ?files = ([(0, ''SHELL.COM''), (1, ''a.asm'')], ?dirs)" by code_simp
  have paths: "path_of ''SHELL.COM'' = [''SHELL.COM'']" "path_of ''src/a.asm'' = [''SRC'', ''A.ASM'']" "upper ''src/a.asm'' = ''SRC/A.ASM''"
    by code_simp+
  have good: "good_name ''SHELL.COM''" "good_name ''src/a.asm''" by code_simp+
  have counts: "entry_counts [(0, ''SHELL.COM''), (1, ''a.asm'')] ?dirs = [2, 3]" by code_simp
  have "distinct_paths ?files" by (auto simp: distinct_paths_def less_Suc_eq paths)
  moreover have "clusters_needed 2 [2, 3] ?files = 3"
    by (simp add: clusters_needed_def clusters_for_def bytes_per_cluster_def kSectorSize_def upt_rec)
  ultimately show ?thesis
    using pugrun_copies_back [of "[]" ?files _ _ "[?a]" "[''out.asm'']" 0, OF _ place] good by (simp add: counts [simplified] paths(3))
qed

end
