(* ===== verification/Audio_Out.thy ===== *)
theory Audio_Out
  imports Opl3 "HOL-Library.Sublist"
begin

text \<open>
  The emulator's sound output, \<^verbatim>\<open>simulator/tools/audio_out.cpp\<close>: what it promises the music card (the locale
  \<open>audio_sink\<close>), the ring of buffers of the Windows version, and the pipe to a player of the others. The sound
  device is its queue of buffers: it finishes them in order, at any moment, and plays what is in a buffer
  when it finishes it.
\<close>

section \<open>The interface\<close>

type_synonym stereo_frame = "sample \<times> sample"

text \<open>Samples come left then right.\<close>

fun stereo :: "sample list \<Rightarrow> stereo_frame list" where
  "stereo (l # r # s) = (l, r) # stereo s"
| "stereo _ = []"

definition call_sound :: "sink_call \<Rightarrow> stereo_frame list" where
  "call_sound c = (case c of Frames n buf \<Rightarrow> take n (stereo buf) | Idle \<Rightarrow> [])"

text \<open>What the music card relies on: the frames written are heard, all of them and in order, and nothing else.\<close>

locale audio_sink =
  fixes sink_write :: "stereo_frame list \<Rightarrow> 's \<Rightarrow> 's"
    and sink_idle :: "'s \<Rightarrow> 's"
    and heard :: "'s \<Rightarrow> stereo_frame list"
    and sink_inv :: "'s \<Rightarrow> bool"
  assumes inv_write: "sink_inv s \<Longrightarrow> sink_inv (sink_write fs s)"
    and inv_idle: "sink_inv s \<Longrightarrow> sink_inv (sink_idle s)"
    and heard_write: "sink_inv s \<Longrightarrow> heard (sink_write fs s) = heard s @ fs"
    and heard_idle: "sink_inv s \<Longrightarrow> heard (sink_idle s) = heard s"
begin

definition pass_call :: "sink_call \<Rightarrow> 's \<Rightarrow> 's" where
  "pass_call c s = (case c of Frames n buf \<Rightarrow> sink_write (take n (stereo buf)) s | Idle \<Rightarrow> sink_idle s)"

lemma call_heard: "sink_inv s \<Longrightarrow> sink_inv (pass_call c s) \<and> heard (pass_call c s) = heard s @ call_sound c"
  by (cases c) (simp_all add: pass_call_def call_sound_def inv_write inv_idle heard_write heard_idle)

lemma calls_heard:
  "sink_inv s \<Longrightarrow> sink_inv (fold pass_call cs s) \<and> heard (fold pass_call cs s) = heard s @ concat (map call_sound cs)"
  by (induction cs arbitrary: s) (simp_all add: call_heard)

end

section \<open>The ring of buffers\<close>

definition kBuffers :: nat where "kBuffers = 6"
definition kFrames :: nat where "kFrames = 2048"

text \<open>\<open>ar_out\<close> are the buffers that are with the device, the oldest first; \<open>ar_played\<close> is what has come out of it.\<close>

record audio_ring =
  ar_dev :: bool
  ar_data :: "stereo_frame list list"
  ar_lens :: "nat list"
  ar_cur :: nat
  ar_fill :: nat
  ar_out :: "nat list"
  ar_played :: "stereo_frame list"

definition new_ring :: audio_ring where
  "new_ring = \<lparr>ar_dev = False, ar_data = replicate kBuffers [], ar_lens = replicate kBuffers 0, ar_cur = 0, ar_fill = 0,
     ar_out = [], ar_played = []\<rparr>"

definition device_done :: "audio_ring \<Rightarrow> audio_ring" where
  "device_done r =
    (case ar_out r of
       [] \<Rightarrow> r
     | i # is \<Rightarrow> r\<lparr>ar_out := is, ar_played := ar_played r @ take (ar_lens r ! i) (ar_data r ! i)\<rparr>)"

text \<open>Waiting for a buffer is letting the device go on until it has finished it.\<close>

function wait_free :: "nat \<Rightarrow> audio_ring \<Rightarrow> audio_ring" where
  "wait_free i r = (if i \<in> set (ar_out r) then wait_free i (device_done r) else r)"
  by pat_completeness auto
termination
  by (relation "measure (\<lambda>(i, r). length (ar_out r))") (auto simp: device_done_def split: list.splits)

declare wait_free.simps [simp del]

definition ring_send :: "audio_ring \<Rightarrow> audio_ring" where
  "ring_send r =
    (if ar_fill r = 0 then r
     else
       let r = r\<lparr>ar_lens := (ar_lens r)[ar_cur r := ar_fill r], ar_out := ar_out r @ [ar_cur r]\<rparr>;
           r = r\<lparr>ar_cur := (ar_cur r + 1) mod kBuffers, ar_fill := 0\<rparr>
       in wait_free (ar_cur r) r)"

text \<open>The position in a buffer is below its size between calls, so the second test never stops the loop.\<close>

function write_frames :: "stereo_frame list \<Rightarrow> audio_ring \<Rightarrow> audio_ring" where
  "write_frames fs r =
    (if fs \<noteq> [] \<and> ar_fill r < kFrames then
       let k = min (length fs) (kFrames - ar_fill r);
           d = ar_data r ! ar_cur r;
           r = r\<lparr>ar_data := (ar_data r)[ar_cur r := take (ar_fill r) d @ take k fs @ drop (ar_fill r + k) d],
                 ar_fill := ar_fill r + k\<rparr>
       in write_frames (drop k fs) (if ar_fill r = kFrames then ring_send r else r)
     else r)"
  by pat_completeness auto
termination
  by (relation "measure (\<lambda>(fs, r). length fs)") auto

declare write_frames.simps [simp del]

definition ring_write :: "stereo_frame list \<Rightarrow> audio_ring \<Rightarrow> audio_ring" where
  "ring_write fs r = (if ar_dev r then write_frames fs r else r)"

definition ring_idle :: "audio_ring \<Rightarrow> audio_ring" where
  "ring_idle r = (if ar_dev r then ring_send r else r)"

text \<open>The end of a ring: what is left is sent and played out.\<close>

definition ring_end :: "audio_ring \<Rightarrow> audio_ring" where
  "ring_end r = (if ar_dev r then (fold wait_free [0..<kBuffers] (ring_send r))\<lparr>ar_dev := False\<rparr> else r)"

text \<open>Closing leaves a new ring; what the old one played is kept. \<open>opens\<close>: there is a device.\<close>

definition ring_close :: "audio_ring \<Rightarrow> audio_ring" where
  "ring_close r = new_ring\<lparr>ar_played := ar_played (ring_end r)\<rparr>"

definition ring_open :: "bool \<Rightarrow> audio_ring \<Rightarrow> bool \<times> audio_ring" where
  "ring_open opens r =
    (if opens then (True, (ring_close r)\<lparr>ar_dev := True, ar_data := replicate kBuffers (replicate kFrames (0, 0))\<rparr>)
     else (False, ring_close r))"

section \<open>The pipe to a player\<close>

definition players :: "string list" where
  "players = [''aplay'', ''pacat'', ''pw-cat'']"

record audio_pipe =
  ap_pipe :: bool
  ap_player :: string
  ap_taken :: "stereo_frame list"

text \<open>The first player that is there and starts.\<close>

definition pipe_open :: "(string \<Rightarrow> bool) \<Rightarrow> (string \<Rightarrow> bool) \<Rightarrow> audio_pipe \<Rightarrow> bool \<times> audio_pipe" where
  "pipe_open have_program popen_works p =
    (case find (\<lambda>n. have_program n \<and> popen_works n) players of
       None \<Rightarrow> (False, p\<lparr>ap_pipe := False\<rparr>)
     | Some n \<Rightarrow> (True, p\<lparr>ap_pipe := True, ap_player := n\<rparr>))"

text \<open>\<open>n\<close> is what \<^verbatim>\<open>fwrite\<close> answers; fewer frames than it was given mean that the player has gone.\<close>

definition pipe_write :: "nat \<Rightarrow> stereo_frame list \<Rightarrow> audio_pipe \<Rightarrow> audio_pipe" where
  "pipe_write n fs p =
    (if \<not> ap_pipe p then p
     else if n \<noteq> length fs then p\<lparr>ap_pipe := False, ap_taken := ap_taken p @ take n fs\<rparr>
     else p\<lparr>ap_taken := ap_taken p @ fs\<rparr>)"

section \<open>No buffer is written while the device has it\<close>

definition queued :: "audio_ring \<Rightarrow> stereo_frame list" where
  "queued r = concat (map (\<lambda>i. take (ar_lens r ! i) (ar_data r ! i)) (ar_out r))"

definition ring_heard :: "audio_ring \<Rightarrow> stereo_frame list" where
  "ring_heard r = ar_played r @ queued r @ take (ar_fill r) (ar_data r ! ar_cur r)"

definition ring_ok :: "audio_ring \<Rightarrow> bool" where
  "ring_ok r \<longleftrightarrow> ar_dev r \<and> length (ar_data r) = kBuffers \<and> list_all (\<lambda>d. length d = kFrames) (ar_data r) \<and>
     length (ar_lens r) = kBuffers \<and> ar_cur r < kBuffers \<and> distinct (ar_out r) \<and> set (ar_out r) \<subseteq> {..<kBuffers} \<and>
     (\<forall>i\<in>set (ar_out r). ar_lens r ! i \<le> kFrames)"

definition ring_inv :: "audio_ring \<Rightarrow> bool" where
  "ring_inv r \<longleftrightarrow> ring_ok r \<and> ar_cur r \<notin> set (ar_out r) \<and> ar_fill r < kFrames"

lemma done_keeps:
  "ring_ok r \<Longrightarrow> ring_ok (device_done r) \<and> ring_heard (device_done r) = ring_heard r \<and>
   set (ar_out (device_done r)) \<subseteq> set (ar_out r) \<and> ar_cur (device_done r) = ar_cur r \<and> ar_fill (device_done r) = ar_fill r"
  by (auto simp: device_done_def ring_ok_def ring_heard_def queued_def split: list.splits)

lemma wait_keeps:
  "ring_ok r \<Longrightarrow> ring_ok (wait_free i r) \<and> ring_heard (wait_free i r) = ring_heard r \<and> i \<notin> set (ar_out (wait_free i r)) \<and>
   set (ar_out (wait_free i r)) \<subseteq> set (ar_out r) \<and> ar_cur (wait_free i r) = ar_cur r \<and> ar_fill (wait_free i r) = ar_fill r"
proof (induction i r rule: wait_free.induct)
  case (1 i r)
  show ?case
  proof (cases "i \<in> set (ar_out r)")
    case True
    have "wait_free i r = wait_free i (device_done r)" using True by (subst wait_free.simps) simp
    then show ?thesis using 1(1) [OF True] done_keeps [OF 1(2)] by auto
  next
    case False
    then have "wait_free i r = r" by (subst wait_free.simps) simp
    then show ?thesis using 1(2) False by simp
  qed
qed

lemma send_keeps:
  assumes "ring_ok r" "ar_cur r \<notin> set (ar_out r)" "ar_fill r \<le> kFrames"
  shows "ring_inv (ring_send r) \<and> ring_heard (ring_send r) = ring_heard r \<and> ar_fill (ring_send r) = 0"
proof (cases "ar_fill r = 0")
  case True
  then show ?thesis using assms by (simp add: ring_send_def ring_inv_def kFrames_def)
next
  case False
  let ?c = "ar_cur r"
  let ?s = "r\<lparr>ar_lens := (ar_lens r)[?c := ar_fill r], ar_out := ar_out r @ [?c], ar_cur := (?c + 1) mod kBuffers, ar_fill := 0\<rparr>"
  have lens: "(ar_lens r)[?c := ar_fill r] ! i = ar_lens r ! i" if "i \<in> set (ar_out r)" for i
    using that assms(2) by (metis nth_list_update_neq)
  have c: "(ar_lens r)[?c := ar_fill r] ! ?c = ar_fill r" using assms(1) by (simp add: ring_ok_def)
  have ok: "ring_ok ?s" using assms lens c by (auto simp: ring_ok_def kBuffers_def)
  have "map (\<lambda>i. take ((ar_lens r)[?c := ar_fill r] ! i) (ar_data r ! i)) (ar_out r) = map (\<lambda>i. take (ar_lens r ! i) (ar_data r ! i)) (ar_out r)"
    using lens by simp
  then have heard: "ring_heard ?s = ring_heard r" using c by (simp add: ring_heard_def queued_def del: map_eq_conv)
  have "ring_send r = wait_free ((?c + 1) mod kBuffers) ?s" using False by (simp add: ring_send_def Let_def)
  then show ?thesis
    using wait_keeps [OF ok, of "(?c + 1) mod kBuffers"] heard by (simp add: ring_inv_def kFrames_def)
qed

lemma fill_keeps:
  assumes "ring_inv r" "k = min (length fs) (kFrames - ar_fill r)" "d = ar_data r ! ar_cur r"
    and "s = r\<lparr>ar_data := (ar_data r)[ar_cur r := take (ar_fill r) d @ take k fs @ drop (ar_fill r + k) d], ar_fill := ar_fill r + k\<rparr>"
  shows "ring_ok s \<and> ar_cur s \<notin> set (ar_out s) \<and> ar_fill s \<le> kFrames \<and> ring_heard s = ring_heard r @ take k fs"
proof -
  have r: "ring_ok r" "ar_cur r \<notin> set (ar_out r)" "ar_fill r < kFrames" using assms(1) by (simp_all add: ring_inv_def)
  have d: "length d = kFrames" using r(1) by (simp add: assms(3) ring_ok_def list_all_length)
  have k: "k \<le> length fs" "ar_fill r + k \<le> kFrames" using assms(2) r(3) by auto
  let ?d = "take (ar_fill r) d @ take k fs @ drop (ar_fill r + k) d"
  have len: "length ?d = kFrames" using d k r(3) by simp
  have ok: "ring_ok s" using r(1) len by (auto simp: assms(4) ring_ok_def list_all_length nth_list_update)
  have other: "(ar_data r)[ar_cur r := ?d] ! i = ar_data r ! i" if "i \<in> set (ar_out r)" for i
    using that r(2) by (metis nth_list_update_neq)
  have "queued s = queued r" using other by (simp add: queued_def assms(4) cong: map_cong)
  moreover have "(ar_data r)[ar_cur r := ?d] ! ar_cur r = ?d" using r(1) by (simp add: ring_ok_def)
  ultimately have "ring_heard s = ring_heard r @ take k fs" using k d r(3) by (simp add: ring_heard_def assms(3,4) min_def)
  then show ?thesis using ok r(2) k(2) by (simp add: assms(4))
qed

lemma write_frames_keeps: "ring_inv r \<Longrightarrow> ring_inv (write_frames fs r) \<and> ring_heard (write_frames fs r) = ring_heard r @ fs"
proof (induction fs r rule: write_frames.induct)
  case (1 fs r)
  show ?case
  proof (cases "fs = []")
    case True
    then show ?thesis using 1(2) by (subst (1 2) write_frames.simps) simp
  next
    case False
    then have go: "fs \<noteq> [] \<and> ar_fill r < kFrames" using 1(2) by (simp add: ring_inv_def)
    let ?k = "min (length fs) (kFrames - ar_fill r)" and ?d = "ar_data r ! ar_cur r"
    let ?s = "r\<lparr>ar_data := (ar_data r)[ar_cur r := take (ar_fill r) ?d @ take ?k fs @ drop (ar_fill r + ?k) ?d], ar_fill := ar_fill r + ?k\<rparr>"
    let ?t = "if ar_fill ?s = kFrames then ring_send ?s else ?s"
    note s = fill_keeps [OF 1(2) refl refl refl, of fs]
    have t: "ring_inv ?t \<and> ring_heard ?t = ring_heard r @ take ?k fs"
      using s send_keeps [of ?s] by (auto simp: ring_inv_def)
    have "write_frames fs r = write_frames (drop ?k fs) ?t" using go by (subst write_frames.simps) (simp add: Let_def)
    then show ?thesis using 1(1) [OF go refl refl refl] t by simp
  qed
qed

interpretation ring: audio_sink ring_write ring_idle ring_heard ring_inv
proof
  fix r :: audio_ring and fs
  assume r: "ring_inv r"
  then have dev: "ar_dev r" and "ring_ok r" "ar_cur r \<notin> set (ar_out r)" "ar_fill r \<le> kFrames" by (simp_all add: ring_inv_def ring_ok_def)
  note send = send_keeps [OF this(2-4)]
  show "ring_inv (ring_write fs r)" "ring_heard (ring_write fs r) = ring_heard r @ fs"
    using write_frames_keeps [OF r, of fs] dev by (simp_all add: ring_write_def)
  show "ring_inv (ring_idle r)" "ring_heard (ring_idle r) = ring_heard r"
    using send dev by (simp_all add: ring_idle_def)
qed

section \<open>The sound comes out whole\<close>

datatype ring_event = Sink sink_call | Finished

fun ring_step :: "ring_event \<Rightarrow> audio_ring \<Rightarrow> audio_ring" where
  "ring_step (Sink c) r = ring.pass_call c r"
| "ring_step Finished r = device_done r"

fun event_sound :: "ring_event \<Rightarrow> stereo_frame list" where
  "event_sound (Sink c) = call_sound c"
| "event_sound Finished = []"

lemma step_heard: "ring_inv r \<Longrightarrow> ring_inv (ring_step e r) \<and> ring_heard (ring_step e r) = ring_heard r @ event_sound e"
proof (cases e)
  case Finished
  assume "ring_inv r"
  then show ?thesis using done_keeps [of r] by (auto simp: Finished ring_inv_def)
qed (simp add: ring.call_heard)

lemma steps_heard:
  "ring_inv r \<Longrightarrow> ring_inv (fold ring_step es r) \<and> ring_heard (fold ring_step es r) = ring_heard r @ concat (map event_sound es)"
  by (induction es arbitrary: r) (simp_all add: step_heard)

lemma opened: "ring_open True r = (True, s) \<Longrightarrow> ring_inv s \<and> ring_heard s = ar_played s"
  by (auto simp: ring_open_def ring_close_def new_ring_def ring_inv_def ring_ok_def ring_heard_def queued_def kBuffers_def kFrames_def
      list_all_length)

lemma sum_at_most: "\<forall>x\<in>set xs. f x \<le> (n :: nat) \<Longrightarrow> sum_list (map f xs) \<le> length xs * n"
  by (induction xs) auto

lemma waiting_bound: "ring_inv r \<Longrightarrow> length (ring_heard r) < length (ar_played r) + kBuffers * kFrames"
proof -
  assume r: "ring_inv r"
  have "set (ar_out r) \<subseteq> {..<kBuffers} - {ar_cur r}" "distinct (ar_out r)" "ar_cur r \<in> {..<kBuffers}"
    using r by (auto simp: ring_inv_def ring_ok_def)
  then have "length (ar_out r) \<le> kBuffers - 1"
    by (metis card_Diff_singleton card_lessThan card_mono distinct_card finite_Diff finite_lessThan)
  moreover have "length (queued r) \<le> length (ar_out r) * kFrames"
    using r by (auto simp: queued_def length_concat o_def ring_inv_def ring_ok_def intro!: sum_at_most)
  ultimately have "length (queued r) \<le> (kBuffers - 1) * kFrames" by (meson le_trans mult_le_mono1)
  moreover have "ar_fill r < kFrames" using r by (simp add: ring_inv_def)
  ultimately show ?thesis by (simp add: ring_heard_def kBuffers_def)
qed

lemma waits_empty:
  assumes "ring_ok r"
  shows "ring_ok (fold wait_free is r) \<and> ring_heard (fold wait_free is r) = ring_heard r \<and>
    set (ar_out (fold wait_free is r)) \<subseteq> set (ar_out r) - set is \<and> ar_fill (fold wait_free is r) = ar_fill r"
  using assms
proof (induction "is" arbitrary: r)
  case (Cons i "is")
  then show ?case using Cons.IH [of "wait_free i r"] wait_keeps [of r i] by auto
qed simp

lemma end_plays: "ring_inv r \<Longrightarrow> ar_played (ring_end r) = ring_heard r"
proof -
  assume r: "ring_inv r"
  then have "ar_dev r" "ring_ok r" "ar_cur r \<notin> set (ar_out r)" "ar_fill r \<le> kFrames" by (simp_all add: ring_inv_def ring_ok_def)
  note send = send_keeps [OF this(2-4)]
  let ?e = "fold wait_free [0..<kBuffers] (ring_send r)"
  have e: "ring_heard ?e = ring_heard r" "set (ar_out ?e) \<subseteq> set (ar_out (ring_send r)) - set [0..<kBuffers]" "ar_fill ?e = 0"
    using waits_empty [of "ring_send r" "[0..<kBuffers]"] send by (simp_all add: ring_inv_def)
  moreover have "set (ar_out (ring_send r)) \<subseteq> set [0..<kBuffers]" using send by (auto simp: ring_inv_def ring_ok_def)
  ultimately have "set (ar_out ?e) = {}" by (metis Diff_eq_empty_iff subset_empty)
  then have "ar_out ?e = []" by (simp only: set_empty)
  then show ?thesis using e(1,3) \<open>ar_dev r\<close> by (simp add: ring_end_def ring_heard_def queued_def)
qed

text \<open>C24. The sound comes out whole: for any calls of the music card on an opened ring, whenever the device finishes its
  buffers, what it has played is a beginning of what was written, in order and unchanged; less than six buffers of 2048
  frames are waiting (at most 12287 frames, 0.256 seconds at the card's 48000 a second); and closing plays the rest.\<close>
theorem sound_comes_out:
  assumes "ring_open True r = (True, s)" "e = fold ring_step es s"
  shows "prefix (ar_played e) (ar_played s @ concat (map event_sound es)) \<and>
    length (ar_played s @ concat (map event_sound es)) < length (ar_played e) + kBuffers * kFrames \<and>
    ar_played (ring_end e) = ar_played s @ concat (map event_sound es)"
proof -
  have s: "ring_inv s" "ring_heard s = ar_played s" using opened [OF assms(1)] by blast+
  then have e: "ring_inv e" "ring_heard e = ar_played s @ concat (map event_sound es)"
    using steps_heard [OF s(1), of es] by (simp_all add: assms(2))
  then show ?thesis using waiting_bound [OF e(1)] end_plays [OF e(1)] e(2) by (simp add: ring_heard_def prefix_def) metis
qed

theorem sound_comes_out_witness:
  "ar_played (ring_end (fold ring_step [Sink (Frames 2 [1, 2, 3, 4]), Finished, Sink Idle, Sink (Frames 1 [5, 6])]
     (snd (ring_open True new_ring)))) = [(1, 2), (3, 4), (5, 6)]"
proof -
  have "ring_open True new_ring = (True, snd (ring_open True new_ring))" by (simp add: ring_open_def)
  moreover have "ar_played (snd (ring_open True new_ring)) = []" by (simp add: ring_open_def ring_close_def ring_end_def new_ring_def)
  ultimately show ?thesis
    using sound_comes_out [of new_ring _ _ "[Sink (Frames 2 [1, 2, 3, 4]), Finished, Sink Idle, Sink (Frames 1 [5, 6])]", OF _ refl]
    by (simp add: call_sound_def)
qed

end
