(* ===== verification/Disk_Image.thy ===== *)
theory Disk_Image
  imports Fat16_Paths Srec "HOL-Library.List_Lexorder" "HOL-Library.Char_ord"
begin

text \<open>
  \<^verbatim>\<open>simulator/tools/mkdiskimg.cpp\<close>, the program that builds the disk of the machine: its options, the header it
  gives to a program, the files it collects (DOS for the reserved sectors, the programs of \<^verbatim>\<open>/CMD\<close>, a folder of
  the host, and with \<^verbatim>\<open>--sources\<close> the tables of \<^verbatim>\<open>simulator/include/pugputer/demo_sources.hpp\<close>), and the image.
  The host's files and folders are functions from paths; the messages are not modelled.
\<close>

unbundle bit_operations_syntax

section \<open>Where BASIC lives\<close>

definition kBasicLoad :: u16 where "kBasicLoad = 0xB400"
definition kBasicEntry :: u16 where "kBasicEntry = 0xC000"
definition kBasicImageSize :: nat where "kBasicImageSize = 0xF000 - unat kBasicLoad"
definition kBasicComSize :: nat where "kBasicComSize = kBasicImageSize + 8"

section \<open>The tables of the demo disk\<close>

definition kDemoSources :: "(string \<times> string) list" where
  "kDemoSources =
    [(''demo/sources/README.TXT'', ''ASM/README.TXT''), (''bios/defines.d'', ''ASM/DEFINES.D''),
     (''shell/shell.asm'', ''ASM/SHELL.ASM''), (''edit/edit.asm'', ''ASM/EDIT.ASM''),
     (''utils/hexdump.asm'', ''ASM/HEXDUMP.ASM''), (''utils/move.asm'', ''ASM/MOVE.ASM''),
     (''basic309/exbasrom309.asm'', ''ASM/BASIC.ASM''), (''demo/sources/BASICCOM.ASM'', ''ASM/BASICCOM.ASM''),
     (''bios/defines.d'', ''ASM/ASMLINK/DEFINES.D''), (''asmlink/asm.asm'', ''ASM/ASMLINK/ASM.ASM''),
     (''asmlink/link.asm'', ''ASM/ASMLINK/LINK.ASM''), (''asmlink/pa_util.asm'', ''ASM/ASMLINK/PA_UTIL.ASM''),
     (''asmlink/pa_heap.asm'', ''ASM/ASMLINK/PA_HEAP.ASM''), (''asmlink/pa_io.asm'', ''ASM/ASMLINK/PA_IO.ASM''),
     (''asmlink/pa_strm.asm'', ''ASM/ASMLINK/PA_STRM.ASM''), (''asmlink/pa_sym.asm'', ''ASM/ASMLINK/PA_SYM.ASM''),
     (''asmlink/pa_expr.asm'', ''ASM/ASMLINK/PA_EXPR.ASM''), (''asmlink/pa_line.asm'', ''ASM/ASMLINK/PA_LINE.ASM''),
     (''asmlink/pa_insn.asm'', ''ASM/ASMLINK/PA_INSN.ASM''), (''asmlink/pa_dir.asm'', ''ASM/ASMLINK/PA_DIR.ASM''),
     (''asmlink/pa_out.asm'', ''ASM/ASMLINK/PA_OUT.ASM''), (''asmlink/pa_obj.asm'', ''ASM/ASMLINK/PA_OBJ.ASM''),
     (''asmlink/pa_itab.asm'', ''ASM/ASMLINK/PA_ITAB.ASM''), (''vidcard/vidcard.d'', ''ASM/VIDCARD.D''),
     (''vidcard/vidcard.d'', ''ASM/VIDEO/VIDCARD.D''), (''vidcard/README.md'', ''ASM/VIDEO/VIDCARD.TXT''),
     (''gamekit/tilekit.asm'', ''ASM/GAMEKIT/TILEKIT.ASM''), (''gamekit/tk_draw.asm'', ''ASM/GAMEKIT/TK_DRAW.ASM''),
     (''gamekit/tk_file.asm'', ''ASM/GAMEKIT/TK_FILE.ASM''), (''gamekit/tk_map.asm'', ''ASM/GAMEKIT/TK_MAP.ASM''),
     (''gamekit/tk_src.asm'', ''ASM/GAMEKIT/TK_SRC.ASM''), (''gamekit/tk_ini.asm'', ''ASM/GAMEKIT/TK_INI.ASM''),
     (''gamekit/tk_layer.asm'', ''ASM/GAMEKIT/TK_LAYER.ASM''), (''gamekit/tk_ldlg.asm'', ''ASM/GAMEKIT/TK_LDLG.ASM''),
     (''gamekit/tk_proj.asm'', ''ASM/GAMEKIT/TK_PROJ.ASM''), (''gamekit/gk_ui.asm'', ''ASM/GAMEKIT/GK_UI.ASM''),
     (''bios/defines.d'', ''ASM/GAMEKIT/DEFINES.D''), (''vidcard/vidcard.d'', ''ASM/GAMEKIT/VIDCARD.D''),
     (''gamekit/README.md'', ''ASM/GAMEKIT/README.TXT'')]"

definition kDemoPrograms :: "(string \<times> string \<times> u16) list" where
  "kDemoPrograms =
    [(''demo/build/vgmonkey.bin'', ''DEMO/VGMONKEY.COM'', 0x4000),
     (''demo/build/vgxwingf.bin'', ''DEMO/VGXWINGF.COM'', 0x4000),
     (''demo/build/vgmplay.bin'', ''DEMO/VGMPLAY/VGMPLAY.COM'', 0x4000),
     (''demo/build/viddemo.bin'', ''DEMO/VIDDEMO.COM'', 0x4000),
     (''demo/build/vidtext.bin'', ''DEMO/VIDTEXT.COM'', 0x4000),
     (''demo/build/vidtiles.bin'', ''DEMO/VIDTILES.COM'', 0x4000),
     (''demo/build/vidgfx.bin'', ''DEMO/VIDGFX.COM'', 0x4000),
     (''demo/build/vidmouse.bin'', ''DEMO/VIDMOUSE.COM'', 0x4000),
     (''demo/build/mandel.bin'', ''DEMO/MANDEL.COM'', 0x4000)]"

definition kDemoFiles :: "(string \<times> string) list" where
  "kDemoFiles =
    [(''demo/vgm/HAL9000.VGM'', ''DEMO/VGMPLAY/HAL9000.VGM''), (''demo/vgm/JFK.VGM'', ''DEMO/VGMPLAY/JFK.VGM''),
     (''demo/vgm/WILHELM.VGM'', ''DEMO/VGMPLAY/WILHELM.VGM'')]"

section \<open>Names\<close>

text \<open>\<^verbatim>\<open>std::filesystem::path::stem\<close> and \<^verbatim>\<open>extension\<close> (with its dot) of one part of a path.\<close>

definition part_ext :: "string \<Rightarrow> string" where
  "part_ext s =
    (let ext = rev (takeWhile (\<lambda>c. c \<noteq> CHR ''.'') (rev s))
     in if s = ''.'' \<or> s = ''..'' \<or> CHR ''.'' \<notin> set s \<or> length s = length ext + 1 then '''' else CHR ''.'' # ext)"

definition part_stem :: "string \<Rightarrow> string" where
  "part_stem s = take (length s - length (part_ext s)) s"

definition is_8_3 :: "string \<Rightarrow> bool" where
  "is_8_3 s \<longleftrightarrow> part_stem s \<noteq> '''' \<and> length (part_stem s) \<le> 8 \<and> length (part_ext s) \<le> 4"

text \<open>A path relative to the folder that is added, in its parts; paths are ordered part by part.\<close>

datatype rel_path = Path (parts: "string list")

definition path_le :: "rel_path \<Rightarrow> rel_path \<Rightarrow> bool" where
  "path_le p q \<longleftrightarrow> parts p \<le> parts q"

definition path_less :: "rel_path \<Rightarrow> rel_path \<Rightarrow> bool" where
  "path_less p q \<longleftrightarrow> parts p < parts q"

instantiation rel_path :: linorder
begin

definition less_eq_rel_path :: "rel_path \<Rightarrow> rel_path \<Rightarrow> bool" where
  "less_eq_rel_path = path_le"

definition less_rel_path :: "rel_path \<Rightarrow> rel_path \<Rightarrow> bool" where
  "less_rel_path = path_less"

instance
  by standard (auto simp: less_eq_rel_path_def less_rel_path_def path_le_def path_less_def intro: rel_path.expand)

end

fun slashed :: "string list \<Rightarrow> string" where
  "slashed [] = ''''"
| "slashed [s] = s"
| "slashed (s # ss) = s @ CHR ''/'' # slashed ss"

section \<open>Options\<close>

text \<open>The programs of \<^verbatim>\<open>/CMD\<close> with headers of their own: option, file, name on the disk.\<close>

record disk_options =
  dk_dos :: string
  dk_basic :: string
  dk_shell :: string
  dk_out :: string
  dk_add_dir :: string
  dk_sources :: string
  dk_programs :: "(string \<times> string \<times> string) list"

definition program_table :: "(string \<times> string) list" where
  "program_table = [(''--edit'', ''EDIT.COM''), (''--asm'', ''ASM.COM''), (''--link'', ''LINK.COM''), (''--hexdump'', ''HEXDUMP.COM''),
     (''--move'', ''MOVE.COM''), (''--tilekit'', ''TILEKIT.COM''), (''--tilekit-ini'', ''TILEKIT.INI'')]"

text \<open>\<open>config\<close> gives the paths the build was configured with.\<close>

definition disk_defaults :: "(string \<Rightarrow> string) \<Rightarrow> disk_options" where
  "disk_defaults config = \<lparr>dk_dos = config ''--dos'', dk_basic = config ''--basic'', dk_shell = config ''--shell'',
     dk_out = config ''--out'', dk_add_dir = '''', dk_sources = '''',
     dk_programs = map (\<lambda>(opt, name). (opt, config opt, name)) program_table\<rparr>"

text \<open>The loop over the programs for the argument \<open>a\<close>: a match takes the next argument, and the loop goes on with it.\<close>

fun try_programs :: "(string \<times> string \<times> string) list \<Rightarrow> string \<Rightarrow> string list \<Rightarrow> bool \<times> (string \<times> string \<times> string) list \<times> string list" where
  "try_programs [] a as = (False, [], as)"
| "try_programs ((opt, path, name) # ps) a as =
    (if a = opt \<and> as \<noteq> []
     then case try_programs ps (hd as) (tl as) of (_, qs, rest) \<Rightarrow> (True, (opt, hd as, name) # qs, rest)
     else case try_programs ps a as of (hit, qs, rest) \<Rightarrow> (hit, (opt, path, name) # qs, rest))"

lemma try_programs_rest: "try_programs ps a as = (hit, qs, rest) \<Longrightarrow> length rest \<le> length as"
  by (induction ps a as arbitrary: hit qs rest rule: try_programs.induct) (fastforce split: if_splits prod.splits)+

function disk_args :: "string list \<Rightarrow> disk_options \<Rightarrow> disk_options" where
  "disk_args [] opts = opts"
| "disk_args (a # as) opts =
    (case try_programs (dk_programs opts) a as of
       (hit, ps, rest) \<Rightarrow>
         if hit then disk_args rest (opts\<lparr>dk_programs := ps\<rparr>)
         else if a = ''--dos'' \<and> as \<noteq> [] then disk_args (tl as) (opts\<lparr>dk_dos := hd as\<rparr>)
         else if a = ''--basic'' \<and> as \<noteq> [] then disk_args (tl as) (opts\<lparr>dk_basic := hd as\<rparr>)
         else if a = ''--shell'' \<and> as \<noteq> [] then disk_args (tl as) (opts\<lparr>dk_shell := hd as\<rparr>)
         else if a = ''--add-dir'' \<and> as \<noteq> [] then disk_args (tl as) (opts\<lparr>dk_add_dir := hd as\<rparr>)
         else if a = ''--sources'' \<and> as \<noteq> [] then disk_args (tl as) (opts\<lparr>dk_sources := hd as\<rparr>)
         else if a = ''--out'' \<and> as \<noteq> [] then disk_args (tl as) (opts\<lparr>dk_out := hd as\<rparr>)
         else disk_args as opts)"
  by pat_completeness auto
termination
  by (relation "measure (\<lambda>(as, _). length as)") (auto simp: less_Suc_eq_le dest: try_programs_rest [OF sym])

declare disk_args.simps(2) [simp del]

section \<open>The files\<close>

datatype disk_error = Cannot_open string | Cannot_load string | Not_built fat16_error

text \<open>\<open>host\<close> gives the bytes of a file, if it can be opened.\<close>

definition host_file :: "(string \<Rightarrow> u8 list option) \<Rightarrow> string \<Rightarrow> disk_error + u8 list" where
  "host_file host path = (case host path of None \<Rightarrow> Inl (Cannot_open path) | Some bytes \<Rightarrow> Inr bytes)"

definition and_then :: "'e + 'a \<Rightarrow> ('a \<Rightarrow> 'e + 'b) \<Rightarrow> 'e + 'b" where
  "and_then r f = (case r of Inl e \<Rightarrow> Inl e | Inr x \<Rightarrow> f x)"

definition program_header :: "u16 \<Rightarrow> u16 \<Rightarrow> u8 list" where
  "program_header load entry = [0x50, 0x58, hi8 load, lo8 load, hi8 entry, lo8 entry, 0, 0]"

text \<open>Files to add: where they are, their names on the disk, and the header put before them.\<close>

fun add_files :: "(string \<Rightarrow> u8 list option) \<Rightarrow> (string \<times> string \<times> u8 list) list \<Rightarrow> disk_error + fat16_file list" where
  "add_files host [] = Inr []"
| "add_files host ((path, name, header) # fs) =
    and_then (host_file host path) (\<lambda>bytes.
      and_then (add_files host fs) (\<lambda>files. Inr (\<lparr>ff_name = name, ff_data = header @ bytes\<rparr> # files)))"

definition basic_com :: "(string \<Rightarrow> string option) \<Rightarrow> string \<Rightarrow> disk_error + u8 list" where
  "basic_com text path =
    (let r = load_srec_file (text path) (replicate 65536 0)
     in if \<not> res_ok r then Inl (Cannot_load path)
        else Inr (program_header kBasicLoad kBasicEntry @ take kBasicImageSize (drop (unat kBasicLoad) (sr_mem (res_state r)))))"

definition cmd_files :: "disk_options \<Rightarrow> (string \<times> string \<times> u8 list) list" where
  "cmd_files opts = map (\<lambda>(_, path, name). (path, ''CMD/'' @ name, [])) (dk_programs opts)"

text \<open>A path under a folder, whose name is not empty. \<open>folder\<close> gives the regular files under one, in any order.\<close>

definition under :: "string \<Rightarrow> string \<Rightarrow> string" where
  "under dir path = (if last dir = CHR ''/'' then dir @ path else dir @ CHR ''/'' # path)"

definition folder_files :: "(string \<Rightarrow> rel_path list) \<Rightarrow> disk_options \<Rightarrow> (string \<times> string \<times> u8 list) list" where
  "folder_files folder opts =
    (if dk_add_dir opts = '''' then []
     else map (\<lambda>p. (under (dk_add_dir opts) (slashed (parts p)), slashed (parts p), []))
       (filter (\<lambda>p. list_all is_8_3 (parts p)) (sort (folder (dk_add_dir opts)))))"

definition source_files :: "disk_options \<Rightarrow> (string \<times> string \<times> u8 list) list" where
  "source_files opts =
    (if dk_sources opts = '''' then []
     else let at = under (dk_sources opts)
       in map (\<lambda>(repo, disk). (at repo, disk, [])) kDemoSources @
          map (\<lambda>(repo, disk, load). (at repo, disk, program_header load load)) kDemoPrograms @
          map (\<lambda>(repo, disk). (at repo, disk, [])) kDemoFiles)"

definition disk_files :: "(string \<Rightarrow> u8 list option) \<Rightarrow> (string \<Rightarrow> string option) \<Rightarrow> (string \<Rightarrow> rel_path list) \<Rightarrow> disk_options \<Rightarrow>
    disk_error + u8 list \<times> fat16_file list" where
  "disk_files host text folder opts =
    and_then (host_file host (dk_dos opts)) (\<lambda>dos.
    and_then (host_file host (dk_shell opts)) (\<lambda>shell.
    and_then (basic_com text (dk_basic opts)) (\<lambda>basic.
    and_then (add_files host (cmd_files opts @ folder_files folder opts @ source_files opts)) (\<lambda>files.
      Inr (dos, \<lparr>ff_name = ''CMD/SHELL.COM'', ff_data = shell\<rparr> # \<lparr>ff_name = ''CMD/BASIC.COM'', ff_data = basic\<rparr> # files)))))"

text \<open>\<open>opens\<close> and \<open>writes\<close> say whether the image file can be opened and written; \<open>None\<close> is undefined behaviour of the
  builder.\<close>

definition mkdiskimg :: "bool \<Rightarrow> bool \<Rightarrow> (string \<Rightarrow> u8 list option) \<Rightarrow> (string \<Rightarrow> string option) \<Rightarrow> (string \<Rightarrow> rel_path list) \<Rightarrow>
    (string \<Rightarrow> string) \<Rightarrow> string list \<Rightarrow> (disk_error + u8 list) option" where
  "mkdiskimg opens writes host text folder config args =
    (case disk_files host text folder (disk_args args (disk_defaults config)) of
       Inl e \<Rightarrow> Some (Inl e)
     | Inr (dos, files) \<Rightarrow> map_option (map_sum Not_built id) (build_fat16_image opens writes dos files 16384 2 512 2))"

section \<open>What the disk holds\<close>

definition fixed_names :: "string list" where
  "fixed_names = ''CMD/SHELL.COM'' # ''CMD/BASIC.COM'' # map (\<lambda>(_, name). ''CMD/'' @ name) program_table"

definition demo_names :: "string list" where
  "demo_names = map snd kDemoSources @ map (\<lambda>(_, name, _). name) kDemoPrograms @ map snd kDemoFiles"

lemma names_fit: "list_all (\<lambda>n. list_all is_8_3 (name_parts n)) (fixed_names @ demo_names)"
  by code_simp

lemma names_distinct: "distinct (fixed_names @ demo_names)"
  by code_simp

text \<open>The options change paths, never the names on the disk.\<close>

lemma try_programs_names:
  "try_programs ps a as = (hit, qs, rest) \<Longrightarrow> map (\<lambda>(_, _, name). name) qs = map (\<lambda>(_, _, name). name) ps"
  by (induction ps a as arbitrary: hit qs rest rule: try_programs.induct) (fastforce split: if_splits prod.splits)+

lemma disk_args_names:
  "map (\<lambda>(_, _, name). name) (dk_programs (disk_args as opts)) = map (\<lambda>(_, _, name). name) (dk_programs opts)"
proof (induction as opts rule: disk_args.induct)
  case (2 a as opts)
  obtain hit ps rest where tried: "try_programs (dk_programs opts) a as = (hit, ps, rest)" by (cases "try_programs (dk_programs opts) a as")
  note IH = 2 [OF tried [symmetric] refl]
  show ?case
    using IH try_programs_names [OF tried] by (subst disk_args.simps) (auto simp: tried)
qed simp

lemma add_files_Inr:
  "add_files host fs = Inr files \<Longrightarrow>
   list_all2 (\<lambda>(path, name, header) f. \<exists>bytes. host path = Some bytes \<and> f = \<lparr>ff_name = name, ff_data = header @ bytes\<rparr>) fs files"
proof (induction fs arbitrary: files)
  case (Cons x fs)
  then show ?case by (cases x) (auto simp: and_then_def host_file_def split: sum.splits option.splits)
qed simp

lemma list_all2_map_name:
  "list_all2 (\<lambda>(path, name, header) f. \<exists>bytes. host path = Some bytes \<and> f = \<lparr>ff_name = name, ff_data = header @ bytes\<rparr>) fs files \<Longrightarrow>
   map ff_name files = map (\<lambda>(path, name, header). name) fs"
  by (induction rule: list_all2_induct) auto

lemma list_all2_in: "list_all2 P xs ys \<Longrightarrow> x \<in> set xs \<Longrightarrow> \<exists>y\<in>set ys. P x y"
  by (induction rule: list_all2_induct) auto

lemma load_keeps_size: "length (sr_mem (res_state (load_srec_file contents mem))) = length mem"
proof -
  have "length (sr_mem st') = length mem" if "length (sr_mem st) = length mem" "load_line l st = Inr st'" for l st st'
    using load_line_cases [OF that(2)] that(1) by (auto simp: apply_data_def Let_def split: if_splits)
  then have "length (sr_mem (res_state (load_lines ls 0 (new_state mem)))) = length mem" for ls
    by (intro load_lines_induct [where P = "\<lambda>st. length (sr_mem st) = length mem"]) (simp_all add: new_state_def)
  then show ?thesis by (simp add: load_srec_file_def new_state_def split: option.split)
qed

lemma disk_files_Inr:
  assumes "disk_files host text folder opts = Inr (dos, files)"
  shows "\<exists>shell basic more. host (dk_dos opts) = Some dos \<and> host (dk_shell opts) = Some shell \<and> basic_com text (dk_basic opts) = Inr basic \<and>
    add_files host (cmd_files opts @ folder_files folder opts @ source_files opts) = Inr more \<and>
    files = \<lparr>ff_name = ''CMD/SHELL.COM'', ff_data = shell\<rparr> # \<lparr>ff_name = ''CMD/BASIC.COM'', ff_data = basic\<rparr> # more"
  using assms by (auto simp: disk_files_def and_then_def host_file_def split: sum.splits option.splits)

lemma all_names:
  assumes "disk_files host text folder (disk_args args (disk_defaults config)) = Inr (dos, files)"
    and "dk_add_dir (disk_args args (disk_defaults config)) = ''''"
  shows "map ff_name files = fixed_names @ (if dk_sources (disk_args args (disk_defaults config)) = '''' then [] else demo_names)"
proof -
  let ?o = "disk_args args (disk_defaults config)"
  obtain shell basic more where files: "files = \<lparr>ff_name = ''CMD/SHELL.COM'', ff_data = shell\<rparr> # \<lparr>ff_name = ''CMD/BASIC.COM'', ff_data = basic\<rparr> # more"
    and more: "add_files host (cmd_files ?o @ folder_files folder ?o @ source_files ?o) = Inr more"
    using disk_files_Inr [OF assms(1)] by blast
  have "map (\<lambda>(_, _, name). name) (dk_programs ?o) = map snd program_table"
    unfolding disk_args_names by (simp add: disk_defaults_def case_prod_beta')
  then have "map ((@) ''CMD/'') (map (\<lambda>(_, _, name). name) (dk_programs ?o)) = map ((@) ''CMD/'') (map snd program_table)" by simp
  then have cmd: "map (\<lambda>(path, name, header). name) (cmd_files ?o) = map (\<lambda>(_, name). ''CMD/'' @ name) program_table"
    by (simp add: cmd_files_def case_prod_beta' o_def)
  have src: "map (\<lambda>(path, name, header). name) (source_files ?o) = (if dk_sources ?o = '''' then [] else demo_names)"
    by (simp add: source_files_def demo_names_def Let_def case_prod_beta' o_def)
  show ?thesis
    using list_all2_map_name [OF add_files_Inr [OF more]] cmd src assms(2)
    by (simp add: files fixed_names_def folder_files_def)
qed

text \<open>C29. The disk holds what it should under valid names: whatever the options, a disk built without a folder of the host has
  distinct 8.3 names, every program of \<^verbatim>\<open>/CMD\<close> is the file its option names, and \<^verbatim>\<open>BASIC.COM\<close> has the header that says
  where it is loaded and started, followed by what the S-record file put at each address from there to \<^verbatim>\<open>$EFFF\<close>.\<close>
theorem disk_holds_files:
  assumes "disk_files host text folder opts = Inr (dos, files)" "opts = disk_args args (disk_defaults config)" "dk_add_dir opts = ''''"
  shows "distinct (map ff_name files) \<and> (\<forall>f\<in>set files. list_all is_8_3 (name_parts (ff_name f))) \<and>
    (\<forall>(opt, path, name)\<in>set (dk_programs opts). \<exists>bytes. host path = Some bytes \<and>
       \<lparr>ff_name = ''CMD/'' @ name, ff_data = bytes\<rparr> \<in> set files) \<and>
    (\<exists>com. \<lparr>ff_name = ''CMD/BASIC.COM'', ff_data = com\<rparr> \<in> set files \<and> length com = kBasicComSize \<and>
       take 8 com = program_header kBasicLoad kBasicEntry \<and>
       (\<forall>a. unat kBasicLoad \<le> a \<and> a < 0xF000 \<longrightarrow> com ! (8 + (a - unat kBasicLoad)) =
          sr_mem (res_state (load_srec_file (text (dk_basic opts)) (replicate 65536 0))) ! a))"
proof -
  obtain shell basic more where com: "basic_com text (dk_basic opts) = Inr basic"
    and more: "add_files host (cmd_files opts @ folder_files folder opts @ source_files opts) = Inr more"
    and files: "files = \<lparr>ff_name = ''CMD/SHELL.COM'', ff_data = shell\<rparr> # \<lparr>ff_name = ''CMD/BASIC.COM'', ff_data = basic\<rparr> # more"
    using disk_files_Inr [OF assms(1)] by blast
  have names: "\<exists>ns. map ff_name files @ ns = fixed_names @ demo_names"
    using all_names [OF assms(1,3) [unfolded assms(2)]] by auto
  have "distinct (map ff_name files)" using names names_distinct by (metis distinct_append)
  moreover have "list_all (\<lambda>n. list_all is_8_3 (name_parts n)) (map ff_name files)"
    using names names_fit by (metis list_all_append)
  then have "\<forall>f\<in>set files. list_all is_8_3 (name_parts (ff_name f))" by (simp add: list_all_iff)
  moreover have "\<exists>bytes. host path = Some bytes \<and> \<lparr>ff_name = ''CMD/'' @ name, ff_data = bytes\<rparr> \<in> set files"
    if "(opt, path, name) \<in> set (dk_programs opts)" for opt path name
  proof -
    have "(path, ''CMD/'' @ name, []) \<in> set (cmd_files opts)" using that by (force simp: cmd_files_def)
    then have "(path, ''CMD/'' @ name, []) \<in> set (cmd_files opts @ folder_files folder opts @ source_files opts)" by simp
    from list_all2_in [OF add_files_Inr [OF more] this] show ?thesis by (auto simp: files)
  qed
  moreover
  let ?mem = "sr_mem (res_state (load_srec_file (text (dk_basic opts)) (replicate 65536 0)))"
  have basic: "basic = program_header kBasicLoad kBasicEntry @ take kBasicImageSize (drop (unat kBasicLoad) ?mem)" "length ?mem = 65536"
    using com by (auto simp: basic_com_def Let_def load_keeps_size split: if_splits)
  then have "length basic = kBasicComSize \<and> take 8 basic = program_header kBasicLoad kBasicEntry"
    by (simp add: program_header_def kBasicComSize_def kBasicImageSize_def kBasicLoad_def)
  moreover have "basic ! (8 + (a - unat kBasicLoad)) = ?mem ! a" if "unat kBasicLoad \<le> a" "a < 0xF000" for a
    using that basic by (simp add: program_header_def kBasicImageSize_def kBasicLoad_def nth_append)
  ultimately show ?thesis by (auto simp: files)
qed

theorem disk_holds_files_witness:
  "\<exists>files. disk_files (\<lambda>_. Some [1, 2]) (\<lambda>_. Some '''') (\<lambda>_. []) (disk_args [''--edit'', ''e.bin''] (disk_defaults (\<lambda>opt. opt))) =
     Inr ([1, 2], files) \<and> distinct (map ff_name files) \<and> \<lparr>ff_name = ''CMD/EDIT.COM'', ff_data = [1, 2]\<rparr> \<in> set files"
proof -
  let ?o = "disk_args [''--edit'', ''e.bin''] (disk_defaults (\<lambda>opt. opt))"
  have o: "dk_add_dir ?o = ''''" "dk_sources ?o = ''''" "(''--edit'', ''e.bin'', ''EDIT.COM'') \<in> set (dk_programs ?o)"
    by (simp_all add: disk_args.simps disk_defaults_def program_table_def)
  have add: "\<exists>files. add_files (\<lambda>_. Some [1, 2]) fs = Inr files" for fs
    by (induction fs) (auto simp: and_then_def host_file_def)
  have "res_ok (load_srec_file (Some '''') (replicate 65536 0))"
    by (simp add: load_srec_file_def getlines.simps newline_def load_line_def rstrip_def is_trailing_def)
  then obtain basic where basic: "basic_com (\<lambda>_. Some '''') (dk_basic ?o) = Inr basic" by (auto simp: basic_com_def Let_def)
  obtain more where more: "add_files (\<lambda>_. Some [1, 2]) (cmd_files ?o @ folder_files (\<lambda>_. []) ?o @ source_files ?o) = Inr more"
    using add by blast
  have "\<exists>files. disk_files (\<lambda>_. Some [1, 2]) (\<lambda>_. Some '''') (\<lambda>_. []) ?o = Inr ([1, 2], files)"
    by (simp only: disk_files_def and_then_def host_file_def option.case sum.case basic more [unfolded and_then_def host_file_def]) blast
  then obtain files where files: "disk_files (\<lambda>_. Some [1, 2]) (\<lambda>_. Some '''') (\<lambda>_. []) ?o = Inr ([1, 2], files)" by blast
  show ?thesis using disk_holds_files [OF files refl o(1)] o(3) files by auto
qed

text \<open>The value of an option is compared with the options of the programs that come after it: it is taken for one of them.\<close>

lemma option_value_taken:
  "dk_programs (disk_args [''--edit'', ''--asm'', ''a.bin''] (disk_defaults config)) =
     (''--edit'', ''--asm'', ''EDIT.COM'') # (''--asm'', ''a.bin'', ''ASM.COM'') # drop 2 (dk_programs (disk_defaults config))"
  by (simp add: disk_args.simps disk_defaults_def program_table_def)

section \<open>The disk read back\<close>

definition empty_file :: "string \<Rightarrow> fat16_file" where
  "empty_file name = \<lparr>ff_name = name, ff_data = []\<rparr>"

text \<open>Where the files go depends on their names only.\<close>

lemma place_files_names: "place_files files = place_files (map (empty_file o ff_name) files)"
proof -
  have "fold (\<lambda>f (placed, dirs). case place_file 0 (ff_name f) dirs of (p, dirs) \<Rightarrow> (placed @ [p], dirs)) files s =
      fold (\<lambda>f (placed, dirs). case place_file 0 (ff_name f) dirs of (p, dirs) \<Rightarrow> (placed @ [p], dirs)) (map (empty_file o ff_name) files) s" for s
    by (induction files arbitrary: s) (simp_all add: empty_file_def)
  then show ?thesis by (simp add: place_files_def)
qed

lemma number_of_names: "length (fixed_names @ demo_names) \<le> 512"
  by code_simp

lemma source_names_good: "list_all good_name (map snd kDemoSources)"
  by code_simp

lemma program_names_good: "list_all good_name (fixed_names @ map (\<lambda>(_, name, _). name) kDemoPrograms @ map snd kDemoFiles)"
  by code_simp

lemma names_upper: "list_all (\<lambda>n. upper n = n) (fixed_names @ demo_names)"
  by code_simp

lemma names_good: "list_all good_name (fixed_names @ demo_names)"
  using source_names_good program_names_good by (simp add: demo_names_def)

text \<open>The names of files have a dot and those of directories have none, so no path leads through a file.\<close>

definition dotted_leaf :: "string \<Rightarrow> bool" where
  "dotted_leaf n = (let ps = name_parts n in list_ex (\<lambda>c. c = CHR ''.'') (last ps) \<and> list_all (list_all (\<lambda>c. c \<noteq> CHR ''.'')) (butlast ps))"

lemma names_dotted: "list_all dotted_leaf (fixed_names @ demo_names)"
  by code_simp

lemma names_whole: "list_all (\<lambda>n. path_of n = name_parts n) (fixed_names @ demo_names)"
  by code_simp

lemma slashed_name_parts: "slashed (name_parts s) = s"
proof (induction s)
  case (Cons c s)
  obtain p ps where "name_parts s = p # ps" by (cases "name_parts s") auto
  then show ?case using Cons by (cases ps) auto
qed simp

lemma apart_distinct:
  assumes "distinct (map ff_name files)"
    and "\<And>f. f \<in> set files \<Longrightarrow> path_of (ff_name f) = name_parts (ff_name f) \<and> dotted_leaf (ff_name f)"
  shows "distinct_paths files"
  unfolding distinct_paths_def
proof (intro allI impI notI)
  fix i j assume ij: "i < length files" "j < length files" "i \<noteq> j" "prefix (path_of (ff_name (files ! i))) (path_of (ff_name (files ! j)))"
  let ?p = "name_parts (ff_name (files ! i))" and ?q = "name_parts (ff_name (files ! j))"
  note n = assms(2) [OF nth_mem [OF ij(1)]] assms(2) [OF nth_mem [OF ij(2)]]
  obtain r where r: "?q = ?p @ r" using ij(4) n by (auto simp: prefix_def)
  show False
  proof (cases "r = []")
    case True
    then have "ff_name (files ! i) = ff_name (files ! j)" using r slashed_name_parts by (metis append_Nil2)
    then show False using assms(1) ij(1-3) by (simp add: distinct_conv_nth)
  next
    case False
    then have "last ?p \<in> set (butlast ?q)" unfolding r by (simp add: butlast_append)
    then show False using n by (auto simp: dotted_leaf_def Let_def list_all_iff list_ex_iff)
  qed
qed

text \<open>C30. The disk that is built can be read: whatever the options, a disk without a folder of the host and with a DOS of at most
  64 KiB is refused exactly if its files and directories need more clusters than there are; otherwise its image carries
  DOS from sector 1 on, mounts in the repository's reader, and every file that was collected is found there under its
  name with its bytes.\<close>
theorem disk_reads_back:
  assumes "disk_files host text folder opts = Inr (dos, files)" "opts = disk_args args (disk_defaults config)" "dk_add_dir opts = ''''"
    and "length dos \<le> 65536" "place_files files = (placed, dirs)"
  shows "if (16287 - (length dos + 511) div 512) div 2 < clusters_needed 2 (entry_counts placed dirs) files
    then mkdiskimg True True host text folder config args = Some (Inl (Not_built DoesNotFit))
    else \<exists>img v. mkdiskimg True True host text folder config args = Some (Inr img) \<and> slice 512 (length dos) img = dos \<and>
       parse_volume img = Some (Some v) \<and>
       (\<forall>f\<in>set files. \<exists>e. find_path v (ff_name f) = Some (Some e) \<and> \<not> is_dir e \<and> read_entry v e = Some (ff_data f))"
proof -
  let ?names = "map ff_name files"
  have names: "?names = fixed_names \<or> ?names = fixed_names @ demo_names" using all_names [OF assms(1,3) [unfolded assms(2)]] by auto
  then have in_names: "ff_name f \<in> set (fixed_names @ demo_names)" if "f \<in> set files" for f
    using that by (metis UnCI image_eqI list.set_map set_append)
  have good: "good_name (ff_name f)" "upper (ff_name f) = ff_name f" "path_of (ff_name f) = name_parts (ff_name f)" "dotted_leaf (ff_name f)"
    if "f \<in> set files" for f
    using in_names [OF that] names_good names_upper names_whole names_dotted unfolding list_all_iff by blast+
  have "length ?names \<le> length (fixed_names @ demo_names)" using names by (elim disjE) (simp_all only: length_append le_add1 order_refl)
  then have few: "length files \<le> 512" using number_of_names by (simp only: length_map)
  have "distinct ?names" using names names_distinct by auto
  then have "distinct_paths files" using good(3,4) by (intro apart_distinct) simp_all
  from standard_volume [OF assms(4,5) few this good(1)] show ?thesis
    using assms(1,2) good(2) by (auto simp: mkdiskimg_def split: if_splits)
qed

lemma add_files_const: "add_files (\<lambda>_. Some bs) fs = Inr (map (\<lambda>(path, name, header). \<lparr>ff_name = name, ff_data = header @ bs\<rparr>) fs)"
  by (induction fs) (auto simp: and_then_def host_file_def)

theorem disk_reads_back_witness:
  "\<exists>img v e. mkdiskimg True True (\<lambda>_. Some [1, 2]) (\<lambda>_. Some '''') (\<lambda>_. []) (\<lambda>opt. opt) [''--edit'', ''e.bin''] = Some (Inr img) \<and>
     parse_volume img = Some (Some v) \<and> find_path v ''CMD/EDIT.COM'' = Some (Some e) \<and> read_entry v e = Some [1, 2]"
proof -
  let ?o = "disk_args [''--edit'', ''e.bin''] (disk_defaults (\<lambda>opt. opt))"
  have o: "dk_add_dir ?o = ''''" "dk_sources ?o = ''''" "map (snd o snd) (dk_programs ?o) = map snd program_table"
    by (simp_all add: disk_args.simps disk_defaults_def program_table_def)
  have "res_ok (load_srec_file (Some '''') (replicate 65536 0))"
    by (simp add: load_srec_file_def getlines.simps newline_def load_line_def rstrip_def is_trailing_def)
  then obtain basic where basic: "basic_com (\<lambda>_. Some '''') (dk_basic ?o) = Inr basic" "length basic = 15368"
    using load_keeps_size [of "Some ''''" "replicate 65536 0"]
    by (auto simp: basic_com_def Let_def program_header_def kBasicImageSize_def kBasicLoad_def)
  let ?files = "\<lparr>ff_name = ''CMD/SHELL.COM'', ff_data = [1, 2]\<rparr> # \<lparr>ff_name = ''CMD/BASIC.COM'', ff_data = basic\<rparr> #
    map (\<lambda>(_, name). \<lparr>ff_name = ''CMD/'' @ name, ff_data = [1, 2]\<rparr>) program_table"
  have "cmd_files ?o @ folder_files (\<lambda>_. []) ?o @ source_files ?o = map (\<lambda>(_, path, name). (path, ''CMD/'' @ name, [])) (dk_programs ?o)"
    using o(1,2) by (simp add: cmd_files_def folder_files_def source_files_def)
  moreover have "map (\<lambda>(path, name, header). \<lparr>ff_name = name, ff_data = header @ [1, 2]\<rparr>) (map (\<lambda>(_, path, name). (path, ''CMD/'' @ name, [])) (dk_programs ?o)) =
      map (\<lambda>name. \<lparr>ff_name = ''CMD/'' @ name, ff_data = [1, 2]\<rparr>) (map (snd o snd) (dk_programs ?o))"
    by (simp add: case_prod_beta')
  ultimately have files: "disk_files (\<lambda>_. Some [1, 2]) (\<lambda>_. Some '''') (\<lambda>_. []) ?o = Inr ([1, 2], ?files)"
    using basic(1) unfolding o(3) by (simp add: disk_files_def host_file_def and_then_def add_files_const case_prod_beta' comp_def)
  have names: "map ff_name ?files = fixed_names" by (simp add: fixed_names_def case_prod_beta' comp_def)
  have "place_files (map empty_file fixed_names) = (map (\<lambda>n. (1, drop 4 n)) fixed_names, [new_dir\<lparr>fd_subdirs := [(''CMD'', 1)]\<rparr>, new_dir])"
    by code_simp
  then have placed: "place_files ?files = (map (\<lambda>n. (1, drop 4 n)) fixed_names, [new_dir\<lparr>fd_subdirs := [(''CMD'', 1)]\<rparr>, new_dir])"
    using place_files_names [of ?files] unfolding names [symmetric] map_map by simp
  have counts: "entry_counts (map (\<lambda>n. (1, drop 4 n)) fixed_names) [new_dir\<lparr>fd_subdirs := [(''CMD'', 1)]\<rparr>, new_dir] = [1, 11]"
    by code_simp
  have "clusters_needed 2 [1, 11] ?files = 25"
    using basic(2) by (simp add: clusters_needed_def clusters_for_def bytes_per_cluster_def kSectorSize_def program_table_def upt_rec)
  then obtain img v where img: "mkdiskimg True True (\<lambda>_. Some [1, 2]) (\<lambda>_. Some '''') (\<lambda>_. []) (\<lambda>opt. opt) [''--edit'', ''e.bin''] = Some (Inr img)"
    "parse_volume img = Some (Some v)"
    "\<forall>f\<in>set ?files. \<exists>e. find_path v (ff_name f) = Some (Some e) \<and> \<not> is_dir e \<and> read_entry v e = Some (ff_data f)"
    using disk_reads_back [OF files refl o(1) _ placed] unfolding counts by auto
  have "\<lparr>ff_name = ''CMD/EDIT.COM'', ff_data = [1, 2]\<rparr> \<in> set ?files" by (simp add: program_table_def)
  then show ?thesis using img by fastforce
qed

end
