(* ===== verification/Spec2Isabelle.thy ===== *)
theory Spec2Isabelle
  imports Stack Srec Video_Device Fat16_Paths Com_Port Opl3 Video_Window Host_Keys Host_Machine Audio_Out Disk_Image
begin

text \<open>
  Verification library for the Pugputer 6309 emulator: the HD6309 CPU, the machine around it, its video card, and the
  programs that build its disks and connect it to the host.

  \<^bold>\<open>The program.\<close> \<^verbatim>\<open>simulator/src/hd6309_*.cpp\<close> is a cycle-counting HD6309 with a C interface
  (\<^verbatim>\<open>simulator/include/hd6309/hd6309.h\<close>). It reaches memory through two callbacks only. \<^verbatim>\<open>SystemBus\<close>
  (\<^verbatim>\<open>simulator/src/pugputer/system_bus.cpp\<close>) provides them: it decodes an address to a memory-mapped device, to
  its own bank registers or to banked RAM, ticks the devices with the cycles each instruction took, and wires their
  interrupt requests to the CPU. The devices share the interface \<^verbatim>\<open>IDevice\<close>: a ROM, the R65C51 UART, a block
  device for disk images, the music card, and the video card, whose behaviour is the portable C of
  \<^verbatim>\<open>vidcard/core\<close>. The S-record loader reads what is assembled; the FAT16 builder writes the disk the machine boots
  from. On the host's side are the bridge from the UART to a serial port, the video window (a program of its own, at the
  other end of two pipes), the sound output, and the programs: the emulator \<^verbatim>\<open>basic309_sdboot_demo\<close>, \<^verbatim>\<open>pugrun\<close>, which
  runs commands in a machine it boots, and \<^verbatim>\<open>mkdiskimg\<close>.

  \<^bold>\<open>The theories,\<close> in the order of their imports:

  \<^item> \<open>Prelude\<close>: words and their halves, sign extension, the state monad of the CPU, shared lemmas.
  \<^item> \<open>Registers\<close> (\<^verbatim>\<open>hd6309_types.hpp\<close>), \<open>Alu\<close> (the flag and arithmetic functions of \<^verbatim>\<open>hd6309_core.cpp\<close>),
    \<open>Cpu\<close> (bus access, addressing modes, stacking, interrupts), \<open>Opcode_Macros\<close>, \<open>Opcode_Ops\<close> and \<open>Opcodes\<close>
    (\<^verbatim>\<open>hd6309_opcodes.cpp\<close>: the macros, the bodies and the three dispatch tables), \<open>Execution\<close> (step, run, reset and
    \<^verbatim>\<open>hd6309_api.cpp\<close>). \<open>Cpu_Relations\<close> and \<open>Timing\<close> hold the relational rules over the CPU's operations and
    what follows on cycles and termination.
  \<^item> \<open>Device\<close>: the interface of the devices as two locales, \<open>device_methods\<close> (what the bus relies on: the methods return and
    keep the invariant) and \<open>device_class\<close> (the classes whose methods always return), with the ROM; \<open>Uart\<close>, \<open>Sd_Card\<close>:
    the two serial devices, the first with its timing; \<open>System_Bus\<close>: decoding, banking, the machine, with the five device
    classes (ROM, UART, SD card, music card, video card) behind one datatype.
  \<^item> \<open>Stack\<close>: what is pushed is pulled, over any memory that is a \<open>memory_region\<close>; the locale is interpreted on the
    system bus and on the flat RAM of the C interface.
  \<^item> \<open>Srec\<close>: the S-record loader, and a writer it is compared with.
  \<^item> \<open>Video_Card\<close>, \<open>Video_Draw\<close>, \<open>Video_State\<close>, \<open>Video_Render\<close>: the card of \<^verbatim>\<open>vidcard/core/vc.c\<close>: its memory,
    registers and input; its drawing commands; its invariant, key queue (the locale \<open>bounded_fifo\<close>) and command
    protocol; its scanline renderer. \<open>Video_Device\<close>: the card on the bus, its beam and its frames.
  \<^item> \<open>Fat16\<close> (\<^verbatim>\<open>fat16_image.cpp\<close>: every step of the builder), \<open>Fat16_Store\<close> (what each step writes where),
    \<open>Fat16_Volume\<close> (a reader by the rules of FAT16, and what it finds); \<open>Fat16_Reader\<close> (the reader of
    \<^verbatim>\<open>tests/fat16_reader.hpp\<close>, which \<^verbatim>\<open>pugrun\<close> uses), \<open>Fat16_Tree\<close> (the tree of directories and where the files go),
    \<open>Fat16_Dirs\<close> and \<open>Fat16_Filled\<close> (the passes of the builder over that plan, and the image they leave), \<open>Fat16_Paths\<close>
    (every file found under its path).
  \<^item> \<open>Com_Port\<close> (\<^verbatim>\<open>com_port_bridge.cpp\<close>), \<open>Opl3\<close> (\<^verbatim>\<open>opl3_device.cpp\<close>: the register port, the chip's timers and the sample
    clock; the synthesizer is a parameter), \<open>Video_Window\<close> (\<^verbatim>\<open>video_out.cpp\<close> and \<^verbatim>\<open>pugputer_video.cpp\<close>: both ends of
    the pipes, and the pacing of frames), \<open>Audio_Out\<close> (\<^verbatim>\<open>audio_out.cpp\<close>, with the locale \<open>audio_sink\<close> for what the
    music card relies on).
  \<^item> \<open>Host_Keys\<close> (the emulator's options, console, and a turn of its main loop), \<open>Host_Machine\<close> (the machines the emulator and
    \<^verbatim>\<open>pugrun\<close> put together, and how \<^verbatim>\<open>pugrun\<close> drives one), \<open>Disk_Image\<close> (\<^verbatim>\<open>mkdiskimg.cpp\<close> and the tables of the demo disk).

  \<^bold>\<open>Correspondence.\<close> Each C or C++ function is a definition of the same name, state passed and returned
  explicitly; loops are recursions or folds over the list of the loop's indexes. CPU operations are in the state
  monad of \<open>Prelude\<close> over a machine \<open>'m\<close> with the two callbacks as parameters, so every theorem on the CPU holds for
  every bus. Registers, addresses and cycle totals are words of their C width; \<^verbatim>\<open>double\<close> clocks are rationals. Virtual
  calls dispatch on a datatype of devices (\<open>device\<close> in \<open>System_Bus\<close>); arrays of the video card are functions of the index,
  its theorems say that only the indexes of the arrays are written and matter; observers the program calls back (the UART's transmit callback, the
  card's frame sink) are lists of what they were given, or a record of functions.

  \<^bold>\<open>What the lemmas show.\<close> Arithmetic: the flag results equal their integer meaning (\<open>Alu\<close>). CPU: each step takes a
  bounded number of cycles and a run ends (\<open>Timing\<close>); stacking and interrupts are undone by pulls and RTI
  (\<open>Stack\<close>). Machine: every operation returns and keeps an invariant under which its accesses are in
  bounds; decoding after any mappings, banked RAM after any accesses, the interrupt wiring (\<open>System_Bus\<close>). Devices: what is sent and received, in order, once (\<open>Uart\<close>); blocks written are
  read back and errors leave the image alone (\<open>Sd_Card\<close>). Loader: round trip with the writer, errors, the range
  reported (\<open>Srec\<close>). Card: its invariant under every event, lines that end where they should, block moves,
  the queue as a list, commands run once complete, the renderer equal to a pixel-by-pixel reference, the beam in
  step with the clock (\<open>Video_*\<close>). Disks: files in nested directories are found under their paths and read back by
  the repository's reader (\<open>Fat16_Paths\<close>), as are those of the disk that is shipped (\<open>Disk_Image\<close>) and those \<^verbatim>\<open>pugrun\<close>
  copies off its own (\<open>Host_Machine\<close>), and the one way the builder writes past the end of its FAT (\<open>Fat16_Volume\<close>). Host: bytes
  through the bridge once and in order, whatever its writes answer (\<open>Com_Port\<close>); the window's events through the
  pipe, however it is cut into reads (\<open>Video_Window\<close>); typed text as what a program reads, and input that goes one way only
  (\<open>Host_Keys\<close>); as many samples as the time that passes, timers that do not depend on how it is cut into ticks
  (\<open>Opl3\<close>), and a ring of buffers that neither loses nor repeats one (\<open>Audio_Out\<close>); the memory map, the boot from the
  BIOS at power-on and after any reset, and sessions that end (\<open>Host_Machine\<close>).

  \<^bold>\<open>Termination.\<close> No fuel is used. Loops whose end is not structural are \<open>function\<close> with a measure (the sound a card
  owes, the bytes or frames or arguments left, the buffers with a device, the missing directories of a path) or
  \<open>partial_function (option)\<close> with a theorem that the result is \<open>Some\<close>: \<^verbatim>\<open>hd6309_run\<close> (\<open>Timing\<close>, budgets up to
  \<open>2 ^ 63\<close>), \<^verbatim>\<open>SystemBus::run\<close> (\<open>System_Bus\<close>), \<^verbatim>\<open>line\<close> (\<open>Video_Draw\<close>), \<^verbatim>\<open>VideoDevice::tick\<close> (\<open>Video_Device\<close>) and the
  sessions of \<^verbatim>\<open>pugrun\<close> (\<open>Host_Machine\<close>). In \<open>Fat16\<close>, \<open>None\<close> is also undefined behaviour; a build that gives an
  image gives \<open>Some\<close>.

  \<^bold>\<open>Not modelled.\<close> The calls of the operating system, SDL2 and Win32 themselves (what they answer is a parameter, as are the
  files of the host): the creation and drawing of the window, the start of its program, console modes and
  signals; messages. The small programs \<^verbatim>\<open>uart_demo\<close>, \<^verbatim>\<open>basic309_demo\<close> and \<^verbatim>\<open>cycle_bench\<close>. The third-party OPL3 synthesizer, the generated font (a
  parameter of the card), and the 6309 software that runs on the machine. Of the modelled parts: undefined
  behaviour of C is recorded where it can happen (\<open>sr_oob\<close> in \<open>Srec\<close>, \<open>None\<close> in \<open>Fat16\<close>) or excluded by an invariant;
  rounding of \<^verbatim>\<open>double\<close> is not modelled, nor 64-bit counters that would wrap after thousands of years.
\<close>

end
